(* ===== verification/Kernel_Prelude.thy ===== *)
theory Kernel_Prelude
  imports Main "HOL-Library.Word"
begin

text \<open>
  What every component of the kernel shares: the machine integers and pointers of the C code,
  the error codes of kernel/kdefs.h, the outcome of a kernel function (it returns, it panics,
  it spins for ever or it leaves defined behaviour), and the lemmas on words, alignment and lists that the component theories
  use.

  A function of the kernel that may call \<open>kpanic\<close>, fail a \<open>KASSERT\<close> or spin on a lock that is
  never released becomes a function into \<open>'a kres\<close>. \<open>Inr\<close> carries what the function returns
  together with the new state, \<open>Inl\<close> says how the machine stopped. Spinlocks of the sequential
  components are booleans of the state: taking a lock that is already held is \<open>Hang\<close>, because
  the only CPU of the sequential model then waits for itself.
\<close>

unbundle bit_operations_syntax

section \<open>Machine integers and pointers\<close>

type_synonym u8 = "8 word"
type_synonym u16 = "16 word"
type_synonym u32 = "32 word"
type_synonym u64 = "64 word"

text \<open>A pointer is a 64-bit address; the null pointer is \<open>0\<close>.\<close>

type_synonym addr = u64

abbreviation (input) NULL :: addr where
  "NULL \<equiv> 0"

text \<open>Memory as 64-bit cells, read and written at 8-byte aligned addresses.\<close>

type_synonym memory = "addr \<Rightarrow> u64"

abbreviation (input) PAGE_SIZE :: u64 where
  "PAGE_SIZE \<equiv> 4096"

abbreviation (input) KB :: u64 where
  "KB \<equiv> 1024"

abbreviation (input) MB :: u64 where
  "MB \<equiv> 1048576"

abbreviation (input) GB :: u64 where
  "GB \<equiv> 1073741824"

section \<open>Error codes and outcomes\<close>

datatype ErrorCodes =
    FRAME_ALLOCATOR_ERROR
  | VBE_ERROR
  | FREE_MEM_BOOTLOADER_ERROR
  | KIO_ERROR
  | FAILED_ASSERT
  | STACK_SMASHING
  | UNRECOVERABLE_GPF
  | UNRECOVERABLE_PAGE_FAULT
  | HEAP_OUT_OF_MEM
  | HEAP_CORRUPTED
  | NOT_IMPLEMENTED_ERROR
  | VMM_ERROR
  | APIC_ERROR
  | GENERIC_ERROR

text \<open>
  How a kernel function can fail to return: it panics, it spins for ever, or the C program has no
  defined behaviour any more (an array access out of bounds).
\<close>

datatype halt = Panic ErrorCodes | Hang | Undefined

type_synonym 'a kres = "halt + 'a"

definition kpanic :: "ErrorCodes \<Rightarrow> 'a kres" where
  "kpanic e = Inl (Panic e)"

definition kassert :: "bool \<Rightarrow> 'a kres \<Rightarrow> 'a kres" where
  "kassert P k = (if P then k else kpanic FAILED_ASSERT)"

definition kbind :: "'a kres \<Rightarrow> ('a \<Rightarrow> 'b kres) \<Rightarrow> 'b kres" where
  "kbind m f = (case m of Inl e \<Rightarrow> Inl e | Inr a \<Rightarrow> f a)"

definition returns :: "'a kres \<Rightarrow> bool" where
  "returns m \<longleftrightarrow> (\<exists>a. m = Inr a)"

named_theorems kres_simps \<open>inversion of returning kernel functions\<close>

lemma kbind_simps [simp]:
  "kbind (Inr a) f = f a"
  "kbind (Inl e) f = Inl e"
  by (simp_all add: kbind_def)

lemma kbind_Inr_iff [kres_simps]:
  "kbind m f = Inr r \<longleftrightarrow> (\<exists>a. m = Inr a \<and> f a = Inr r)"
  by (cases m) simp_all

lemma kassert_Inr_iff [kres_simps]:
  "kassert P k = Inr r \<longleftrightarrow> P \<and> k = Inr r"
  by (simp add: kassert_def kpanic_def)

lemma kassert_simps [simp]:
  "kassert True k = k"
  "kassert False k = Inl (Panic FAILED_ASSERT)"
  by (simp_all add: kassert_def kpanic_def)

lemma kpanic_Inr_iff [kres_simps, simp]:
  "kpanic e \<noteq> Inr r"
  by (simp add: kpanic_def)

lemma kbind_cong [fundef_cong]:
  assumes "m = m'" and "\<And>a. m' = Inr a \<Longrightarrow> f a = f' a"
  shows "kbind m f = kbind m' f'"
  using assms by (cases m') simp_all

section \<open>Words and alignment\<close>

abbreviation page_aligned :: "u64 \<Rightarrow> bool" where
  "page_aligned w \<equiv> 4096 dvd unat w"

lemma u64_bound [simp]: "unat (w :: u64) < 18446744073709551616"
  using unsigned_less [of w] by simp

lemma unat_ucast_u32 [simp]: "unat (ucast (w :: u32) :: u64) = unat w"
  using unsigned_less [of w, where 'a = nat] by (simp add: unsigned_ucast_eq take_bit_nat_eq_self)

lemma unat_add_u64:
  "unat a + unat b < 18446744073709551616 \<Longrightarrow> unat (a + b :: u64) = unat a + unat b"
  by (subst unat_add_lem [THEN iffD1]) simp_all

lemma unat_of_nat_u64: "n < 18446744073709551616 \<Longrightarrow> unat (of_nat n :: u64) = n"
  by (simp add: unsigned_of_nat take_bit_nat_eq_self)

lemma unat_offset:
  assumes "unat b + 8 * n < 2 ^ 64"
  shows "unat (b + 8 * of_nat n :: u64) = unat b + 8 * n"
proof -
  have "unat (of_nat (8 * n) :: u64) = 8 * n"
    using assms by (intro unat_of_nat_u64) simp
  then have "unat (8 * of_nat n :: u64) = 8 * n"
    by simp
  then show ?thesis
    using assms by (simp add: unat_add_u64)
qed

lemma mod_page_unat: "(w :: u64) mod 4096 = 0 \<longleftrightarrow> page_aligned w"
proof -
  have "w mod 4096 = 0 \<longleftrightarrow> unat (w mod 4096) = 0"
    by (simp only: unat_eq_0)
  also have "unat (w mod 4096) = unat w mod 4096"
    by (simp add: unat_mod_distrib)
  finally show ?thesis
    by (simp add: dvd_eq_mod_eq_0)
qed

lemma page_step: "4096 dvd a \<Longrightarrow> 4096 dvd b \<Longrightarrow> a < b \<Longrightarrow> a + 4096 \<le> (b :: nat)"
  by (auto elim!: dvdE)

lemma page_pad_up: "n + (4096 - n mod 4096) = Suc (n div 4096) * (4096 :: nat)"
proof -
  define q r where "q = n div 4096" and "r = n mod 4096"
  have "n = q * 4096 + r" "r < 4096" by (simp_all add: q_def r_def)
  then show ?thesis unfolding q_def [symmetric] r_def [symmetric] by simp
qed

lemma round_up_aligned: "s mod 4096 = 0 \<Longrightarrow> (s + 4095) div 4096 * 4096 = (s :: nat)"
  by (simp add: div_add1_eq dvd_eq_mod_eq_0 [symmetric] minus_mod_eq_div_mult)

lemma round_up_pad:
  assumes "s mod 4096 \<noteq> 0"
  shows "s + (4096 - s mod 4096) = (s + 4095) div 4096 * (4096 :: nat)"
proof -
  define q r where "q = s div 4096" and "r = s mod 4096"
  have s: "s = r + q * 4096" by (simp add: q_def r_def)
  have r: "0 < r" "r < 4096" using assms by (simp_all add: r_def)
  have "(s + 4095) div 4096 = (r + 4095 + q * 4096) div 4096"
    by (simp add: s ac_simps)
  also have "\<dots> = q + (r + 4095) div 4096"
    by (subst div_mult_self1) simp_all
  also have "(r + 4095) div 4096 = 1"
    using r by (intro div_nat_eqI) simp_all
  finally show ?thesis
    using r by (simp add: r_def [symmetric]) (simp add: s)
qed

lemma page_round_up_le: "(s + 4095) div 4096 * 4096 \<le> 4096 * k \<longleftrightarrow> s \<le> 4096 * (k :: nat)"
proof -
  have "(s + 4095) div 4096 * 4096 \<le> 4096 * k \<longleftrightarrow> (s + 4095) div 4096 < Suc k"
    by (simp add: mult.commute less_Suc_eq_le)
  also have "\<dots> \<longleftrightarrow> s + 4095 < Suc k * 4096"
    by (rule div_less_iff_less_mult) simp
  also have "\<dots> \<longleftrightarrow> s \<le> 4096 * k"
    by auto
  finally show ?thesis .
qed

lemma page_round_down_le:
  assumes "q * 4096 \<le> (e :: nat)"
  shows "4096 * k + 4096 \<le> q * 4096 + (e - q * 4096) div 4096 * 4096 \<longleftrightarrow> 4096 * k + 4096 \<le> e"
proof -
  obtain f where e: "e = q * 4096 + f"
    using assms by (auto simp: le_iff_add)
  have "q * 4096 + (e - q * 4096) div 4096 * 4096 = e div 4096 * 4096"
    by (simp add: e algebra_simps)
  moreover have "4096 * k + 4096 \<le> e div 4096 * 4096 \<longleftrightarrow> Suc k \<le> e div 4096"
    by auto
  moreover have "Suc k \<le> e div 4096 \<longleftrightarrow> Suc k * 4096 \<le> e"
    by (rule less_eq_div_iff_mult_less_eq) simp
  ultimately show ?thesis
    by (simp add: ac_simps)
qed

lemma unat_pad:
  assumes "(s :: u64) mod 4096 \<noteq> 0"
  shows "unat (- (s mod 4096) + 4096) = 4096 - unat s mod 4096"
proof -
  have u: "unat (s mod 4096) = unat s mod 4096"
    by (simp add: unat_mod_distrib)
  then have "s mod 4096 \<le> 4096"
    by (simp add: word_le_nat_alt)
  then have "unat (4096 - s mod 4096) = 4096 - unat s mod 4096"
    by (simp add: unat_sub u)
  then show ?thesis
    by (simp add: add.commute)
qed

lemma unat_round_down: "unat ((n :: u64) - n mod 4096) = unat n div 4096 * 4096"
proof -
  have "n mod 4096 \<le> n"
    by (simp add: word_le_nat_alt unat_mod_distrib)
  then have "unat (n - n mod 4096) = unat n - unat n mod 4096"
    by (simp add: unat_sub unat_mod_distrib)
  then show ?thesis
    by (simp add: minus_mod_eq_div_mult)
qed

section \<open>Loops\<close>

text \<open>
  A \<open>for\<close> loop whose body may halt is a fold over the values of its counter. \<open>kcollect\<close> repeats an
  operation that also returns a value. \<open>for_pages\<close> is the loop of the memory code that steps a 64-bit
  counter by the page size. A counter that passes \<open>2^64\<close> starts again below the bound, and the loop
  does not return.
\<close>

primrec kfold :: "('a \<Rightarrow> 's \<Rightarrow> 's kres) \<Rightarrow> 'a list \<Rightarrow> 's \<Rightarrow> 's kres" where
  "kfold f [] s = Inr s"
| "kfold f (x # xs) s = kbind (f x s) (kfold f xs)"

primrec kcollect :: "nat \<Rightarrow> ('s \<Rightarrow> ('a \<times> 's) kres) \<Rightarrow> 's \<Rightarrow> ('a list \<times> 's) kres" where
  "kcollect 0 f s = Inr ([], s)"
| "kcollect (Suc n) f s =
     kbind (f s) (\<lambda>(a, s1). kbind (kcollect n f s1) (\<lambda>(as, s2). Inr (a # as, s2)))"

function for_pages :: "(u64 \<Rightarrow> 's \<Rightarrow> 's kres) \<Rightarrow> u64 \<Rightarrow> u64 \<Rightarrow> 's \<Rightarrow> 's kres" where
  "for_pages body i size0 s =
     (if i < size0
      then kbind (body i s) (\<lambda>s1. if i + PAGE_SIZE < i then Inl Hang else for_pages body (i + PAGE_SIZE) size0 s1)
      else Inr s)"
  by pat_completeness auto
termination
proof (relation "measure (\<lambda>(body, i, size0, s). 18446744073709551616 - unat i)")
  fix body :: "u64 \<Rightarrow> 's \<Rightarrow> 's kres" and i size0 :: u64 and s s1 :: 's
  assume "\<not> i + 4096 < i"
  then have le: "\<not> unat (i + 4096) < unat i" by (simp only: word_less_nat_alt not_False_eq_True)
  have "unat (i + 4096) = (unat i + 4096) mod 18446744073709551616" by (simp add: unat_word_ariths(1))
  then have "unat (i + 4096) = unat i + 4096"
    using le u64_bound [of i] by (cases "unat i + 4096 < 18446744073709551616") (simp_all add: le_mod_geq)
  then show "((body, i + 4096, size0, s1), (body, i, size0, s)) \<in> measure (\<lambda>(body, i, size0, s). 18446744073709551616 - unat i)"
    using u64_bound [of i] unfolding in_measure prod.case by linarith
qed simp

declare for_pages.simps [simp del]

lemma kbind_assoc: "kbind (kbind m f) g = kbind m (\<lambda>a. kbind (f a) g)"
  by (cases m) simp_all

lemma kfold_append: "kfold f (xs @ ys) s = kbind (kfold f xs s) (kfold f ys)"
proof (induction xs arbitrary: s)
  case (Cons x xs)
  then have "kfold f (xs @ ys) = (\<lambda>s. kbind (kfold f xs s) (kfold f ys))" by (intro ext) simp
  then show ?case by (simp add: kbind_assoc)
qed simp

lemma kfold_invariant:
  assumes "P s" and "\<And>x s s'. x \<in> set xs \<Longrightarrow> P s \<Longrightarrow> f x s = Inr s' \<Longrightarrow> P s'" and "kfold f xs s = Inr s'"
  shows "P s'"
  using assms
proof (induction xs arbitrary: s)
  case (Cons x xs)
  then obtain s1 where "f x s = Inr s1" "kfold f xs s1 = Inr s'" by (auto simp: kres_simps)
  then show ?case using Cons.IH [of s1] Cons.prems by (metis list.set_intros)
qed simp

lemma kfold_map: "kfold f (map g xs) s = kfold (\<lambda>x. f (g x)) xs s"
proof (induction xs arbitrary: s)
  case (Cons x xs)
  then have "kfold f (map g xs) = kfold (\<lambda>x. f (g x)) xs" by (intro ext) simp
  then show ?case by simp
qed simp

lemma for_pages_fold:
  assumes "unat size0 = unat i + 4096 * n"
  shows "for_pages body i size0 s = kfold (\<lambda>k. body (i + 4096 * of_nat k)) [0..<n] s"
  using assms
proof (induction n arbitrary: i s)
  case 0
  then show ?case by (simp add: for_pages.simps [of body i] word_less_nat_alt)
next
  case (Suc n)
  have sz: "unat size0 = unat i + 4096 + 4096 * n" using Suc.prems by simp
  then have b: "unat i + 4096 < 18446744073709551616" using u64_bound [of size0] by linarith
  then have u: "unat (i + 4096) = unat i + 4096" by (simp add: unat_add_u64)
  have "i < size0" "\<not> i + 4096 < i" using sz by (simp_all add: word_less_nat_alt u)
  then have "for_pages body i size0 s = kbind (body i s) (for_pages body (i + 4096) size0)"
    by (simp add: for_pages.simps [of body i])
  also have "for_pages body (i + 4096) size0 = kfold (\<lambda>k. body (i + 4096 + 4096 * of_nat k)) [0..<n]"
    using Suc.IH [of "i + 4096"] sz u by (intro ext) simp
  also have "kfold (\<lambda>k. body (i + 4096 + 4096 * of_nat k)) [0..<n] =
    kfold (\<lambda>k. body (i + 4096 * of_nat k)) (map Suc [0..<n])"
    by (intro ext) (simp add: kfold_map algebra_simps)
  finally show ?case by (simp add: upt_conv_Cons map_Suc_upt del: upt_Suc)
qed

end
