(* ===== verification/Bootloader_Data.thy ===== *)
theory Bootloader_Data
  imports Kernel_Prelude "HOL-Library.Multiset"
begin

text \<open>
  The memory map that the bootloader leaves to the kernel, kernel/HAL/bios/bootloader_data.c:
  the free RAM ranges for the frame allocator, the RAM ranges to identity map, the firmware
  memory map and the totals over it. The arrays that the C code fills in place and caches in
  global buffers are lists here, the cached count \<open>-1\<close> is \<open>None\<close>.
\<close>

section \<open>Data\<close>

record MemoryMapItem =
  base_addr :: u64
  item_size :: u64
  item_type :: u32
  item_acpi :: u32

record FrameData =
  memory_map_item_offset :: u32
  first_frame_address :: u32

text \<open>
  \<open>frame_alloc_map_item\<close> is the item that the pointer \<open>memory_map_item_offset\<close> designates.
\<close>

record BootLoaderData =
  map_items :: "MemoryMapItem list"
  frame_allocator_data :: FrameData
  frame_alloc_map_item :: MemoryMapItem
  elf_image :: addr

record PhysicalMemoryRange =
  start_address :: u64
  range_size :: u64

datatype MemoryMapType =
    MEMORYMAP_USABLE
  | MEMORYMAP_RESERVED
  | MEMORY_MAP_NON_VOLATILE
  | MEMORYMAP_BAD
  | MEMORYMAP_ACPI_TABLE
  | MEMORYMAP_ACPI_NVS

record MemoryMapRange =
  map_start :: u64
  map_size :: u64
  map_type :: MemoryMapType

text \<open>The static buffers of the file: what each accessor caches at its first call.\<close>

record BootCache =
  ram_range_buffer :: "PhysicalMemoryRange list option"
  free_range_buffer :: "PhysicalMemoryRange list option"
  memory_map_buff :: "MemoryMapRange list option"

definition empty_boot_cache :: BootCache where
  "empty_boot_cache = \<lparr>ram_range_buffer = None, free_range_buffer = None, memory_map_buff = None\<rparr>"

abbreviation (input) MAX_PHYSICAL_MEMORY_RANGES :: nat where
  "MAX_PHYSICAL_MEMORY_RANGES \<equiv> 128"

abbreviation (input) MEMORY_MAP_FREE :: u32 where
  "MEMORY_MAP_FREE \<equiv> 1"

section \<open>Operations\<close>

definition usable_item :: "MemoryMapItem \<Rightarrow> bool" where
  "usable_item it \<longleftrightarrow> item_type it = MEMORY_MAP_FREE \<and> item_size it \<noteq> 0"

definition range_of_item :: "MemoryMapItem \<Rightarrow> PhysicalMemoryRange" where
  "range_of_item it = \<lparr>start_address = base_addr it, range_size = item_size it\<rparr>"

text \<open>The loop that fills the range buffer; \<open>buf\<close> is the part already filled.\<close>

fun fill_ranges ::
  "MemoryMapItem list \<Rightarrow> PhysicalMemoryRange list \<Rightarrow> PhysicalMemoryRange list kres" where
  "fill_ranges [] buf = Inr buf"
| "fill_ranges (it # its) buf =
     (if usable_item it
      then (if length buf = MAX_PHYSICAL_MEMORY_RANGES then kpanic FREE_MEM_BOOTLOADER_ERROR
            else fill_ranges its (buf @ [range_of_item it]))
      else fill_ranges its buf)"

text \<open>The two nested loops of the bubble sort, with the swap of neighbours.\<close>

definition swap_next :: "'a list \<Rightarrow> nat \<Rightarrow> 'a list" where
  "swap_next xs j = (xs[j := xs ! Suc j])[Suc j := xs ! j]"

function bubble_inner :: "('a \<Rightarrow> u64) \<Rightarrow> nat \<Rightarrow> nat \<Rightarrow> 'a list \<Rightarrow> 'a list" where
  "bubble_inner key j m xs =
     (if j < m
      then bubble_inner key (Suc j) m
             (if key (xs ! j) > key (xs ! Suc j) then swap_next xs j else xs)
      else xs)"
  by pat_completeness auto
termination
  by (relation "measure (\<lambda>(key, j, m, xs). m - j)") auto

function bubble_outer :: "('a \<Rightarrow> u64) \<Rightarrow> nat \<Rightarrow> nat \<Rightarrow> 'a list \<Rightarrow> 'a list" where
  "bubble_outer key i n xs =
     (if i < n then bubble_outer key (Suc i) n (bubble_inner key 0 (n - i - 1) xs) else xs)"
  by pat_completeness auto
termination
  by (relation "measure (\<lambda>(key, i, n, xs). n - i)") auto

declare bubble_inner.simps [simp del] bubble_outer.simps [simp del]

definition bubblesort :: "('a \<Rightarrow> u64) \<Rightarrow> 'a list \<Rightarrow> 'a list" where
  "bubblesort key xs = bubble_outer key 0 (length xs) xs"

text \<open>The body of the loop that aligns a range to 4K pages.\<close>

definition align_range :: "PhysicalMemoryRange \<Rightarrow> PhysicalMemoryRange" where
  "align_range r =
     (if range_size r = 0 then r
      else
        let r1 = (if start_address r mod PAGE_SIZE \<noteq> 0
                  then let to_add = - (start_address r mod PAGE_SIZE) + PAGE_SIZE
                       in r\<lparr>start_address := start_address r + to_add,
                            range_size := range_size r - to_add\<rparr>
                  else r)
        in if range_size r1 mod PAGE_SIZE \<noteq> 0
           then r1\<lparr>range_size := range_size r1 - range_size r1 mod PAGE_SIZE\<rparr>
           else r1)"

definition get_ram_space ::
  "BootLoaderData \<Rightarrow> BootCache \<Rightarrow> (PhysicalMemoryRange list \<times> BootCache) kres" where
  "get_ram_space b c =
     (case ram_range_buffer c of
        Some rs \<Rightarrow> Inr (rs, c)
      | None \<Rightarrow>
          kbind (fill_ranges (map_items b) []) (\<lambda>buf.
            let rs = map align_range (bubblesort start_address buf)
            in Inr (rs, c\<lparr>ram_range_buffer := Some rs\<rparr>)))"

text \<open>The loop body that removes the frames taken by the bootloader's own frame allocator.\<close>

definition remove_bootloader_frames ::
  "BootLoaderData \<Rightarrow> PhysicalMemoryRange \<Rightarrow> PhysicalMemoryRange" where
  "remove_bootloader_frames b r =
     (if base_addr (frame_alloc_map_item b) = start_address r
      then let first = (ucast (first_frame_address (frame_allocator_data b)) :: u64)
           in r\<lparr>range_size := range_size r - (first - start_address r), start_address := first\<rparr>
      else r)"

text \<open>The loop body that removes the first megabyte.\<close>

definition remove_first_MB :: "PhysicalMemoryRange \<Rightarrow> PhysicalMemoryRange" where
  "remove_first_MB r =
     (if start_address r < 1 * MB
      then (if start_address r + range_size r > 1 * MB
            then r\<lparr>range_size := range_size r - (1 * MB - start_address r),
                   start_address := 1 * MB\<rparr>
            else r\<lparr>range_size := 0\<rparr>)
      else r)"

definition free_mem_bootloader ::
  "BootLoaderData \<Rightarrow> BootCache \<Rightarrow> (PhysicalMemoryRange list \<times> BootCache) kres" where
  "free_mem_bootloader b c =
     (case free_range_buffer c of
        Some rs \<Rightarrow> Inr (rs, c)
      | None \<Rightarrow>
          kbind (fill_ranges (map_items b) []) (\<lambda>buf.
            let rs0 = bubblesort start_address buf;
                rs1 = map (remove_bootloader_frames b) rs0;
                rs2 = map remove_first_MB rs1;
                rs3 = map align_range rs2
            in Inr (rs3, c\<lparr>free_range_buffer := Some rs3\<rparr>)))"

fun usable_RAM_loop :: "MemoryMapItem list \<Rightarrow> u64 \<Rightarrow> u64" where
  "usable_RAM_loop [] acc = acc"
| "usable_RAM_loop (it # its) acc =
     usable_RAM_loop its (if usable_item it then acc + item_size it else acc)"

definition get_total_usable_RAM_size :: "BootLoaderData \<Rightarrow> u64" where
  "get_total_usable_RAM_size b = usable_RAM_loop (map_items b) 0"

fun last_address_loop :: "MemoryMapItem list \<Rightarrow> u64 \<Rightarrow> u64" where
  "last_address_loop [] last_addr = last_addr"
| "last_address_loop (it # its) last_addr =
     (if item_size it \<noteq> 0
      then let map_item_last_addr = base_addr it + item_size it - 8
           in last_address_loop its
                (if map_item_last_addr > last_addr then map_item_last_addr else last_addr)
      else last_address_loop its last_addr)"

definition get_last_address :: "BootLoaderData \<Rightarrow> u64" where
  "get_last_address b = last_address_loop (map_items b) 0"

definition get_bootstage_indentity_mapped_RAM :: PhysicalMemoryRange where
  "get_bootstage_indentity_mapped_RAM = \<lparr>start_address = 0, range_size = 1 * GB\<rparr>"

definition get_kernel_image :: "BootLoaderData \<Rightarrow> addr" where
  "get_kernel_image b = elf_image b"

fun reserved_mem_loop :: "MemoryMapItem list \<Rightarrow> u64 \<Rightarrow> u64" where
  "reserved_mem_loop [] acc = acc"
| "reserved_mem_loop (it # its) acc =
     (if usable_item it \<and> base_addr it < 1 * MB
      then let end0 = base_addr it + item_size it;
               end_addr = (if end0 > 1 * MB then 1 * MB else end0)
           in reserved_mem_loop its (acc + (end_addr - base_addr it))
      else reserved_mem_loop its acc)"

text \<open>
  The difference of the 32-bit \<open>first_frame_address\<close> and the 64-bit base is computed in 64 bits.
\<close>

definition get_bootloader_memory_usage :: "BootLoaderData \<Rightarrow> u64" where
  "get_bootloader_memory_usage b =
     (let boot_frame_allocator_size =
            ucast (first_frame_address (frame_allocator_data b)) - base_addr (frame_alloc_map_item b)
      in reserved_mem_loop (map_items b) 0 + boot_frame_allocator_size)"

fun type_mapping :: "nat \<Rightarrow> MemoryMapType" where
  "type_mapping 0 = MEMORYMAP_RESERVED"
| "type_mapping (Suc 0) = MEMORYMAP_USABLE"
| "type_mapping (Suc (Suc 0)) = MEMORYMAP_RESERVED"
| "type_mapping (Suc (Suc (Suc 0))) = MEMORYMAP_ACPI_TABLE"
| "type_mapping (Suc (Suc (Suc (Suc 0)))) = MEMORYMAP_ACPI_NVS"
| "type_mapping n = MEMORYMAP_BAD"

definition memory_map_range_of :: "MemoryMapItem \<Rightarrow> MemoryMapRange" where
  "memory_map_range_of it =
     (let t0 = MEMORYMAP_RESERVED;
          t1 = (if item_type it \<ge> 1 \<and> item_type it \<le> 5 then type_mapping (unat (item_type it)) else t0);
          t2 = (if item_acpi it AND 1 = 0 then MEMORYMAP_RESERVED else t1);
          t3 = (if item_acpi it AND 2 \<noteq> 0 then MEMORY_MAP_NON_VOLATILE else t2)
      in \<lparr>map_start = base_addr it, map_size = item_size it, map_type = t3\<rparr>)"

text \<open>The buffer has 128 elements; the loop that fills it has no test, and writes past it for a longer map.\<close>

definition get_memory_map :: "BootLoaderData \<Rightarrow> BootCache \<Rightarrow> (MemoryMapRange list \<times> BootCache) kres" where
  "get_memory_map b c =
     (case memory_map_buff c of
        Some rs \<Rightarrow> Inr (rs, c)
      | None \<Rightarrow>
          if length (map_items b) > 128 then Inl Undefined
          else let rs = bubblesort map_start (map memory_map_range_of (map_items b))
               in Inr (rs, c\<lparr>memory_map_buff := Some rs\<rparr>))"

section \<open>The bubble sort\<close>

lemma length_swap_next [simp]: "length (swap_next xs j) = length xs"
  by (simp add: swap_next_def)

lemma mset_swap_next: "Suc j < length xs \<Longrightarrow> mset (swap_next xs j) = mset xs"
  by (simp add: swap_next_def mset_swap)

lemma swap_next_nth:
  "Suc j < length xs \<Longrightarrow> i < length xs \<Longrightarrow>
   swap_next xs j ! i = (if i = j then xs ! Suc j else if i = Suc j then xs ! j else xs ! i)"
  by (auto simp: swap_next_def nth_list_update)

lemma length_bubble_inner [simp]: "length (bubble_inner key j m xs) = length xs"
  by (induction key j m xs rule: bubble_inner.induct) (subst bubble_inner.simps, simp)

lemma mset_bubble_inner: "m < length xs \<Longrightarrow> mset (bubble_inner key j m xs) = mset xs"
proof (induction key j m xs rule: bubble_inner.induct)
  case (1 key j m xs)
  then show ?case
    by (subst bubble_inner.simps) (simp add: mset_swap_next)
qed

text \<open>
  One pass of the inner loop: the cells beyond \<open>m\<close> stay, and cell \<open>m\<close> receives a greatest
  element of the first \<open>Suc m\<close> cells, if cell \<open>j\<close> was already greatest among the first \<open>Suc j\<close>.
\<close>

lemma bubble_inner_beyond:
  "m < i \<Longrightarrow> i < length xs \<Longrightarrow> bubble_inner key j m xs ! i = xs ! i"
proof (induction key j m xs rule: bubble_inner.induct)
  case (1 key j m xs)
  then show ?case
    by (subst bubble_inner.simps) (auto simp: swap_next_nth)
qed

lemma bubble_inner_max:
  "m < length xs \<Longrightarrow> j \<le> m \<Longrightarrow> (\<And>k. k \<le> j \<Longrightarrow> key (xs ! k) \<le> key (xs ! j)) \<Longrightarrow> k \<le> m \<Longrightarrow>
   key (bubble_inner key j m xs ! k) \<le> key (bubble_inner key j m xs ! m)"
proof (induction key j m xs arbitrary: k rule: bubble_inner.induct)
  case (1 key j m xs)
  show ?case
  proof (cases "j < m")
    case False
    with 1 show ?thesis
      by (subst (1 2) bubble_inner.simps) simp
  next
    case True
    let ?ys = "if key (xs ! j) > key (xs ! Suc j) then swap_next xs j else xs"
    have le: "key (?ys ! i) \<le> key (?ys ! Suc j)" if "i \<le> Suc j" for i
    proof (cases "i = Suc j")
      case False
      with that have "i \<le> j" by simp
      then show ?thesis
        using 1(4) [of i] True 1(2) by (auto simp: swap_next_nth)
    qed simp
    have "key (bubble_inner key (Suc j) m ?ys ! k) \<le> key (bubble_inner key (Suc j) m ?ys ! m)"
      using 1(2,5) True le by (intro 1(1)) auto
    with True show ?thesis
      by (subst (1 2) bubble_inner.simps) simp
  qed
qed

lemma set_take_bubble_inner:
  assumes "m < length xs"
  shows "set (take (Suc m) (bubble_inner key j m xs)) = set (take (Suc m) xs)"
proof -
  let ?ys = "bubble_inner key j m xs"
  have d: "drop (Suc m) ?ys = drop (Suc m) xs"
    by (rule nth_equalityI) (auto simp: bubble_inner_beyond)
  have "mset (take (Suc m) ?ys) + mset (drop (Suc m) ?ys)
      = mset (take (Suc m) xs) + mset (drop (Suc m) xs)"
    using mset_bubble_inner [OF assms, of key j] by (simp flip: mset_append)
  then have "mset (take (Suc m) ?ys) = mset (take (Suc m) xs)"
    by (simp add: d)
  then show ?thesis
    by (metis set_mset_mset)
qed

text \<open>The outer loop: after \<open>i\<close> passes the last \<open>i\<close> cells are sorted and above the others.\<close>

definition sorted_tail :: "('a \<Rightarrow> u64) \<Rightarrow> nat \<Rightarrow> 'a list \<Rightarrow> bool" where
  "sorted_tail key i xs \<longleftrightarrow>
     (\<forall>p q. p < q \<and> q < length xs \<and> length xs - i \<le> q \<longrightarrow> key (xs ! p) \<le> key (xs ! q))"

lemma sorted_tail_step:
  assumes i: "i < length xs" and inv: "sorted_tail key i xs"
  shows "sorted_tail key (Suc i) (bubble_inner key 0 (length xs - Suc i) xs)"
  unfolding sorted_tail_def
proof (intro allI impI)
  fix p q
  define m where "m = length xs - Suc i"
  let ?ys = "bubble_inner key 0 m xs"
  assume "p < q \<and> q < length (bubble_inner key 0 (length xs - Suc i) xs) \<and>
    length (bubble_inner key 0 (length xs - Suc i) xs) - Suc i \<le> q"
  then have pq: "p < q" "q < length xs" "m \<le> q"
    by (auto simp: m_def)
  have m: "m < length xs" using i by (simp add: m_def)
  have "key (?ys ! p) \<le> key (?ys ! q)"
  proof (cases "q = m")
    case True
    with pq m show ?thesis
      by (auto intro: bubble_inner_max)
  next
    case False
    with pq have mq: "m < q" by simp
    then have q: "?ys ! q = xs ! q"
      using pq by (simp add: bubble_inner_beyond)
    show ?thesis
    proof (cases "m < p")
      case True
      with q pq inv show ?thesis
        by (auto simp: bubble_inner_beyond sorted_tail_def m_def)
    next
      case False
      then have "?ys ! p \<in> set (take (Suc m) ?ys)"
        using m by (auto simp: in_set_conv_nth intro!: exI [of _ p])
      then have "?ys ! p \<in> set (take (Suc m) xs)"
        by (simp only: set_take_bubble_inner [OF m])
      then obtain k where k: "k \<le> m" and xk: "xs ! k = ?ys ! p"
        by (auto simp: in_set_conv_nth less_Suc_eq_le)
      have "key (xs ! k) \<le> key (xs ! q)"
        using k inv pq mq i by (auto simp: sorted_tail_def m_def)
      then show ?thesis
        by (simp add: q xk)
    qed
  qed
  then show "key (bubble_inner key 0 (length xs - Suc i) xs ! p)
    \<le> key (bubble_inner key 0 (length xs - Suc i) xs ! q)"
    by (simp add: m_def)
qed

lemma bubble_outer_sorted:
  "n = length xs \<Longrightarrow> i \<le> n \<Longrightarrow> sorted_tail key i xs \<Longrightarrow>
   sorted_tail key n (bubble_outer key i n xs) \<and> mset (bubble_outer key i n xs) = mset xs"
proof (induction key i n xs rule: bubble_outer.induct)
  case (1 key i n xs)
  show ?case
  proof (cases "i < n")
    case True
    let ?ys = "bubble_inner key 0 (n - i - 1) xs"
    have "sorted_tail key n (bubble_outer key (Suc i) n ?ys) \<and>
      mset (bubble_outer key (Suc i) n ?ys) = mset ?ys"
      using True 1(2-4) by (intro 1(1)) (auto simp: sorted_tail_step)
    moreover have "mset ?ys = mset xs"
      using True 1(2) by (intro mset_bubble_inner) simp
    ultimately show ?thesis
      using True by (subst (1 2) bubble_outer.simps) simp
  next
    case False
    with 1 show ?thesis
      by (subst (1 2) bubble_outer.simps) simp
  qed
qed

lemma bubblesort_facts:
  "sorted_tail key (length xs) (bubblesort key xs)" "mset (bubblesort key xs) = mset xs"
proof -
  have "sorted_tail key 0 xs"
    by (auto simp: sorted_tail_def)
  then show "sorted_tail key (length xs) (bubblesort key xs)" "mset (bubblesort key xs) = mset xs"
    using bubble_outer_sorted [of "length xs" xs 0 key] by (simp_all add: bubblesort_def)
qed

lemma bubblesort_set [simp]: "set (bubblesort key xs) = set xs"
  by (metis bubblesort_facts(2) set_mset_mset)

lemma bubblesort_length [simp]: "length (bubblesort key xs) = length xs"
  by (metis bubblesort_facts(2) size_mset)

lemma bubblesort_sorted: "sorted_wrt (\<lambda>a b. key a \<le> key b) (bubblesort key xs)"
  using bubblesort_facts(1) [of key xs] by (auto simp: sorted_wrt_iff_nth_less sorted_tail_def)

section \<open>The pages of a range\<close>

text \<open>
  The specification view of a range: the addresses of the whole pages inside it, as natural
  numbers. A range is well formed when it does not wrap around the address space, and it can be
  aligned when its first page boundary is not beyond its end.
\<close>

definition pages :: "PhysicalMemoryRange \<Rightarrow> nat set" where
  "pages r = {a. 4096 dvd a \<and> unat (start_address r) \<le> a \<and>
                 a + 4096 \<le> unat (start_address r) + unat (range_size r)}"

definition range_ok :: "PhysicalMemoryRange \<Rightarrow> bool" where
  "range_ok r \<longleftrightarrow> unat (start_address r) + unat (range_size r) < 2 ^ 64"

definition alignable :: "PhysicalMemoryRange \<Rightarrow> bool" where
  "alignable r \<longleftrightarrow> range_ok r \<and>
     (range_size r = 0 \<or>
      (unat (start_address r) + 4095) div 4096 * 4096 \<le> unat (start_address r) + unat (range_size r))"

definition range_aligned :: "PhysicalMemoryRange \<Rightarrow> bool" where
  "range_aligned r \<longleftrightarrow> page_aligned (start_address r) \<and> page_aligned (range_size r)"

lemma finite_pages [simp]: "finite (pages r)"
  by (rule finite_subset [of _ "{..unat (start_address r) + unat (range_size r)}"])
    (auto simp: pages_def)

lemma pages_zero [simp]: "range_size r = 0 \<Longrightarrow> pages r = {}"
  by (auto simp: pages_def)

lemma align_range_unat:
  assumes "alignable r" and "range_size r \<noteq> 0"
  defines "s \<equiv> unat (start_address r)" and "n \<equiv> unat (range_size r)"
  shows "unat (start_address (align_range r)) = (s + 4095) div 4096 * 4096"
    and "unat (range_size (align_range r)) = (s + n - (s + 4095) div 4096 * 4096) div 4096 * 4096"
proof -
  have wf: "s + n < 2 ^ 64" "(s + 4095) div 4096 * 4096 \<le> s + n"
    using assms by (auto simp: alignable_def range_ok_def)
  have *: "unat (start_address (align_range r)) = (s + 4095) div 4096 * 4096 \<and>
    unat (range_size (align_range r)) = (s + n - (s + 4095) div 4096 * 4096) div 4096 * 4096"
  proof (cases "start_address r mod 4096 = 0")
    case True
    then have "s mod 4096 = 0"
      by (simp add: mod_page_unat s_def dvd_eq_mod_eq_0)
    then have "(s + 4095) div 4096 * 4096 = s"
      by (rule round_up_aligned)
    moreover have "align_range r = r\<lparr>range_size := range_size r - range_size r mod 4096\<rparr>"
      using True assms(2) by (simp add: align_range_def)
    ultimately show ?thesis
      using unat_round_down [of "range_size r"] by (simp add: s_def n_def)
  next
    case False
    define pad where "pad = - (start_address r mod 4096) + 4096"
    have "unat pad = 4096 - s mod 4096"
      using unat_pad [OF False] by (simp only: pad_def s_def)
    moreover have "s mod 4096 \<noteq> 0"
      using False by (simp add: s_def mod_page_unat dvd_eq_mod_eq_0)
    ultimately have up: "s + unat pad = (s + 4095) div 4096 * 4096"
      using round_up_pad [of s] by simp
    have start: "unat (start_address r + pad) = s + unat pad"
      using up wf by (simp add: unat_add_u64 s_def)
    have "pad \<le> range_size r"
      using up wf by (simp add: word_le_nat_alt s_def n_def)
    then have len: "unat (range_size r - pad) = n - unat pad"
      by (simp add: unat_sub n_def)
    have "n - unat pad = s + n - (s + 4095) div 4096 * 4096"
      using up by simp
    moreover have "align_range r =
      r\<lparr>start_address := start_address r + pad,
        range_size := range_size r - pad - (range_size r - pad) mod 4096\<rparr>"
      using False assms(2) by (simp add: align_range_def Let_def pad_def)
    ultimately show ?thesis
      using start len up unat_round_down [of "range_size r - pad"] by simp
  qed
  then show "unat (start_address (align_range r)) = (s + 4095) div 4096 * 4096"
    and "unat (range_size (align_range r)) = (s + n - (s + 4095) div 4096 * 4096) div 4096 * 4096"
    by simp_all
qed

lemma pages_interval:
  assumes "(s + 4095) div 4096 * 4096 \<le> s + (n :: nat)"
  shows "4096 dvd a \<and> (s + 4095) div 4096 * 4096 \<le> a \<and>
      a + 4096 \<le> (s + 4095) div 4096 * 4096 + (s + n - (s + 4095) div 4096 * 4096) div 4096 * 4096
    \<longleftrightarrow> 4096 dvd a \<and> s \<le> a \<and> a + 4096 \<le> s + n"
proof (cases "4096 dvd a")
  case True
  then obtain k where a: "a = 4096 * k" by (rule dvdE)
  show ?thesis
    by (simp only: a page_round_up_le page_round_down_le [OF assms])
qed simp

lemma align_range_pages: "alignable r \<Longrightarrow> pages (align_range r) = pages r"
proof (cases "range_size r = 0")
  case False
  assume "alignable r"
  with False show ?thesis
    using pages_interval [of "unat (start_address r)" "unat (range_size r)"]
    by (simp add: pages_def align_range_unat alignable_def)
qed (simp add: align_range_def)

lemma align_range_aligned:
  "alignable r \<Longrightarrow> range_size r \<noteq> 0 \<Longrightarrow> range_aligned (align_range r)"
  by (simp add: range_aligned_def align_range_unat)

lemma align_range_ok: "alignable r \<Longrightarrow> range_ok (align_range r)"
proof (cases "range_size r = 0")
  case False
  define e u where "e = unat (start_address r) + unat (range_size r)"
    and "u = (unat (start_address r) + 4095) div 4096 * 4096"
  assume a: "alignable r"
  with False have "u \<le> e" "e < 2 ^ 64"
    by (auto simp: alignable_def range_ok_def e_def u_def)
  moreover have "(e - u) div 4096 * 4096 \<le> e - u"
    by simp
  ultimately show ?thesis
    using align_range_unat [OF a False] by (simp add: range_ok_def e_def u_def)
qed (simp add: align_range_def alignable_def)

lemma remove_first_MB_pages:
  assumes "range_ok r"
  shows "pages (remove_first_MB r) = {a \<in> pages r. 1048576 \<le> a}"
proof -
  have sum: "unat (start_address r + range_size r) = unat (start_address r) + unat (range_size r)"
    using assms by (simp add: range_ok_def unat_add_u64)
  have *: "unat (range_size r - (1048576 - start_address r))
      = unat (start_address r) + unat (range_size r) - 1048576"
    if "start_address r < 1048576" "start_address r + range_size r > 1048576"
  proof -
    have u: "unat (1048576 - start_address r) = 1048576 - unat (start_address r)"
      using that(1) by (subst unat_sub) (simp_all add: word_less_nat_alt word_le_nat_alt)
    have "1048576 - start_address r \<le> range_size r"
      using that(2) u sum by (simp add: word_less_nat_alt word_le_nat_alt)
    then show ?thesis
      using that u by (simp add: unat_sub word_less_nat_alt)
  qed
  show ?thesis
  proof (cases "start_address r < 1048576")
    case True
    show ?thesis
    proof (cases "start_address r + range_size r > 1048576")
      case gt: True
      with True * show ?thesis
        by (auto simp: remove_first_MB_def pages_def word_less_nat_alt sum)
    next
      case False
      with True show ?thesis
        by (auto simp: remove_first_MB_def pages_def word_less_nat_alt sum)
    qed
  qed (auto simp: remove_first_MB_def pages_def word_less_nat_alt)
qed

lemma remove_first_MB_ok: "range_ok r \<Longrightarrow> range_ok (remove_first_MB r)"
  by (auto simp: remove_first_MB_def range_ok_def word_less_nat_alt unat_add_u64 unat_sub_if_size
      word_size)

text \<open>The part of a range that the bootloader's frame allocator took lies inside the range.\<close>

definition boot_frames_inside :: "BootLoaderData \<Rightarrow> PhysicalMemoryRange \<Rightarrow> bool" where
  "boot_frames_inside b r \<longleftrightarrow>
     (base_addr (frame_alloc_map_item b) = start_address r \<longrightarrow>
      unat (start_address r) \<le> unat (first_frame_address (frame_allocator_data b)) \<and>
      unat (first_frame_address (frame_allocator_data b))
        \<le> unat (start_address r) + unat (range_size r))"

definition boot_reserved :: "BootLoaderData \<Rightarrow> PhysicalMemoryRange \<Rightarrow> nat \<Rightarrow> bool" where
  "boot_reserved b r a \<longleftrightarrow>
     a < 1048576 \<or>
     base_addr (frame_alloc_map_item b) = start_address r \<and>
     a < unat (first_frame_address (frame_allocator_data b))"

lemma remove_bootloader_frames_facts:
  assumes "range_ok r" and "boot_frames_inside b r"
  shows "range_ok (remove_bootloader_frames b r)"
    and "pages (remove_bootloader_frames b r) =
      {a \<in> pages r. base_addr (frame_alloc_map_item b) = start_address r \<longrightarrow>
                      unat (first_frame_address (frame_allocator_data b)) \<le> a}"
proof -
  have "range_ok (remove_bootloader_frames b r) \<and> pages (remove_bootloader_frames b r) =
      {a \<in> pages r. base_addr (frame_alloc_map_item b) = start_address r \<longrightarrow>
                      unat (first_frame_address (frame_allocator_data b)) \<le> a}"
  proof (cases "base_addr (frame_alloc_map_item b) = start_address r")
    case True
    let ?f = "ucast (first_frame_address (frame_allocator_data b)) :: u64"
    have u: "unat (?f - start_address r) = unat ?f - unat (start_address r)"
      using assms True by (intro unat_sub) (simp add: boot_frames_inside_def word_le_nat_alt)
    moreover have "unat (range_size r - (?f - start_address r)) =
      unat (range_size r) - unat (?f - start_address r)"
      using assms True u by (intro unat_sub) (auto simp: boot_frames_inside_def word_le_nat_alt)
    ultimately show ?thesis
      using assms True
      by (auto simp: remove_bootloader_frames_def Let_def boot_frames_inside_def range_ok_def pages_def)
  next
    case False
    then show ?thesis
      using assms by (auto simp: remove_bootloader_frames_def)
  qed
  then show "range_ok (remove_bootloader_frames b r)"
    and "pages (remove_bootloader_frames b r) =
      {a \<in> pages r. base_addr (frame_alloc_map_item b) = start_address r \<longrightarrow>
                      unat (first_frame_address (frame_allocator_data b)) \<le> a}"
    by blast+
qed

section \<open>The usable ranges of a memory map\<close>

definition usable_ranges :: "BootLoaderData \<Rightarrow> PhysicalMemoryRange list" where
  "usable_ranges b = map range_of_item (filter usable_item (map_items b))"

lemma fill_ranges_spec:
  "length buf \<le> 128 \<Longrightarrow>
   fill_ranges its buf =
     (if length buf + length (filter usable_item its) \<le> 128
      then Inr (buf @ map range_of_item (filter usable_item its))
      else kpanic FREE_MEM_BOOTLOADER_ERROR)"
  by (induction its buf rule: fill_ranges.induct) auto

lemma fill_ranges_usable:
  "fill_ranges (map_items b) [] =
     (if length (usable_ranges b) \<le> 128 then Inr (usable_ranges b)
      else kpanic FREE_MEM_BOOTLOADER_ERROR)"
  by (simp add: fill_ranges_spec usable_ranges_def)

lemma usable_ranges_nonempty: "r \<in> set (usable_ranges b) \<Longrightarrow> range_size r \<noteq> 0"
  by (auto simp: usable_ranges_def usable_item_def range_of_item_def)

text \<open>No page belongs to two entries of the list.\<close>

definition disjoint_ranges :: "PhysicalMemoryRange list \<Rightarrow> bool" where
  "disjoint_ranges rs \<longleftrightarrow> sorted_wrt (\<lambda>r r'. pages r \<inter> pages r' = {}) rs"

lemma disjoint_ranges_count:
  "disjoint_ranges rs \<longleftrightarrow> (\<forall>a. size {#r \<in># mset rs. a \<in> pages r#} \<le> 1)"
proof (induction rs)
  case (Cons r rs)
  define n where "n a = size {#r' \<in># mset rs. a \<in> pages r'#}" for a
  have none: "n a = 0 \<longleftrightarrow> (\<forall>r'\<in>set rs. a \<notin> pages r')" for a
    by (auto simp: n_def simp flip: set_mset_eq_empty_iff)
  have step: "size {#r' \<in># mset (r # rs). a \<in> pages r'#} = (if a \<in> pages r then Suc (n a) else n a)" for a
    by (simp add: n_def)
  have "disjoint_ranges (r # rs) \<longleftrightarrow> (\<forall>a. (a \<in> pages r \<longrightarrow> n a = 0) \<and> n a \<le> 1)"
    using Cons unfolding none n_def [symmetric] by (auto simp: disjoint_ranges_def)
  also have "\<dots> \<longleftrightarrow> (\<forall>a. size {#r' \<in># mset (r # rs). a \<in> pages r'#} \<le> 1)"
    unfolding step by (rule all_cong1) auto
  finally show ?case .
qed (simp add: disjoint_ranges_def)

lemma disjoint_ranges_bubblesort:
  "disjoint_ranges (bubblesort key rs) \<longleftrightarrow> disjoint_ranges rs"
  by (simp add: disjoint_ranges_count bubblesort_facts)

lemma disjoint_ranges_map:
  assumes "disjoint_ranges rs" and "\<And>r. r \<in> set rs \<Longrightarrow> pages (f r) \<subseteq> pages r"
  shows "disjoint_ranges (map f rs)"
  unfolding disjoint_ranges_def sorted_wrt_map
  using assms(1) unfolding disjoint_ranges_def
  by (rule sorted_wrt_mono_rel [rotated]) (use assms(2) in blast)

section \<open>What the accessors return\<close>

text \<open>
  A firmware map the kernel can boot from: at most 128 usable ranges that do not wrap, that are
  large enough to be aligned, and whose bootloader part is inside them.
\<close>

definition trim_range :: "BootLoaderData \<Rightarrow> PhysicalMemoryRange \<Rightarrow> PhysicalMemoryRange" where
  "trim_range b r = remove_first_MB (remove_bootloader_frames b r)"

definition boot_map_ok :: "BootLoaderData \<Rightarrow> bool" where
  "boot_map_ok b \<longleftrightarrow>
     length (usable_ranges b) \<le> 128 \<and>
     (\<forall>r \<in> set (usable_ranges b).
        alignable r \<and> boot_frames_inside b r \<and> alignable (trim_range b r))"

lemma trim_range_pages:
  assumes "range_ok r" and "boot_frames_inside b r"
  shows "pages (trim_range b r) = {a \<in> pages r. \<not> boot_reserved b r a}"
  using assms
  by (auto simp: trim_range_def remove_first_MB_pages remove_bootloader_frames_facts boot_reserved_def)

definition free_range :: "BootLoaderData \<Rightarrow> PhysicalMemoryRange \<Rightarrow> PhysicalMemoryRange" where
  "free_range b r = align_range (trim_range b r)"

lemma free_mem_bootloader_eq:
  assumes "free_range_buffer c = None"
  shows "free_mem_bootloader b c =
    (if length (usable_ranges b) \<le> 128
     then let rs = map (free_range b) (bubblesort start_address (usable_ranges b))
          in Inr (rs, c\<lparr>free_range_buffer := Some rs\<rparr>)
     else kpanic FREE_MEM_BOOTLOADER_ERROR)"
  using assms
  by (simp add: free_mem_bootloader_def fill_ranges_usable free_range_def trim_range_def comp_def
      Let_def kpanic_def)

lemma get_ram_space_eq:
  assumes "ram_range_buffer c = None"
  shows "get_ram_space b c =
    (if length (usable_ranges b) \<le> 128
     then let rs = map align_range (bubblesort start_address (usable_ranges b))
          in Inr (rs, c\<lparr>ram_range_buffer := Some rs\<rparr>)
     else kpanic FREE_MEM_BOOTLOADER_ERROR)"
  using assms by (simp add: get_ram_space_def fill_ranges_usable Let_def kpanic_def)

lemma free_range_facts:
  assumes "boot_map_ok b" and "r \<in> set (usable_ranges b)"
  shows "pages (free_range b r) = {a \<in> pages r. \<not> boot_reserved b r a}"
    and "range_ok (free_range b r)"
    and "range_size (free_range b r) = 0 \<or> range_aligned (free_range b r)"
proof -
  have ok: "range_ok r" "boot_frames_inside b r" "alignable (trim_range b r)"
    using assms by (auto simp: boot_map_ok_def alignable_def)
  then show "pages (free_range b r) = {a \<in> pages r. \<not> boot_reserved b r a}"
    by (simp add: free_range_def align_range_pages trim_range_pages)
  show "range_ok (free_range b r)"
    using ok by (simp add: free_range_def align_range_ok)
  show "range_size (free_range b r) = 0 \<or> range_aligned (free_range b r)"
    using ok align_range_aligned [of "trim_range b r"]
    by (cases "range_size (trim_range b r) = 0") (auto simp: free_range_def align_range_def)
qed

lemma round_up_mono: "a \<le> b \<Longrightarrow> (a + 4095) div 4096 * 4096 \<le> (b + 4095) div 4096 * (4096 :: nat)"
  by (intro mult_right_mono div_le_mono) simp_all

lemma align_sorted:
  assumes "sorted_wrt (\<lambda>r r'. start_address r \<le> start_address r') rs"
    and "\<forall>r \<in> set rs. alignable r \<and> range_size r \<noteq> 0"
  shows "sorted_wrt (\<lambda>r r'. start_address r \<le> start_address r') (map align_range rs)"
  unfolding sorted_wrt_map using assms(1)
  by (rule sorted_wrt_mono_rel [rotated])
    (use assms(2) in \<open>simp add: word_le_nat_alt align_range_unat round_up_mono\<close>)

lemma usable_RAM_loop_unat:
  "unat acc + sum_list (map (\<lambda>r. unat (range_size r)) (map range_of_item (filter usable_item its))) < 2 ^ 64
   \<Longrightarrow> unat (usable_RAM_loop its acc) =
     unat acc + sum_list (map (\<lambda>r. unat (range_size r)) (map range_of_item (filter usable_item its)))"
  by (induction its acc rule: usable_RAM_loop.induct)
    (auto simp: range_of_item_def unat_add_u64 ac_simps)

definition usable_bytes :: "BootLoaderData \<Rightarrow> nat" where
  "usable_bytes b = sum_list (map (\<lambda>r. unat (range_size r)) (usable_ranges b))"

lemma total_usable_unat:
  "usable_bytes b < 2 ^ 64 \<Longrightarrow> unat (get_total_usable_RAM_size b) = usable_bytes b"
  using usable_RAM_loop_unat [of 0 "map_items b"]
  by (simp add: get_total_usable_RAM_size_def usable_bytes_def usable_ranges_def)

lemma card_pages_le: "4096 * card (pages r) \<le> unat (range_size r)"
proof -
  let ?s = "unat (start_address r)" and ?n = "unat (range_size r)"
  have "pages r \<subseteq> (\<lambda>k. 4096 * k) ` {(?s + 4095) div 4096 ..< (?s + ?n) div 4096}"
  proof
    fix a assume a: "a \<in> pages r"
    then obtain k where k: "a = 4096 * k" by (auto simp: pages_def)
    have "(?s + 4095) div 4096 * 4096 \<le> 4096 * k" "Suc k * 4096 \<le> ?s + ?n"
      using a by (auto simp: k pages_def page_round_up_le)
    then have "(?s + 4095) div 4096 \<le> k" "Suc k \<le> (?s + ?n) div 4096"
      by (auto simp: less_eq_div_iff_mult_less_eq)
    then show "a \<in> (\<lambda>k. 4096 * k) ` {(?s + 4095) div 4096 ..< (?s + ?n) div 4096}"
      by (auto simp: k)
  qed
  then have "card (pages r) \<le> card {(?s + 4095) div 4096 ..< (?s + ?n) div 4096}"
    by (rule surj_card_le [rotated]) simp
  then show ?thesis
    by simp
qed

text \<open>A PC memory map, used by the examples below: low memory, 127 MB above the first megabyte.\<close>

definition pc_boot_data :: BootLoaderData where
  "pc_boot_data =
     \<lparr>map_items =
        [\<lparr>base_addr = 0x100000, item_size = 0x7EE0000, item_type = 1, item_acpi = 1\<rparr>,
         \<lparr>base_addr = 0, item_size = 0x9FC00, item_type = 1, item_acpi = 1\<rparr>,
         \<lparr>base_addr = 0xF0000, item_size = 0x10000, item_type = 2, item_acpi = 1\<rparr>],
      frame_allocator_data = \<lparr>memory_map_item_offset = 0x7000, first_frame_address = 0x180000\<rparr>,
      frame_alloc_map_item =
        \<lparr>base_addr = 0x100000, item_size = 0x7EE0000, item_type = 1, item_acpi = 1\<rparr>,
      elf_image = 0x200000\<rparr>"

lemma pc_boot_map_ok: "boot_map_ok pc_boot_data"
  by (simp add: boot_map_ok_def usable_ranges_def usable_item_def range_of_item_def pc_boot_data_def
      alignable_def range_ok_def boot_frames_inside_def trim_range_def remove_first_MB_def
      remove_bootloader_frames_def)

section \<open>Properties\<close>

text \<open>
  C5. \<open>free_mem_bootloader\<close> (first call) returns, for a bootable memory map, ranges whose whole pages
  are exactly the pages of the usable firmware ranges that lie above the first megabyte and are
  not taken by the bootloader's frame allocator; every returned range is empty or aligned to
  pages at both ends and does not wrap; no page is in two ranges when the firmware's ranges are
  disjoint; and the result is cached.
\<close>

theorem free_mem_bootloader_correct:
  assumes ok: "boot_map_ok b" and first: "free_range_buffer c = None"
  shows "\<exists>rs. free_mem_bootloader b c = Inr (rs, c\<lparr>free_range_buffer := Some rs\<rparr>) \<and>
    (\<Union>r \<in> set rs. pages r) =
      (\<Union>r \<in> set (usable_ranges b). {a \<in> pages r. \<not> boot_reserved b r a}) \<and>
    (\<forall>r \<in> set rs. range_ok r \<and> (range_size r = 0 \<or> range_aligned r)) \<and>
    (disjoint_ranges (usable_ranges b) \<longrightarrow> disjoint_ranges rs)"
proof -
  let ?rs = "map (free_range b) (bubblesort start_address (usable_ranges b))"
  have "disjoint_ranges ?rs" if "disjoint_ranges (usable_ranges b)"
    using that ok
    by (intro disjoint_ranges_map) (auto simp: disjoint_ranges_bubblesort free_range_facts)
  moreover have "\<forall>r \<in> set ?rs. range_ok r \<and> (range_size r = 0 \<or> range_aligned r)"
    using free_range_facts(2,3) [OF ok] by auto
  ultimately show ?thesis
    using ok first free_range_facts(1) [OF ok]
    by (intro exI [of _ ?rs]) (auto simp: free_mem_bootloader_eq boot_map_ok_def Let_def)
qed

theorem free_mem_bootloader_correct_witness:
  "boot_map_ok pc_boot_data \<and> free_range_buffer empty_boot_cache = None \<and>
   (\<exists>rs. free_mem_bootloader pc_boot_data empty_boot_cache
       = Inr (rs, empty_boot_cache\<lparr>free_range_buffer := Some rs\<rparr>) \<and>
     (\<forall>r \<in> set rs. range_ok r \<and> (range_size r = 0 \<or> range_aligned r)))"
proof -
  have c: "free_range_buffer empty_boot_cache = None"
    by (simp add: empty_boot_cache_def)
  show ?thesis
    using free_mem_bootloader_correct [OF pc_boot_map_ok c] pc_boot_map_ok c by blast
qed

text \<open>
  \<open>get_ram_space\<close> (first call) returns, for a bootable memory map, the usable firmware ranges
  sorted by start address and shrunk to page boundaries: no whole page of RAM is lost or
  invented, and a second call returns the same array without reading the firmware's map again.
\<close>

theorem get_ram_space_correct:
  assumes ok: "boot_map_ok b" and first: "ram_range_buffer c = None"
  shows "\<exists>rs c'. get_ram_space b c = Inr (rs, c') \<and>
    sorted_wrt (\<lambda>r r'. start_address r \<le> start_address r') rs \<and>
    (\<forall>r \<in> set rs. range_aligned r \<and> range_ok r) \<and>
    image_mset pages (mset rs) = image_mset pages (mset (usable_ranges b)) \<and>
    (\<forall>b'. get_ram_space b' c' = Inr (rs, c'))"
proof -
  let ?us = "bubblesort start_address (usable_ranges b)"
  let ?rs = "map align_range ?us"
  have al: "\<forall>r \<in> set ?us. alignable r \<and> range_size r \<noteq> 0"
    using ok by (auto simp: boot_map_ok_def dest: usable_ranges_nonempty)
  then have srt: "sorted_wrt (\<lambda>r r'. start_address r \<le> start_address r') ?rs"
    by (intro align_sorted bubblesort_sorted)
  have "image_mset (pages \<circ> align_range) (mset ?us) = image_mset pages (mset ?us)"
    using al by (intro image_mset_cong) (auto simp: align_range_pages)
  then have same: "image_mset pages (mset ?rs) = image_mset pages (mset (usable_ranges b))"
    by (simp add: bubblesort_facts multiset.map_comp)
  have aligned: "\<forall>r \<in> set ?rs. range_aligned r \<and> range_ok r"
    using al by (auto simp: align_range_aligned align_range_ok)
  let ?c = "c\<lparr>ram_range_buffer := Some ?rs\<rparr>"
  have "get_ram_space b c = Inr (?rs, ?c)"
    using ok first by (simp add: get_ram_space_eq boot_map_ok_def Let_def)
  moreover have "\<forall>b'. get_ram_space b' ?c = Inr (?rs, ?c)"
    by (simp add: get_ram_space_def)
  ultimately show ?thesis
    using srt same aligned by blast
qed

theorem get_ram_space_correct_witness:
  "\<exists>rs c'. get_ram_space pc_boot_data empty_boot_cache = Inr (rs, c') \<and>
     sorted_wrt (\<lambda>r r'. start_address r \<le> start_address r') rs"
  using get_ram_space_correct [OF pc_boot_map_ok, of empty_boot_cache]
  by (auto simp: empty_boot_cache_def)

text \<open>
  A usable range that ends before its first page boundary is not dropped by the alignment
  loop: its size wraps around and the kernel is told of a range of \<open>2^64 - 4096\<close> bytes.
\<close>

theorem align_range_wraps:
  assumes "start_address r mod 4096 \<noteq> 0" and "range_size r \<noteq> 0"
    and short: "unat (range_size r) < 4096 - unat (start_address r) mod 4096"
  shows "unat (range_size (align_range r)) = 2 ^ 64 - 4096"
proof -
  define pad where "pad = - (start_address r mod 4096) + 4096"
  have pad: "unat pad = 4096 - unat (start_address r) mod 4096"
    using unat_pad [OF assms(1)] by (simp only: pad_def)
  have "unat (range_size r) < unat pad" "unat pad \<le> 4096" "0 < unat (range_size r)"
    using pad short assms(2) by (auto simp: unat_gt_0)
  then have "unat (range_size r - pad) div 4096 = 4503599627370495"
    by (simp add: unat_sub_if_size word_size)
  moreover have "range_size (align_range r) = range_size r - pad - (range_size r - pad) mod 4096"
    using assms(1,2) by (simp add: align_range_def Let_def pad_def)
  ultimately show ?thesis
    using unat_round_down [of "range_size r - pad"] by simp
qed

theorem align_range_wraps_witness:
  "unat (range_size (align_range \<lparr>start_address = 0x100010, range_size = 0x20\<rparr>)) = 2 ^ 64 - 4096"
  by (rule align_range_wraps) simp_all

text \<open>
  \<open>get_memory_map\<close> (first call, at most 128 entries) returns the translated entries of the firmware map, each exactly
  once, sorted by start address, and caches them.
\<close>

theorem get_memory_map_correct:
  assumes "memory_map_buff c = None" and "length (map_items b) \<le> 128"
  shows "\<exists>rs c'. get_memory_map b c = Inr (rs, c') \<and>
    mset rs = image_mset memory_map_range_of (mset (map_items b)) \<and>
    sorted_wrt (\<lambda>r r'. map_start r \<le> map_start r') rs \<and>
    get_memory_map b c' = Inr (rs, c')"
  using assms bubblesort_sorted [of map_start "map memory_map_range_of (map_items b)"]
  by (simp add: get_memory_map_def Let_def bubblesort_facts)

theorem get_memory_map_correct_witness:
  "\<exists>rs c'. get_memory_map pc_boot_data empty_boot_cache = Inr (rs, c') \<and>
    sorted_wrt (\<lambda>r r'. map_start r \<le> map_start r') rs"
  using get_memory_map_correct [of empty_boot_cache pc_boot_data]
  by (auto simp: empty_boot_cache_def pc_boot_data_def)

end
