(* ===== verification/Frame_Allocator.thy ===== *)
theory Frame_Allocator
  imports Bootloader_Data
begin

text \<open>
  The physical frame allocator, kernel/mem/frame_allocator.c: a bump allocator over the free RAM
  ranges of the bootloader plus a stack of returned frames that lives in physical memory itself.
  The state is part of the \<open>machine\<close>, with the physical memory as 64-bit cells; all functions
  of the file are here. \<open>free_ranges\<close> is the array of the bootloader's component that
  \<open>free_mem_bootloader\<close> hands over; after initialisation only the frame allocator uses it.
\<close>

section \<open>State\<close>

record FrameStack =
  base :: addr
  top :: addr
  max_size_bytes :: u64

record FrameAllocatorState =
  is_initialized :: bool
  free_ranges :: "PhysicalMemoryRange list"
  frame_stack :: FrameStack
  cached_memory_range_index :: nat
  free_frames :: u64
  fa_lock :: bool

text \<open>
  The part of the machine that the memory management uses: physical memory, the frame allocator,
  the flag of \<open>is_hal_arch_initialized\<close>, the bootloader's data with its cache, the page table
  register and the translation cache of the CPU (by page number, the cached page table entry).
\<close>

record machine =
  pmem :: memory
  frame_allocator :: FrameAllocatorState
  hal_arch_initialized :: bool
  boot_data :: BootLoaderData
  boot_cache :: BootCache
  cr3 :: u64
  tlb :: "u64 \<Rightarrow> u64 option"

definition frame_allocator_reset :: FrameAllocatorState where
  "frame_allocator_reset =
     \<lparr>is_initialized = False, free_ranges = [], frame_stack = \<lparr>base = NULL, top = NULL, max_size_bytes = 0\<rparr>,
      cached_memory_range_index = 0, free_frames = 0, fa_lock = False\<rparr>"

section \<open>The stack of returned frames\<close>

definition make_frame_stack :: "addr \<Rightarrow> u64 \<Rightarrow> FrameStack" where
  "make_frame_stack a n = \<lparr>base = a, top = a, max_size_bytes = n\<rparr>"

definition is_frame_stack_valid :: "FrameStack \<Rightarrow> bool" where
  "is_frame_stack_valid st \<longleftrightarrow>
     max_size_bytes st \<noteq> 0 \<and> base st \<noteq> NULL \<and> top st \<noteq> NULL \<and> top st \<ge> base st"

definition frame_stack_size_bytes :: "FrameStack \<Rightarrow> u64" where
  "frame_stack_size_bytes st = top st - base st"

definition frame_stack_count :: "FrameStack \<Rightarrow> u64" where
  "frame_stack_count st = frame_stack_size_bytes st div 8"

definition frame_stack_pop :: "memory \<Rightarrow> FrameStack \<Rightarrow> (u64 \<times> FrameStack) kres" where
  "frame_stack_pop mem st =
     (if frame_stack_count st \<le> 0 then kpanic FRAME_ALLOCATOR_ERROR
      else let st' = st\<lparr>top := top st - 8\<rparr> in Inr (mem (top st'), st'))"

definition frame_stack_push :: "memory \<Rightarrow> FrameStack \<Rightarrow> u64 \<Rightarrow> (memory \<times> FrameStack) kres" where
  "frame_stack_push mem st new_value =
     (if frame_stack_size_bytes st + 8 > max_size_bytes st then kpanic FRAME_ALLOCATOR_ERROR
      else Inr (mem(top st := new_value), st\<lparr>top := top st + 8\<rparr>))"

section \<open>Initialisation\<close>

definition is_frame_allocator_initialized :: "machine \<Rightarrow> bool" where
  "is_frame_allocator_initialized m = is_initialized (frame_allocator m)"

text \<open>
  The array behind \<open>free_ranges\<close> is a zero initialised static buffer: reading behind the used
  entries gives an empty range.
\<close>

definition range_at :: "PhysicalMemoryRange list \<Rightarrow> nat \<Rightarrow> PhysicalMemoryRange" where
  "range_at rs i = (if i < length rs then rs ! i else \<lparr>start_address = 0, range_size = 0\<rparr>)"

text \<open>The search loops \<open>for(i = 0; i < n && !range_found; i++)\<close>.\<close>

fun find_range :: "(PhysicalMemoryRange \<Rightarrow> bool) \<Rightarrow> PhysicalMemoryRange list \<Rightarrow> nat option" where
  "find_range P [] = None"
| "find_range P (r # rs) = (if P r then Some 0 else map_option Suc (find_range P rs))"

definition first_bootstage_unusable_addr :: u64 where
  "first_bootstage_unusable_addr =
     start_address get_bootstage_indentity_mapped_RAM + range_size get_bootstage_indentity_mapped_RAM"

definition usable_in_bootstage :: "u64 \<Rightarrow> PhysicalMemoryRange \<Rightarrow> bool" where
  "usable_in_bootstage n r \<longleftrightarrow>
     start_address r + n < first_bootstage_unusable_addr \<and>
     start_address r \<ge> start_address get_bootstage_indentity_mapped_RAM"

text \<open>The bytes reserved for the frame stack, rounded up to pages with an extra page.\<close>

definition needed_bytes_stack_frame :: "BootLoaderData \<Rightarrow> u64" where
  "needed_bytes_stack_frame b =
     (let usable_ram_size = get_total_usable_RAM_size b;
          n0 = usable_ram_size div PAGE_SIZE * 8;
          n1 = n0 + PAGE_SIZE
      in n1 + (- (n1 mod PAGE_SIZE) + PAGE_SIZE))"

text \<open>Removing \<open>n\<close> bytes from the front of the range with index \<open>i\<close>.\<close>

definition carve :: "u64 \<Rightarrow> nat \<Rightarrow> PhysicalMemoryRange list \<Rightarrow> PhysicalMemoryRange list" where
  "carve n i rs =
     rs[i := (rs ! i)\<lparr>start_address := start_address (rs ! i) + n,
                      range_size := range_size (rs ! i) - n\<rparr>]"

fun count_free_frames :: "PhysicalMemoryRange list \<Rightarrow> u64 \<Rightarrow> u64" where
  "count_free_frames [] n = n"
| "count_free_frames (r # rs) n = count_free_frames rs (n + range_size r div PAGE_SIZE)"

definition init_frame_allocator :: "machine \<Rightarrow> machine kres" where
  "init_frame_allocator m =
     kbind (free_mem_bootloader (boot_data m) (boot_cache m)) (\<lambda>(rs, c).
       let fa = (frame_allocator m)\<lparr>fa_lock := False, is_initialized := True\<rparr>;
           needed = needed_bytes_stack_frame (boot_data m)
       in case find_range (\<lambda>r. range_size r \<ge> needed \<and> usable_in_bootstage needed r) rs of
            None \<Rightarrow> kpanic FRAME_ALLOCATOR_ERROR
          | Some i \<Rightarrow>
              let rs' = carve needed i rs
              in Inr (m\<lparr>boot_cache := c,
                        frame_allocator :=
                          fa\<lparr>cached_memory_range_index := i,
                             frame_stack := make_frame_stack (start_address (rs ! i)) needed,
                             free_ranges := rs',
                             free_frames := count_free_frames rs' (free_frames fa)\<rparr>\<rparr>))"

section \<open>Allocation and release\<close>

text \<open>Taking one page from the front of the cached range.\<close>

definition take_cached :: "FrameAllocatorState \<Rightarrow> addr \<times> FrameAllocatorState" where
  "take_cached fa =
     (let i = cached_memory_range_index fa
      in (start_address (range_at (free_ranges fa) i),
          fa\<lparr>free_ranges := carve PAGE_SIZE i (free_ranges fa)\<rparr>))"

text \<open>
  Taking one page when the frame stack is empty: the cached range if it satisfies \<open>P\<close>, otherwise
  the first range that does.
\<close>

definition take_from_ranges ::
  "(PhysicalMemoryRange \<Rightarrow> bool) \<Rightarrow> FrameAllocatorState \<Rightarrow> (addr \<times> FrameAllocatorState) kres" where
  "take_from_ranges P fa =
     (if P (range_at (free_ranges fa) (cached_memory_range_index fa)) then Inr (take_cached fa)
      else case find_range P (free_ranges fa) of
             None \<Rightarrow> kpanic FRAME_ALLOCATOR_ERROR
           | Some i \<Rightarrow> Inr (take_cached (fa\<lparr>cached_memory_range_index := i\<rparr>)))"

definition take_frame ::
  "bool \<Rightarrow> memory \<Rightarrow> FrameAllocatorState \<Rightarrow> (addr \<times> FrameAllocatorState) kres" where
  "take_frame arch_initialized mem fa =
     (if frame_stack_count (frame_stack fa) > 0
      then kbind (frame_stack_pop mem (frame_stack fa)) (\<lambda>(a, st). Inr (a, fa\<lparr>frame_stack := st\<rparr>))
      else if arch_initialized
      then take_from_ranges (\<lambda>r. range_size r \<ge> PAGE_SIZE) fa
      else take_from_ranges (\<lambda>r. range_size r \<ge> PAGE_SIZE \<and> usable_in_bootstage PAGE_SIZE r) fa)"

definition alloc_frame :: "machine \<Rightarrow> (addr \<times> machine) kres" where
  "alloc_frame m =
     (let fa = frame_allocator m
      in if fa_lock fa then Inl Hang
         else if \<not> is_frame_stack_valid (frame_stack fa) then kpanic FRAME_ALLOCATOR_ERROR
         else
           kbind (take_frame (hal_arch_initialized m) (pmem m)
                    (fa\<lparr>fa_lock := True, free_frames := free_frames fa - 1\<rparr>)) (\<lambda>(new_frame, fa').
             let m' = m\<lparr>frame_allocator := fa'\<lparr>fa_lock := False\<rparr>\<rparr>
             in if new_frame = NULL then kpanic FRAME_ALLOCATOR_ERROR else Inr (new_frame, m')))"

definition dealloc_frame :: "addr \<Rightarrow> machine \<Rightarrow> machine kres" where
  "dealloc_frame paddr m =
     (let fa = frame_allocator m
      in if fa_lock fa then Inl Hang
         else
           kbind (frame_stack_push (pmem m) (frame_stack fa) paddr) (\<lambda>(mem, st).
             Inr (m\<lparr>pmem := mem,
                    frame_allocator := fa\<lparr>free_frames := free_frames fa + 1, frame_stack := st,
                                          fa_lock := False\<rparr>\<rparr>)))"

definition get_number_of_free_frames :: "machine \<Rightarrow> (u64 \<times> machine) kres" where
  "get_number_of_free_frames m =
     (if fa_lock (frame_allocator m) then Inl Hang else Inr (free_frames (frame_allocator m), m))"

definition get_frame_allocator_mem_overhead :: "machine \<Rightarrow> (u64 \<times> machine) kres" where
  "get_frame_allocator_mem_overhead m =
     (if fa_lock (frame_allocator m) then Inl Hang
      else if \<not> is_frame_stack_valid (frame_stack (frame_allocator m)) then kpanic FRAME_ALLOCATOR_ERROR
      else Inr (max_size_bytes (frame_stack (frame_allocator m)), m))"

section \<open>Ranges\<close>

definition range_inv :: "PhysicalMemoryRange \<Rightarrow> bool" where
  "range_inv r \<longleftrightarrow> range_ok r \<and> (range_size r = 0 \<or> range_aligned r)"

definition shrink :: "u64 \<Rightarrow> PhysicalMemoryRange \<Rightarrow> PhysicalMemoryRange" where
  "shrink n r = r\<lparr>start_address := start_address r + n, range_size := range_size r - n\<rparr>"

lemma carve_shrink: "carve n i rs = rs[i := shrink n (rs ! i)]"
  by (simp add: carve_def shrink_def)

lemma shrink_facts:
  assumes "range_inv r" and "n \<le> range_size r" and "page_aligned n" and "n \<noteq> 0"
  shows "range_inv (shrink n r)"
    and "pages (shrink n r) = {a \<in> pages r. unat (start_address r) + unat n \<le> a}"
proof -
  have nz: "range_size r \<noteq> 0" using assms(2,4) by (auto simp: word_le_nat_alt unat_eq_0 [symmetric])
  have le: "unat n \<le> unat (range_size r)" using assms(2) by (simp add: word_le_nat_alt)
  have s: "unat (start_address r + n) = unat (start_address r) + unat n"
    using assms(1) le by (intro unat_add_u64) (simp add: range_inv_def range_ok_def)
  have d: "unat (range_size r - n) = unat (range_size r) - unat n"
    using assms(2) by (simp add: unat_sub)
  show "range_inv (shrink n r)"
    using assms(1,3) nz le by (auto simp: range_inv_def range_ok_def range_aligned_def shrink_def s d)
  show "pages (shrink n r) = {a \<in> pages r. unat (start_address r) + unat n \<le> a}"
    using le by (auto simp: pages_def shrink_def s d)
qed

lemma shrink_page:
  assumes "range_inv r" and "4096 \<le> range_size r"
  shows "range_inv (shrink 4096 r)"
    and "pages r = insert (unat (start_address r)) (pages (shrink 4096 r))"
    and "unat (start_address r) \<notin> pages (shrink 4096 r)"
proof -
  have nz: "range_size r \<noteq> 0" using assms(2) by (auto simp: word_le_nat_alt unat_eq_0 [symmetric])
  have *: "pages (shrink 4096 r) = {a \<in> pages r. unat (start_address r) + 4096 \<le> a}"
    using shrink_facts(2) [OF assms, simplified] by simp
  show "range_inv (shrink 4096 r)"
    by (rule shrink_facts(1) [OF assms]) simp_all
  show "unat (start_address r) \<notin> pages (shrink 4096 r)"
    by (simp add: *)
  have al: "4096 dvd unat (start_address r)"
    using assms nz by (simp add: range_inv_def range_aligned_def)
  have "a = unat (start_address r) \<or> unat (start_address r) + 4096 \<le> a" if "a \<in> pages r" for a
  proof -
    from that have "4096 dvd a - unat (start_address r)" "unat (start_address r) \<le> a"
      using al by (simp_all add: pages_def)
    then show ?thesis
      by (cases "a = unat (start_address r)") (auto dest!: dvd_imp_le)
  qed
  moreover have "unat (start_address r) \<in> pages r"
    using al assms(2) by (simp add: pages_def word_le_nat_alt)
  ultimately show "pages r = insert (unat (start_address r)) (pages (shrink 4096 r))"
    unfolding * by auto
qed

definition range_pages :: "PhysicalMemoryRange list \<Rightarrow> nat set" where
  "range_pages rs = (\<Union>r \<in> set rs. pages r)"

lemma finite_range_pages [simp]: "finite (range_pages rs)"
  by (simp add: range_pages_def)

lemma range_pages_simps [simp]:
  "range_pages [] = {}"
  "range_pages (r # rs) = pages r \<union> range_pages rs"
  "range_pages (rs @ rs') = range_pages rs \<union> range_pages rs'"
  by (simp_all add: range_pages_def)

lemma disjoint_ranges_simps [simp]:
  "disjoint_ranges []"
  "disjoint_ranges (r # rs) \<longleftrightarrow> pages r \<inter> range_pages rs = {} \<and> disjoint_ranges rs"
  "disjoint_ranges (rs @ rs') \<longleftrightarrow>
     disjoint_ranges rs \<and> disjoint_ranges rs' \<and> range_pages rs \<inter> range_pages rs' = {}"
  by (auto simp: disjoint_ranges_def range_pages_def sorted_wrt_append)

lemma carve_page_facts:
  assumes "\<forall>r \<in> set rs. range_inv r" and "disjoint_ranges rs"
    and "i < length rs" and "4096 \<le> range_size (rs ! i)"
  defines "p \<equiv> unat (start_address (rs ! i))" and "rs' \<equiv> carve 4096 i rs"
  shows "\<forall>r \<in> set rs'. range_inv r" and "disjoint_ranges rs'"
    and "range_pages rs' = range_pages rs - {p}" and "p \<in> range_pages rs"
proof -
  obtain xs r ys where rs: "rs = xs @ r # ys" and i: "i = length xs"
    using id_take_nth_drop [OF assms(3)] assms(3) by (metis length_take min.absorb4)
  have r: "range_inv r" "4096 \<le> range_size r"
    using assms(1,4) by (auto simp: rs i)
  have rs': "rs' = xs @ shrink 4096 r # ys" and p: "p = unat (start_address r)"
    by (simp_all add: rs'_def p_def carve_shrink rs i)
  note sp = shrink_page [OF r]
  show "\<forall>r \<in> set rs'. range_inv r"
    using assms(1) sp(1) by (auto simp: rs rs')
  show "disjoint_ranges rs'" "p \<in> range_pages rs"
    using assms(2) sp(2) by (auto simp: rs rs' p)
  show "range_pages rs' = range_pages rs - {p}"
    using assms(2) sp(2,3) by (auto simp: rs rs' p)
qed

lemma find_range_Some:
  "find_range P rs = Some i \<Longrightarrow> i < length rs \<and> P (rs ! i) \<and> (\<forall>j < i. \<not> P (rs ! j))"
proof (induction rs arbitrary: i)
  case (Cons r rs)
  then show ?case
    by (cases i) (auto split: if_splits simp: less_Suc_eq_0_disj)
qed simp

lemma find_range_None: "find_range P rs = None \<longleftrightarrow> (\<forall>r \<in> set rs. \<not> P r)"
  by (induction rs) auto

section \<open>The frame stack\<close>

definition stack_ok :: "FrameStack \<Rightarrow> bool" where
  "stack_ok st \<longleftrightarrow>
     base st \<noteq> 0 \<and> max_size_bytes st \<noteq> 0 \<and>
     unat (base st) + unat (max_size_bytes st) < 2 ^ 64 \<and>
     (\<exists>n. top st = base st + 8 * of_nat n \<and> 8 * n \<le> unat (max_size_bytes st))"

definition stack_entries :: "memory \<Rightarrow> FrameStack \<Rightarrow> nat list" where
  "stack_entries mem st =
     map (\<lambda>i. unat (mem (base st + 8 * of_nat i))) [0 ..< unat (frame_stack_count st)]"

lemma stack_okE:
  assumes "stack_ok st"
  obtains n where "top st = base st + 8 * of_nat n" and "8 * n \<le> unat (max_size_bytes st)"
    and "unat (top st) = unat (base st) + 8 * n" and "unat (frame_stack_size_bytes st) = 8 * n"
    and "unat (frame_stack_count st) = n" and "is_frame_stack_valid st"
proof -
  from assms obtain n where n: "top st = base st + 8 * of_nat n" "8 * n \<le> unat (max_size_bytes st)"
    and nz: "base st \<noteq> 0" "max_size_bytes st \<noteq> 0"
    and b: "unat (base st) + unat (max_size_bytes st) < 2 ^ 64"
    by (auto simp: stack_ok_def)
  have t: "unat (top st) = unat (base st) + 8 * n"
    unfolding n(1) using n(2) b by (intro unat_offset) simp
  then have le: "base st \<le> top st"
    by (simp add: word_le_nat_alt)
  have sz: "unat (frame_stack_size_bytes st) = 8 * n"
    using le t by (simp add: frame_stack_size_bytes_def unat_sub)
  moreover have "unat (frame_stack_count st) = n"
    by (simp add: frame_stack_count_def unat_div sz)
  moreover have "is_frame_stack_valid st"
    using nz le t by (auto simp: is_frame_stack_valid_def simp flip: unat_eq_0)
  ultimately show thesis
    using that n t by blast
qed

lemma stack_pop:
  assumes ok: "stack_ok st" and "0 < frame_stack_count st"
  obtains v st' where "frame_stack_pop mem st = Inr (v, st')" and "stack_ok st'"
    and "stack_entries mem st = stack_entries mem st' @ [unat v]"
    and "base st' = base st" and "max_size_bytes st' = max_size_bytes st"
proof -
  obtain n where n: "top st = base st + 8 * of_nat n" "8 * n \<le> unat (max_size_bytes st)"
    "unat (frame_stack_count st) = n"
    using stack_okE [OF ok] by metis
  then obtain k where k: "n = Suc k"
    using assms(2) by (cases n) (auto simp: word_less_nat_alt)
  let ?st = "st\<lparr>top := top st - 8\<rparr>"
  have top: "top ?st = base st + 8 * of_nat k"
    by (simp add: n(1) k algebra_simps)
  have ok': "stack_ok ?st"
    using ok n(2) top unfolding stack_ok_def by (auto simp: k intro!: exI [of _ k])
  have "unat (frame_stack_count ?st) = k"
  proof -
    obtain j where j: "top ?st = base ?st + 8 * of_nat j" "8 * j \<le> unat (max_size_bytes ?st)"
        "unat (frame_stack_count ?st) = j" "unat (top ?st) = unat (base ?st) + 8 * j"
      using stack_okE [OF ok'] by metis
    have "unat (top ?st) = unat (base st) + 8 * k"
      unfolding top using ok n(2) by (intro unat_offset) (auto simp: stack_ok_def k)
    with j show ?thesis by simp
  qed
  then have "stack_entries mem st = stack_entries mem ?st @ [unat (mem (top ?st))]"
    using n(3) top by (simp add: stack_entries_def k)
  moreover have "frame_stack_pop mem st = Inr (mem (top ?st), ?st)"
    using assms(2) by (simp add: frame_stack_pop_def Let_def)
  ultimately show thesis
    using that ok' by simp
qed

lemma stack_push:
  assumes ok: "stack_ok st" and room: "8 * Suc (length (stack_entries mem st)) \<le> unat (max_size_bytes st)"
  obtains st' where "frame_stack_push mem st v = Inr (mem(top st := v), st')" and "stack_ok st'"
    and "stack_entries (mem(top st := v)) st' = stack_entries mem st @ [unat v]"
    and "base st' = base st" and "max_size_bytes st' = max_size_bytes st"
    and "unat (base st) \<le> unat (top st)"
    and "unat (top st) + 8 \<le> unat (base st) + unat (max_size_bytes st)" and "8 dvd unat (top st) - unat (base st)"
proof -
  obtain n where n: "top st = base st + 8 * of_nat n" "8 * n \<le> unat (max_size_bytes st)"
    "unat (top st) = unat (base st) + 8 * n" "unat (frame_stack_size_bytes st) = 8 * n"
    "unat (frame_stack_count st) = n"
    using stack_okE [OF ok] by metis
  have b: "unat (base st) + unat (max_size_bytes st) < 2 ^ 64"
    using ok by (simp add: stack_ok_def)
  have room': "8 * Suc n \<le> unat (max_size_bytes st)"
    using room n(5) by (simp add: stack_entries_def)
  let ?st = "st\<lparr>top := top st + 8\<rparr>"
  have top: "top ?st = base st + 8 * of_nat (Suc n)"
    by (simp add: n(1) algebra_simps)
  have ok': "stack_ok ?st"
    using ok room' top unfolding stack_ok_def by (auto intro!: exI [of _ "Suc n"])
  have "unat (frame_stack_count ?st) = Suc n"
  proof -
    obtain j where j: "unat (frame_stack_count ?st) = j" "unat (top ?st) = unat (base ?st) + 8 * j"
      using stack_okE [OF ok'] by metis
    have "unat (top ?st) = unat (base st) + 8 * Suc n"
      unfolding top using b room' by (intro unat_offset) simp
    with j show ?thesis by simp
  qed
  moreover have "base st + 8 * of_nat i \<noteq> top st" if "i < n" for i
    using unat_offset [of "base st" i] that n(2,3) b by auto
  ultimately have "stack_entries (mem(top st := v)) ?st = stack_entries mem st @ [unat v]"
    using n(5) by (simp add: stack_entries_def n(1) [symmetric])
  moreover have "frame_stack_push mem st v = Inr (mem(top st := v), ?st)"
  proof -
    have "unat (frame_stack_size_bytes st + 8) = 8 * Suc n"
      using n(4) room' b by (subst unat_add_u64) simp_all
    then show ?thesis
      using room' by (simp add: frame_stack_push_def word_less_nat_alt)
  qed
  ultimately show thesis
    using that ok' n(3) room' by simp
qed

section \<open>The invariant and the abstract free set\<close>

text \<open>
  The abstract state of the allocator is the set of the free frames, by physical address. The
  invariant relates it to a fixed set \<open>U\<close> of the frames under management: free frames are listed
  exactly once, the counter is their number, and the stack has room for all of \<open>U\<close> in memory that
  no frame of \<open>U\<close> overlaps.
\<close>

definition fa_free :: "memory \<Rightarrow> FrameAllocatorState \<Rightarrow> nat set" where
  "fa_free mem fa = set (stack_entries mem (frame_stack fa)) \<union> range_pages (free_ranges fa)"

definition free_set :: "machine \<Rightarrow> nat set" where
  "free_set m = fa_free (pmem m) (frame_allocator m)"

definition frames_ok :: "nat set \<Rightarrow> FrameStack \<Rightarrow> bool" where
  "frames_ok U st \<longleftrightarrow>
     finite U \<and> 8 * card U \<le> unat (max_size_bytes st) \<and>
     (\<forall>a \<in> U. 4096 dvd a \<and> 0 < a \<and> a < 2 ^ 64 \<and>
        (a + 4096 \<le> unat (base st) \<or> unat (base st) + unat (max_size_bytes st) \<le> a))"

definition fa_ok :: "nat set \<Rightarrow> memory \<Rightarrow> FrameAllocatorState \<Rightarrow> bool" where
  "fa_ok U mem fa \<longleftrightarrow>
     stack_ok (frame_stack fa) \<and> frames_ok U (frame_stack fa) \<and>
     (\<forall>r \<in> set (free_ranges fa). range_inv r) \<and> disjoint_ranges (free_ranges fa) \<and>
     distinct (stack_entries mem (frame_stack fa)) \<and>
     set (stack_entries mem (frame_stack fa)) \<inter> range_pages (free_ranges fa) = {} \<and>
     fa_free mem fa \<subseteq> U"

definition fa_inv :: "nat set \<Rightarrow> machine \<Rightarrow> bool" where
  "fa_inv U m \<longleftrightarrow>
     is_initialized (frame_allocator m) \<and> \<not> fa_lock (frame_allocator m) \<and>
     fa_ok U (pmem m) (frame_allocator m) \<and>
     unat (free_frames (frame_allocator m)) = card (free_set m)"

lemma fa_ok_finite: "fa_ok U mem fa \<Longrightarrow> finite (fa_free mem fa)"
  by (simp add: fa_free_def)

text \<open>The fields that neither the stack nor the ranges depend on.\<close>

lemma fa_simps [simp]:
  "fa_free mem (fa\<lparr>free_frames := n\<rparr>) = fa_free mem fa"
  "fa_free mem (fa\<lparr>fa_lock := l\<rparr>) = fa_free mem fa"
  "fa_free mem (fa\<lparr>cached_memory_range_index := i\<rparr>) = fa_free mem fa"
  "fa_ok U mem (fa\<lparr>free_frames := n\<rparr>) = fa_ok U mem fa"
  "fa_ok U mem (fa\<lparr>fa_lock := l\<rparr>) = fa_ok U mem fa"
  "fa_ok U mem (fa\<lparr>cached_memory_range_index := i\<rparr>) = fa_ok U mem fa"
  by (simp_all add: fa_free_def fa_ok_def)

lemma take_cached_facts:
  assumes ok: "fa_ok U mem fa" and big: "4096 \<le> range_size (range_at (free_ranges fa) (cached_memory_range_index fa))"
    and res: "take_cached fa = (p, fa')"
  shows "fa_ok U mem fa'" and "unat p \<in> fa_free mem fa" and "fa_free mem fa' = fa_free mem fa - {unat p}"
    and "fa' = fa\<lparr>free_ranges := free_ranges fa'\<rparr>"
proof -
  let ?rs = "free_ranges fa" and ?i = "cached_memory_range_index fa"
  have i: "?i < length ?rs" and big': "4096 \<le> range_size (?rs ! ?i)"
    using big by (auto simp: range_at_def split: if_splits)
  have fa': "fa' = fa\<lparr>free_ranges := carve 4096 ?i ?rs\<rparr>" and p: "p = start_address (?rs ! ?i)"
    using res i by (auto simp: take_cached_def range_at_def Let_def)
  note cf = carve_page_facts [OF _ _ i big']
  have rs: "\<forall>r \<in> set ?rs. range_inv r" "disjoint_ranges ?rs"
    and st: "set (stack_entries mem (frame_stack fa)) \<inter> range_pages ?rs = {}"
    using ok by (simp_all add: fa_ok_def)
  show "fa' = fa\<lparr>free_ranges := free_ranges fa'\<rparr>"
    by (simp add: fa')
  show "unat p \<in> fa_free mem fa"
    using cf(4) [OF rs] by (simp add: fa_free_def p)
  show f: "fa_free mem fa' = fa_free mem fa - {unat p}"
    using cf(3,4) [OF rs] st by (auto simp: fa_free_def fa' p)
  show "fa_ok U mem fa'"
    using ok cf(1-3) [OF rs] f unfolding fa_ok_def by (auto simp: fa')
qed

lemma take_from_ranges_facts:
  assumes ok: "fa_ok U mem fa" and P: "\<And>r. P r \<Longrightarrow> 4096 \<le> range_size r"
    and res: "take_from_ranges P fa = Inr (p, fa')"
  shows "fa_ok U mem fa'" and "unat p \<in> fa_free mem fa" and "fa_free mem fa' = fa_free mem fa - {unat p}"
    and "fa_lock fa' = fa_lock fa" and "is_initialized fa' = is_initialized fa"
    and "free_frames fa' = free_frames fa" and "frame_stack fa' = frame_stack fa"
    and "\<exists>r. P r \<and> p = start_address r"
proof -
  obtain i where i: "P (range_at (free_ranges fa) i)"
      "take_cached (fa\<lparr>cached_memory_range_index := i\<rparr>) = (p, fa')"
  proof (cases "P (range_at (free_ranges fa) (cached_memory_range_index fa))")
    case True
    then show thesis
      using res that [of "cached_memory_range_index fa"] by (simp add: take_from_ranges_def)
  next
    case False
    then obtain j where "find_range P (free_ranges fa) = Some j"
        "take_cached (fa\<lparr>cached_memory_range_index := j\<rparr>) = (p, fa')"
      using res by (auto simp: take_from_ranges_def split: option.splits)
    then show thesis
      using that [of j] find_range_Some [of P "free_ranges fa" j] by (simp add: range_at_def)
  qed
  note tf = take_cached_facts [OF _ _ i(2), of U mem, simplified, OF ok P [OF i(1)]]
  show "fa_ok U mem fa'" "unat p \<in> fa_free mem fa" "fa_free mem fa' = fa_free mem fa - {unat p}"
    using tf by simp_all
  show "fa_lock fa' = fa_lock fa" "is_initialized fa' = is_initialized fa"
    "free_frames fa' = free_frames fa" "frame_stack fa' = frame_stack fa"
    by (subst tf(4), simp)+
  show "\<exists>r. P r \<and> p = start_address r"
    using i by (auto simp: take_cached_def Let_def)
qed

lemma take_frame_facts:
  assumes ok: "fa_ok U mem fa" and res: "take_frame h mem fa = Inr (p, fa')"
  shows "fa_ok U mem fa' \<and> unat p \<in> fa_free mem fa \<and> fa_free mem fa' = fa_free mem fa - {unat p} \<and>
    fa_lock fa' = fa_lock fa \<and> is_initialized fa' = is_initialized fa \<and> free_frames fa' = free_frames fa"
proof (cases "0 < frame_stack_count (frame_stack fa)")
  case True
  have so: "stack_ok (frame_stack fa)"
    using ok by (simp add: fa_ok_def)
  obtain v st' where pop: "frame_stack_pop mem (frame_stack fa) = Inr (v, st')" "stack_ok st'"
      "stack_entries mem (frame_stack fa) = stack_entries mem st' @ [unat v]"
      "base st' = base (frame_stack fa)" "max_size_bytes st' = max_size_bytes (frame_stack fa)"
    using stack_pop [OF so True, of mem] by metis
  have r: "p = v" "fa' = fa\<lparr>frame_stack := st'\<rparr>"
    using res True pop(1) by (simp_all add: take_frame_def)
  have "fa_free mem fa' = fa_free mem fa - {unat p}" "unat p \<in> fa_free mem fa"
    using ok pop(3) by (auto simp: fa_free_def fa_ok_def r)
  moreover from this have "fa_ok U mem fa'"
    using ok pop by (auto simp: fa_ok_def frames_ok_def r)
  ultimately show ?thesis
    by (simp add: r)
next
  case False
  then obtain P where "take_from_ranges P fa = Inr (p, fa')" "\<And>r. P r \<Longrightarrow> 4096 \<le> range_size r"
    using res by (auto simp: take_frame_def split: if_splits)
  then show ?thesis
    using take_from_ranges_facts [OF ok, of P p fa'] by blast
qed

lemma alloc_frame_facts:
  assumes inv: "fa_inv U m" and res: "alloc_frame m = Inr (p, m')"
  shows "fa_inv U m'" and "unat p \<in> free_set m" and "free_set m' = free_set m - {unat p}"
    and "m' = m\<lparr>frame_allocator := frame_allocator m'\<rparr>"
proof -
  let ?fa = "(frame_allocator m)\<lparr>fa_lock := True, free_frames := free_frames (frame_allocator m) - 1\<rparr>"
  obtain fa' where tf: "take_frame (hal_arch_initialized m) (pmem m) ?fa = Inr (p, fa')"
    and m': "m' = m\<lparr>frame_allocator := fa'\<lparr>fa_lock := False\<rparr>\<rparr>"
    using res by (auto simp: alloc_frame_def Let_def kbind_Inr_iff split: if_splits)
  have "fa_ok U (pmem m) ?fa"
    using inv by (simp add: fa_inv_def)
  note f = take_frame_facts [OF this tf, simplified]
  show p: "unat p \<in> free_set m" and fs: "free_set m' = free_set m - {unat p}"
    using f by (simp_all add: free_set_def m')
  show "m' = m\<lparr>frame_allocator := frame_allocator m'\<rparr>"
    by (simp add: m')
  have fin: "finite (free_set m)"
    by (simp add: free_set_def fa_free_def)
  have u: "unat (free_frames (frame_allocator m)) = card (free_set m)"
    using inv by (simp add: fa_inv_def)
  moreover have "0 < card (free_set m)"
    using p fin by (auto simp: card_gt_0_iff)
  ultimately have "unat (free_frames (frame_allocator m) - 1) = card (free_set m) - 1"
    by (subst unat_minus_one) (auto simp flip: unat_gt_0)
  moreover have "free_frames (frame_allocator m') = free_frames (frame_allocator m) - 1"
    using f by (simp add: m')
  ultimately have "unat (free_frames (frame_allocator m')) = card (free_set m')"
    using p fin by (simp add: fs)
  then show "fa_inv U m'"
    using inv f by (simp add: fa_inv_def m')
qed

lemma dealloc_frame_facts:
  assumes inv: "fa_inv U m" and p: "unat p \<in> U" "unat p \<notin> free_set m"
  obtains m' where "dealloc_frame p m = Inr m'" and "fa_inv U m'"
    and "free_set m' = insert (unat p) (free_set m)"
    and "m' = m\<lparr>pmem := pmem m', frame_allocator := frame_allocator m'\<rparr>"
    and "\<And>a u. u \<in> U \<Longrightarrow> u \<le> unat a \<Longrightarrow> unat a < u + 4096 \<Longrightarrow> pmem m' a = pmem m a"
    and "stack_entries (pmem m') (frame_stack (frame_allocator m')) =
      stack_entries (pmem m) (frame_stack (frame_allocator m)) @ [unat p]"
proof -
  let ?fa = "frame_allocator m" and ?st = "frame_stack (frame_allocator m)"
  have ok: "fa_ok U (pmem m) ?fa" and so: "stack_ok ?st" and fo: "frames_ok U ?st"
    using inv by (simp_all add: fa_inv_def fa_ok_def)
  have U: "finite U" "8 * card U \<le> unat (max_size_bytes ?st)"
    using fo by (simp_all add: frames_ok_def)
  have "insert (unat p) (set (stack_entries (pmem m) ?st)) \<subseteq> U"
    using ok p by (auto simp: fa_ok_def fa_free_def)
  then have "card (insert (unat p) (set (stack_entries (pmem m) ?st))) \<le> card U"
    using U by (intro card_mono)
  moreover have "unat p \<notin> set (stack_entries (pmem m) ?st)" "distinct (stack_entries (pmem m) ?st)"
    using p ok by (simp_all add: free_set_def fa_free_def fa_ok_def)
  ultimately have "Suc (length (stack_entries (pmem m) ?st)) \<le> card U"
    by (simp add: distinct_card)
  then have room: "8 * Suc (length (stack_entries (pmem m) ?st)) \<le> unat (max_size_bytes ?st)"
    using U(2) by (meson le_trans mult_le_mono2)
  let ?mem = "(pmem m)(top ?st := p)"
  obtain st' where st': "frame_stack_push (pmem m) ?st p = Inr (?mem, st')" "stack_ok st'"
      "stack_entries ?mem st' = stack_entries (pmem m) ?st @ [unat p]"
      "base st' = base ?st" "max_size_bytes st' = max_size_bytes ?st"
      "unat (base ?st) \<le> unat (top ?st)"
      "unat (top ?st) + 8 \<le> unat (base ?st) + unat (max_size_bytes ?st)"
    using stack_push [OF so room, of p] by metis
  let ?m = "m\<lparr>pmem := ?mem, frame_allocator :=
    ?fa\<lparr>free_frames := free_frames ?fa + 1, frame_stack := st', fa_lock := False\<rparr>\<rparr>"
  have fs: "free_set ?m = insert (unat p) (free_set m)"
    using st'(3) by (auto simp: free_set_def fa_free_def)
  have fin: "finite (free_set m)" and sub: "free_set m \<subseteq> U"
    using ok by (simp_all add: free_set_def fa_free_def fa_ok_def)
  have "card (free_set ?m) = Suc (card (free_set m))"
    using fs fin p by simp
  moreover have "card (free_set ?m) \<le> card U"
    using fs sub p U by (intro card_mono) auto
  moreover have "card U < 2 ^ 64"
    using le_less_trans [OF U(2) u64_bound] by simp
  ultimately have "unat (free_frames ?fa + 1) = card (free_set ?m)"
    using inv by (subst unat_add_u64) (simp_all add: fa_inv_def)
  moreover have "fa_ok U ?mem (frame_allocator ?m)"
    using ok p st' fs by (auto simp: fa_ok_def frames_ok_def free_set_def fa_free_def)
  ultimately have "fa_inv U ?m"
    using inv by (simp add: fa_inv_def)
  moreover have "dealloc_frame p m = Inr ?m"
    using inv st'(1) by (simp add: dealloc_frame_def fa_inv_def Let_def)
  moreover have "?mem a = pmem m a" if "u \<in> U" "u \<le> unat a" "unat a < u + 4096" for a u
    using that fo st'(6,7) by (fastforce simp: frames_ok_def)
  ultimately show thesis
    using that [of ?m] fs st'(3) by simp
qed

lemma dealloc_then_alloc:
  assumes inv: "fa_inv U m" and p: "unat p \<in> U" "unat p \<notin> free_set m"
    and res: "dealloc_frame p m = Inr m'"
  shows "\<exists>m''. alloc_frame m' = Inr (p, m'')"
proof -
  let ?st = "frame_stack (frame_allocator m')"
  obtain ps where inv': "fa_inv U m'" and e: "stack_entries (pmem m') ?st = ps @ [unat p]"
    using dealloc_frame_facts [OF inv p] res by (metis Inr_inject)
  have so: "stack_ok ?st"
    using inv' by (simp add: fa_inv_def fa_ok_def)
  have count: "0 < frame_stack_count ?st"
    using e by (cases "frame_stack_count ?st = 0") (simp_all add: stack_entries_def word_neq_0_conv)
  obtain v st' where pop: "frame_stack_pop (pmem m') ?st = Inr (v, st')"
    and "stack_entries (pmem m') ?st = stack_entries (pmem m') st' @ [unat v]"
    using stack_pop [OF so count, of "pmem m'"] by metis
  then have "v = p"
    using e by (simp add: word_unat_eq_iff)
  moreover have "p \<noteq> 0"
    using inv p(1) by (auto simp: fa_inv_def fa_ok_def frames_ok_def)
  moreover have "is_frame_stack_valid ?st"
    by (rule stack_okE [OF so])
  ultimately show ?thesis
    using inv' pop count by (simp add: alloc_frame_def Let_def take_frame_def fa_inv_def)
qed

text \<open>Writing to memory outside the stack area keeps the invariant.\<close>

lemma stack_entries_cong:
  assumes "stack_ok st"
    and "\<And>a. unat (base st) \<le> unat a \<Longrightarrow> unat a < unat (base st) + unat (max_size_bytes st) \<Longrightarrow> mem' a = mem a"
  shows "stack_entries mem' st = stack_entries mem st"
proof -
  obtain n where n: "unat (frame_stack_count st) = n" "8 * n \<le> unat (max_size_bytes st)"
    using stack_okE [OF assms(1)] by metis
  have "mem' (base st + 8 * of_nat i) = mem (base st + 8 * of_nat i)" if "i < n" for i
  proof -
    have "unat (base st + 8 * of_nat i) = unat (base st) + 8 * i"
      using assms(1) n that by (intro unat_offset) (auto simp: stack_ok_def)
    then show ?thesis
      using n that by (intro assms(2)) auto
  qed
  then show ?thesis
    by (simp add: stack_entries_def n)
qed

definition outside_stack :: "FrameStack \<Rightarrow> nat \<Rightarrow> bool" where
  "outside_stack st u \<longleftrightarrow> u + 4096 \<le> unat (base st) \<or> unat (base st) + unat (max_size_bytes st) \<le> u"

lemma fa_inv_write:
  assumes inv: "fa_inv U m" and u: "outside_stack (frame_stack (frame_allocator m)) u"
    and same: "\<And>a. \<not> (u \<le> unat a \<and> unat a < u + 4096) \<Longrightarrow> mem' a = pmem m a"
  shows "fa_inv U (m\<lparr>pmem := mem'\<rparr>)" and "free_set (m\<lparr>pmem := mem'\<rparr>) = free_set m"
proof -
  let ?st = "frame_stack (frame_allocator m)"
  have e: "stack_entries mem' ?st = stack_entries (pmem m) ?st"
    using inv u by (intro stack_entries_cong same) (auto simp: fa_inv_def fa_ok_def outside_stack_def)
  then show f: "free_set (m\<lparr>pmem := mem'\<rparr>) = free_set m"
    by (simp add: free_set_def fa_free_def)
  show "fa_inv U (m\<lparr>pmem := mem'\<rparr>)"
    using inv e f by (simp add: fa_inv_def fa_ok_def fa_free_def)
qed

lemma managed_outside_stack:
  "fa_inv U m \<Longrightarrow> u \<in> U \<Longrightarrow> outside_stack (frame_stack (frame_allocator m)) u"
  by (auto simp: fa_inv_def fa_ok_def frames_ok_def outside_stack_def)

lemma alloc_frame_stack_area:
  assumes "alloc_frame m = Inr (p, m')"
  shows "base (frame_stack (frame_allocator m')) = base (frame_stack (frame_allocator m))"
    and "max_size_bytes (frame_stack (frame_allocator m')) = max_size_bytes (frame_stack (frame_allocator m))"
  using assms
  by (auto simp: alloc_frame_def Let_def kbind_Inr_iff take_frame_def frame_stack_pop_def
      take_from_ranges_def take_cached_def split: if_splits option.splits)

section \<open>Progress\<close>

lemma range_pages_big:
  assumes "\<forall>r \<in> set rs. range_inv r" and "range_pages rs \<noteq> {}"
  shows "\<exists>r \<in> set rs. 4096 \<le> range_size r"
  using assms by (force simp: range_pages_def pages_def word_le_nat_alt)

lemma take_from_ranges_progress:
  "\<exists>r \<in> set (free_ranges fa). P r \<Longrightarrow> \<exists>p fa'. take_from_ranges P fa = Inr (p, fa')"
  using find_range_None [of P "free_ranges fa"]
  by (cases "find_range P (free_ranges fa)") (auto simp: take_from_ranges_def take_cached_def Let_def)

lemma fa_ok_nonnull: "fa_ok U mem fa \<Longrightarrow> unat p \<in> fa_free mem fa \<Longrightarrow> p \<noteq> 0"
  by (auto simp: fa_ok_def frames_ok_def)

lemma alloc_frame_progress:
  assumes inv: "fa_inv U m" and h: "hal_arch_initialized m" and ne: "free_set m \<noteq> {}"
  shows "\<exists>p m'. alloc_frame m = Inr (p, m')"
proof -
  let ?fa = "(frame_allocator m)\<lparr>fa_lock := True, free_frames := free_frames (frame_allocator m) - 1\<rparr>"
  have ok: "fa_ok U (pmem m) ?fa"
    using inv by (simp add: fa_inv_def)
  then have so: "stack_ok (frame_stack ?fa)" by (simp add: fa_ok_def)
  have "\<exists>p fa'. take_frame True (pmem m) ?fa = Inr (p, fa')"
  proof (cases "0 < frame_stack_count (frame_stack ?fa)")
    case True
    then show ?thesis
      by (auto simp: take_frame_def frame_stack_pop_def Let_def)
  next
    case False
    then have "frame_stack_count (frame_stack ?fa) = 0"
      by (simp add: word_less_nat_alt unat_eq_0)
    then have "range_pages (free_ranges ?fa) \<noteq> {}"
      using ne by (simp add: free_set_def fa_free_def stack_entries_def)
    then show ?thesis
      using False ok range_pages_big [of "free_ranges ?fa"]
        take_from_ranges_progress [of ?fa "\<lambda>r. 4096 \<le> range_size r"]
      by (simp add: take_frame_def fa_ok_def)
  qed
  then obtain p fa' where tf: "take_frame True (pmem m) ?fa = Inr (p, fa')" by blast
  then have "p \<noteq> 0"
    using take_frame_facts [OF ok tf] fa_ok_nonnull [OF ok] by blast
  moreover have "is_frame_stack_valid (frame_stack (frame_allocator m))"
    using stack_okE [OF so] by simp
  ultimately show ?thesis
    using inv tf h by (simp add: alloc_frame_def fa_inv_def Let_def)
qed

lemma alloc_frame_exhausted:
  assumes inv: "fa_inv U m" and "free_set m = {}"
  shows "alloc_frame m = Inl (Panic FRAME_ALLOCATOR_ERROR)"
proof (cases "alloc_frame m")
  case (Inl e)
  have so: "stack_ok (frame_stack (frame_allocator m))"
    using inv by (simp add: fa_inv_def fa_ok_def)
  then have "is_frame_stack_valid (frame_stack (frame_allocator m))"
    by (rule stack_okE)
  moreover have "frame_stack_count (frame_stack (frame_allocator m)) = 0"
    using assms by (auto simp: free_set_def fa_free_def stack_entries_def unat_eq_0)
  ultimately show ?thesis
    using Inl inv
    by (auto simp: alloc_frame_def Let_def fa_inv_def take_frame_def take_from_ranges_def kpanic_def
        kbind_def split: if_splits option.splits prod.splits)
next
  case (Inr r)
  with alloc_frame_facts(2) [OF inv, of "fst r" "snd r"] assms(2) show ?thesis
    by simp
qed

section \<open>Initialisation establishes the invariant\<close>

lemma needed_unat:
  fixes b :: BootLoaderData
  defines "n \<equiv> unat (needed_bytes_stack_frame b)"
  shows "8 * (unat (get_total_usable_RAM_size b) div 4096) + 4096 \<le> n"
    and "4096 dvd n" and "needed_bytes_stack_frame b \<noteq> 0"
proof -
  define t where "t = get_total_usable_RAM_size b"
  define n1 where "n1 = t div 4096 * 8 + 4096"
  have d: "unat (t div 4096) = unat t div 4096"
    by (simp add: unat_div)
  have q: "unat t div 4096 < 4503599627370496"
    using u64_bound [of t] by (simp add: div_less_iff_less_mult)
  have n0: "unat (t div 4096 * 8) = unat t div 4096 * 8"
    using q d by (subst unat_mult_lem [THEN iffD1]) simp_all
  then have n1: "unat n1 = unat t div 4096 * 8 + 4096"
    unfolding n1_def using q by (subst unat_add_u64) simp_all
  define pad where "pad = - (n1 mod 4096) + 4096"
  have pad: "unat pad = 4096 - unat n1 mod 4096"
  proof (cases "n1 mod 4096 = 0")
    case True
    then have "4096 dvd unat n1"
      by (simp only: mod_page_unat)
    moreover have "pad = 4096"
      unfolding pad_def True by simp
    ultimately show ?thesis by simp
  next
    case False
    then show ?thesis unfolding pad_def by (rule unat_pad)
  qed
  have eq: "needed_bytes_stack_frame b = n1 + pad"
    by (simp add: needed_bytes_stack_frame_def n1_def pad_def t_def Let_def)
  have sum: "n = unat n1 + (4096 - unat n1 mod 4096)"
    unfolding n_def eq pad [symmetric] using n1 q pad by (intro unat_add_u64) simp
  then show "8 * (unat (get_total_usable_RAM_size b) div 4096) + 4096 \<le> n"
    by (simp add: n1 t_def)
  then show "needed_bytes_stack_frame b \<noteq> 0"
    by (auto simp: n_def)
  have "n = Suc (unat n1 div 4096) * 4096"
    unfolding sum by (rule page_pad_up)
  then show "4096 dvd n" by simp
qed

lemma card_range_pages_le:
  "4096 * card (range_pages rs) \<le> sum_list (map (\<lambda>r. unat (range_size r)) rs)"
proof (induction rs)
  case (Cons r rs)
  have "4096 * card (pages r \<union> range_pages rs) \<le> 4096 * card (pages r) + 4096 * card (range_pages rs)"
    using card_Un_le [of "pages r" "range_pages rs"] by linarith
  also have "\<dots> \<le> unat (range_size r) + sum_list (map (\<lambda>r. unat (range_size r)) rs)"
    using Cons card_pages_le by (intro add_mono)
  finally show ?case by simp
qed simp

lemma card_pages_aligned:
  assumes "range_inv r"
  shows "card (pages r) = unat (range_size r) div 4096"
proof (cases "range_size r = 0")
  case False
  then obtain k l where k: "unat (start_address r) = 4096 * k" and l: "unat (range_size r) = 4096 * l"
    using assms by (auto simp: range_inv_def range_aligned_def elim!: dvdE)
  have "pages r = (\<lambda>j. 4096 * j) ` {k ..< k + l}"
    by (auto simp: pages_def k l image_iff dvd_def)
  then show ?thesis
    by (simp add: card_image inj_on_def l)
qed simp

lemma count_free_frames_card:
  "\<forall>r \<in> set rs. range_inv r \<Longrightarrow> disjoint_ranges rs \<Longrightarrow> unat n + card (range_pages rs) < 2 ^ 64 \<Longrightarrow>
   unat (count_free_frames rs n) = unat n + card (range_pages rs)"
proof (induction rs arbitrary: n)
  case (Cons r rs)
  have c: "card (pages r \<union> range_pages rs) = card (pages r) + card (range_pages rs)"
    using Cons.prems by (intro card_Un_disjoint) auto
  have u: "unat (range_size r div 4096) = card (pages r)"
    using Cons.prems by (simp add: card_pages_aligned unat_div)
  have "unat (n + range_size r div 4096) = unat n + card (pages r)"
    using Cons.prems(3) c u by (subst unat_add_u64) simp_all
  then show ?case
    using Cons.IH [of "n + range_size r div 4096"] Cons.prems c by simp
qed simp

lemma carve_facts:
  assumes "\<forall>r \<in> set rs. range_inv r" and "disjoint_ranges rs" and "i < length rs"
    and "n \<le> range_size (rs ! i)" and "page_aligned n" and "n \<noteq> 0"
  defines "s \<equiv> unat (start_address (rs ! i))" and "rs' \<equiv> carve n i rs"
  shows "\<forall>r \<in> set rs'. range_inv r" and "disjoint_ranges rs'"
    and "range_pages rs' = {a \<in> range_pages rs. a < s \<or> s + unat n \<le> a}"
    and "\<forall>a \<in> range_pages rs'. a + 4096 \<le> s \<or> s + unat n \<le> a"
    and "s \<in> range_pages rs" and "s + unat n < 2 ^ 64"
proof -
  obtain xs r ys where rs: "rs = xs @ r # ys" and i: "i = length xs"
    using id_take_nth_drop [OF assms(3)] assms(3) by (metis length_take min.absorb4)
  have r: "range_inv r" "n \<le> range_size r"
    using assms(1,4) by (auto simp: rs i)
  have rs': "rs' = xs @ shrink n r # ys" and s: "s = unat (start_address r)"
    by (simp_all add: rs'_def s_def carve_shrink rs i)
  have le: "unat n \<le> unat (range_size r)" "0 < unat n"
    using r(2) assms(6) by (simp_all add: word_le_nat_alt unat_gt_0)
  then have al: "4096 dvd s"
    using r by (auto simp: range_inv_def range_aligned_def s)
  show "s + unat n < 2 ^ 64"
    using r le by (simp add: range_inv_def range_ok_def s)
  note sf = shrink_facts [OF r assms(5,6)]
  have inside: "a \<in> pages r" if "4096 dvd a" "s \<le> a" "a < s + unat n" for a
  proof -
    from that have "a + 4096 \<le> s + unat n"
      using al assms(5) by (intro page_step) simp_all
    with that le show ?thesis by (simp add: pages_def s)
  qed
  then show "s \<in> range_pages rs"
    using al le by (simp add: rs)
  have dvd: "4096 dvd a" if "a \<in> range_pages zs" for a zs
    using that by (auto simp: range_pages_def pages_def)
  show "\<forall>r \<in> set rs'. range_inv r" "disjoint_ranges rs'"
    using assms(1,2) sf by (auto simp: rs rs')
  have out: "a < s \<or> s + unat n \<le> a" if "a \<in> range_pages xs \<union> range_pages ys" for a
    using inside [of a] that dvd [of a] assms(2) by (auto simp: rs not_less)
  show eq: "range_pages rs' = {a \<in> range_pages rs. a < s \<or> s + unat n \<le> a}"
    using out sf(2) by (auto simp: rs rs' s pages_def)
  show "\<forall>a \<in> range_pages rs'. a + 4096 \<le> s \<or> s + unat n \<le> a"
    unfolding eq using dvd page_step [OF _ al] by auto
qed

text \<open>The ranges that the allocator receives from the bootloader's component.\<close>

definition boot_free_ranges :: "BootLoaderData \<Rightarrow> PhysicalMemoryRange list" where
  "boot_free_ranges b = map (free_range b) (bubblesort start_address (usable_ranges b))"

definition boot_ram_ok :: "BootLoaderData \<Rightarrow> bool" where
  "boot_ram_ok b \<longleftrightarrow> boot_map_ok b \<and> disjoint_ranges (usable_ranges b) \<and> usable_bytes b < 2 ^ 64"

definition boot_free_pages :: "BootLoaderData \<Rightarrow> nat set" where
  "boot_free_pages b = (\<Union>r \<in> set (usable_ranges b). {a \<in> pages r. \<not> boot_reserved b r a})"

lemma boot_free_ranges_facts:
  assumes "boot_ram_ok b"
  shows "\<forall>r \<in> set (boot_free_ranges b). range_inv r" and "disjoint_ranges (boot_free_ranges b)"
    and "range_pages (boot_free_ranges b) = boot_free_pages b"
    and "4096 * card (boot_free_pages b) \<le> unat (get_total_usable_RAM_size b)"
    and "\<forall>a \<in> boot_free_pages b. 1048576 \<le> a \<and> 4096 dvd a \<and> a < 2 ^ 64"
proof -
  have ok: "boot_map_ok b" using assms by (simp add: boot_ram_ok_def)
  show "\<forall>r \<in> set (boot_free_ranges b). range_inv r"
    using free_range_facts(2,3) [OF ok] by (auto simp: boot_free_ranges_def range_inv_def)
  show "disjoint_ranges (boot_free_ranges b)"
    using assms free_range_facts(1) [OF ok] unfolding boot_free_ranges_def
    by (intro disjoint_ranges_map) (auto simp: disjoint_ranges_bubblesort boot_ram_ok_def)
  show "range_pages (boot_free_ranges b) = boot_free_pages b"
    using free_range_facts(1) [OF ok]
    by (auto simp: boot_free_ranges_def range_pages_def boot_free_pages_def)
  have "boot_free_pages b \<subseteq> range_pages (usable_ranges b)"
    by (auto simp: boot_free_pages_def range_pages_def)
  then have "card (boot_free_pages b) \<le> card (range_pages (usable_ranges b))"
    by (intro card_mono) simp_all
  then show "4096 * card (boot_free_pages b) \<le> unat (get_total_usable_RAM_size b)"
    using card_range_pages_le [of "usable_ranges b"] assms
    by (simp add: total_usable_unat boot_ram_ok_def usable_bytes_def)
  have "a < 2 ^ 64" if "r \<in> set (usable_ranges b)" "a \<in> pages r" for r a
    using ok that by (auto simp: boot_map_ok_def alignable_def range_ok_def pages_def)
  then show "\<forall>a \<in> boot_free_pages b. 1048576 \<le> a \<and> 4096 dvd a \<and> a < 2 ^ 64"
    by (auto simp: boot_free_pages_def boot_reserved_def pages_def)
qed

definition stack_range_fits :: "BootLoaderData \<Rightarrow> PhysicalMemoryRange \<Rightarrow> bool" where
  "stack_range_fits b r \<longleftrightarrow>
     needed_bytes_stack_frame b \<le> range_size r \<and> usable_in_bootstage (needed_bytes_stack_frame b) r"

lemma init_frame_allocator_eq:
  assumes "boot_map_ok (boot_data m)" and "free_range_buffer (boot_cache m) = None"
    and "frame_allocator m = frame_allocator_reset"
  defines "rs \<equiv> boot_free_ranges (boot_data m)" and "n \<equiv> needed_bytes_stack_frame (boot_data m)"
  shows "init_frame_allocator m =
    (case find_range (stack_range_fits (boot_data m)) rs of
       None \<Rightarrow> kpanic FRAME_ALLOCATOR_ERROR
     | Some i \<Rightarrow>
         Inr (m\<lparr>boot_cache := (boot_cache m)\<lparr>free_range_buffer := Some rs\<rparr>,
                frame_allocator :=
                  \<lparr>is_initialized = True, free_ranges = carve n i rs,
                   frame_stack = make_frame_stack (start_address (rs ! i)) n,
                   cached_memory_range_index = i,
                   free_frames = count_free_frames (carve n i rs) 0, fa_lock = False\<rparr>\<rparr>))"
  using assms(1-3)
  by (simp add: init_frame_allocator_def free_mem_bootloader_eq boot_map_ok_def rs_def n_def
      boot_free_ranges_def stack_range_fits_def [abs_def] frame_allocator_reset_def Let_def
      split: option.split)

lemma init_frame_allocator_inv:
  assumes ram: "boot_ram_ok (boot_data m)" and c: "free_range_buffer (boot_cache m) = None"
    and r: "frame_allocator m = frame_allocator_reset" and res: "init_frame_allocator m = Inr m'"
  defines "st \<equiv> frame_stack (frame_allocator m')"
  shows "fa_inv (free_set m') m'"
    and "free_set m' = {a \<in> boot_free_pages (boot_data m).
      a < unat (base st) \<or> unat (base st) + unat (max_size_bytes st) \<le> a}"
proof -
  let ?b = "boot_data m"
  define rs n where "rs = boot_free_ranges ?b" and "n = needed_bytes_stack_frame ?b"
  note bf = boot_free_ranges_facts [OF ram]
  have nu: "8 * (unat (get_total_usable_RAM_size ?b) div 4096) + 4096 \<le> unat n" "page_aligned n" "n \<noteq> 0"
    using needed_unat [of ?b] by (simp_all add: n_def)
  have "boot_map_ok ?b" using ram by (simp add: boot_ram_ok_def)
  then obtain i where i: "find_range (stack_range_fits ?b) rs = Some i"
    and m': "m' = m\<lparr>boot_cache := (boot_cache m)\<lparr>free_range_buffer := Some rs\<rparr>,
                frame_allocator :=
                  \<lparr>is_initialized = True, free_ranges = carve n i rs,
                   frame_stack = make_frame_stack (start_address (rs ! i)) n,
                   cached_memory_range_index = i,
                   free_frames = count_free_frames (carve n i rs) 0, fa_lock = False\<rparr>\<rparr>"
    using res init_frame_allocator_eq [of m] c r by (auto simp: rs_def n_def split: option.splits)
  have i': "i < length rs" "n \<le> range_size (rs ! i)"
    using find_range_Some [OF i] by (auto simp: stack_range_fits_def n_def)
  note cf = carve_facts [OF bf(1,2) [folded rs_def] i' nu(2,3)]
  have st: "st = \<lparr>base = start_address (rs ! i), top = start_address (rs ! i), max_size_bytes = n\<rparr>"
    by (simp add: st_def m' make_frame_stack_def)
  have entries: "stack_entries mem st = []" for mem
    by (simp add: stack_entries_def st frame_stack_count_def frame_stack_size_bytes_def)
  have fs: "free_set m' = range_pages (carve n i rs)"
    using entries by (simp add: free_set_def fa_free_def m' make_frame_stack_def st)
  show eq: "free_set m' = {a \<in> boot_free_pages ?b.
      a < unat (base st) \<or> unat (base st) + unat (max_size_bytes st) \<le> a}"
    using cf(3) bf(3) by (simp add: fs st rs_def)
  have "card (free_set m') \<le> card (boot_free_pages ?b)"
    using bf(3) by (intro card_mono) (auto simp: eq simp flip: bf(3))
  then have "4096 * card (free_set m') \<le> unat (get_total_usable_RAM_size ?b)"
    using bf(4) by linarith
  then have cap: "8 * card (free_set m') \<le> unat n"
    using nu(1) by linarith
  have "base st \<noteq> 0"
    using cf(5) bf(5) by (auto simp: st rs_def bf(3))
  then have "stack_ok st"
    using nu(3) cf(6) by (auto simp: stack_ok_def st intro!: exI [of _ 0])
  moreover have "\<forall>a \<in> free_set m'. 0 < a \<and> 4096 dvd a \<and> a < 2 ^ 64"
    using bf(5) unfolding eq by auto
  then have "frames_ok (free_set m') st"
    using cap cf(4) by (simp add: frames_ok_def st fs)
  ultimately have "fa_ok (free_set m') (pmem m') (frame_allocator m')"
    using cf(1,2) entries by (simp add: fa_ok_def m' make_frame_stack_def st free_set_def)
  moreover have "unat (count_free_frames (carve n i rs) 0) = card (free_set m')"
    using count_free_frames_card [OF cf(1,2), of 0] cap le_less_trans [OF cap u64_bound] by (simp add: fs)
  ultimately show "fa_inv (free_set m') m'"
    by (simp add: fa_inv_def m')
qed

section \<open>The interface to the clients\<close>

text \<open>
  What the page tables and the virtual memory manager rely on: a pool of frames out of a managed
  set; an allocation removes the returned frame from the pool, a release of a frame that is not in
  the pool puts it back.
\<close>

fun alloc_many :: "('m \<Rightarrow> (addr \<times> 'm) kres) \<Rightarrow> nat \<Rightarrow> 'm \<Rightarrow> (addr list \<times> 'm) kres" where
  "alloc_many alloc 0 m = Inr ([], m)"
| "alloc_many alloc (Suc n) m =
     kbind (alloc m) (\<lambda>(p, m1). kbind (alloc_many alloc n m1) (\<lambda>(ps, m2). Inr (p # ps, m2)))"

locale frame_source =
  fixes alloc :: "'m \<Rightarrow> (addr \<times> 'm) kres"
    and dealloc :: "addr \<Rightarrow> 'm \<Rightarrow> 'm kres"
    and inv :: "'m \<Rightarrow> bool"
    and avail :: "'m \<Rightarrow> nat set"
    and managed :: "nat set"
  assumes alloc_takes: "inv m \<Longrightarrow> alloc m = Inr (p, m') \<Longrightarrow>
      inv m' \<and> unat p \<in> avail m \<and> avail m' = avail m - {unat p}"
    and dealloc_gives: "inv m \<Longrightarrow> unat p \<in> managed \<Longrightarrow> unat p \<notin> avail m \<Longrightarrow>
      \<exists>m'. dealloc p m = Inr m' \<and> inv m' \<and> avail m' = insert (unat p) (avail m)"
    and avail_managed: "inv m \<Longrightarrow> avail m \<subseteq> managed"
begin

lemma alloc_managed: "inv m \<Longrightarrow> alloc m = Inr (p, m') \<Longrightarrow> unat p \<in> managed"
  using alloc_takes avail_managed by blast

text \<open>Frames handed out in a row are pairwise different and leave the pool.\<close>

lemma alloc_many_takes:
  "inv m \<Longrightarrow> alloc_many alloc n m = Inr (ps, m') \<Longrightarrow>
   inv m' \<and> length ps = n \<and> distinct ps \<and> unat ` set ps \<subseteq> avail m \<and> avail m' = avail m - unat ` set ps"
proof (induction n arbitrary: m ps)
  case (Suc n)
  from Suc.prems(2) obtain p m1 ps1 where
    a: "alloc m = Inr (p, m1)" "alloc_many alloc n m1 = Inr (ps1, m')" "ps = p # ps1"
    by (auto simp: kbind_Inr_iff)
  note t = alloc_takes [OF Suc.prems(1) a(1)]
  then have "inv m' \<and> length ps1 = n \<and> distinct ps1 \<and> unat ` set ps1 \<subseteq> avail m1 \<and>
    avail m' = avail m1 - unat ` set ps1"
    using Suc.IH a(2) by blast
  with t a(3) show ?case by auto
qed simp

text \<open>An allocation undone by a release restores the pool.\<close>

lemma alloc_dealloc:
  assumes "inv m" and "alloc m = Inr (p, m1)"
  shows "\<exists>m2. dealloc p m1 = Inr m2 \<and> inv m2 \<and> avail m2 = avail m"
  using alloc_takes [OF assms] dealloc_gives [of m1 p] alloc_managed [OF assms] by auto

end

interpretation fas: frame_source alloc_frame dealloc_frame "fa_inv U" free_set U for U
proof unfold_locales
  fix m m' :: machine and p :: addr
  assume "fa_inv U m" "alloc_frame m = Inr (p, m')"
  then show "fa_inv U m' \<and> unat p \<in> free_set m \<and> free_set m' = free_set m - {unat p}"
    using alloc_frame_facts by blast
next
  fix m :: machine and p :: addr
  assume "fa_inv U m" "unat p \<in> U" "unat p \<notin> free_set m"
  then show "\<exists>m'. dealloc_frame p m = Inr m' \<and> fa_inv U m' \<and> free_set m' = insert (unat p) (free_set m)"
    by (rule dealloc_frame_facts) blast
next
  fix m
  assume "fa_inv U m"
  then show "free_set m \<subseteq> U"
    by (simp add: fa_inv_def fa_ok_def free_set_def)
qed

section \<open>An example machine\<close>

definition pc_machine :: machine where
  "pc_machine =
     \<lparr>pmem = (\<lambda>_. 0), frame_allocator = frame_allocator_reset, hal_arch_initialized = True,
      boot_data = pc_boot_data, boot_cache = empty_boot_cache, cr3 = 0, tlb = (\<lambda>_. None)\<rparr>"

lemma pages_disjoint:
  "unat (start_address r) + unat (range_size r) \<le> unat (start_address r') \<Longrightarrow> pages r \<inter> pages r' = {}"
  by (auto simp: pages_def)

lemma pc_usable_ranges:
  "usable_ranges pc_boot_data =
     [\<lparr>start_address = 0x100000, range_size = 0x7EE0000\<rparr>, \<lparr>start_address = 0, range_size = 0x9FC00\<rparr>]"
  by (simp add: usable_ranges_def pc_boot_data_def usable_item_def range_of_item_def)

lemma pc_boot_ram_ok: "boot_ram_ok pc_boot_data"
proof -
  have "pages \<lparr>start_address = 0, range_size = 0x9FC00\<rparr> \<inter>
      pages \<lparr>start_address = 0x100000, range_size = 0x7EE0000\<rparr> = {}"
    by (rule pages_disjoint) simp
  then show ?thesis
    using pc_boot_map_ok
    by (simp add: boot_ram_ok_def pc_usable_ranges usable_bytes_def Int_commute)
qed

lemma pc_sorted:
  "bubblesort start_address (usable_ranges pc_boot_data) =
     [\<lparr>start_address = 0, range_size = 0x9FC00\<rparr>, \<lparr>start_address = 0x100000, range_size = 0x7EE0000\<rparr>]"
  unfolding pc_usable_ranges by code_simp

lemma pc_boot_free_ranges:
  "boot_free_ranges pc_boot_data =
     [\<lparr>start_address = 0, range_size = 0\<rparr>, \<lparr>start_address = 0x180000, range_size = 0x7E60000\<rparr>]"
  unfolding boot_free_ranges_def pc_sorted
  by (simp add: free_range_def trim_range_def remove_first_MB_def
      remove_bootloader_frames_def align_range_def pc_boot_data_def)

lemma pc_needed: "needed_bytes_stack_frame pc_boot_data = 0x41000"
  by (simp add: needed_bytes_stack_frame_def get_total_usable_RAM_size_def pc_boot_data_def
      usable_item_def)

definition pc_booted :: machine where
  "pc_booted =
     pc_machine\<lparr>boot_cache := empty_boot_cache\<lparr>free_range_buffer := Some (boot_free_ranges pc_boot_data)\<rparr>,
       frame_allocator :=
         \<lparr>is_initialized = True,
          free_ranges =
            [\<lparr>start_address = 0, range_size = 0\<rparr>, \<lparr>start_address = 0x1C1000, range_size = 0x7E1F000\<rparr>],
          frame_stack = \<lparr>base = 0x180000, top = 0x180000, max_size_bytes = 0x41000\<rparr>,
          cached_memory_range_index = 1, free_frames = 0x7E1F, fa_lock = False\<rparr>\<rparr>"

lemma pc_init: "init_frame_allocator pc_machine = Inr pc_booted"
proof -
  have "boot_map_ok (boot_data pc_machine)" "free_range_buffer (boot_cache pc_machine) = None"
    "frame_allocator pc_machine = frame_allocator_reset" and b: "boot_data pc_machine = pc_boot_data"
    by (simp_all add: pc_machine_def pc_boot_map_ok empty_boot_cache_def)
  then show ?thesis
    by (simp add: init_frame_allocator_eq b pc_boot_free_ranges pc_needed stack_range_fits_def
        usable_in_bootstage_def first_bootstage_unusable_addr_def get_bootstage_indentity_mapped_RAM_def
        carve_def make_frame_stack_def pc_booted_def pc_machine_def)
qed

lemma pc_booted_inv: "fa_inv (free_set pc_booted) pc_booted"
  using init_frame_allocator_inv(1) [OF _ _ _ pc_init]
  by (simp add: pc_machine_def pc_boot_ram_ok empty_boot_cache_def)

lemma pc_booted_alloc: "alloc_frame pc_booted =
    Inr (0x1C1000, pc_booted\<lparr>frame_allocator := (frame_allocator pc_booted)\<lparr>
      free_ranges := [\<lparr>start_address = 0, range_size = 0\<rparr>, \<lparr>start_address = 0x1C2000, range_size = 0x7E1E000\<rparr>],
      free_frames := 0x7E1E\<rparr>\<rparr>)"
  by (simp add: alloc_frame_def pc_booted_def pc_machine_def is_frame_stack_valid_def take_frame_def
      frame_stack_count_def frame_stack_size_bytes_def take_from_ranges_def range_at_def take_cached_def
      carve_def)

section \<open>Properties\<close>

text \<open>
  C3. \<open>init_frame_allocator\<close> on a machine whose allocator was never used and whose firmware map is
  sound: when it returns, the allocator manages exactly the free RAM pages above 1 MB that the
  bootloader left over, minus the area of the frame stack; its invariant holds (every page listed
  once, counter exact, the stack large enough for all frames and disjoint from them).
\<close>

theorem init_frame_allocator_correct:
  assumes "boot_ram_ok (boot_data m)" and "free_range_buffer (boot_cache m) = None"
    and "frame_allocator m = frame_allocator_reset" and "init_frame_allocator m = Inr m'"
  shows "fa_inv (free_set m') m' \<and>
    free_set m' = {a \<in> boot_free_pages (boot_data m).
      a < unat (base (frame_stack (frame_allocator m'))) \<or>
      unat (base (frame_stack (frame_allocator m'))) +
        unat (max_size_bytes (frame_stack (frame_allocator m'))) \<le> a}"
  using init_frame_allocator_inv [OF assms] by blast

theorem init_frame_allocator_correct_witness:
  "init_frame_allocator pc_machine = Inr pc_booted \<and> fa_inv (free_set pc_booted) pc_booted"
proof -
  have "boot_ram_ok (boot_data pc_machine)" "free_range_buffer (boot_cache pc_machine) = None"
    "frame_allocator pc_machine = frame_allocator_reset"
    by (simp_all add: pc_machine_def pc_boot_ram_ok empty_boot_cache_def)
  then show ?thesis
    using init_frame_allocator_correct [OF _ _ _ pc_init] pc_init by blast
qed

text \<open>
  C1. \<open>alloc_frame\<close> refines removal from the set of free frames: when it returns, the frame was free,
  is not null, leaves the free set, nothing else does, physical memory is untouched, and the
  invariant (with the exact counter) is kept.
\<close>

theorem alloc_frame_refines:
  assumes "fa_inv U m" and "alloc_frame m = Inr (p, m')"
  shows "fa_inv U m' \<and> unat p \<in> free_set m \<and> free_set m' = free_set m - {unat p} \<and>
    p \<noteq> NULL \<and> page_aligned p \<and> pmem m' = pmem m"
proof -
  note f = alloc_frame_facts [OF assms]
  then have "unat p \<in> U"
    using fas.avail_managed [OF assms(1)] by blast
  then have "p \<noteq> NULL" "page_aligned p"
    using assms(1) by (auto simp: fa_inv_def fa_ok_def frames_ok_def)
  moreover have "pmem m' = pmem m"
    by (subst f(4)) simp
  ultimately show ?thesis
    using f by blast
qed

theorem alloc_frame_refines_witness:
  "\<exists>m'. alloc_frame pc_booted = Inr (0x1C1000, m') \<and>
     free_set m' = free_set pc_booted - {unat (0x1C1000 :: u64)}"
  using alloc_frame_refines [OF pc_booted_inv pc_booted_alloc] pc_booted_alloc by blast

text \<open>
  C4. After the boot stage \<open>alloc_frame\<close> returns whenever a managed frame is free, and panics with
  \<open>FRAME_ALLOCATOR_ERROR\<close> when none is: it never spins and never hands out a frame it does not own.
\<close>

theorem alloc_frame_total:
  assumes "fa_inv U m" and "hal_arch_initialized m"
  shows "(if free_set m = {} then alloc_frame m = Inl (Panic FRAME_ALLOCATOR_ERROR)
          else \<exists>p m'. alloc_frame m = Inr (p, m') \<and> unat p \<in> free_set m)"
proof (cases "free_set m = {}")
  case True
  with alloc_frame_exhausted [OF assms(1)] show ?thesis by simp
next
  case False
  with alloc_frame_progress [OF assms] obtain p m' where "alloc_frame m = Inr (p, m')" by blast
  with alloc_frame_facts(2) [OF assms(1)] False show ?thesis by auto
qed

theorem alloc_frame_total_witness:
  "if free_set pc_booted = {} then alloc_frame pc_booted = Inl (Panic FRAME_ALLOCATOR_ERROR)
   else \<exists>p m'. alloc_frame pc_booted = Inr (p, m') \<and> unat p \<in> free_set pc_booted"
  using alloc_frame_total [OF pc_booted_inv] by (simp add: pc_booted_def pc_machine_def)

text \<open>
  C2. \<open>dealloc_frame\<close> of a frame in use always returns (the frame stack never overflows), puts exactly
  that frame back, keeps the invariant, and does not write into any managed frame. The next
  \<open>alloc_frame\<close> returns this very frame.
\<close>

theorem dealloc_frame_refines:
  assumes inv: "fa_inv U m" and p: "unat p \<in> U" "unat p \<notin> free_set m"
  shows "\<exists>m'. dealloc_frame p m = Inr m' \<and> fa_inv U m' \<and> free_set m' = insert (unat p) (free_set m) \<and>
    (\<forall>a. \<forall>u \<in> U. u \<le> unat a \<and> unat a < u + 4096 \<longrightarrow> pmem m' a = pmem m a) \<and>
    (\<exists>m''. alloc_frame m' = Inr (p, m''))"
proof -
  obtain m' where m': "dealloc_frame p m = Inr m'" "fa_inv U m'" "free_set m' = insert (unat p) (free_set m)"
    and mem: "\<And>a u. u \<in> U \<Longrightarrow> u \<le> unat a \<Longrightarrow> unat a < u + 4096 \<Longrightarrow> pmem m' a = pmem m a"
    using dealloc_frame_facts [OF inv p] by metis
  have "\<exists>m''. alloc_frame m' = Inr (p, m'')"
    using dealloc_then_alloc [OF inv p m'(1)] .
  with m' mem show ?thesis by blast
qed

theorem dealloc_frame_refines_witness:
  "\<exists>m1 m2. alloc_frame pc_booted = Inr (0x1C1000, m1) \<and> dealloc_frame 0x1C1000 m1 = Inr m2 \<and>
     free_set m2 = free_set pc_booted"
proof -
  note f = alloc_frame_facts [OF pc_booted_inv pc_booted_alloc]
  show ?thesis
    using dealloc_frame_refines [OF f(1), of "0x1C1000"] f(2,3) pc_booted_alloc by auto
qed

text \<open>
  Frames handed out by successive calls of \<open>alloc_frame\<close> are pairwise different and were all free
  before: no frame has two owners.
\<close>

theorem alloc_frame_no_double:
  assumes "fa_inv U m" and "alloc_many alloc_frame n m = Inr (ps, m')"
  shows "fa_inv U m' \<and> length ps = n \<and> distinct ps \<and> unat ` set ps \<subseteq> free_set m \<and>
    free_set m' = free_set m - unat ` set ps"
  using assms by (rule fas.alloc_many_takes)

theorem alloc_frame_no_double_witness:
  "\<exists>m'. alloc_many alloc_frame 1 pc_booted = Inr ([0x1C1000], m') \<and> fa_inv (free_set pc_booted) m'"
  using alloc_frame_no_double [OF pc_booted_inv, of 1 "[0x1C1000]"] pc_booted_alloc by auto

end
