(* ===== verification/Paging.thy ===== *)
theory Paging
  imports Frame_Allocator "HOL-Library.Sublist"
begin

text \<open>
  The four-level page tables, kernel/HAL/x86-64/x64-memory.c. Tables are frames of physical memory,
  which the kernel addresses through its identity map, so that a table pointer is a physical
  address. A paging structure is a frame whose first cell points to the root table. The
  translation cache of the CPU is the field \<open>tlb\<close>: \<open>invlpg\<close> forgets one page, loading \<open>cr3\<close>
  forgets all.
\<close>

section \<open>Operations\<close>

abbreviation (input) PAGE_PRESENT :: u64 where
  "PAGE_PRESENT \<equiv> 1"

abbreviation (input) PAGE_WRITABLE :: u64 where
  "PAGE_WRITABLE \<equiv> 2"

abbreviation (input) ADDR_MASK :: u64 where
  "ADDR_MASK \<equiv> 0x0000FFFFFFFFF000"

record PagingMapState =
  paddr :: addr
  map_flags :: u16
  mmap_present :: bool

definition PML4_index :: "addr \<Rightarrow> u64" where
  "PML4_index v = drop_bit 39 v AND 0x1FF"

definition PDPT_index :: "addr \<Rightarrow> u64" where
  "PDPT_index v = drop_bit 30 v AND 0x1FF"

definition PDT_index :: "addr \<Rightarrow> u64" where
  "PDT_index v = drop_bit 21 v AND 0x1FF"

definition PT_index :: "addr \<Rightarrow> u64" where
  "PT_index v = drop_bit 12 v AND 0x1FF"

text \<open>\<open>memset(page, 0, PAGE_SIZE)\<close>.\<close>

definition zero_page :: "addr \<Rightarrow> memory \<Rightarrow> memory" where
  "zero_page p mem = (\<lambda>a. if a - p < PAGE_SIZE then 0 else mem a)"

definition page_number :: "addr \<Rightarrow> u64" where
  "page_number v = drop_bit 12 v AND 0xFFFFFFFFF"

definition set_active_paging_structure :: "addr \<Rightarrow> machine \<Rightarrow> machine" where
  "set_active_paging_structure ps m = m\<lparr>cr3 := pmem m ps, tlb := (\<lambda>_. None)\<rparr>"

definition init_paging_lock :: "addr \<Rightarrow> memory \<Rightarrow> memory" where
  "init_paging_lock ps mem = mem(ps + 8 := mem (ps + 8) AND NOT 0xFF)"

definition get_bootloader_paging_structure :: "machine \<Rightarrow> (addr \<times> machine) kres" where
  "get_bootloader_paging_structure m =
     (let old = cr3 m AND 0xFFFFFFFFFFFFF000
      in kbind (alloc_frame m) (\<lambda>(ps, m1).
           Inr (ps, m1\<lparr>pmem := (init_paging_lock ps (pmem m1))(ps := old)\<rparr>)))"

definition get_raw_paging_structure :: "addr \<Rightarrow> machine \<Rightarrow> addr" where
  "get_raw_paging_structure ps m = pmem m ps"

text \<open>
  One level of the walk: the table behind the entry at address \<open>e\<close>, created when absent.
\<close>

definition link_new_table :: "addr \<Rightarrow> machine \<Rightarrow> machine kres" where
  "link_new_table e m =
     kbind (alloc_frame m) (\<lambda>(p, m1).
       let new_frame = p AND ADDR_MASK;
           mem = zero_page new_frame (pmem m1)
       in Inr (m1\<lparr>pmem := mem(e := new_frame OR PAGE_PRESENT OR PAGE_WRITABLE)\<rparr>))"

definition walk_level :: "addr \<Rightarrow> machine \<Rightarrow> (addr \<times> machine) kres" where
  "walk_level e m =
     kbind (if pmem m e AND PAGE_PRESENT = 0 then link_new_table e m else Inr m) (\<lambda>m1.
       Inr (pmem m1 e AND ADDR_MASK, m1))"

definition unsync_get_page_table_entry :: "addr \<Rightarrow> addr \<Rightarrow> machine \<Rightarrow> (addr \<times> machine) kres" where
  "unsync_get_page_table_entry PML4 vaddr m =
     kbind (walk_level (PML4 + 8 * PML4_index vaddr) m) (\<lambda>(PDPT, m1).
     kbind (walk_level (PDPT + 8 * PDPT_index vaddr) m1) (\<lambda>(PDT, m2).
     kbind (walk_level (PDT + 8 * PDT_index vaddr) m2) (\<lambda>(PT, m3).
       Inr (PT + 8 * PT_index vaddr, m3))))"

definition invalidate_TLB :: "addr \<Rightarrow> machine \<Rightarrow> machine" where
  "invalidate_TLB vaddr m = m\<lparr>tlb := (tlb m)(page_number vaddr := None)\<rparr>"

definition delete_page_translation_cache :: "addr \<Rightarrow> machine \<Rightarrow> machine" where
  "delete_page_translation_cache vaddr m = invalidate_TLB vaddr m"

definition delete_all_translation_cache :: "machine \<Rightarrow> machine" where
  "delete_all_translation_cache m = m\<lparr>tlb := (\<lambda>_. None)\<rparr>"

definition paging_map :: "addr \<Rightarrow> addr \<Rightarrow> addr \<Rightarrow> u16 \<Rightarrow> machine \<Rightarrow> machine kres" where
  "paging_map ps vaddr pa flags m =
     kbind (unsync_get_page_table_entry (pmem m ps) vaddr m) (\<lambda>(table_entry, m1).
       let fl = (flags OR 1) AND 0xFFF;
           paddr_i = pa AND ADDR_MASK;
           m2 = m1\<lparr>pmem := (pmem m1)(table_entry := paddr_i OR ucast fl)\<rparr>
       in Inr (invalidate_TLB vaddr m2))"

definition invalidate_paging_mapping :: "addr \<Rightarrow> addr \<Rightarrow> machine \<Rightarrow> machine kres" where
  "invalidate_paging_mapping ps vaddr m =
     kbind (unsync_get_page_table_entry (pmem m ps) vaddr m) (\<lambda>(table_entry, m1).
       let new_value = pmem m1 table_entry AND NOT PAGE_PRESENT
       in Inr (invalidate_TLB vaddr (m1\<lparr>pmem := (pmem m1)(table_entry := new_value)\<rparr>)))"

definition mmap_not_present :: PagingMapState where
  "mmap_not_present = \<lparr>paddr = 0, map_flags = 0, mmap_present = False\<rparr>"

definition get_physical_address :: "addr \<Rightarrow> addr \<Rightarrow> machine \<Rightarrow> PagingMapState" where
  "get_physical_address ps vaddr m =
     (let mem = pmem m;
          PML4e = mem (mem ps + 8 * PML4_index vaddr)
      in if PML4e AND PAGE_PRESENT = 0 then mmap_not_present
      else let PDPTe = mem ((PML4e AND ADDR_MASK) + 8 * PDPT_index vaddr)
      in if PDPTe AND PAGE_PRESENT = 0 then mmap_not_present
      else let PDTe = mem ((PDPTe AND ADDR_MASK) + 8 * PDT_index vaddr)
      in if PDTe AND PAGE_PRESENT = 0 then mmap_not_present
      else let page_table_entry = mem ((PDTe AND ADDR_MASK) + 8 * PT_index vaddr);
               fl = (ucast (page_table_entry AND 0xFFF) :: u16);
               p0 = page_table_entry AND ADDR_MASK;
               p1 = (if p0 AND 0x0000800000000000 \<noteq> 0 then p0 OR 0xFFFF000000000000 else p0)
      in if fl AND 1 = 0 then mmap_not_present\<lparr>paddr := p1, map_flags := fl\<rparr>
      else \<lparr>paddr = p1, map_flags = fl, mmap_present = True\<rparr>)"

text \<open>The loop over the 512 entries of a new root table; \<open>i\<close> counts up.\<close>

function fill_PML4 :: "u64 \<Rightarrow> addr \<Rightarrow> machine \<Rightarrow> machine kres" where
  "fill_PML4 i root m =
     (if i < 512 then kbind (link_new_table (root + 8 * i) m) (fill_PML4 (i + 1) root) else Inr m)"
  by pat_completeness auto
termination
proof (relation "measure (\<lambda>(i, root, m). 512 - unat i)")
  fix i :: u64 and root :: addr and m x :: machine
  assume "i < 512"
  then show "((i + 1, root, x), (i, root, m)) \<in> measure (\<lambda>(i, root, m). 512 - unat i)"
    by (simp add: word_less_nat_alt unat_add_u64)
qed simp

declare fill_PML4.simps [simp del]

definition create_empty_kernel_paging_structure :: "machine \<Rightarrow> (addr \<times> machine) kres" where
  "create_empty_kernel_paging_structure m =
     kbind (alloc_frame m) (\<lambda>(root, m1).
     kbind (fill_PML4 0 root (m1\<lparr>pmem := zero_page root (pmem m1)\<rparr>)) (\<lambda>m2.
     kbind (alloc_frame m2) (\<lambda>(ps, m3).
       Inr (ps, m3\<lparr>pmem := (init_paging_lock ps (pmem m3))(ps := root)\<rparr>))))"

text \<open>The indices of a table in the order of the loops over its entries.\<close>

definition table_indices :: "u64 list" where
  "table_indices = map of_nat [0 ..< 512]"

fun delete_map_table :: "nat \<Rightarrow> addr \<Rightarrow> machine \<Rightarrow> machine kres" where
  "delete_map_table 0 map_table m = Inr m"
| "delete_map_table (Suc l) map_table m =
     kbind (if l = 0 then Inr m
            else fold (\<lambda>i r. kbind r (\<lambda>m1.
                   if pmem m1 (map_table + 8 * i) AND PAGE_PRESENT \<noteq> 0
                   then delete_map_table l (pmem m1 (map_table + 8 * i) AND ADDR_MASK) m1
                   else Inr m1)) table_indices (Inr m)) (\<lambda>m2.
       dealloc_frame map_table m2)"

text \<open>The function returns before its first statement: nothing is deleted.\<close>

definition delete_paging_structure :: "addr \<Rightarrow> machine \<Rightarrow> machine" where
  "delete_paging_structure ps m = m"

text \<open>
  The copy loop with a bound on its iterations. A loop that is still running after
  \<open>size_bytes / PAGE_SIZE + 2\<close> iterations has wrapped its counter around and never ends.
\<close>

function copy_mapping_loop ::
  "u64 \<Rightarrow> u64 \<Rightarrow> addr \<Rightarrow> addr \<Rightarrow> addr \<Rightarrow> u16 \<Rightarrow> nat \<Rightarrow> machine \<Rightarrow> machine kres" where
  "copy_mapping_loop i size_bytes src dst vaddr new_flags 0 m = Inl Hang"
| "copy_mapping_loop i size_bytes src dst vaddr new_flags (Suc n) m =
     (if i < size_bytes
      then kbind (unsync_get_page_table_entry (pmem m src) vaddr m) (\<lambda>(src_entry, m1).
           kbind (unsync_get_page_table_entry (pmem m1 dst) vaddr m1) (\<lambda>(dst_entry, m2).
             let e = (if new_flags = 0 then pmem m2 src_entry
                      else (pmem m2 src_entry AND ADDR_MASK) OR ucast new_flags)
             in copy_mapping_loop (i + PAGE_SIZE) size_bytes src dst (vaddr + PAGE_SIZE) new_flags n
                  (m2\<lparr>pmem := (pmem m2)(dst_entry := e)\<rparr>)))
      else Inr m)"
  by pat_completeness auto
termination
  by (relation "measure (\<lambda>(i, size_bytes, src, dst, vaddr, new_flags, n, m). n)") auto

definition copy_paging_structure_mapping_no_page_invalidation ::
  "addr \<Rightarrow> addr \<Rightarrow> addr \<Rightarrow> u64 \<Rightarrow> u16 \<Rightarrow> machine \<Rightarrow> machine kres" where
  "copy_paging_structure_mapping_no_page_invalidation src dst start_vaddr size_bytes new_flags m =
     copy_mapping_loop 0 size_bytes src dst start_vaddr new_flags (unat size_bytes div 4096 + 2) m"

fun count_map_tables_frames :: "nat \<Rightarrow> memory \<Rightarrow> addr \<Rightarrow> u64 \<Rightarrow> u64" where
  "count_map_tables_frames 0 mem map_table counter = counter"
| "count_map_tables_frames (Suc l) mem map_table counter =
     (if l = 0 then counter
      else fold (\<lambda>i c.
             if mem (map_table + 8 * i) AND PAGE_PRESENT \<noteq> 0
             then count_map_tables_frames l mem (mem (map_table + 8 * i) AND ADDR_MASK) c
             else c) table_indices counter) + 1"

definition get_paging_mem_overhead :: "addr \<Rightarrow> machine \<Rightarrow> u64" where
  "get_paging_mem_overhead ps m = count_map_tables_frames 4 (pmem m) (pmem m ps) 0 * PAGE_SIZE"

section \<open>Addresses inside frames\<close>

lemma in_page_iff:
  assumes "page_aligned p"
  shows "a - p < 4096 \<longleftrightarrow> unat p \<le> unat a \<and> unat a < unat p + 4096"
proof -
  have "unat p + 4096 \<le> 18446744073709551616"
    using assms by (intro page_step) simp_all
  then show ?thesis
    by (auto simp: word_less_nat_alt word_le_nat_alt unat_sub_if_size word_size)
qed

lemma unat_entry:
  fixes t i :: u64
  assumes "page_aligned t" and "i < 512"
  shows "unat (t + 8 * i) = unat t + 8 * unat i"
proof -
  have "unat t + 4096 \<le> 18446744073709551616"
    using assms(1) by (intro page_step) simp_all
  moreover have "unat i < 512"
    using assms(2) by (simp add: word_less_nat_alt)
  ultimately have "unat t + 8 * unat i < 2 ^ 64"
    by simp
  from unat_offset [OF this] show ?thesis by simp
qed

lemma entry_in_page:
  fixes t p i :: u64
  assumes "page_aligned t" and "page_aligned p" and "i < 512"
  shows "t + 8 * i - p < 4096 \<longleftrightarrow> t = p"
proof -
  have i: "8 * unat i < 4096" using assms(3) by (simp add: word_less_nat_alt)
  show ?thesis
  proof
    assume "t + 8 * i - p < 4096"
    then have *: "unat p \<le> unat t + 8 * unat i" "unat t + 8 * unat i < unat p + 4096"
      using assms by (simp_all add: in_page_iff unat_entry)
    then have "\<not> unat t < unat p" "\<not> unat p < unat t"
      using page_step [OF assms(1,2)] page_step [OF assms(2,1)] i by linarith+
    then show "t = p" by (simp add: word_unat_eq_iff)
  next
    assume "t = p"
    then show "t + 8 * i - p < 4096"
      unfolding in_page_iff [OF assms(2)] using assms i by (simp add: unat_entry)
  qed
qed

lemma entry_inj:
  fixes t t' i j :: u64
  assumes "page_aligned t" and "page_aligned t'" and "i < 512" and "j < 512"
  shows "t + 8 * i = t' + 8 * j \<longleftrightarrow> t = t' \<and> i = j"
proof
  assume eq: "t + 8 * i = t' + 8 * j"
  then have "t = t'"
    using entry_in_page [OF assms(1,2,3)] entry_in_page [OF assms(2,2,4)] by simp
  moreover from this have "unat i = unat j"
    using eq unat_entry [OF assms(1,3)] unat_entry [OF assms(2,4)] by simp
  ultimately show "t = t' \<and> i = j" by (simp add: word_unat_eq_iff)
qed simp

section \<open>Bits of page table entries\<close>

declare bit_numeral_word_iff [simp del]

lemma addr_mask: "(0x0000FFFFFFFFF000 :: u64) = push_bit 12 (mask 36)"
  by (simp add: mask_eq_exp_minus_1 push_bit_eq_mult)

lemma bit_addr_mask: "bit (0x0000FFFFFFFFF000 :: u64) n \<longleftrightarrow> 12 \<le> n \<and> n < 48"
  unfolding addr_mask by (auto simp: bit_push_bit_iff bit_mask_iff)

lemma flag_mask: "(0xFFF :: u64) = mask 12"
  by (simp add: mask_eq_exp_minus_1)

lemma bit_flag_mask: "bit (0xFFF :: u64) n \<longleftrightarrow> n < 12"
  unfolding flag_mask by (auto simp: bit_mask_iff)

lemma page_aligned_bits: "page_aligned w \<longleftrightarrow> take_bit 12 w = 0"
proof -
  have "take_bit 12 w = w mod 4096"
    by (simp add: take_bit_eq_mod)
  then show ?thesis
    by (simp only: mod_page_unat)
qed

lemma mask_aligned [simp]: "page_aligned (w AND 0x0000FFFFFFFFF000)"
  unfolding page_aligned_bits
  by (rule bit_eqI) (auto simp: bit_take_bit_iff bit_and_iff bit_addr_mask)

definition frame48 :: "addr \<Rightarrow> bool" where
  "frame48 p \<longleftrightarrow> page_aligned p \<and> unat p < 2 ^ 48"

lemma mask_less: "unat (w AND 0x0000FFFFFFFFF000 :: u64) < 2 ^ 48"
proof -
  define x where "x = w AND 0x0000FFFFFFFFF000"
  have "take_bit 48 x = x"
    unfolding x_def by (rule bit_eqI) (auto simp: bit_take_bit_iff bit_and_iff bit_addr_mask)
  then have "unat x = unat (take_bit 48 x)" by (simp only:)
  also have "\<dots> = take_bit 48 (unat x)" by (rule unsigned_take_bit_eq)
  also have "\<dots> < 2 ^ 48" by (rule take_bit_nat_less_exp)
  finally show ?thesis by (simp only: x_def)
qed

lemma frame48_mask [simp]: "frame48 (w AND 0x0000FFFFFFFFF000)"
  by (simp only: frame48_def mask_aligned mask_less)

lemma frame48_bit:
  assumes "frame48 p" and n: "bit p n"
  shows "12 \<le> n \<and> n < 48"
proof -
  have t12: "take_bit 12 p = 0"
    using assms(1) by (simp add: frame48_def page_aligned_bits)
  have "12 \<le> n"
  proof (rule ccontr)
    assume "\<not> 12 \<le> n"
    with n have "bit (take_bit 12 p) n" by (simp add: bit_take_bit_iff)
    then show False unfolding t12 by simp
  qed
  moreover have "take_bit 48 p = p"
    using assms(1)
    by (intro word_unat_eq_iff [THEN iffD2]) (simp add: frame48_def unsigned_take_bit_eq take_bit_nat_eq_self)
  with n have "bit (take_bit 48 p) n" by simp
  then have "n < 48" by (simp add: bit_take_bit_iff)
  ultimately show ?thesis by simp
qed

lemma frame48_and_mask: "frame48 p \<Longrightarrow> p AND 0x0000FFFFFFFFF000 = p"
  by (rule bit_eqI) (auto simp: bit_and_iff bit_addr_mask dest: frame48_bit)

lemma link_entry:
  assumes "frame48 p"
  shows "(p OR 1 OR 2) AND 0x0000FFFFFFFFF000 = p" and "(p OR 1 OR 2) AND 1 \<noteq> 0"
proof -
  have b: "bit (2 :: u64) n \<longleftrightarrow> n = 1" "bit (1 :: u64) n \<longleftrightarrow> n = 0" for n
    by (auto simp: bit_2_iff bit_1_iff)
  show "(p OR 1 OR 2) AND 0x0000FFFFFFFFF000 = p"
  proof (rule bit_eqI)
    fix n
    show "bit ((p OR 1 OR 2) AND 0x0000FFFFFFFFF000) n = bit p n"
      unfolding bit_and_iff bit_or_iff bit_addr_mask b using frame48_bit [OF assms, of n] by auto
  qed
  have b0: "bit ((p OR 1 OR 2) AND 1) 0"
    unfolding bit_and_iff bit_or_iff b by simp
  show "(p OR 1 OR 2) AND 1 \<noteq> 0"
  proof
    assume "(p OR 1 OR 2) AND 1 = 0"
    with b0 have "bit (0 :: u64) 0" by (simp only:)
    then show False by simp
  qed
qed

section \<open>The tree of tables\<close>

text \<open>
  The table that a path of indices leads to from a root table, and the entry that the walk of an
  address ends in; an address whose walk stops early has the entry \<open>0\<close>.
\<close>

fun table_at :: "memory \<Rightarrow> addr \<Rightarrow> u64 list \<Rightarrow> addr option" where
  "table_at mem t [] = Some t"
| "table_at mem t (i # is) =
     (if mem (t + 8 * i) AND 1 = 0 then None else table_at mem (mem (t + 8 * i) AND 0x0000FFFFFFFFF000) is)"

definition pte :: "memory \<Rightarrow> addr \<Rightarrow> u64 list \<Rightarrow> u64 \<Rightarrow> u64" where
  "pte mem root path j = (case table_at mem root path of None \<Rightarrow> 0 | Some t \<Rightarrow> mem (t + 8 * j))"

definition valid_path :: "u64 list \<Rightarrow> bool" where
  "valid_path path \<longleftrightarrow> length path \<le> 3 \<and> (\<forall>i \<in> set path. i < 512)"

definition tables :: "memory \<Rightarrow> addr set \<Rightarrow> addr set" where
  "tables mem R = {t. \<exists>r \<in> R. \<exists>path. valid_path path \<and> table_at mem r path = Some t}"

text \<open>No table is reached twice, be it from two roots or over two paths.\<close>

definition tree_shape :: "memory \<Rightarrow> addr set \<Rightarrow> bool" where
  "tree_shape mem R \<longleftrightarrow>
     (\<forall>r \<in> R. \<forall>r' \<in> R. \<forall>path path' t. valid_path path \<and> valid_path path' \<and>
        table_at mem r path = Some t \<and> table_at mem r' path' = Some t \<longrightarrow> r = r' \<and> path = path')"

lemma table_at_snoc:
  "table_at mem r (path @ [i]) =
     (case table_at mem r path of
        None \<Rightarrow> None
      | Some t \<Rightarrow> if mem (t + 8 * i) AND 1 = 0 then None else Some (mem (t + 8 * i) AND 0x0000FFFFFFFFF000))"
  by (induction mem r path rule: table_at.induct) (auto split: option.splits)

declare table_at.simps(2) [simp del]

lemma valid_path_snoc [simp]: "valid_path (path @ [i]) \<longleftrightarrow> valid_path path \<and> length path \<le> 2 \<and> i < 512"
  by (auto simp: valid_path_def)

lemma valid_path_Nil [simp]: "valid_path []"
  by (simp add: valid_path_def)

lemma tablesI: "r \<in> R \<Longrightarrow> valid_path path \<Longrightarrow> table_at mem r path = Some t \<Longrightarrow> t \<in> tables mem R"
  by (auto simp: tables_def)

lemma tables_insert: "tables mem (insert r R) = tables mem {r} \<union> tables mem R"
  by (auto simp: tables_def)

lemma roots_tables: "R \<subseteq> tables mem R"
  by (auto intro!: tablesI [of _ R "[]"])

text \<open>Memory that agrees on all tables has the same tree.\<close>

lemma table_at_cong:
  assumes "\<And>t i. t \<in> tables mem R \<Longrightarrow> i < 512 \<Longrightarrow> mem' (t + 8 * i) = mem (t + 8 * i)"
    and "r \<in> R"
  shows "valid_path path \<Longrightarrow> table_at mem' r path = table_at mem r path"
proof (induction path rule: rev_induct)
  case (snoc i path)
  then show ?case
    using assms tablesI [OF assms(2), of path mem] by (auto simp: table_at_snoc split: option.splits)
qed simp

lemma tables_cong:
  assumes "\<And>t i. t \<in> tables mem R \<Longrightarrow> i < 512 \<Longrightarrow> mem' (t + 8 * i) = mem (t + 8 * i)"
  shows "tables mem' R = tables mem R" and "tree_shape mem' R = tree_shape mem R"
    and "r \<in> R \<Longrightarrow> valid_path path \<Longrightarrow> j < 512 \<Longrightarrow> pte mem' r path j = pte mem r path j"
proof -
  have eq: "table_at mem' r path = table_at mem r path" if "r \<in> R" "valid_path path" for r path
    using table_at_cong [of mem R mem', OF assms] that by blast
  show "tables mem' R = tables mem R"
    unfolding tables_def using eq by (metis (no_types, lifting))
  show "tree_shape mem' R = tree_shape mem R"
    unfolding tree_shape_def using eq by (metis (no_types, lifting))
  show "pte mem' r path j = pte mem r path j" if "r \<in> R" "valid_path path" "j < 512"
    using that eq tablesI [of r R path mem] assms by (auto simp: pte_def split: option.splits)
qed

text \<open>
  A new, zeroed table \<open>p\<close> is linked into the free entry \<open>i\<close> of the table \<open>t\<close>.
\<close>

definition table_link ::
  "memory \<Rightarrow> memory \<Rightarrow> addr set \<Rightarrow> addr \<Rightarrow> u64 list \<Rightarrow> addr \<Rightarrow> addr \<Rightarrow> u64 \<Rightarrow> bool" where
  "table_link mem mem' R r path t p i \<longleftrightarrow>
     tree_shape mem R \<and> (\<forall>t \<in> tables mem R. page_aligned t) \<and>
     r \<in> R \<and> valid_path path \<and> length path \<le> 2 \<and> table_at mem r path = Some t \<and>
     i < 512 \<and> mem (t + 8 * i) AND 1 = 0 \<and> frame48 p \<and> p \<notin> tables mem R \<and>
     mem' = (zero_page p mem)(t + 8 * i := p OR 1 OR 2)"

lemma table_link_read:
  assumes L: "table_link mem mem' R r path t p i"
  shows "t \<in> tables mem R"
    and "t' \<in> tables mem R \<Longrightarrow> j < 512 \<Longrightarrow> t' \<noteq> t \<or> j \<noteq> i \<Longrightarrow> mem' (t' + 8 * j) = mem (t' + 8 * j)"
    and "mem' (t + 8 * i) = p OR 1 OR 2"
    and "j < 512 \<Longrightarrow> mem' (p + 8 * j) = 0"
proof -
  have p: "page_aligned p" and upd: "mem' = (zero_page p mem)(t + 8 * i := p OR 1 OR 2)"
    and i: "i < 512" and fresh: "p \<notin> tables mem R"
    using L by (simp_all add: table_link_def frame48_def)
  have aligned: "page_aligned t" if "t \<in> tables mem R" for t
    using L that by (simp add: table_link_def)
  show tt: "t \<in> tables mem R"
    using L by (auto simp: table_link_def intro: tablesI)
  show "mem' (t + 8 * i) = p OR 1 OR 2"
    by (simp add: upd)
  show "mem' (t' + 8 * j) = mem (t' + 8 * j)"
    if "t' \<in> tables mem R" "j < 512" "t' \<noteq> t \<or> j \<noteq> i"
  proof -
    have "t' \<noteq> p" using that(1) fresh by auto
    then show ?thesis
      using that aligned tt i p by (auto simp: upd zero_page_def entry_in_page entry_inj)
  qed
  show "mem' (p + 8 * j) = 0" if j: "j < 512"
  proof -
    have "t \<noteq> p" using tt fresh by auto
    then have "p + 8 * j \<noteq> t + 8 * i"
      using p j i aligned [OF tt] by (simp add: entry_inj)
    then show ?thesis
      using entry_in_page [OF p p j] by (simp add: upd zero_page_def)
  qed
qed

lemma table_at_link:
  assumes L: "table_link mem mem' R r path t p i" and q: "q \<in> R"
  shows "valid_path path' \<Longrightarrow>
   table_at mem' q path' =
     (if q = r \<and> path' = path @ [i] then Some p
      else if q = r \<and> prefix (path @ [i]) path' then None
      else table_at mem q path')"
proof (induction path' rule: rev_induct)
  case (snoc j path')
  have v: "valid_path path'" "j < 512" using snoc.prems by auto
  note IH = snoc.IH [OF v(1)]
  note read = table_link_read [OF L]
  have t: "table_at mem r path = Some t" and absent: "mem (t + 8 * i) AND 1 = 0"
    and frame: "frame48 p" and shape: "tree_shape mem R" and r: "r \<in> R" "valid_path path"
    using L by (simp_all add: table_link_def)
  consider "q = r" "path' = path" | "q = r" "prefix (path @ [i]) path'"
    | "\<not> (q = r \<and> path' = path)" "\<not> (q = r \<and> prefix (path @ [i]) path')" by blast
  then show ?case
  proof cases
    case 1
    then have "table_at mem' q path' = Some t"
      using IH t by (simp add: prefix_def)
    then show ?thesis
      using 1 v(2) t link_entry [OF frame] read(1,3) read(2) [of t j] absent
      by (cases "j = i") (simp_all add: table_at_snoc)
  next
    case 2
    then have "table_at mem' q path' = (if path' = path @ [i] then Some p else None)"
      using IH by simp
    then show ?thesis
      using 2 read(4) v(2) by (auto simp: table_at_snoc prefix_snoc)
  next
    case 3
    have "mem' (s + 8 * j) = mem (s + 8 * j)" if s: "table_at mem q path' = Some s" for s
    proof -
      have "s \<noteq> t"
        using shape 3(1) s t q r v(1) unfolding tree_shape_def by blast
      then show ?thesis
        using s tablesI [OF q v(1)] v(2) by (intro read(2)) auto
    qed
    moreover have "table_at mem' q path' = table_at mem q path'"
      using IH 3 by auto
    ultimately show ?thesis
      using 3 by (auto simp: table_at_snoc prefix_snoc split: option.splits)
  qed
qed (simp add: prefix_def)

text \<open>The effect of a link on the whole forest: one table more, no entry changed.\<close>

lemma table_link_facts:
  assumes L: "table_link mem mem' R r path t p i"
  shows "q \<in> R \<Longrightarrow> valid_path path' \<Longrightarrow>
      table_at mem' q path' = (if q = r \<and> path' = path @ [i] then Some p else table_at mem q path')"
    and "tables mem' R = insert p (tables mem R)"
    and "tree_shape mem' R"
    and "q \<in> R \<Longrightarrow> valid_path path' \<Longrightarrow> length path' = 3 \<Longrightarrow> j < 512 \<Longrightarrow>
      pte mem' q path' j = pte mem q path' j"
proof -
  note read = table_link_read [OF L]
  have t: "table_at mem r path = Some t" and absent: "mem (t + 8 * i) AND 1 = 0"
    and shape: "tree_shape mem R" and r: "r \<in> R" "valid_path path" "length path \<le> 2" "i < 512"
    and fresh: "p \<notin> tables mem R"
    using L by (simp_all add: table_link_def)
  have none: "table_at mem r path' = None" if "prefix (path @ [i]) path'" for path'
    using that
  proof (induction path' rule: rev_induct)
    case (snoc j path')
    then show ?case
      using t absent by (cases "path' @ [j] = path @ [i]") (auto simp: table_at_snoc)
  qed (simp add: prefix_def)
  show at: "table_at mem' q path' = (if q = r \<and> path' = path @ [i] then Some p else table_at mem q path')"
    if "q \<in> R" "valid_path path'" for q path'
    using table_at_link [OF L that] none [of path'] by auto
  have vp: "valid_path (path @ [i])" using r by simp
  show tabs: "tables mem' R = insert p (tables mem R)"
  proof (intro set_eqI iffI)
    fix s assume "s \<in> tables mem' R"
    then show "s \<in> insert p (tables mem R)"
      by (auto simp: tables_def at split: if_splits)
  next
    fix s assume "s \<in> insert p (tables mem R)"
    then show "s \<in> tables mem' R"
    proof
      assume "s = p"
      then show ?thesis using at [OF r(1) vp] tablesI [OF r(1) vp, of mem' p] by simp
    next
      assume "s \<in> tables mem R"
      then obtain q path' where q: "q \<in> R" "valid_path path'" "table_at mem q path' = Some s"
        by (auto simp: tables_def)
      then have "table_at mem' q path' = Some s"
        using at [OF q(1,2)] none [of "path @ [i]"] by auto
      with q show ?thesis by (auto intro: tablesI)
    qed
  qed
  have notp: "table_at mem q path' \<noteq> Some p" if "q \<in> R" "valid_path path'" for q path'
    using fresh tablesI [OF that] by blast
  show "tree_shape mem' R"
    unfolding tree_shape_def
  proof (intro ballI allI impI)
    fix a b pa pb s
    assume ab: "a \<in> R" "b \<in> R"
      and as: "valid_path pa \<and> valid_path pb \<and> table_at mem' a pa = Some s \<and> table_at mem' b pb = Some s"
    then show "a = b \<and> pa = pb"
      using at [OF ab(1), of pa] at [OF ab(2), of pb] notp [of a pa] notp [of b pb] shape
      unfolding tree_shape_def by (metis option.inject)
  qed
  show "pte mem' q path' j = pte mem q path' j"
    if q: "q \<in> R" "valid_path path'" and len: "length path' = 3" and j: "j < 512"
  proof (cases "q = r \<and> path' = path @ [i]")
    case True
    then show ?thesis
      using at [OF q] none [of path'] read(4) [OF j] by (auto simp: pte_def)
  next
    case False
    have "mem' (s + 8 * j) = mem (s + 8 * j)" if s: "table_at mem q path' = Some s" for s
    proof -
      have "path' \<noteq> path" using len r(3) by auto
      then have "s \<noteq> t"
        using shape s t q r(1,2) unfolding tree_shape_def by blast
      then show ?thesis
        using s tablesI [OF q] j by (intro read(2)) auto
    qed
    then show ?thesis
      using False at [OF q] by (auto simp: pte_def split: option.splits)
  qed
qed

section \<open>Invariants of the paging structures\<close>

text \<open>
  A frame in use: page aligned, not free, and outside the area of the frame stack. The tables of a
  set of roots form a forest of frames in use.
\<close>

definition frame_ok :: "machine \<Rightarrow> addr \<Rightarrow> bool" where
  "frame_ok m f \<longleftrightarrow> page_aligned f \<and> unat f \<notin> free_set m \<and>
     outside_stack (frame_stack (frame_allocator m)) (unat f)"

definition pt_inv :: "addr set \<Rightarrow> machine \<Rightarrow> bool" where
  "pt_inv R m \<longleftrightarrow> tree_shape (pmem m) R \<and> (\<forall>t \<in> tables (pmem m) R. frame_ok m t)"

definition phys48 :: "nat set \<Rightarrow> bool" where
  "phys48 U \<longleftrightarrow> (\<forall>u \<in> U. u < 2 ^ 48)"

text \<open>
  What building tables may do, with at most \<open>k\<close> new frames: no translation changes, tables stay
  where they are, frames in use elsewhere keep their contents.
\<close>

definition tables_grow :: "addr set \<Rightarrow> nat \<Rightarrow> machine \<Rightarrow> machine \<Rightarrow> bool" where
  "tables_grow R k m m' \<longleftrightarrow>
     (\<forall>r \<in> R. \<forall>path j. valid_path path \<and> length path = 3 \<and> j < 512 \<longrightarrow>
        pte (pmem m') r path j = pte (pmem m) r path j) \<and>
     (\<forall>r \<in> R. \<forall>path t. valid_path path \<and> table_at (pmem m) r path = Some t \<longrightarrow>
        table_at (pmem m') r path = Some t) \<and>
     (\<forall>f. frame_ok m f \<longrightarrow> frame_ok m' f) \<and>
     (\<forall>f. frame_ok m f \<and> f \<notin> tables (pmem m) R \<longrightarrow>
        f \<notin> tables (pmem m') R \<and> (\<forall>a. a - f < 4096 \<longrightarrow> pmem m' a = pmem m a)) \<and>
     free_set m' \<subseteq> free_set m \<and> card (free_set m) \<le> card (free_set m') + k \<and>
     m' = m\<lparr>pmem := pmem m', frame_allocator := frame_allocator m'\<rparr>"

lemma tables_grow_refl: "tables_grow R 0 m m"
  by (simp add: tables_grow_def)

lemma tables_grow_trans:
  assumes "tables_grow R k m1 m2" and "tables_grow R l m2 m3"
  shows "tables_grow R (k + l) m1 m3"
proof -
  obtain a b where "m2 = m1\<lparr>pmem := a, frame_allocator := b\<rparr>"
    using assms(1) unfolding tables_grow_def by blast
  moreover obtain c d where "m3 = m2\<lparr>pmem := c, frame_allocator := d\<rparr>"
    using assms(2) unfolding tables_grow_def by blast
  ultimately have "m3 = m1\<lparr>pmem := pmem m3, frame_allocator := frame_allocator m3\<rparr>"
    by simp
  then show ?thesis
    using assms unfolding tables_grow_def by auto
qed

lemma new_frame_facts:
  assumes inv: "fa_inv U m" and phys: "phys48 U" and res: "alloc_frame m = Inr (p, m1)"
  shows "frame48 p" and "fa_inv U m1" and "pmem m1 = pmem m" and "frame_ok m1 p" and "\<not> frame_ok m p"
    and "\<And>f. frame_ok m f \<Longrightarrow> frame_ok m1 f"
    and "free_set m1 = free_set m - {unat p}"
    and "m1 = m\<lparr>frame_allocator := frame_allocator m1\<rparr>"
    and "finite (free_set m)" and "unat p \<in> free_set m"
proof -
  note af = alloc_frame_facts [OF inv res]
  have p: "unat p \<in> U" using af(2) fas.avail_managed [OF inv] by blast
  then show "frame48 p"
    using inv phys by (auto simp: fa_inv_def fa_ok_def frames_ok_def frame48_def phys48_def)
  show "fa_inv U m1" "free_set m1 = free_set m - {unat p}" "m1 = m\<lparr>frame_allocator := frame_allocator m1\<rparr>"
    "unat p \<in> free_set m"
    using af by simp_all
  show "pmem m1 = pmem m" by (subst af(4)) simp
  show "finite (free_set m)" by (simp add: free_set_def fa_free_def)
  show "frame_ok m1 p"
    using p \<open>frame48 p\<close> af(3) managed_outside_stack [OF af(1) p] by (simp add: frame_ok_def frame48_def)
  show "\<not> frame_ok m p"
    using af(2) by (simp add: frame_ok_def)
  show "frame_ok m1 f" if "frame_ok m f" for f
    using that af(3) alloc_frame_stack_area [OF res] by (simp add: frame_ok_def outside_stack_def)
qed

text \<open>Frames in use stay so when memory is written outside the frame stack.\<close>

lemma frame_ok_write:
  assumes "fa_inv U m" and "outside_stack (frame_stack (frame_allocator m)) u"
    and "\<And>a. \<not> (u \<le> unat a \<and> unat a < u + 4096) \<Longrightarrow> mem' a = pmem m a"
  shows "frame_ok (m\<lparr>pmem := mem'\<rparr>) f \<longleftrightarrow> frame_ok m f"
  using fa_inv_write(2) [OF assms] by (simp add: frame_ok_def)

lemma write_cell:
  fixes v :: u64
  assumes inv: "fa_inv U m" and t: "frame_ok m t" and j: "j < 512"
  defines "m' \<equiv> m\<lparr>pmem := (pmem m)(t + 8 * j := v)\<rparr>"
  shows "fa_inv U m'" and "free_set m' = free_set m" and "frame_ok m' f \<longleftrightarrow> frame_ok m f"
proof -
  have t': "page_aligned t" "outside_stack (frame_stack (frame_allocator m)) (unat t)"
    using t by (simp_all add: frame_ok_def)
  have same: "((pmem m)(t + 8 * j := v)) a = pmem m a" if "\<not> (unat t \<le> unat a \<and> unat a < unat t + 4096)" for a
    using that unat_entry [OF t'(1) j] j by (auto simp: word_less_nat_alt)
  show "fa_inv U m'"
    unfolding m'_def using inv t'(2) same by (rule fa_inv_write(1))
  show "free_set m' = free_set m"
    unfolding m'_def using inv t'(2) same by (rule fa_inv_write(2))
  show "frame_ok m' f \<longleftrightarrow> frame_ok m f"
    unfolding m'_def using inv t'(2) same by (rule frame_ok_write)
qed

lemma zero_frame:
  assumes inv: "fa_inv U m" and p: "frame_ok m p"
  defines "m' \<equiv> m\<lparr>pmem := zero_page p (pmem m)\<rparr>"
  shows "fa_inv U m'" and "free_set m' = free_set m" and "frame_ok m' f \<longleftrightarrow> frame_ok m f"
proof -
  have p': "page_aligned p" "outside_stack (frame_stack (frame_allocator m)) (unat p)"
    using p by (simp_all add: frame_ok_def)
  have same: "zero_page p (pmem m) a = pmem m a" if "\<not> (unat p \<le> unat a \<and> unat a < unat p + 4096)" for a
    using that by (auto simp: zero_page_def in_page_iff [OF p'(1)])
  show "fa_inv U m'"
    unfolding m'_def using inv p'(2) same by (rule fa_inv_write(1))
  show "free_set m' = free_set m"
    unfolding m'_def using inv p'(2) same by (rule fa_inv_write(2))
  show "frame_ok m' f \<longleftrightarrow> frame_ok m f"
    unfolding m'_def using inv p'(2) same by (rule frame_ok_write)
qed

lemma link_new_table_facts:
  assumes inv: "fa_inv U m" and pt: "pt_inv R m" and phys: "phys48 U"
    and r: "r \<in> R" "valid_path path" "length path \<le> 2" "table_at (pmem m) r path = Some t"
    and i: "i < 512" "pmem m (t + 8 * i) AND 1 = 0"
    and res: "link_new_table (t + 8 * i) m = Inr m'"
  shows "fa_inv U m'" and "pt_inv R m'" and "tables_grow R 1 m m'"
    and "\<exists>p. table_at (pmem m') r (path @ [i]) = Some p"
    and "pmem m' (t + 8 * i) AND 1 \<noteq> 0"
    and "q \<in> R \<Longrightarrow> valid_path path' \<Longrightarrow> q \<noteq> r \<or> path' \<noteq> path @ [i] \<Longrightarrow>
      table_at (pmem m') q path' = table_at (pmem m) q path'"
proof -
  obtain p m1 where a: "alloc_frame m = Inr (p, m1)"
    and m'0: "m' = m1\<lparr>pmem := (zero_page (p AND 0x0000FFFFFFFFF000) (pmem m1))
        (t + 8 * i := (p AND 0x0000FFFFFFFFF000) OR 1 OR 2)\<rparr>"
    using res by (auto simp: link_new_table_def kbind_Inr_iff Let_def)
  note nf = new_frame_facts [OF inv phys a]
  have m': "m' = m1\<lparr>pmem := (zero_page p (pmem m))(t + 8 * i := p OR 1 OR 2)\<rparr>"
    using m'0 by (simp only: frame48_and_mask [OF nf(1)] nf(3))
  let ?mz = "m1\<lparr>pmem := zero_page p (pmem m1)\<rparr>"
  have tt: "t \<in> tables (pmem m) R" using r by (auto intro: tablesI)
  have ok_t: "frame_ok m t" and fresh: "p \<notin> tables (pmem m) R"
    and al: "\<forall>t \<in> tables (pmem m) R. page_aligned t" and shape: "tree_shape (pmem m) R"
    using pt tt nf(5) by (auto simp: pt_inv_def frame_ok_def)
  have L: "table_link (pmem m) (pmem m') R r path t p i"
    using r i nf(1) fresh al shape by (simp add: table_link_def m')
  note zf = zero_frame [OF nf(2) nf(4)]
  have m'z: "m' = ?mz\<lparr>pmem := (pmem ?mz)(t + 8 * i := p OR 1 OR 2)\<rparr>"
    by (simp add: m' nf(3))
  have okz: "frame_ok ?mz t" using zf(3) nf(6) [OF ok_t] by simp
  note wc = write_cell [OF zf(1) okz i(1), of "p OR 1 OR 2", folded m'z]
  show "fa_inv U m'" by (rule wc(1))
  have ok: "frame_ok m' f \<longleftrightarrow> frame_ok m1 f" for f
    using wc(3) zf(3) by simp
  note lf = table_link_facts [OF L]
  show "pt_inv R m'"
    using pt nf(4,6) ok lf(2,3) by (auto simp: pt_inv_def)
  show "\<exists>p. table_at (pmem m') r (path @ [i]) = Some p"
    using lf(1) [OF r(1), of "path @ [i]"] r i by simp
  show "table_at (pmem m') q path' = table_at (pmem m) q path'"
    if "q \<in> R" "valid_path path'" "q \<noteq> r \<or> path' \<noteq> path @ [i]" for q path'
    using lf(1) [OF that(1,2)] that(3) by auto
  show "pmem m' (t + 8 * i) AND 1 \<noteq> 0"
    using link_entry(2) [OF nf(1)] by (simp add: m')
  have fs: "free_set m' = free_set m - {unat p}"
    using wc(2) zf(2) nf(7) by simp
  have "card (free_set m) = Suc (card (free_set m'))"
    unfolding fs by (rule card_Suc_Diff1 [OF nf(9,10), symmetric])
  moreover have "\<forall>a. a - f < 4096 \<longrightarrow> pmem m' a = pmem m a"
    if "frame_ok m f" "f \<notin> tables (pmem m) R" for f
  proof (intro allI impI)
    fix a assume a: "a - f < 4096"
    have "f \<noteq> p" "f \<noteq> t" using that nf(5) tt by auto
    moreover have al: "page_aligned f" "page_aligned p" "page_aligned t"
      using that ok_t nf(1) by (simp_all add: frame_ok_def frame48_def)
    ultimately have "a \<noteq> t + 8 * i" "\<not> a - p < 4096"
      using a entry_in_page [OF al(3,1) i(1)] page_step [OF al(1,2)] page_step [OF al(2,1)]
      by (auto simp: in_page_iff word_unat_eq_iff neq_iff)
    then show "pmem m' a = pmem m a" by (simp add: m' zero_page_def)
  qed
  moreover have "table_at (pmem m') q path' = Some s"
    if "q \<in> R" "valid_path path'" "table_at (pmem m) q path' = Some s" for q path' s
    using lf(1) [OF that(1,2)] that r(4) i(2) by (auto simp: table_at_snoc)
  moreover have "m' = m\<lparr>pmem := pmem m', frame_allocator := frame_allocator m'\<rparr>"
  proof -
    obtain fa where "m1 = m\<lparr>frame_allocator := fa\<rparr>" using nf(8) by blast
    then show ?thesis by (simp add: m')
  qed
  moreover have "f \<notin> tables (pmem m') R" if "frame_ok m f" "f \<notin> tables (pmem m) R" for f
    using that lf(2) nf(5) by auto
  moreover have "frame_ok m' f" if "frame_ok m f" for f
    using that ok nf(6) by simp
  ultimately show "tables_grow R 1 m m'"
    using lf(4) fs unfolding tables_grow_def by (intro conjI) (simp_all, blast)
qed

lemma walk_level_facts:
  assumes inv: "fa_inv U m" and pt: "pt_inv R m" and phys: "phys48 U"
    and r: "r \<in> R" "valid_path path" "length path \<le> 2" "table_at (pmem m) r path = Some t"
    and i: "i < 512" and res: "walk_level (t + 8 * i) m = Inr (s, m')"
  shows "fa_inv U m'" and "pt_inv R m'" and "tables_grow R 1 m m'"
    and "table_at (pmem m') r (path @ [i]) = Some s"
proof -
  have "fa_inv U m' \<and> pt_inv R m' \<and> tables_grow R 1 m m' \<and> table_at (pmem m') r (path @ [i]) = Some s"
  proof (cases "pmem m (t + 8 * i) AND 1 = 0")
    case True
    then have l: "link_new_table (t + 8 * i) m = Inr m'" and s: "s = pmem m' (t + 8 * i) AND 0x0000FFFFFFFFF000"
      using res by (auto simp: walk_level_def kbind_Inr_iff)
    note lf = link_new_table_facts [OF inv pt phys r i True l]
    have "table_at (pmem m') r path = Some t"
      using lf(3) r by (auto simp: tables_grow_def)
    with lf s show ?thesis
      by (simp add: table_at_snoc)
  next
    case False
    then have "m' = m" "s = pmem m (t + 8 * i) AND 0x0000FFFFFFFFF000"
      using res by (auto simp: walk_level_def)
    with False inv pt r show ?thesis
      using tables_grow_refl [of R m] by (auto simp: table_at_snoc tables_grow_def)
  qed
  then show "fa_inv U m'" and "pt_inv R m'" and "tables_grow R 1 m m'"
    and "table_at (pmem m') r (path @ [i]) = Some s" by blast+
qed

lemma walk_level_progress:
  assumes "fa_inv U m" and "hal_arch_initialized m" and "free_set m \<noteq> {}"
  shows "\<exists>s m'. walk_level e m = Inr (s, m')"
  using alloc_frame_progress [OF assms] by (auto simp: walk_level_def link_new_table_def Let_def)

definition walk_path :: "addr \<Rightarrow> u64 list" where
  "walk_path v = [PML4_index v, PDPT_index v, PDT_index v]"

lemma and_511_less: "(w :: u64) AND 0x1FF < 512"
proof -
  have "w AND 0x1FF = take_bit 9 w"
    by (simp add: take_bit_eq_mask mask_eq_exp_minus_1)
  then have "unat (w AND 0x1FF) = take_bit 9 (unat w)"
    by (simp only: unsigned_take_bit_eq)
  also have "\<dots> < 2 ^ 9"
    by (rule take_bit_nat_less_exp)
  finally show ?thesis
    by (simp add: word_less_nat_alt)
qed

lemma index_less [simp]:
  "PML4_index v < 512" "PDPT_index v < 512" "PDT_index v < 512" "PT_index v < 512"
  by (simp_all only: PML4_index_def PDPT_index_def PDT_index_def PT_index_def and_511_less)

lemma walk_path_valid [simp]: "valid_path (walk_path v)" "length (walk_path v) = 3"
  by (simp_all add: walk_path_def valid_path_def)

lemma walk_levels:
  assumes "fa_inv U m" and "pt_inv R m" and "phys48 U" and "r \<in> R"
  shows walk_root: "walk_level (r + 8 * PML4_index v) m = Inr (s, m') \<Longrightarrow>
      fa_inv U m' \<and> pt_inv R m' \<and> tables_grow R 1 m m' \<and> table_at (pmem m') r [PML4_index v] = Some s"
    and walk_PDPT: "table_at (pmem m) r [PML4_index v] = Some t \<Longrightarrow>
      walk_level (t + 8 * PDPT_index v) m = Inr (s, m') \<Longrightarrow>
      fa_inv U m' \<and> pt_inv R m' \<and> tables_grow R 1 m m' \<and>
      table_at (pmem m') r [PML4_index v, PDPT_index v] = Some s"
    and walk_PDT: "table_at (pmem m) r [PML4_index v, PDPT_index v] = Some t \<Longrightarrow>
      walk_level (t + 8 * PDT_index v) m = Inr (s, m') \<Longrightarrow>
      fa_inv U m' \<and> pt_inv R m' \<and> tables_grow R 1 m m' \<and>
      table_at (pmem m') r (walk_path v) = Some s"
proof -
  note facts = walk_level_facts [OF assms]
  have v: "valid_path [PML4_index v]" "valid_path [PML4_index v, PDPT_index v]"
    by (simp_all add: valid_path_def)
  show "fa_inv U m' \<and> pt_inv R m' \<and> tables_grow R 1 m m' \<and> table_at (pmem m') r [PML4_index v] = Some s"
    if "walk_level (r + 8 * PML4_index v) m = Inr (s, m')"
    using facts [of "[]" r "PML4_index v" s m'] that by simp
  show "fa_inv U m' \<and> pt_inv R m' \<and> tables_grow R 1 m m' \<and>
      table_at (pmem m') r [PML4_index v, PDPT_index v] = Some s"
    if "table_at (pmem m) r [PML4_index v] = Some t" "walk_level (t + 8 * PDPT_index v) m = Inr (s, m')"
    using facts [OF v(1) _ that(1) _ that(2)] by simp
  show "fa_inv U m' \<and> pt_inv R m' \<and> tables_grow R 1 m m' \<and> table_at (pmem m') r (walk_path v) = Some s"
    if "table_at (pmem m) r [PML4_index v, PDPT_index v] = Some t"
      "walk_level (t + 8 * PDT_index v) m = Inr (s, m')"
    using facts [OF v(2) _ that(1) _ that(2)] by (simp add: walk_path_def)
qed

lemma tables_grow_hal: "tables_grow R k m m' \<Longrightarrow> hal_arch_initialized m' = hal_arch_initialized m"
proof -
  assume "tables_grow R k m m'"
  then have "m' = m\<lparr>pmem := pmem m', frame_allocator := frame_allocator m'\<rparr>"
    by (simp add: tables_grow_def)
  then show ?thesis
    by (rule ssubst) simp
qed

lemma tables_grow_card: "tables_grow R k m m' \<Longrightarrow> card (free_set m) \<le> card (free_set m') + k"
  by (simp add: tables_grow_def)

lemma entry_facts:
  assumes inv: "fa_inv U m" and pt: "pt_inv R m" and phys: "phys48 U" and r: "r \<in> R"
    and res: "unsync_get_page_table_entry r v m = Inr (e, m')"
  obtains t where "e = t + 8 * PT_index v" and "table_at (pmem m') r (walk_path v) = Some t"
    and "fa_inv U m'" and "pt_inv R m'" and "tables_grow R 3 m m'"
proof -
  obtain t3 m1 t2 m2 t1 where w:
      "walk_level (r + 8 * PML4_index v) m = Inr (t3, m1)"
      "walk_level (t3 + 8 * PDPT_index v) m1 = Inr (t2, m2)"
      "walk_level (t2 + 8 * PDT_index v) m2 = Inr (t1, m')"
    and e: "e = t1 + 8 * PT_index v"
    using res by (auto simp: unsync_get_page_table_entry_def kbind_Inr_iff)
  have w1: "fa_inv U m1" "pt_inv R m1" "tables_grow R 1 m m1" "table_at (pmem m1) r [PML4_index v] = Some t3"
    using walk_root [OF inv pt phys r w(1)] by blast+
  have w2: "fa_inv U m2" "pt_inv R m2" "tables_grow R 1 m1 m2"
      "table_at (pmem m2) r [PML4_index v, PDPT_index v] = Some t2"
    using walk_PDPT [OF w1(1,2) phys r w1(4) w(2)] by blast+
  have w3: "fa_inv U m'" "pt_inv R m'" "tables_grow R 1 m2 m'" "table_at (pmem m') r (walk_path v) = Some t1"
    using walk_PDT [OF w2(1,2) phys r w2(4) w(3)] by blast+
  have "tables_grow R (1 + 1 + 1) m m'"
    using w1(3) w2(3) w3(3) by (blast intro: tables_grow_trans)
  then show thesis
    using that [of t1] e w3 by (simp add: numeral_3_eq_3)
qed

lemma entry_progress:
  assumes inv: "fa_inv U m" and pt: "pt_inv R m" and phys: "phys48 U" and r: "r \<in> R"
    and h: "hal_arch_initialized m" and frames: "3 \<le> card (free_set m)"
  shows "\<exists>e m'. unsync_get_page_table_entry r v m = Inr (e, m')"
proof -
  have "free_set m \<noteq> {}" using frames by auto
  then obtain t3 m1 where w1: "walk_level (r + 8 * PML4_index v) m = Inr (t3, m1)"
    using walk_level_progress [OF inv h] by blast
  then have f1: "fa_inv U m1" "pt_inv R m1" "tables_grow R 1 m m1" "table_at (pmem m1) r [PML4_index v] = Some t3"
    using walk_root [OF inv pt phys r] by blast+
  have "2 \<le> card (free_set m1)"
    using tables_grow_card [OF f1(3)] frames by simp
  then have "free_set m1 \<noteq> {}" by auto
  then obtain t2 m2 where w2: "walk_level (t3 + 8 * PDPT_index v) m1 = Inr (t2, m2)"
    using walk_level_progress [OF f1(1)] tables_grow_hal [OF f1(3)] h by blast
  then have f2: "fa_inv U m2" "tables_grow R 1 m1 m2"
    using walk_PDPT [OF f1(1,2) phys r f1(4)] by blast+
  have "1 \<le> card (free_set m2)"
    using tables_grow_card [OF f2(2)] \<open>2 \<le> card (free_set m1)\<close> by simp
  then have "free_set m2 \<noteq> {}" by auto
  moreover have "hal_arch_initialized m2"
    using tables_grow_hal [OF f1(3)] tables_grow_hal [OF f2(2)] h by simp
  ultimately show ?thesis
    using walk_level_progress [OF f2(1), of "t2 + 8 * PDT_index v"] w1 w2
    by (auto simp: unsync_get_page_table_entry_def)
qed

section \<open>The mapping of a paging structure\<close>

text \<open>
  The abstract state of a paging structure: the page table entry of every virtual page. Every
  operation below is a pointwise update of it.
\<close>

definition mapping :: "machine \<Rightarrow> addr \<Rightarrow> addr \<Rightarrow> u64" where
  "mapping m ps v = pte (pmem m) (pmem m ps) (walk_path v) (PT_index v)"

definition pg_inv :: "addr set \<Rightarrow> machine \<Rightarrow> bool" where
  "pg_inv S m \<longleftrightarrow>
     pt_inv (pmem m ` S) m \<and> inj_on (pmem m) S \<and>
     (\<forall>ps \<in> S. frame_ok m ps \<and> ps \<notin> tables (pmem m) (pmem m ` S))"

lemma bit_index:
  "bit (PML4_index v) n \<longleftrightarrow> n < 9 \<and> bit v (n + 39)"
  "bit (PDPT_index v) n \<longleftrightarrow> n < 9 \<and> bit v (n + 30)"
  "bit (PDT_index v) n \<longleftrightarrow> n < 9 \<and> bit v (n + 21)"
  "bit (PT_index v) n \<longleftrightarrow> n < 9 \<and> bit v (n + 12)"
  "bit (page_number v) n \<longleftrightarrow> n < 36 \<and> bit v (n + 12)"
proof -
  have m: "(0x1FF :: u64) = mask 9" "(0xFFFFFFFFF :: u64) = mask 36"
    by (simp_all add: mask_eq_exp_minus_1)
  show "bit (PML4_index v) n \<longleftrightarrow> n < 9 \<and> bit v (n + 39)"
    "bit (PDPT_index v) n \<longleftrightarrow> n < 9 \<and> bit v (n + 30)"
    "bit (PDT_index v) n \<longleftrightarrow> n < 9 \<and> bit v (n + 21)"
    "bit (PT_index v) n \<longleftrightarrow> n < 9 \<and> bit v (n + 12)"
    "bit (page_number v) n \<longleftrightarrow> n < 36 \<and> bit v (n + 12)"
    unfolding PML4_index_def PDPT_index_def PDT_index_def PT_index_def page_number_def m
    by (auto simp: bit_and_iff bit_mask_iff bit_drop_bit_eq add.commute)
qed

lemma page_number_eq_iff:
  "page_number v = page_number v' \<longleftrightarrow> walk_path v = walk_path v' \<and> PT_index v = PT_index v'"
proof
  assume eq: "page_number v = page_number v'"
  have b: "bit v n = bit v' n" if "12 \<le> n" "n < 48" for n
    using bit_index(5) [of v "n - 12"] bit_index(5) [of v' "n - 12"] that by (auto simp: eq)
  have "PML4_index v = PML4_index v'" "PDPT_index v = PDPT_index v'" "PDT_index v = PDT_index v'"
    "PT_index v = PT_index v'"
    by (auto intro!: bit_eqI simp: bit_index b)
  then show "walk_path v = walk_path v' \<and> PT_index v = PT_index v'"
    by (simp add: walk_path_def)
next
  assume eq: "walk_path v = walk_path v' \<and> PT_index v = PT_index v'"
  have b: "bit v (n + 39) = bit v' (n + 39)" "bit v (n + 30) = bit v' (n + 30)"
    "bit v (n + 21) = bit v' (n + 21)" "bit v (n + 12) = bit v' (n + 12)" if "n < 9" for n
    using bit_index [of v n] bit_index [of v' n] eq that by (auto simp: walk_path_def)
  have b': "bit v k = bit v' k" if "12 \<le> k" "k < 48" for k
  proof -
    consider "k < 21" | "21 \<le> k" "k < 30" | "30 \<le> k" "k < 39" | "39 \<le> k" by linarith
    then show ?thesis
    proof cases
      case 1 then show ?thesis using b(4) [of "k - 12"] that by simp
    next
      case 2 then show ?thesis using b(3) [of "k - 21"] by simp
    next
      case 3 then show ?thesis using b(2) [of "k - 30"] by simp
    next
      case 4 then show ?thesis using b(1) [of "k - 39"] that by simp
    qed
  qed
  show "page_number v = page_number v'"
  proof (rule bit_eqI)
    fix n
    show "bit (page_number v) n = bit (page_number v') n"
      unfolding bit_index using b' [of "n + 12"] by auto
  qed
qed

text \<open>Writing a page table entry.\<close>

lemma leaf_write:
  fixes x :: u64
  assumes shape: "tree_shape mem R" and al: "\<forall>t \<in> tables mem R. page_aligned t"
    and r: "r \<in> R" "valid_path path" "length path = 3" "table_at mem r path = Some t" and j: "j < 512"
  defines "mem' \<equiv> mem(t + 8 * j := x)"
  shows "q \<in> R \<Longrightarrow> valid_path path' \<Longrightarrow> table_at mem' q path' = table_at mem q path'"
    and "q \<in> R \<Longrightarrow> valid_path path' \<Longrightarrow> length path' = 3 \<Longrightarrow> k < 512 \<Longrightarrow>
      pte mem' q path' k = (if q = r \<and> path' = path \<and> k = j then x else pte mem q path' k)"
proof -
  have tt: "t \<in> tables mem R" using r by (auto intro: tablesI)
  have same: "s = t \<longleftrightarrow> q = r \<and> path' = path"
    if "q \<in> R" "valid_path path'" "table_at mem q path' = Some s" for q path' s
    using shape that r unfolding tree_shape_def by (metis option.inject)
  have read: "mem' (s + 8 * k) = (if s = t \<and> k = j then x else mem (s + 8 * k))"
    if "s \<in> tables mem R" "k < 512" for s k
    using that tt al j by (auto simp: mem'_def entry_inj)
  show at: "table_at mem' q path' = table_at mem q path'" if "q \<in> R" "valid_path path'" for q path'
    using that(2)
  proof (induction path' rule: rev_induct)
    case (snoc i path')
    then have v: "valid_path path'" "length path' \<le> 2" "i < 512" by simp_all
    have "mem' (s + 8 * i) = mem (s + 8 * i)" if s: "table_at mem q path' = Some s" for s
      using read [of s i] same [OF \<open>q \<in> R\<close> v(1) s] v r(3) tablesI [OF \<open>q \<in> R\<close> v(1) s] by auto
    with snoc.IH [OF v(1)] show ?case
      by (auto simp: table_at_snoc split: option.splits)
  qed simp
  show "pte mem' q path' k = (if q = r \<and> path' = path \<and> k = j then x else pte mem q path' k)"
    if q: "q \<in> R" "valid_path path'" "length path' = 3" and k: "k < 512"
  proof (cases "table_at mem q path'")
    case None
    then show ?thesis using at [OF q(1,2)] r by (auto simp: pte_def)
  next
    case (Some s)
    then show ?thesis
      using at [OF q(1,2)] read [OF tablesI [OF q(1,2) Some] k] same [OF q(1,2) Some]
      by (auto simp: pte_def)
  qed
qed

lemma grow_mapping:
  assumes pg: "pg_inv S m" and g: "tables_grow (pmem m ` S) k m m'" and pt: "pt_inv (pmem m ` S) m'"
  shows "pg_inv S m'" and "ps \<in> S \<Longrightarrow> pmem m' ps = pmem m ps"
    and "ps \<in> S \<Longrightarrow> mapping m' ps v = mapping m ps v"
proof -
  have struct: "pmem m' ps = pmem m ps \<and> frame_ok m' ps \<and> ps \<notin> tables (pmem m') (pmem m ` S)"
    if "ps \<in> S" for ps
  proof -
    have "frame_ok m ps" "ps \<notin> tables (pmem m) (pmem m ` S)"
      using pg that by (simp_all add: pg_inv_def)
    then have "frame_ok m' ps \<and> ps \<notin> tables (pmem m') (pmem m ` S) \<and>
      (\<forall>a. a - ps < 4096 \<longrightarrow> pmem m' a = pmem m a)"
      using g unfolding tables_grow_def by blast
    then show ?thesis by auto
  qed
  then show root: "pmem m' ps = pmem m ps" if "ps \<in> S" for ps
    using that by blast
  then have R: "pmem m' ` S = pmem m ` S" and inj: "inj_on (pmem m') S"
    using pg by (auto simp: pg_inv_def image_iff inj_on_def)
  show "pg_inv S m'"
    using pt struct inj by (simp add: pg_inv_def R)
  show "mapping m' ps v = mapping m ps v" if "ps \<in> S"
    using g that root by (simp add: mapping_def tables_grow_def)
qed

lemma set_pte_facts:
  fixes x :: u64
  assumes inv: "fa_inv U m" and pg: "pg_inv S m" and ps: "ps \<in> S"
    and t: "table_at (pmem m) (pmem m ps) (walk_path v) = Some t"
  defines "m' \<equiv> m\<lparr>pmem := (pmem m)(t + 8 * PT_index v := x)\<rparr>"
  shows "fa_inv U m'" and "pg_inv S m'" and "free_set m' = free_set m"
    and "ps' \<in> S \<Longrightarrow> mapping m' ps' v' =
      (if ps' = ps \<and> page_number v' = page_number v then x else mapping m ps' v')"
    and "ps' \<in> S \<Longrightarrow> pmem m' ps' = pmem m ps'"
proof -
  let ?R = "pmem m ` S"
  have pt: "pt_inv ?R m" using pg by (simp add: pg_inv_def)
  then have shape: "tree_shape (pmem m) ?R" and al: "\<forall>t \<in> tables (pmem m) ?R. page_aligned t"
    by (auto simp: pt_inv_def frame_ok_def)
  have r: "pmem m ps \<in> ?R" using ps by simp
  have tt: "t \<in> tables (pmem m) ?R" by (rule tablesI [OF r walk_path_valid(1) t])
  then have okt: "frame_ok m t" using pt by (simp add: pt_inv_def)
  note wc = write_cell [OF inv okt index_less(4) [of v], where v = x, folded m'_def]
  show "fa_inv U m'" "free_set m' = free_set m" using wc(1,2) by simp_all
  have mem: "pmem m' = (pmem m)(t + 8 * PT_index v := x)" by (simp add: m'_def)
  note lw = leaf_write [OF shape al r walk_path_valid t index_less(4) [of v], where x = x, folded mem]
  have tabs: "tables (pmem m') ?R = tables (pmem m) ?R" "tree_shape (pmem m') ?R"
    using lw(1) shape unfolding tables_def tree_shape_def by (metis (no_types, lifting))+
  show root: "pmem m' ps' = pmem m ps'" if "ps' \<in> S" for ps'
  proof -
    have "frame_ok m ps'" "ps' \<noteq> t" using pg that tt by (auto simp: pg_inv_def)
    then have "ps' \<noteq> t + 8 * PT_index v"
      using entry_in_page [of t ps' "PT_index v"] okt by (auto simp: frame_ok_def)
    then show ?thesis by (simp add: mem)
  qed
  then have R: "pmem m' ` S = ?R" and inj: "inj_on (pmem m') S"
    using pg by (auto simp: pg_inv_def image_iff inj_on_def)
  show "pg_inv S m'"
    using pg tabs wc(3) inj by (simp add: pg_inv_def pt_inv_def R)
  show "mapping m' ps' v' = (if ps' = ps \<and> page_number v' = page_number v then x else mapping m ps' v')"
    if ps': "ps' \<in> S"
  proof -
    have "pmem m ps' = pmem m ps \<longleftrightarrow> ps' = ps"
      using pg ps ps' by (auto simp: pg_inv_def inj_on_def)
    then show ?thesis
      using lw(2) [of "pmem m ps'" "walk_path v'" "PT_index v'"] ps' root [OF ps']
      by (simp add: mapping_def page_number_eq_iff)
  qed
qed

text \<open>The value that the code reads from a page table entry.\<close>

definition decode_entry :: "u64 \<Rightarrow> PagingMapState" where
  "decode_entry e =
     (let p0 = e AND 0x0000FFFFFFFFF000;
          p1 = (if p0 AND 0x0000800000000000 \<noteq> 0 then p0 OR 0xFFFF000000000000 else p0)
      in \<lparr>paddr = p1, map_flags = ucast (e AND 0xFFF), mmap_present = (e AND 1 \<noteq> 0)\<rparr>)"

lemma and_1_bit: "(w :: 'a::len word) AND 1 = 0 \<longleftrightarrow> \<not> bit w 0"
  by (simp add: and_one_eq bit_0 even_iff_mod_2_eq_zero)

lemma get_physical_address_decode: "get_physical_address ps v m = decode_entry (mapping m ps v)"
proof -
  have z: "decode_entry 0 = mmap_not_present"
    by (simp add: decode_entry_def mmap_not_present_def)
  have fl: "(ucast (e AND 0xFFF) :: u16) AND 1 = 0 \<longleftrightarrow> e AND 1 = 0" for e :: u64
    by (simp add: and_1_bit bit_ucast_iff bit_and_iff bit_flag_mask)
  show ?thesis
    using z
    by (simp add: get_physical_address_def mapping_def pte_def walk_path_def table_at.simps(2) Let_def fl
        decode_entry_def mmap_not_present_def)
qed

text \<open>
  The common part of the operations: find the entry, write it. The result keeps all other entries
  of all paging structures.
\<close>

lemma entry_state_facts:
  assumes inv: "fa_inv U m" and pg: "pg_inv S m" and phys: "phys48 U" and ps: "ps \<in> S"
    and res: "unsync_get_page_table_entry (pmem m ps) v m = Inr (e, m1)"
  obtains t where "e = t + 8 * PT_index v" and "table_at (pmem m1) (pmem m1 ps) (walk_path v) = Some t"
    and "fa_inv U m1" and "pg_inv S m1" and "pmem m1 e = mapping m ps v"
    and "\<And>ps'. ps' \<in> S \<Longrightarrow> pmem m1 ps' = pmem m ps'"
    and "\<And>ps' v'. ps' \<in> S \<Longrightarrow> mapping m1 ps' v' = mapping m ps' v'"
    and "card (free_set m) \<le> card (free_set m1) + 3"
    and "m1 = m\<lparr>pmem := pmem m1, frame_allocator := frame_allocator m1\<rparr>"
proof -
  let ?R = "pmem m ` S"
  have pt: "pt_inv ?R m" and r: "pmem m ps \<in> ?R" using pg ps by (simp_all add: pg_inv_def)
  obtain t where e: "e = t + 8 * PT_index v" and t: "table_at (pmem m1) (pmem m ps) (walk_path v) = Some t"
    and inv1: "fa_inv U m1" and pt1: "pt_inv ?R m1" and g: "tables_grow ?R 3 m m1"
    using entry_facts [OF inv pt phys r res] by metis
  note gm = grow_mapping [OF pg g pt1]
  have t1: "table_at (pmem m1) (pmem m1 ps) (walk_path v) = Some t"
    using t gm(2) [OF ps] by simp
  moreover have "pmem m1 e = mapping m1 ps v"
    using t1 by (simp add: e mapping_def pte_def)
  then have "pmem m1 e = mapping m ps v"
    using gm(3) [OF ps] by simp
  moreover have "m1 = m\<lparr>pmem := pmem m1, frame_allocator := frame_allocator m1\<rparr>"
    using g by (simp add: tables_grow_def)
  ultimately show thesis
    using that e inv1 gm tables_grow_card [OF g] by blast
qed

lemma update_entry_facts:
  assumes inv: "fa_inv U m" and pg: "pg_inv S m" and phys: "phys48 U" and ps: "ps \<in> S"
    and res: "unsync_get_page_table_entry (pmem m ps) v m = Inr (e, m1)"
  fixes x :: u64
  defines "m2 \<equiv> m1\<lparr>pmem := (pmem m1)(e := x)\<rparr>"
  shows "fa_inv U m2" and "pg_inv S m2"
    and "ps' \<in> S \<Longrightarrow> mapping m2 ps' v' =
      (if ps' = ps \<and> page_number v' = page_number v then x else mapping m ps' v')"
    and "card (free_set m) \<le> card (free_set m2) + 3"
    and "m2 = m\<lparr>pmem := pmem m2, frame_allocator := frame_allocator m2\<rparr>"
proof -
  obtain t where e: "e = t + 8 * PT_index v" and t: "table_at (pmem m1) (pmem m1 ps) (walk_path v) = Some t"
    and inv1: "fa_inv U m1" and pg1: "pg_inv S m1"
    and map1: "\<And>ps' v'. ps' \<in> S \<Longrightarrow> mapping m1 ps' v' = mapping m ps' v'"
    and c: "card (free_set m) \<le> card (free_set m1) + 3"
    and m1: "m1 = m\<lparr>pmem := pmem m1, frame_allocator := frame_allocator m1\<rparr>"
    using entry_state_facts [OF inv pg phys ps res] by metis
  note sf = set_pte_facts [OF inv1 pg1 ps t, where x = x, folded e, folded m2_def]
  show "fa_inv U m2" "pg_inv S m2" using sf(1,2) by simp_all
  show "card (free_set m) \<le> card (free_set m2) + 3" using c sf(3) by simp
  show "mapping m2 ps' v' = (if ps' = ps \<and> page_number v' = page_number v then x else mapping m ps' v')"
    if "ps' \<in> S"
    using sf(4) [OF that] map1 [OF that] by simp
  obtain f mm where "m1 = m\<lparr>pmem := mm, frame_allocator := f\<rparr>" using m1 by blast
  then show "m2 = m\<lparr>pmem := pmem m2, frame_allocator := frame_allocator m2\<rparr>"
    by (simp add: m2_def)
qed

lemma tlb_irrelevant [simp]:
  "fa_inv U (m\<lparr>tlb := c\<rparr>) = fa_inv U m" "pg_inv S (m\<lparr>tlb := c\<rparr>) = pg_inv S m"
  "mapping (m\<lparr>tlb := c\<rparr>) = mapping m" "free_set (m\<lparr>tlb := c\<rparr>) = free_set m"
proof -
  show fs: "free_set (m\<lparr>tlb := c\<rparr>) = free_set m"
    by (simp add: free_set_def)
  show "fa_inv U (m\<lparr>tlb := c\<rparr>) = fa_inv U m"
    by (simp add: fa_inv_def fs)
  show "pg_inv S (m\<lparr>tlb := c\<rparr>) = pg_inv S m"
    by (simp add: pg_inv_def pt_inv_def frame_ok_def fs)
  show "mapping (m\<lparr>tlb := c\<rparr>) = mapping m"
    by (intro ext) (simp add: mapping_def)
qed

definition map_entry :: "addr \<Rightarrow> u16 \<Rightarrow> u64" where
  "map_entry pa flags = (pa AND 0x0000FFFFFFFFF000) OR ucast ((flags OR 1) AND 0xFFF)"

lemma map_entry_present [simp]: "map_entry pa flags AND 1 \<noteq> 0"
proof -
  have "bit (map_entry pa flags) 0"
    by (simp add: map_entry_def bit_or_iff bit_and_iff bit_ucast_iff bit_1_iff)
  then show ?thesis by (simp add: and_1_bit)
qed

text \<open>A cached translation agrees with the entry of the structure that the CPU uses.\<close>

definition tlb_coherent :: "machine \<Rightarrow> addr \<Rightarrow> bool" where
  "tlb_coherent m ps \<longleftrightarrow> (\<forall>v e. tlb m (page_number v) = Some e \<longrightarrow> mapping m ps v = e)"

lemma paging_map_facts:
  assumes inv: "fa_inv U m" and pg: "pg_inv S m" and phys: "phys48 U" and ps: "ps \<in> S"
    and res: "paging_map ps v pa flags m = Inr m'"
  shows "fa_inv U m'" and "pg_inv S m'"
    and "ps' \<in> S \<Longrightarrow> mapping m' ps' v' =
      (if ps' = ps \<and> page_number v' = page_number v then map_entry pa flags else mapping m ps' v')"
    and "card (free_set m) \<le> card (free_set m') + 3"
    and "m' = m\<lparr>pmem := pmem m', frame_allocator := frame_allocator m', tlb := (tlb m)(page_number v := None)\<rparr>"
proof -
  obtain e m1 where e: "unsync_get_page_table_entry (pmem m ps) v m = Inr (e, m1)"
    and m': "m' = invalidate_TLB v (m1\<lparr>pmem := (pmem m1)(e := map_entry pa flags)\<rparr>)"
    using res by (auto simp: paging_map_def kbind_Inr_iff Let_def map_entry_def)
  note uf = update_entry_facts [OF inv pg phys ps e, where x = "map_entry pa flags"]
  show "fa_inv U m'" "pg_inv S m'" "card (free_set m) \<le> card (free_set m') + 3"
    using uf(1,2,4) by (simp_all add: m' invalidate_TLB_def)
  show "mapping m' ps' v' =
      (if ps' = ps \<and> page_number v' = page_number v then map_entry pa flags else mapping m ps' v')"
    if "ps' \<in> S"
    using uf(3) [OF that] by (simp add: m' invalidate_TLB_def)
  obtain f mm where *: "m1\<lparr>pmem := (pmem m1)(e := map_entry pa flags)\<rparr> = m\<lparr>pmem := mm, frame_allocator := f\<rparr>"
    using uf(5) by blast
  show "m' = m\<lparr>pmem := pmem m', frame_allocator := frame_allocator m', tlb := (tlb m)(page_number v := None)\<rparr>"
    unfolding m' * by (simp add: invalidate_TLB_def)
qed

lemma pg_entry_progress:
  assumes "fa_inv U m" and "pg_inv S m" and "phys48 U" and "ps \<in> S"
    and "hal_arch_initialized m" and "3 \<le> card (free_set m)"
  obtains e m' where "unsync_get_page_table_entry (pmem m ps) v m = Inr (e, m')"
proof -
  have "pt_inv (pmem m ` S) m" "pmem m ps \<in> pmem m ` S"
    using assms(2,4) by (simp_all add: pg_inv_def)
  then show thesis
    using entry_progress [OF assms(1) _ assms(3)] assms(5,6) that by blast
qed

lemma paging_map_progress:
  assumes "fa_inv U m" and "pg_inv S m" and "phys48 U" and "ps \<in> S"
    and "hal_arch_initialized m" and "3 \<le> card (free_set m)"
  shows "\<exists>m'. paging_map ps v pa flags m = Inr m'"
proof -
  obtain e m' where "unsync_get_page_table_entry (pmem m ps) v m = Inr (e, m')"
    by (rule pg_entry_progress [OF assms])
  then show ?thesis by (simp add: paging_map_def Let_def)
qed

lemma invalidate_facts:
  assumes inv: "fa_inv U m" and pg: "pg_inv S m" and phys: "phys48 U" and ps: "ps \<in> S"
    and res: "invalidate_paging_mapping ps v m = Inr m'"
  shows "fa_inv U m'" and "pg_inv S m'"
    and "ps' \<in> S \<Longrightarrow> mapping m' ps' v' =
      (if ps' = ps \<and> page_number v' = page_number v then mapping m ps v AND NOT 1 else mapping m ps' v')"
    and "card (free_set m) \<le> card (free_set m') + 3"
    and "m' = m\<lparr>pmem := pmem m', frame_allocator := frame_allocator m', tlb := (tlb m)(page_number v := None)\<rparr>"
proof -
  obtain e m1 where e: "unsync_get_page_table_entry (pmem m ps) v m = Inr (e, m1)"
    and m'0: "m' = invalidate_TLB v (m1\<lparr>pmem := (pmem m1)(e := pmem m1 e AND NOT 1)\<rparr>)"
    using res by (auto simp: invalidate_paging_mapping_def kbind_Inr_iff Let_def)
  have "pmem m1 e = mapping m ps v"
    using entry_state_facts [OF inv pg phys ps e] by metis
  then have m': "m' = invalidate_TLB v (m1\<lparr>pmem := (pmem m1)(e := mapping m ps v AND NOT 1)\<rparr>)"
    using m'0 by simp
  note uf = update_entry_facts [OF inv pg phys ps e, where x = "mapping m ps v AND NOT 1"]
  show "fa_inv U m'" "pg_inv S m'" "card (free_set m) \<le> card (free_set m') + 3"
    using uf(1,2,4) by (simp_all add: m' invalidate_TLB_def)
  show "mapping m' ps' v' =
      (if ps' = ps \<and> page_number v' = page_number v then mapping m ps v AND NOT 1 else mapping m ps' v')"
    if "ps' \<in> S"
    using uf(3) [OF that] by (simp add: m' invalidate_TLB_def)
  obtain f mm where *: "m1\<lparr>pmem := (pmem m1)(e := mapping m ps v AND NOT 1)\<rparr> = m\<lparr>pmem := mm, frame_allocator := f\<rparr>"
    using uf(5) by blast
  show "m' = m\<lparr>pmem := pmem m', frame_allocator := frame_allocator m', tlb := (tlb m)(page_number v := None)\<rparr>"
    unfolding m' * by (simp add: invalidate_TLB_def)
qed

lemma invalidate_progress:
  assumes "fa_inv U m" and "pg_inv S m" and "phys48 U" and "ps \<in> S"
    and "hal_arch_initialized m" and "3 \<le> card (free_set m)"
  shows "\<exists>m'. invalidate_paging_mapping ps v m = Inr m'"
proof -
  obtain e m' where "unsync_get_page_table_entry (pmem m ps) v m = Inr (e, m')"
    by (rule pg_entry_progress [OF assms])
  then show ?thesis by (simp add: invalidate_paging_mapping_def Let_def)
qed

section \<open>New paging structures\<close>

lemma table_at_empty:
  assumes "\<And>i. i < 512 \<Longrightarrow> mem (p + 8 * i) AND 1 = 0" and "valid_path path"
  shows "table_at mem p path = (if path = [] then Some p else None)"
  using assms by (cases path) (simp_all add: table_at.simps(2) valid_path_def)

lemma new_root_facts:
  assumes inv: "fa_inv U m" and pt: "pt_inv R m" and phys: "phys48 U" and a: "alloc_frame m = Inr (p, m1)"
  defines "m2 \<equiv> m1\<lparr>pmem := zero_page p (pmem m1)\<rparr>"
  shows "fa_inv U m2" and "pt_inv (insert p R) m2" and "p \<notin> tables (pmem m) R"
    and "\<And>i. i < 512 \<Longrightarrow> pmem m2 (p + 8 * i) = 0"
    and "tables_grow R 1 m m2" and "frame_ok m2 p" and "\<not> frame_ok m p" and "tables (pmem m2) R = tables (pmem m) R"
proof -
  note nf = new_frame_facts [OF inv phys a]
  note zf = zero_frame [OF nf(2) nf(4), folded m2_def]
  have mem: "pmem m2 = zero_page p (pmem m)" by (simp add: m2_def nf(3))
  have pal: "page_aligned p" using nf(1) by (simp add: frame48_def)
  show "fa_inv U m2" by (rule zf(1))
  show okp: "frame_ok m2 p" and "\<not> frame_ok m p" using nf(4,5) zf(3) by simp_all
  show fresh: "p \<notin> tables (pmem m) R" using pt nf(5) by (auto simp: pt_inv_def)
  have same: "pmem m2 (t + 8 * i) = pmem m (t + 8 * i)" if "t \<in> tables (pmem m) R" "i < 512" for t i
    using that pt fresh entry_in_page [OF _ pal that(2), of t]
    by (auto simp: pt_inv_def frame_ok_def mem zero_page_def)
  have tc: "tables (pmem m2) R = tables (pmem m) R" and shape: "tree_shape (pmem m2) R"
    and ptes: "\<And>r path j. r \<in> R \<Longrightarrow> valid_path path \<Longrightarrow> j < 512 \<Longrightarrow> pte (pmem m2) r path j = pte (pmem m) r path j"
    using tables_cong [of "pmem m" R "pmem m2"] same pt by (simp_all add: pt_inv_def)
  show "tables (pmem m2) R = tables (pmem m) R" by (rule tc)
  show zero: "pmem m2 (p + 8 * i) = 0" if "i < 512" for i
    using entry_in_page [OF pal pal that] by (simp add: mem zero_page_def)
  have tp: "table_at (pmem m2) p path = (if path = [] then Some p else None)" if "valid_path path" for path
    by (rule table_at_empty [OF _ that]) (simp add: zero)
  have "tables (pmem m2) {p} = {p}"
  proof (intro set_eqI iffI)
    fix t assume "t \<in> tables (pmem m2) {p}"
    then show "t \<in> {p}" using tp by (auto simp: tables_def split: if_splits)
  qed (use roots_tables in auto)
  then have tabs: "tables (pmem m2) (insert p R) = insert p (tables (pmem m) R)"
    using tables_insert [of "pmem m2" p R] tc by simp
  have "tree_shape (pmem m2) (insert p R)"
    unfolding tree_shape_def
  proof (intro ballI allI impI)
    fix q q' path path' t
    assume q: "q \<in> insert p R" "q' \<in> insert p R" and *: "valid_path path \<and> valid_path path' \<and>
      table_at (pmem m2) q path = Some t \<and> table_at (pmem m2) q' path' = Some t"
    have inR: "t \<noteq> p" if "q \<in> R \<or> q' \<in> R"
      using that * tablesI [of _ R _ "pmem m2" t] tc fresh by metis
    show "q = q' \<and> path = path'"
    proof (cases "q = p \<or> q' = p")
      case True
      then have "t = p" using * tp by (metis option.distinct(1) option.inject)
      then have "q = p" "q' = p" using inR q by auto
      with * tp show ?thesis by (metis option.distinct(1))
    next
      case False
      with q * shape show ?thesis unfolding tree_shape_def by blast
    qed
  qed
  then show "pt_inv (insert p R) m2"
    using pt tabs okp nf(6) zf(3) by (auto simp: pt_inv_def)
  have fs: "free_set m2 = free_set m - {unat p}" using zf(2) nf(7) by simp
  have "card (free_set m) = Suc (card (free_set m2))"
    unfolding fs by (rule card_Suc_Diff1 [OF nf(9,10), symmetric])
  moreover have "pmem m2 a = pmem m a" if "frame_ok m f" "a - f < 4096" for f a
  proof -
    have "f \<noteq> p" "page_aligned f" using that nf(5) by (auto simp: frame_ok_def)
    then have "\<not> a - p < 4096"
      using that(2) pal page_step [of "unat f" "unat p"] page_step [of "unat p" "unat f"]
      by (auto simp: in_page_iff word_unat_eq_iff neq_iff)
    then show ?thesis by (simp add: mem zero_page_def)
  qed
  moreover obtain fa where "m1 = m\<lparr>frame_allocator := fa\<rparr>" using nf(8) by blast
  then have "m2 = m\<lparr>pmem := pmem m2, frame_allocator := frame_allocator m2\<rparr>" by (simp add: m2_def)
  moreover have "table_at (pmem m2) r path = table_at (pmem m) r path" if "r \<in> R" "valid_path path" for r path
    using table_at_cong [of "pmem m" R "pmem m2", OF same] that by blast
  ultimately show "tables_grow R 1 m m2"
    using fs tc ptes nf(6) zf(3) unfolding tables_grow_def by (intro conjI) (simp_all, blast)
qed

end
