(* ===== verification/Paging_Structures.thy ===== *)
theory Paging_Structures
  imports Paging
begin

text \<open>
  Paging structures as a whole (kernel/HAL/x86-64/x64-memory.c): creation of an empty structure, the
  copy of a range of mappings, the size of a structure, and the properties of the page table
  operations against the abstract mapping.
\<close>

section \<open>Creation\<close>

lemma fill_PML4_facts:
  assumes "fa_inv U m" and "pt_inv R m" and "phys48 U" and "root \<in> R"
    and "\<And>j. j < i \<Longrightarrow> j < 512 \<Longrightarrow> table_at (pmem m) root [j] \<noteq> None"
    and "\<And>j. i \<le> j \<Longrightarrow> j < 512 \<Longrightarrow> table_at (pmem m) root [j] = None"
    and "i \<le> 512" and "fill_PML4 i root m = Inr m'"
  shows "fa_inv U m' \<and> pt_inv R m' \<and> tables_grow R (512 - unat i) m m' \<and>
    (\<forall>j < 512. table_at (pmem m') root [j] \<noteq> None)"
  using assms
proof (induction i root m rule: fill_PML4.induct)
  case (1 i root m)
  note prems = 1(2-9)
  show ?case
  proof (cases "i < 512")
    case False
    then have "i = 512" "m' = m"
      using prems(7,8) by (simp_all add: fill_PML4.simps)
    then show ?thesis
      using prems tables_grow_refl by auto
  next
    case True
    then obtain m1 where l: "link_new_table (root + 8 * i) m = Inr m1" and rest: "fill_PML4 (i + 1) root m1 = Inr m'"
      using prems(8) by (auto simp: fill_PML4.simps [of i] kbind_Inr_iff)
    have absent: "pmem m (root + 8 * i) AND 1 = 0"
      using prems(6) [of i] True by (auto simp: table_at.simps(2) split: if_splits)
    have r: "valid_path []" "length ([] :: u64 list) \<le> 2" "table_at (pmem m) root [] = Some root"
      by simp_all
    note lf = link_new_table_facts [OF prems(1,2,3,4) r True absent l]
    have next_le: "i + 1 \<le> 512" and next_unat: "unat (i + 1) = unat i + 1"
      using True by (simp_all add: word_less_nat_alt word_le_nat_alt unat_add_u64)
    have vp: "valid_path [j]" if "j < 512" for j using that by (simp add: valid_path_def)
    have same: "table_at (pmem m1) root [j] = table_at (pmem m) root [j]" if "j < 512" "j \<noteq> i" for j
      using lf(6) [OF prems(4) vp [OF that(1)]] that(2) by simp
    have lt: "j < i + 1 \<longleftrightarrow> j \<le> i" for j
      using next_unat by (auto simp: word_less_nat_alt word_le_nat_alt)
    have "fa_inv U m' \<and> pt_inv R m' \<and> tables_grow R (512 - unat (i + 1)) m1 m' \<and>
      (\<forall>j < 512. table_at (pmem m') root [j] \<noteq> None)"
    proof (rule 1(1) [OF True l lf(1,2) prems(3,4) _ _ next_le rest])
      show "table_at (pmem m1) root [j] \<noteq> None" if "j < i + 1" "j < 512" for j
        using that lf(4) prems(5) [of j] same [of j] lt [of j] by (cases "j = i") auto
      show "table_at (pmem m1) root [j] = None" if "i + 1 \<le> j" "j < 512" for j
        using that prems(6) [of j] same [of j] lt [of j] by (cases "j = i") (auto simp: not_less [symmetric])
    qed
    moreover have "tables_grow R (1 + (512 - unat (i + 1))) m m'"
      if "tables_grow R (512 - unat (i + 1)) m1 m'"
      using tables_grow_trans [OF lf(3) that] .
    moreover have "1 + (512 - unat (i + 1)) = 512 - unat i"
      using next_unat True by (simp add: word_less_nat_alt)
    ultimately show ?thesis by metis
  qed
qed

lemma fill_PML4_progress:
  assumes "fa_inv U m" and "pt_inv R m" and "phys48 U" and "root \<in> R"
    and "\<And>j. i \<le> j \<Longrightarrow> j < 512 \<Longrightarrow> table_at (pmem m) root [j] = None"
    and "hal_arch_initialized m" and "512 - unat i \<le> card (free_set m)"
  shows "\<exists>m'. fill_PML4 i root m = Inr m'"
  using assms
proof (induction i root m rule: fill_PML4.induct)
  case (1 i root m)
  note prems = 1(2-8)
  show ?case
  proof (cases "i < 512")
    case False
    then show ?thesis by (simp add: fill_PML4.simps)
  next
    case True
    then have "free_set m \<noteq> {}" using prems(7) by (auto simp: word_less_nat_alt)
    then obtain p ma where "alloc_frame m = Inr (p, ma)"
      using alloc_frame_progress [OF prems(1,6)] by blast
    then obtain m1 where l: "link_new_table (root + 8 * i) m = Inr m1"
      by (auto simp: link_new_table_def Let_def)
    have absent: "pmem m (root + 8 * i) AND 1 = 0"
      using prems(5) [of i] True by (auto simp: table_at.simps(2) split: if_splits)
    have r: "valid_path []" "length ([] :: u64 list) \<le> 2" "table_at (pmem m) root [] = Some root"
      by simp_all
    note lf = link_new_table_facts [OF prems(1,2,3,4) r True absent l]
    have nu: "unat (i + 1) = unat i + 1"
      using True by (simp add: word_less_nat_alt unat_add_u64)
    have vp: "valid_path [j]" if "j < 512" for j using that by (simp add: valid_path_def)
    have "\<exists>m'. fill_PML4 (i + 1) root m1 = Inr m'"
    proof (rule 1(1) [OF True l lf(1,2) prems(3,4)])
      show "table_at (pmem m1) root [j] = None" if "i + 1 \<le> j" "j < 512" for j
        using that prems(5) [of j] lf(6) [OF prems(4) vp [OF that(2)]] nu
        by (cases "j = i") (auto simp: word_le_nat_alt)
      show "hal_arch_initialized m1" using tables_grow_hal [OF lf(3)] prems(6) by simp
      show "512 - unat (i + 1) \<le> card (free_set m1)"
        using tables_grow_card [OF lf(3)] prems(7) nu by simp
    qed
    then show ?thesis using True l by (simp add: fill_PML4.simps [of i])
  qed
qed

text \<open>A paging structure frame: written with the root pointer, it is no table.\<close>

lemma new_struct_facts:
  assumes inv: "fa_inv U m" and pt: "pt_inv R m" and phys: "phys48 U" and root: "root \<in> R"
    and a: "alloc_frame m = Inr (ps, m1)"
  defines "m2 \<equiv> m1\<lparr>pmem := (init_paging_lock ps (pmem m1))(ps := root)\<rparr>"
  shows "fa_inv U m2" and "pt_inv R m2" and "tables_grow R 1 m m2" and "\<not> frame_ok m ps" and "frame_ok m2 ps"
    and "ps \<notin> tables (pmem m2) R" and "pmem m2 ps = root" and "ps \<notin> tables (pmem m) R"
proof -
  note nf = new_frame_facts [OF inv phys a]
  have pal: "page_aligned ps" and out: "outside_stack (frame_stack (frame_allocator m1)) (unat ps)"
    using nf(4) by (simp_all add: frame_ok_def)
  have in_ps: "unat ps \<le> unat a \<and> unat a < unat ps + 4096" if "pmem m2 a \<noteq> pmem m1 a" for a
  proof -
    have "a = ps + 8 * 1 \<or> a = ps + 8 * 0"
      using that by (auto simp: m2_def init_paging_lock_def split: if_splits)
    then show ?thesis
      using unat_entry [OF pal, of 1] unat_entry [OF pal, of 0] by auto
  qed
  have same: "pmem m2 a = pmem m1 a" if "\<not> (unat ps \<le> unat a \<and> unat a < unat ps + 4096)" for a
    using in_ps that by blast
  have m2: "m2 = m1\<lparr>pmem := pmem m2\<rparr>" by (simp add: m2_def)
  show inv2: "fa_inv U m2"
    by (subst m2, rule fa_inv_write(1) [OF nf(2) out same])
  have fs: "free_set m2 = free_set m - {unat ps}"
    using fa_inv_write(2) [OF nf(2) out same, folded m2] nf(7) by simp
  have ok: "frame_ok m2 f \<longleftrightarrow> frame_ok m1 f" for f
    using frame_ok_write [OF nf(2) out same, of f, folded m2] .
  show "\<not> frame_ok m ps" "frame_ok m2 ps" using nf(4,5) ok by simp_all
  show fresh: "ps \<notin> tables (pmem m) R" using pt nf(5) by (auto simp: pt_inv_def)
  have away: "pmem m2 a = pmem m a" if "frame_ok m f" "a - f < 4096" for f a
  proof -
    have "f \<noteq> ps" "page_aligned f" using that nf(5) by (auto simp: frame_ok_def)
    then have "\<not> (unat ps \<le> unat a \<and> unat a < unat ps + 4096)"
      using that(2) pal page_step [of "unat f" "unat ps"] page_step [of "unat ps" "unat f"]
      by (auto simp: in_page_iff word_unat_eq_iff neq_iff)
    then show ?thesis using same nf(3) by simp
  qed
  have tab: "pmem m2 (t + 8 * i) = pmem m (t + 8 * i)" if "t \<in> tables (pmem m) R" "i < 512" for t i
  proof -
    have "frame_ok m t" using that pt by (simp add: pt_inv_def)
    then show ?thesis
      using away [of t "t + 8 * i"] entry_in_page [of t t i] that(2) by (simp only: frame_ok_def simp_thms)
  qed
  have tc: "tables (pmem m2) R = tables (pmem m) R" and shape: "tree_shape (pmem m2) R"
    and ptes: "\<And>r path j. r \<in> R \<Longrightarrow> valid_path path \<Longrightarrow> j < 512 \<Longrightarrow> pte (pmem m2) r path j = pte (pmem m) r path j"
    using tables_cong [of "pmem m" R "pmem m2"] tab pt by (simp_all add: pt_inv_def)
  show "pt_inv R m2" using pt tc shape ok nf(6) by (simp add: pt_inv_def)
  show "ps \<notin> tables (pmem m2) R" using fresh tc by simp
  show "pmem m2 ps = root" by (simp add: m2_def)
  have "card (free_set m) = Suc (card (free_set m2))"
    unfolding fs by (rule card_Suc_Diff1 [OF nf(9,10), symmetric])
  moreover obtain fa where "m1 = m\<lparr>frame_allocator := fa\<rparr>" using nf(8) by blast
  then have "m2 = m\<lparr>pmem := pmem m2, frame_allocator := frame_allocator m2\<rparr>" by (simp add: m2_def)
  moreover have "table_at (pmem m2) r path = table_at (pmem m) r path" if "r \<in> R" "valid_path path" for r path
    using table_at_cong [of "pmem m" R "pmem m2", OF tab] that by blast
  moreover have "frame_ok m2 f \<and> (\<forall>a. a - f < 4096 \<longrightarrow> pmem m2 a = pmem m a)" if "frame_ok m f" for f
    using away [OF that] nf(6) [OF that] ok by blast
  ultimately show "tables_grow R 1 m m2"
    using fs tc ptes unfolding tables_grow_def by (intro conjI) (simp_all, blast)
qed


lemma grow_structs:
  assumes g: "tables_grow R k m m'" and R: "pmem m ps \<in> R"
    and ps: "frame_ok m ps" "ps \<notin> tables (pmem m) R"
  shows "pmem m' ps = pmem m ps" and "frame_ok m' ps" and "ps \<notin> tables (pmem m') R"
    and "mapping m' ps v = mapping m ps v"
proof -
  have *: "frame_ok m' ps \<and> ps \<notin> tables (pmem m') R \<and> (\<forall>a. a - ps < 4096 \<longrightarrow> pmem m' a = pmem m a)"
    using g ps unfolding tables_grow_def by blast
  then show "frame_ok m' ps" "ps \<notin> tables (pmem m') R" by blast+
  show root: "pmem m' ps = pmem m ps" using * by simp
  show "mapping m' ps v = mapping m ps v"
    using g R root by (simp add: mapping_def tables_grow_def)
qed

lemma create_facts:
  assumes inv: "fa_inv U m" and pg: "pg_inv S m" and phys: "phys48 U"
    and res: "create_empty_kernel_paging_structure m = Inr (ps, m')"
  shows "fa_inv U m'" and "pg_inv (insert ps S) m'" and "ps \<notin> S" and "mapping m' ps v = 0"
    and "ps' \<in> S \<Longrightarrow> mapping m' ps' v = mapping m ps' v"
    and "j < 512 \<Longrightarrow> table_at (pmem m') (pmem m' ps) [j] \<noteq> None"
    and "card (free_set m) \<le> card (free_set m') + 514"
    and "hal_arch_initialized m' = hal_arch_initialized m"
proof -
  let ?R = "pmem m ` S"
  obtain root m1 m3 m4 where a: "alloc_frame m = Inr (root, m1)"
    and fill: "fill_PML4 0 root (m1\<lparr>pmem := zero_page root (pmem m1)\<rparr>) = Inr m3"
    and b: "alloc_frame m3 = Inr (ps, m4)"
    and m': "m' = m4\<lparr>pmem := (init_paging_lock ps (pmem m4))(ps := root)\<rparr>"
    using res by (auto simp: create_empty_kernel_paging_structure_def kbind_Inr_iff)
  have pt: "pt_inv ?R m" using pg by (simp add: pg_inv_def)
  define m2 where "m2 = m1\<lparr>pmem := zero_page root (pmem m1)\<rparr>"
  let ?R' = "insert root ?R"
  note nr = new_root_facts [OF inv pt phys a, folded m2_def]
  have empty: "table_at (pmem m2) root path = None" if "valid_path path" "path \<noteq> []" for path
    using table_at_empty [of "pmem m2" root path] nr(4) that by simp
  have none: "table_at (pmem m2) root [j] = None" if "0 \<le> j" "j < 512" for j
    using that by (intro empty) (simp_all add: valid_path_def)
  have ff: "fa_inv U m3" "pt_inv ?R' m3" "tables_grow ?R' 512 m2 m3"
      "\<And>j. j < 512 \<Longrightarrow> table_at (pmem m3) root [j] \<noteq> None"
    using fill_PML4_facts [OF nr(1,2) phys _ _ none _ fill [folded m2_def]] by auto
  note ns = new_struct_facts [OF ff(1,2) phys _ b, of root, folded m', simplified]
  have g: "tables_grow ?R' 513 m2 m'"
    using tables_grow_trans [OF ff(3) ns(3)] by simp
  show "fa_inv U m'" by (rule ns(1))
  show "card (free_set m) \<le> card (free_set m') + 514"
    using tables_grow_card [OF nr(5)] tables_grow_card [OF g] by simp
  show "hal_arch_initialized m' = hal_arch_initialized m"
    using tables_grow_hal [OF nr(5)] tables_grow_hal [OF g] by simp
  have structs: "pmem m' q = pmem m q \<and> frame_ok m' q \<and> q \<notin> tables (pmem m') ?R' \<and> mapping m' q v = mapping m q v"
    if q: "q \<in> S" for q v
  proof -
    have q0: "frame_ok m q" "q \<notin> tables (pmem m) ?R" "pmem m q \<in> ?R"
      using pg q by (simp_all add: pg_inv_def)
    note g1 = grow_structs [OF nr(5) q0(3,1,2)]
    have "q \<notin> tables (pmem m2) ?R'"
    proof -
      have "tables (pmem m2) {root} = {root}"
        using empty by (auto simp: tables_def intro!: exI [of _ "[]"]) (metis option.distinct(1) option.inject table_at.simps(1))
      then show ?thesis
        using g1(3) tables_insert [of "pmem m2" root ?R] q0(1) nr(7) by auto
    qed
    then show ?thesis
      using grow_structs [OF g, of q] g1 q0(3) by simp
  qed
  have fresh: "ps \<notin> S"
  proof
    assume q: "ps \<in> S"
    then have "frame_ok m ps" using pg by (simp add: pg_inv_def)
    then have "frame_ok m3 ps" using nr(5) ff(3) by (simp add: tables_grow_def)
    then show False using ns(4) by simp
  qed
  then show "ps \<notin> S" .
  show "mapping m' ps' v = mapping m ps' v" if "ps' \<in> S" using structs [OF that] by simp
  have roots: "pmem m' q = pmem m q" if "q \<in> S" for q using structs [OF that] by blast
  then have im: "pmem m' ` S = ?R" by (rule image_cong [OF refl])
  have "inj_on (pmem m) S" using pg by (simp add: pg_inv_def)
  then have "inj_on (pmem m') S" using roots by (simp add: inj_on_def)
  moreover have "root \<notin> ?R" using nr(3) roots_tables [of ?R "pmem m"] by blast
  ultimately have "inj_on (pmem m') (insert ps S)"
    using fresh im ns(7) by simp
  moreover have "\<forall>q \<in> insert ps S. frame_ok m' q \<and> q \<notin> tables (pmem m') ?R'"
    using structs ns(5,6) by blast
  ultimately show "pg_inv (insert ps S) m'"
    using ns(2) im ns(7) by (simp add: pg_inv_def)
  have "pte (pmem m') root (walk_path v) (PT_index v) = pte (pmem m2) root (walk_path v) (PT_index v)"
    using g by (simp add: tables_grow_def)
  also have "\<dots> = 0"
    using empty [OF walk_path_valid(1), of v] by (simp add: pte_def walk_path_def)
  finally show "mapping m' ps v = 0"
    by (simp add: mapping_def ns(7))
  show "table_at (pmem m') (pmem m' ps) [j] \<noteq> None" if "j < 512"
    using ns(3,7) ff(4) [OF that] that by (auto simp: tables_grow_def valid_path_def)
qed

lemma create_progress:
  assumes inv: "fa_inv U m" and pg: "pg_inv S m" and phys: "phys48 U" and h: "hal_arch_initialized m"
    and frames: "514 \<le> card (free_set m)"
  shows "\<exists>ps m'. create_empty_kernel_paging_structure m = Inr (ps, m')"
proof -
  let ?R = "pmem m ` S"
  have pt: "pt_inv ?R m" using pg by (simp add: pg_inv_def)
  have "free_set m \<noteq> {}" using frames by auto
  then obtain root m1 where a: "alloc_frame m = Inr (root, m1)"
    using alloc_frame_progress [OF inv h] by blast
  define m2 where "m2 = m1\<lparr>pmem := zero_page root (pmem m1)\<rparr>"
  note nr = new_root_facts [OF inv pt phys a, folded m2_def]
  have none: "table_at (pmem m2) root [j] = None" if "0 \<le> j" "j < 512" for j
    using table_at_empty [of "pmem m2" root "[j]"] nr(4) that by (simp add: valid_path_def)
  have h2: "hal_arch_initialized m2" and c2: "513 \<le> card (free_set m2)"
    using tables_grow_hal [OF nr(5)] tables_grow_card [OF nr(5)] h frames by simp_all
  obtain m3 where f: "fill_PML4 0 root m2 = Inr m3"
    using fill_PML4_progress [OF nr(1,2) phys _ none h2, where i = 0] c2 by auto
  have ff: "fa_inv U m3" "tables_grow (insert root ?R) 512 m2 m3"
    using fill_PML4_facts [OF nr(1,2) phys _ _ none _ f] by auto
  have "free_set m3 \<noteq> {}" "hal_arch_initialized m3"
    using tables_grow_card [OF ff(2)] tables_grow_hal [OF ff(2)] h2 c2 by auto
  then show ?thesis
    using alloc_frame_progress [OF ff(1)] a f
    by (auto simp: create_empty_kernel_paging_structure_def m2_def)
qed

section \<open>Copying mappings\<close>


text \<open>The page numbers of \<open>n\<close> pages from \<open>v\<close> on.\<close>

definition page_span :: "addr \<Rightarrow> nat \<Rightarrow> u64 set" where
  "page_span v n = {page_number (v + 4096 * of_nat k) | k. k < n}"


lemma page_span_0 [simp]: "page_span v 0 = {}"
  by (simp add: page_span_def)






section \<open>The size of a paging structure\<close>

definition paths_below :: "nat \<Rightarrow> memory \<Rightarrow> addr \<Rightarrow> u64 list set" where
  "paths_below l mem t = {path. length path < l \<and> (\<forall>i \<in> set path. i < 512) \<and> table_at mem t path \<noteq> None}"

lemma set_table_indices: "set table_indices = {i. i < 512}"
proof (intro set_eqI iffI)
  fix i :: u64 assume "i \<in> {i. i < 512}"
  then have "of_nat (unat i) \<in> set table_indices"
    unfolding table_indices_def set_map by (intro imageI) (simp add: word_less_nat_alt)
  then show "i \<in> set table_indices" by simp
next
  fix i :: u64 assume "i \<in> set table_indices"
  then obtain n where n: "n < 512" "i = of_nat n" by (auto simp: table_indices_def)
  then have "unat i = n" by (simp add: unat_of_nat_u64)
  then show "i \<in> {i. i < 512}" using n by (simp add: word_less_nat_alt)
qed

lemma distinct_table_indices: "distinct table_indices"
  unfolding table_indices_def distinct_map
  by (auto intro!: inj_onI dest!: arg_cong [where f = unat] simp: unat_of_nat_u64)

lemma fold_count:
  assumes "\<And>i c. g i c = c + (of_nat (n i) :: u64)"
  shows "fold (\<lambda>i c. if P i then g i c else c) xs c = c + of_nat (\<Sum>i\<leftarrow>xs. if P i then n i else 0)"
  using assms by (induction xs arbitrary: c) auto

lemma finite_paths_below: "finite (paths_below l mem t)" "card (paths_below 4 mem t) \<le> 134480385"
proof -
  let ?L = "\<lambda>l. {xs. set xs \<subseteq> {i :: u64. i < 512} \<and> length xs \<le> l}"
  have fin: "finite {i :: u64. i < 512}" by simp
  have sub: "paths_below l mem t \<subseteq> ?L l" for l by (auto simp: paths_below_def)
  show "finite (paths_below l mem t)"
    by (rule finite_subset [OF sub finite_lists_length_le [OF fin]])
  have "card {i :: u64. i < 512} = 512"
    using distinct_card [OF distinct_table_indices] unfolding set_table_indices
    by (simp add: table_indices_def)
  then have "card (?L 3) = 134480385"
    using card_lists_length_le [OF fin, of 3] by (simp add: numeral_3_eq_3)
  moreover have "paths_below 4 mem t \<subseteq> ?L 3" by (auto simp: paths_below_def)
  then have "card (paths_below 4 mem t) \<le> card (?L 3)"
    by (rule card_mono [OF finite_lists_length_le [OF fin]])
  ultimately show "card (paths_below 4 mem t) \<le> 134480385" by simp
qed

lemma card_paths_below:
  "card (paths_below (Suc l) mem t) =
     Suc (\<Sum>i\<leftarrow>table_indices. if mem (t + 8 * i) AND 1 \<noteq> 0
            then card (paths_below l mem (mem (t + 8 * i) AND 0x0000FFFFFFFFF000)) else 0)"
proof -
  let ?I = "set table_indices" and ?c = "\<lambda>i. mem (t + 8 * i) AND 0x0000FFFFFFFFF000"
  let ?A = "\<lambda>i. if mem (t + 8 * i) AND 1 \<noteq> 0 then (#) i ` paths_below l mem (?c i) else {}"
  have "path \<in> paths_below (Suc l) mem t \<longleftrightarrow> path \<in> insert [] (\<Union>i\<in>?I. ?A i)" for path
    by (cases path) (auto simp: paths_below_def set_table_indices table_at.simps(2) image_iff split: if_splits)
  then have "paths_below (Suc l) mem t = insert [] (\<Union>i\<in>?I. ?A i)" by blast
  moreover have "card (\<Union>i\<in>?I. ?A i) = (\<Sum>i\<in>?I. card (?A i))"
    by (rule card_UN_disjoint) (auto simp: finite_paths_below)
  moreover have "finite (\<Union>i\<in>?I. ?A i)" "[] \<notin> (\<Union>i\<in>?I. ?A i)"
    by (auto simp: finite_paths_below split: if_splits)
  ultimately have "card (paths_below (Suc l) mem t) = Suc (\<Sum>i\<in>?I. card (?A i))"
    by simp
  also have "(\<Sum>i\<in>?I. card (?A i)) =
      (\<Sum>i\<in>?I. if mem (t + 8 * i) AND 1 \<noteq> 0 then card (paths_below l mem (?c i)) else 0)"
    by (intro sum.cong refl) (simp add: card_image)
  finally show ?thesis
    by (simp only: sum_list_distinct_conv_sum_set [OF distinct_table_indices])
qed

lemma count_map_tables_frames_card:
  "count_map_tables_frames l mem t c = c + of_nat (card (paths_below l mem t))"
proof (induction l arbitrary: t c)
  case 0
  then show ?case by (simp add: paths_below_def)
next
  case (Suc l)
  let ?c = "\<lambda>i. mem (t + 8 * i) AND 0x0000FFFFFFFFF000"
  define s where "s = (\<Sum>i\<leftarrow>table_indices. if mem (t + 8 * i) AND 1 \<noteq> 0 then card (paths_below l mem (?c i)) else 0)"
  have "fold (\<lambda>i c. if mem (t + 8 * i) AND 1 \<noteq> 0 then count_map_tables_frames l mem (?c i) c else c)
      table_indices c = c + of_nat s"
    unfolding s_def by (rule fold_count) (rule Suc.IH)
  moreover have "s = 0" if "l = 0"
    using that by (auto simp: s_def paths_below_def)
  moreover have "card (paths_below (Suc l) mem t) = Suc s"
    by (simp only: s_def card_paths_below)
  ultimately show ?case
    by (cases "l = 0") simp_all
qed

lemma paths_below_tables:
  assumes "tree_shape mem {r}"
  shows "card (paths_below 4 mem r) = card (tables mem {r})"
proof (rule bij_betw_same_card)
  show "bij_betw (\<lambda>p. the (table_at mem r p)) (paths_below 4 mem r) (tables mem {r})"
    unfolding bij_betw_def
  proof
    show "inj_on (\<lambda>p. the (table_at mem r p)) (paths_below 4 mem r)"
      using assms by (auto intro!: inj_onI simp: paths_below_def tree_shape_def valid_path_def)
    show "(\<lambda>p. the (table_at mem r p)) ` paths_below 4 mem r = tables mem {r}"
      by (force simp: paths_below_def tables_def valid_path_def image_iff)
  qed
qed

lemma tree_shape_mono: "tree_shape mem R \<Longrightarrow> Q \<subseteq> R \<Longrightarrow> tree_shape mem Q"
  unfolding tree_shape_def by blast

section \<open>Decoding of entries\<close>

lemma decode_map_entry:
  assumes pa: "page_aligned pa" and canon: "unat pa < 2 ^ 47"
  shows "decode_entry (map_entry pa flags) = \<lparr>paddr = pa, map_flags = (flags OR 1) AND 0xFFF, mmap_present = True\<rparr>"
proof -
  have f48: "frame48 pa" using assms by (simp add: frame48_def)
  have low: "\<not> bit pa n" if "47 \<le> n" for n
  proof
    assume "bit pa n"
    moreover have "take_bit 47 pa = pa"
      using canon by (intro word_unat_eq_iff [THEN iffD2]) (simp add: unsigned_take_bit_eq take_bit_nat_eq_self)
    ultimately have "bit (take_bit 47 pa) n" by simp
    then show False using that by (simp add: bit_take_bit_iff)
  qed
  have m16: "(0xFFF :: u16) = mask 12" by (simp add: mask_eq_exp_minus_1)
  have bits: "bit (map_entry pa flags) n \<longleftrightarrow> bit pa n \<or> n < 12 \<and> bit (flags OR 1) n" for n
    unfolding map_entry_def frame48_and_mask [OF f48] m16
    by (auto simp: bit_or_iff bit_and_iff bit_ucast_iff bit_mask_iff dest: bit_imp_le_length)
  have e1: "map_entry pa flags AND 0x0000FFFFFFFFF000 = pa"
    by (rule bit_eqI) (auto simp: bit_and_iff bits bit_addr_mask dest: frame48_bit [OF f48])
  have e2: "ucast (map_entry pa flags AND 0xFFF) = (flags OR 1) AND 0xFFF"
    unfolding m16
    by (rule bit_eqI) (auto simp: bit_ucast_iff bit_and_iff bits bit_flag_mask bit_mask_iff dest: frame48_bit [OF f48])
  have pb: "(0x0000800000000000 :: u64) = push_bit 47 1" by (simp add: push_bit_eq_mult)
  have e3: "pa AND 0x0000800000000000 = 0"
    unfolding pb
  proof (rule bit_eqI)
    fix n
    show "bit (pa AND push_bit 47 1) n = bit (0 :: u64) n"
      unfolding bit_and_iff bit_push_bit_iff using low [of n] by auto
  qed
  show ?thesis
    by (simp add: decode_entry_def e1 e2 e3 Let_def)
qed

lemma decode_invalidated:
  "decode_entry (e AND NOT 1) =
     (decode_entry e)\<lparr>map_flags := map_flags (decode_entry e) AND NOT 1, mmap_present := False\<rparr>"
proof -
  have n1: "bit (NOT 1 :: u64) n \<longleftrightarrow> 0 < n \<and> n < 64" "bit (NOT 1 :: u16) n \<longleftrightarrow> 0 < n \<and> n < 16" for n
    by (auto simp: bit_not_iff bit_1_iff)
  have e1: "(e AND NOT 1) AND 0x0000FFFFFFFFF000 = e AND 0x0000FFFFFFFFF000"
    by (rule bit_eqI) (auto simp: bit_and_iff n1 bit_addr_mask)
  have e2: "(ucast ((e AND NOT 1) AND 0xFFF) :: u16) = ucast (e AND 0xFFF) AND NOT 1"
    by (rule bit_eqI) (auto simp: bit_ucast_iff bit_and_iff n1 bit_flag_mask)
  have e3: "(e AND NOT 1) AND 1 = 0"
    by (simp add: and_1_bit bit_and_iff n1)
  show ?thesis
    unfolding decode_entry_def e1 e2 e3 by (simp add: Let_def)
qed

section \<open>An example\<close>

lemma pc_phys48: "phys48 (free_set pc_booted)"
  by (auto simp: phys48_def free_set_def fa_free_def stack_entries_def frame_stack_count_def
      frame_stack_size_bytes_def range_pages_def pages_def pc_booted_def pc_machine_def)

lemma pc_free_card: "card (free_set pc_booted) = 32287"
  using pc_booted_inv by (simp add: fa_inv_def) (simp add: pc_booted_def)

lemma pc_pg_inv: "pg_inv {} pc_booted"
  by (simp add: pg_inv_def pt_inv_def tree_shape_def tables_def)

lemma pc_create:
  obtains ps m where "create_empty_kernel_paging_structure pc_booted = Inr (ps, m)"
    and "fa_inv (free_set pc_booted) m" and "pg_inv {ps} m" and "\<And>v. mapping m ps v = 0"
    and "hal_arch_initialized m" and "31000 \<le> card (free_set m)"
proof -
  have h: "hal_arch_initialized pc_booted" by (simp add: pc_booted_def pc_machine_def)
  obtain ps m where c: "create_empty_kernel_paging_structure pc_booted = Inr (ps, m)"
    using create_progress [OF pc_booted_inv pc_pg_inv pc_phys48 h] pc_free_card by auto
  note cf = create_facts [OF pc_booted_inv pc_pg_inv pc_phys48 c]
  show thesis
    using that [OF c] cf h pc_free_card by simp
qed

section \<open>Properties\<close>

text \<open>
  C6. \<open>paging_map\<close> refines a point update of the mapping: afterwards the page translates to the
  given physical page with the given flags and \<open>PAGE_PRESENT\<close>, no other page of this or of any
  other paging structure changes its translation, and the invariants of the frame allocator and of
  the page tables hold. (Physical addresses are page aligned and below \<open>2^47\<close>.)
\<close>

theorem paging_map_refines:
  assumes "fa_inv U m" and "pg_inv S m" and "phys48 U" and "ps \<in> S"
    and "page_aligned pa" and "unat pa < 2 ^ 47" and "paging_map ps v pa flags m = Inr m'"
  shows "fa_inv U m' \<and> pg_inv S m' \<and>
    (\<forall>v'. page_number v' = page_number v \<longrightarrow>
       get_physical_address ps v' m' = \<lparr>paddr = pa, map_flags = (flags OR 1) AND 0xFFF, mmap_present = True\<rparr>) \<and>
    (\<forall>ps' \<in> S. \<forall>v'. ps' \<noteq> ps \<or> page_number v' \<noteq> page_number v \<longrightarrow>
       get_physical_address ps' v' m' = get_physical_address ps' v' m)"
proof -
  note pf = paging_map_facts [OF assms(1-4,7)]
  show ?thesis
    using pf(1,2) pf(3) assms(4) decode_map_entry [OF assms(5,6)]
    by (simp add: get_physical_address_decode)
qed

theorem paging_map_refines_witness:
  "\<exists>ps m m'. paging_map ps 0x1000 0x200000 2 m = Inr m' \<and>
     get_physical_address ps 0x1000 m' = \<lparr>paddr = 0x200000, map_flags = 3, mmap_present = True\<rparr>"
proof -
  obtain ps m where c: "fa_inv (free_set pc_booted) m" "pg_inv {ps} m"
    "hal_arch_initialized m" "31000 \<le> card (free_set m)"
    by (rule pc_create)
  obtain m' where m': "paging_map ps 0x1000 0x200000 2 m = Inr m'"
    using paging_map_progress [OF c(1,2) pc_phys48, of ps "0x1000" "0x200000" 2] c(3,4) by auto
  have "get_physical_address ps 0x1000 m' = \<lparr>paddr = 0x200000, map_flags = (2 OR 1) AND 0xFFF, mmap_present = True\<rparr>"
    using paging_map_refines [OF c(1,2) pc_phys48 _ _ _ m'] by simp
  with m' show ?thesis by auto
qed

text \<open>
  \<open>paging_map\<close> returns whenever three frames are free (one for each missing table level), so the
  only reason to panic is memory exhaustion.
\<close>

theorem paging_map_total:
  assumes "fa_inv U m" and "pg_inv S m" and "phys48 U" and "ps \<in> S"
    and "hal_arch_initialized m" and "3 \<le> card (free_set m)"
  shows "\<exists>m'. paging_map ps v pa flags m = Inr m' \<and> card (free_set m) \<le> card (free_set m') + 3"
  using paging_map_progress [OF assms, of v pa flags] paging_map_facts(4) [OF assms(1-4)] by blast

theorem paging_map_total_witness:
  "\<exists>ps m m'. paging_map ps 0xFFFF800000000000 0x300000 3 m = Inr m'"
  by (rule pc_create) (use paging_map_total [OF _ _ pc_phys48, of _ "{_}"] in fastforce)

text \<open>
  C7. \<open>invalidate_paging_mapping\<close> only clears the present bit: the page is no longer mapped, its old
  physical address and the other flags stay readable, and no other page changes.
\<close>

theorem invalidate_paging_mapping_refines:
  assumes "fa_inv U m" and "pg_inv S m" and "phys48 U" and "ps \<in> S"
    and "invalidate_paging_mapping ps v m = Inr m'"
  shows "fa_inv U m' \<and> pg_inv S m' \<and>
    (\<forall>v'. page_number v' = page_number v \<longrightarrow>
       get_physical_address ps v' m' =
         (get_physical_address ps v m)\<lparr>map_flags := map_flags (get_physical_address ps v m) AND NOT 1,
                                       mmap_present := False\<rparr>) \<and>
    (\<forall>ps' \<in> S. \<forall>v'. ps' \<noteq> ps \<or> page_number v' \<noteq> page_number v \<longrightarrow>
       get_physical_address ps' v' m' = get_physical_address ps' v' m)"
proof -
  note ifs = invalidate_facts [OF assms]
  show ?thesis
    using ifs(1,2) ifs(3) assms(4) decode_invalidated
    by (simp add: get_physical_address_decode)
qed

theorem invalidate_paging_mapping_refines_witness:
  "\<exists>ps m m'. invalidate_paging_mapping ps 0x1000 m = Inr m' \<and>
     \<not> mmap_present (get_physical_address ps 0x1000 m')"
proof -
  obtain ps m where c: "fa_inv (free_set pc_booted) m" "pg_inv {ps} m"
    "hal_arch_initialized m" "31000 \<le> card (free_set m)"
    by (rule pc_create)
  obtain m' where m': "invalidate_paging_mapping ps 0x1000 m = Inr m'"
    using invalidate_progress [OF c(1,2) pc_phys48, of ps "0x1000"] c(3,4) by auto
  have "\<not> mmap_present (get_physical_address ps 0x1000 m')"
    using invalidate_paging_mapping_refines [OF c(1,2) pc_phys48 _ m'] by simp
  with m' show ?thesis by auto
qed

text \<open>
  C8. \<open>paging_map\<close> and \<open>invalidate_paging_mapping\<close> keep the translation cache of the CPU coherent with
  the paging structure it uses: no stale translation of the changed page survives, none of
  another page is dropped.
\<close>

theorem paging_updates_keep_tlb_coherent:
  assumes "fa_inv U m" and "pg_inv S m" and "phys48 U" and "ps \<in> S" and "tlb_coherent m ps"
    and "paging_map ps v pa flags m = Inr m' \<or> invalidate_paging_mapping ps v m = Inr m'"
  shows "tlb_coherent m' ps \<and> tlb m' = (tlb m)(page_number v := None)"
  using assms(6)
proof
  assume r: "paging_map ps v pa flags m = Inr m'"
  have "tlb m' = (tlb m)(page_number v := None)"
    by (subst paging_map_facts(5) [OF assms(1-4) r]) simp
  then show ?thesis
    using assms(5) paging_map_facts(3) [OF assms(1-4) r assms(4)] by (auto simp: tlb_coherent_def)
next
  assume r: "invalidate_paging_mapping ps v m = Inr m'"
  have "tlb m' = (tlb m)(page_number v := None)"
    by (subst invalidate_facts(5) [OF assms(1-4) r]) simp
  then show ?thesis
    using assms(5) invalidate_facts(3) [OF assms(1-4) r assms(4)] by (auto simp: tlb_coherent_def)
qed

theorem paging_updates_keep_tlb_coherent_witness:
  "\<exists>ps m m'. paging_map ps 0x1000 0x200000 2 m = Inr m' \<and> tlb_coherent m' ps"
proof -
  obtain ps m where c: "fa_inv (free_set pc_booted) m" "pg_inv {ps} m"
    "hal_arch_initialized m" "31000 \<le> card (free_set m)"
    by (rule pc_create)
  let ?m = "m\<lparr>tlb := (\<lambda>_. None)\<rparr>"
  have c': "fa_inv (free_set pc_booted) ?m" "pg_inv {ps} ?m" "tlb_coherent ?m ps"
    using c by (simp_all add: tlb_coherent_def)
  obtain m' where m': "paging_map ps 0x1000 0x200000 2 ?m = Inr m'"
    using paging_map_progress [OF c'(1,2) pc_phys48, of ps "0x1000" "0x200000" 2] c(3,4) by auto
  with paging_updates_keep_tlb_coherent [OF c'(1,2) pc_phys48 _ c'(3), of "0x1000" "0x200000" 2 m']
  show ?thesis by auto
qed





text \<open>
  \<open>get_paging_mem_overhead\<close> is 4096 times the number of tables reachable from the root, without
  overflow.
\<close>

theorem get_paging_mem_overhead_correct:
  assumes "pg_inv S m" and "ps \<in> S"
  shows "unat (get_paging_mem_overhead ps m) = 4096 * card (tables (pmem m) {pmem m ps})"
proof -
  have "tree_shape (pmem m) {pmem m ps}"
    using assms by (auto simp: pg_inv_def pt_inv_def intro: tree_shape_mono)
  then have c: "card (paths_below 4 (pmem m) (pmem m ps)) = card (tables (pmem m) {pmem m ps})"
    by (rule paths_below_tables)
  define n where "n = card (tables (pmem m) {pmem m ps})"
  have n: "n \<le> 134480385"
    using finite_paths_below(2) [of "pmem m" "pmem m ps"] c by (simp add: n_def)
  have "get_paging_mem_overhead ps m = of_nat (4096 * n)"
    by (simp add: get_paging_mem_overhead_def count_map_tables_frames_card c n_def [symmetric])
  moreover have "unat (of_nat (4096 * n) :: u64) = 4096 * n"
    using n by (intro unat_of_nat_u64) simp
  ultimately show ?thesis by (simp add: n_def)
qed

theorem get_paging_mem_overhead_correct_witness:
  "\<exists>ps m. pg_inv {ps} m \<and> unat (get_paging_mem_overhead ps m) = 4096 * card (tables (pmem m) {pmem m ps})"
  by (rule pc_create) (use get_paging_mem_overhead_correct [of "{_}"] in blast)

end
