(* ===== verification/Heap.thy ===== *)
theory Heap
  imports Kernel_Prelude
begin

text \<open>
  The kernel heap, kernel/mem/heap.c: boundary-tag chunks that tile a region of virtual memory,
  doubly linked free lists in 128 buckets by size, and the wilderness chunk at the end that grows
  with the region. The chunk headers, footers and links are cells of \<open>hmem\<close>, addressed exactly as
  the C code does. The virtual memory manager that owns the region is a parameter: \<open>'h\<close> is its
  handle type, \<open>'v\<close> its state, and the operations the heap calls are arguments.
\<close>

section \<open>State\<close>

record 'h Heap =
  heap_vmem :: 'h
  enable_growth :: bool
  heap_start :: addr
  heap_size :: u64
  number_of_chunks :: u64
  wilderness_chunk :: addr
  free_buckets :: "addr list"

record ('h, 'v) heap_state =
  hmem :: memory
  kheap :: "'h Heap"
  kheap_lock :: bool
  kheap_initialized :: bool
  vmem :: 'v

text \<open>The type of \<open>try_expand_vmem_top\<close>, the operation of the virtual memory manager that grows the region.\<close>

type_synonym ('h, 'v) expand_op = "'h \<Rightarrow> u64 \<Rightarrow> ('h, 'v) heap_state \<Rightarrow> (bool \<times> ('h, 'v) heap_state) kres"

abbreviation (input) HEAP_FREE_CHUNK :: u64 where
  "HEAP_FREE_CHUNK \<equiv> 1"

abbreviation (input) HEAP_WILDERNESS_CHUNK :: u64 where
  "HEAP_WILDERNESS_CHUNK \<equiv> 2"

abbreviation (input) HEAP_CHUNK_MIN_SIZE :: u64 where
  "HEAP_CHUNK_MIN_SIZE \<equiv> 16"

abbreviation (input) KERNEL_HEAP_GROWTH_STEP :: u64 where
  "KERNEL_HEAP_GROWTH_STEP \<equiv> 16 * MB"

text \<open>The header and the footer of a chunk are one 64-bit cell each.\<close>

abbreviation (input) CHUNK_OVERHEAD :: u64 where
  "CHUNK_OVERHEAD \<equiv> 16"

section \<open>Chunks\<close>

definition get_fixed_heap_chunk_size :: "memory \<Rightarrow> addr \<Rightarrow> u64" where
  "get_fixed_heap_chunk_size mem header = mem header AND NOT 7"

definition get_heap_chunk_flag :: "memory \<Rightarrow> addr \<Rightarrow> u64 \<Rightarrow> bool" where
  "get_heap_chunk_flag mem header flag \<longleftrightarrow> mem header AND flag \<noteq> 0"

definition set_heap_chunk_flag :: "memory \<Rightarrow> addr \<Rightarrow> u64 \<Rightarrow> memory" where
  "set_heap_chunk_flag mem header flag = mem(header := mem header OR flag)"

definition reset_heap_chunk_flag :: "memory \<Rightarrow> addr \<Rightarrow> u64 \<Rightarrow> memory" where
  "reset_heap_chunk_flag mem header flag = mem(header := mem header AND NOT flag)"

definition get_next_heap_chunk_header :: "memory \<Rightarrow> addr \<Rightarrow> addr" where
  "get_next_heap_chunk_header mem header = header + get_fixed_heap_chunk_size mem header + CHUNK_OVERHEAD"

definition get_fixed_heap_chunk_size_from_footer :: "memory \<Rightarrow> addr \<Rightarrow> u64" where
  "get_fixed_heap_chunk_size_from_footer mem footer = mem footer AND NOT 7"

definition get_heap_chunk_header_from_footer :: "memory \<Rightarrow> addr \<Rightarrow> addr" where
  "get_heap_chunk_header_from_footer mem footer =
     footer - get_fixed_heap_chunk_size_from_footer mem footer - 8"

definition get_prev_heap_chunk_header :: "memory \<Rightarrow> addr \<Rightarrow> addr" where
  "get_prev_heap_chunk_header mem header = get_heap_chunk_header_from_footer mem (header - 8)"

definition get_heap_chunk_user_data :: "addr \<Rightarrow> addr" where
  "get_heap_chunk_user_data header = header + 8"

definition get_heap_chunk_footer_from_header :: "memory \<Rightarrow> addr \<Rightarrow> addr" where
  "get_heap_chunk_footer_from_header mem header = header + 8 + get_fixed_heap_chunk_size mem header"

definition get_heap_chunk_from_user_data :: "addr \<Rightarrow> addr" where
  "get_heap_chunk_from_user_data user_data = user_data - 8"

definition set_bucket_list_next :: "memory \<Rightarrow> addr \<Rightarrow> addr \<Rightarrow> memory kres" where
  "set_bucket_list_next mem header nxt =
     kassert (get_heap_chunk_flag mem header HEAP_FREE_CHUNK)
       (Inr (mem(get_heap_chunk_user_data header := nxt)))"

definition get_bucket_list_next :: "memory \<Rightarrow> addr \<Rightarrow> addr kres" where
  "get_bucket_list_next mem header =
     kassert (get_heap_chunk_flag mem header HEAP_FREE_CHUNK)
       (Inr (mem (get_heap_chunk_user_data header)))"

definition set_bucket_list_prev :: "memory \<Rightarrow> addr \<Rightarrow> addr \<Rightarrow> memory kres" where
  "set_bucket_list_prev mem header prv =
     kassert (get_heap_chunk_flag mem header HEAP_FREE_CHUNK)
       (Inr (mem(get_heap_chunk_user_data header + 8 := prv)))"

definition get_bucket_list_prev :: "memory \<Rightarrow> addr \<Rightarrow> addr kres" where
  "get_bucket_list_prev mem header =
     kassert (get_heap_chunk_flag mem header HEAP_FREE_CHUNK)
       (Inr (mem (get_heap_chunk_user_data header + 8)))"

definition is_heap_chunk_corrupted :: "memory \<Rightarrow> addr \<Rightarrow> bool" where
  "is_heap_chunk_corrupted mem header =
     (let footer = get_heap_chunk_footer_from_header mem header;
          size1 = get_fixed_heap_chunk_size_from_footer mem footer;
          size2 = get_fixed_heap_chunk_size mem header
      in size1 \<noteq> size2 \<or> size1 < HEAP_CHUNK_MIN_SIZE \<or> mem footer AND 7 \<noteq> 0)"

definition is_first_chunk_of_heap :: "'h Heap \<Rightarrow> addr \<Rightarrow> bool" where
  "is_first_chunk_of_heap heap header \<longleftrightarrow> heap_start heap = header"

definition is_last_chunk_of_heap :: "memory \<Rightarrow> addr \<Rightarrow> bool" where
  "is_last_chunk_of_heap mem header = get_heap_chunk_flag mem header HEAP_WILDERNESS_CHUNK"

section \<open>Buckets\<close>

text \<open>
  The index is a C \<open>int\<close>. For sizes below 8 it is negative; then the bucket array is accessed out of
  bounds.
\<close>

definition get_bucket_index_from_size :: "u64 \<Rightarrow> int" where
  "get_bucket_index_from_size sz =
     (if sz \<le> 8 * 64 then uint (sz div 8) - 1
      else if sz \<le> 8 * 64 + 64 * 32 then uint (63 + 1 + (sz - 8 * 64) div 64)
      else let index = 63 + 32 + 1 + (sz - (8 * 64 + 64 * 32)) div 512
           in if index \<ge> 128 then 127 else uint index)"

definition get_bucket_index_from_header :: "memory \<Rightarrow> addr \<Rightarrow> int" where
  "get_bucket_index_from_header mem header =
     (if get_heap_chunk_flag mem header HEAP_WILDERNESS_CHUNK then 127
      else get_bucket_index_from_size (get_fixed_heap_chunk_size mem header))"

definition read_bucket :: "'h Heap \<Rightarrow> int \<Rightarrow> addr kres" where
  "read_bucket heap i =
     (if 0 \<le> i \<and> i < 128 then Inr (free_buckets heap ! nat i) else Inl Undefined)"

definition write_bucket :: "'h Heap \<Rightarrow> int \<Rightarrow> addr \<Rightarrow> 'h Heap kres" where
  "write_bucket heap i h =
     (if 0 \<le> i \<and> i < 128 then Inr (heap\<lparr>free_buckets := (free_buckets heap)[nat i := h]\<rparr>)
      else Inl Undefined)"

definition remove_from_bucket_list :: "memory \<Rightarrow> 'h Heap \<Rightarrow> addr \<Rightarrow> (memory \<times> 'h Heap) kres" where
  "remove_from_bucket_list mem heap header =
     (let index = get_bucket_index_from_header mem header
      in kbind (get_bucket_list_prev mem header) (\<lambda>prev_list_elem.
         kbind (get_bucket_list_next mem header) (\<lambda>next_list_elem.
         kassert (get_heap_chunk_flag mem header HEAP_FREE_CHUNK)
        (kbind (read_bucket heap index) (\<lambda>first.
         kbind (if first = header then write_bucket heap index next_list_elem else Inr heap) (\<lambda>heap1.
         kbind (if prev_list_elem \<noteq> NULL \<and> next_list_elem \<noteq> NULL
                then kbind (set_bucket_list_next mem prev_list_elem next_list_elem) (\<lambda>mem1.
                       set_bucket_list_prev mem1 next_list_elem prev_list_elem)
                else if prev_list_elem = NULL \<and> next_list_elem \<noteq> NULL
                then set_bucket_list_prev mem next_list_elem NULL
                else if prev_list_elem \<noteq> NULL \<and> next_list_elem = NULL
                then set_bucket_list_next mem prev_list_elem NULL
                else Inr mem) (\<lambda>mem2.
         kbind (set_bucket_list_next mem2 header NULL) (\<lambda>mem3.
         kbind (set_bucket_list_prev mem3 header NULL) (\<lambda>mem4.
           Inr (mem4, heap1))))))))))"

definition add_to_bucket_list :: "memory \<Rightarrow> 'h Heap \<Rightarrow> addr \<Rightarrow> (memory \<times> 'h Heap) kres" where
  "add_to_bucket_list mem heap header =
     (let index = get_bucket_index_from_header mem header
      in kbind (set_bucket_list_prev mem header NULL) (\<lambda>mem1.
         kbind (read_bucket heap index) (\<lambda>first.
         kbind (set_bucket_list_next mem1 header first) (\<lambda>mem2.
         kbind (if first \<noteq> NULL then set_bucket_list_prev mem2 first header else Inr mem2) (\<lambda>mem3.
         kbind (write_bucket heap index header) (\<lambda>heap1.
           Inr (mem3, heap1)))))))"

section \<open>Initialisation and growth\<close>

definition initialize_heap ::
  "('v \<Rightarrow> 'h \<Rightarrow> addr) \<Rightarrow> ('v \<Rightarrow> 'h \<Rightarrow> u64) \<Rightarrow> 'h \<Rightarrow> ('h, 'v) heap_state \<Rightarrow> ('h, 'v) heap_state kres" where
  "initialize_heap get_vmem_addr get_vmem_size vm s =
     (let start = get_vmem_addr (vmem s) vm;
          sz = get_vmem_size (vmem s) vm
      in kassert (sz > 128)
        (kassert (start mod 8 = 0)
        (kassert (sz mod 8 = 0)
          (let user_data_size = sz - 8 - 8;
               mem1 = (hmem s)(start := user_data_size);
               mem2 = set_heap_chunk_flag mem1 start HEAP_WILDERNESS_CHUNK;
               mem3 = set_heap_chunk_flag mem2 start HEAP_FREE_CHUNK;
               mem4 = mem3(get_heap_chunk_footer_from_header mem3 start := user_data_size);
               heap = \<lparr>heap_vmem = vm, enable_growth = False, heap_start = start, heap_size = sz,
                       number_of_chunks = 1, wilderness_chunk = start,
                       free_buckets = replicate 128 NULL\<rparr>
           in kbind (add_to_bucket_list mem4 heap start) (\<lambda>(mem5, heap1).
                Inr (s\<lparr>hmem := mem5, kheap := heap1\<rparr>))))))"

definition enable_heap_growth :: "'h Heap \<Rightarrow> 'h Heap" where
  "enable_heap_growth heap = heap\<lparr>enable_growth := True\<rparr>"

definition growth_size_for :: "u64 \<Rightarrow> u64" where
  "growth_size_for min_size_increase =
     (let m = min_size_increase + CHUNK_OVERHEAD;
          g = (if KERNEL_HEAP_GROWTH_STEP < m then m else KERNEL_HEAP_GROWTH_STEP)
      in if g mod PAGE_SIZE \<noteq> 0 then g + (PAGE_SIZE - g mod PAGE_SIZE) else g)"

definition try_increase_wilderness_chunk ::
  "('h, 'v) expand_op \<Rightarrow> u64 \<Rightarrow> ('h, 'v) heap_state \<Rightarrow>
   (bool \<times> ('h, 'v) heap_state) kres" where
  "try_increase_wilderness_chunk try_expand_vmem_top min_size_increase s =
     (let growth_size = growth_size_for min_size_increase; heap = kheap s
      in kassert (growth_size mod PAGE_SIZE = 0)
        (if \<not> enable_growth heap then Inr (False, s)
         else kbind (try_expand_vmem_top (heap_vmem heap) growth_size s) (\<lambda>(ok, s1).
           if \<not> ok then Inr (False, s1)
           else
             let heap1 = (kheap s1)\<lparr>heap_size := heap_size (kheap s1) + growth_size\<rparr>;
                 wild = wilderness_chunk heap1;
                 mem = hmem s1
             in kassert (get_heap_chunk_flag mem wild HEAP_WILDERNESS_CHUNK)
               (let mem1 = mem(wild := mem wild + growth_size);
                    new_footer = get_heap_chunk_footer_from_header mem1 wild
                in kassert (new_footer + 8 = heap_start heap1 + heap_size heap1)
                  (Inr (True, s1\<lparr>hmem := mem1(new_footer := mem1 wild AND NOT 7), kheap := heap1\<rparr>))))))"

section \<open>Merging and splitting\<close>

definition merge_with_next_chunk :: "memory \<Rightarrow> 'h Heap \<Rightarrow> addr \<Rightarrow> (memory \<times> 'h Heap) kres" where
  "merge_with_next_chunk mem heap header =
     kassert (\<not> is_last_chunk_of_heap mem header)
       (let nxt = get_next_heap_chunk_header mem header
        in kassert (get_heap_chunk_flag mem header HEAP_FREE_CHUNK)
          (kassert (get_heap_chunk_flag mem nxt HEAP_FREE_CHUNK)
            (let is_wilderness_chunk = get_heap_chunk_flag mem nxt HEAP_WILDERNESS_CHUNK;
                 old_last_footer = get_heap_chunk_footer_from_header mem nxt
             in kbind (remove_from_bucket_list mem heap header) (\<lambda>(mem1, heap1).
                kbind (remove_from_bucket_list mem1 heap1 nxt) (\<lambda>(mem2, heap2).
                let next_size = get_fixed_heap_chunk_size mem2 nxt;
                    header_size = get_fixed_heap_chunk_size mem2 header;
                    new_size = next_size + header_size + CHUNK_OVERHEAD
                in kassert (new_size mod 8 = 0)
                  (kassert (new_size \<ge> HEAP_CHUNK_MIN_SIZE)
                    (let mem3 = set_heap_chunk_flag (mem2(header := new_size)) header HEAP_FREE_CHUNK;
                         mem4 = (if is_wilderness_chunk
                                 then set_heap_chunk_flag mem3 header HEAP_WILDERNESS_CHUNK else mem3);
                         heap4 = (if is_wilderness_chunk then heap2\<lparr>wilderness_chunk := header\<rparr> else heap2);
                         footer = get_heap_chunk_footer_from_header mem4 nxt;
                         mem5 = mem4(footer := new_size)
                     in kassert (footer = old_last_footer)
                       (kbind (add_to_bucket_list mem5 heap4 header) (\<lambda>(mem6, heap6).
                          Inr (mem6, heap6\<lparr>number_of_chunks := number_of_chunks heap6 - 1\<rparr>))))))))))"

definition merge_with_next_and_prev_chunk ::
  "memory \<Rightarrow> 'h Heap \<Rightarrow> addr \<Rightarrow> (memory \<times> 'h Heap) kres" where
  "merge_with_next_and_prev_chunk mem heap header =
     kassert (\<not> is_last_chunk_of_heap mem header)
      (kassert (\<not> is_first_chunk_of_heap heap header)
       (let nxt = get_next_heap_chunk_header mem header;
            prv = get_prev_heap_chunk_header mem header
        in kassert (get_heap_chunk_flag mem header HEAP_FREE_CHUNK)
          (kassert (get_heap_chunk_flag mem prv HEAP_FREE_CHUNK)
          (kassert (get_heap_chunk_flag mem nxt HEAP_FREE_CHUNK)
            (let old_last_footer = get_heap_chunk_footer_from_header mem nxt;
                 is_wilderness_chunk = get_heap_chunk_flag mem nxt HEAP_WILDERNESS_CHUNK
             in kbind (remove_from_bucket_list mem heap header) (\<lambda>(mem1, heap1).
                kbind (remove_from_bucket_list mem1 heap1 nxt) (\<lambda>(mem2, heap2).
                kbind (remove_from_bucket_list mem2 heap2 prv) (\<lambda>(mem3, heap3).
                let new_size = 8 * 2 + 8 * 2 + get_fixed_heap_chunk_size mem3 header +
                      get_fixed_heap_chunk_size mem3 nxt + get_fixed_heap_chunk_size mem3 prv
                in kassert (new_size mod 8 = 0)
                  (kassert (new_size \<ge> HEAP_CHUNK_MIN_SIZE)
                    (let mem4 = set_heap_chunk_flag (mem3(prv := new_size)) prv HEAP_FREE_CHUNK;
                         mem5 = (if is_wilderness_chunk
                                 then set_heap_chunk_flag mem4 prv HEAP_WILDERNESS_CHUNK else mem4);
                         heap5 = (if is_wilderness_chunk then heap3\<lparr>wilderness_chunk := prv\<rparr> else heap3);
                         footer = get_heap_chunk_footer_from_header mem5 prv;
                         mem6 = mem5(footer := new_size)
                     in kassert (footer = old_last_footer)
                       (kbind (add_to_bucket_list mem6 heap5 prv) (\<lambda>(mem7, heap7).
                          Inr (mem7, heap7\<lparr>number_of_chunks := number_of_chunks heap7 - 2\<rparr>)))))))))))))"

text \<open>
  The size of the second chunk is a signed 64-bit number; a negative one is below the minimum and
  the split is refused.
\<close>

definition split_chunk_and_alloc ::
  "memory \<Rightarrow> 'h Heap \<Rightarrow> addr \<Rightarrow> u64 \<Rightarrow> (bool \<times> memory \<times> 'h Heap) kres" where
  "split_chunk_and_alloc mem heap header first_chunk_size =
     kassert (get_heap_chunk_flag mem header HEAP_FREE_CHUNK)
      (kassert (first_chunk_size mod 8 = 0)
      (kassert (first_chunk_size \<ge> HEAP_CHUNK_MIN_SIZE)
       (let old_footer = get_heap_chunk_footer_from_header mem header;
            second_chunk_size = get_fixed_heap_chunk_size mem header - (first_chunk_size + CHUNK_OVERHEAD)
        in if sint second_chunk_size < 16 then Inr (False, mem, heap)
           else kassert (second_chunk_size mod 8 = 0)
            (let is_header_wilderness_chunk = get_heap_chunk_flag mem header HEAP_WILDERNESS_CHUNK
             in kbind (remove_from_bucket_list mem heap header) (\<lambda>(mem1, heap1).
                let mem2 = mem1(header := first_chunk_size);
                    mem3 = mem2(get_heap_chunk_footer_from_header mem2 header := first_chunk_size);
                    second_chunk = get_next_heap_chunk_header mem3 header;
                    mem4 = set_heap_chunk_flag (mem3(second_chunk := second_chunk_size)) second_chunk HEAP_FREE_CHUNK;
                    mem5 = (if is_header_wilderness_chunk
                            then set_heap_chunk_flag mem4 second_chunk HEAP_WILDERNESS_CHUNK else mem4);
                    heap5 = (if is_header_wilderness_chunk then heap1\<lparr>wilderness_chunk := second_chunk\<rparr> else heap1);
                    second_chunk_footer = get_heap_chunk_footer_from_header mem5 second_chunk;
                    mem6 = mem5(second_chunk_footer := second_chunk_size)
                in kbind (add_to_bucket_list mem6 heap5 second_chunk) (\<lambda>(mem7, heap7).
                   kassert (second_chunk_footer = old_footer)
                     (Inr (True, mem7, heap7\<lparr>number_of_chunks := number_of_chunks heap7 + 1\<rparr>))))))))"

definition alloc_chunk :: "memory \<Rightarrow> 'h Heap \<Rightarrow> addr \<Rightarrow> (memory \<times> 'h Heap) kres" where
  "alloc_chunk mem heap header =
     kassert (\<not> get_heap_chunk_flag mem header HEAP_WILDERNESS_CHUNK)
      (kbind (remove_from_bucket_list mem heap header) (\<lambda>(mem1, heap1).
         Inr (reset_heap_chunk_flag mem1 header HEAP_FREE_CHUNK, heap1)))"

section \<open>The interface of the heap\<close>

definition is_kheap_initialzed :: "('h, 'v) heap_state \<Rightarrow> bool" where
  "is_kheap_initialzed s = kheap_initialized s"

definition kheap_init ::
  "(u64 \<Rightarrow> u64 \<Rightarrow> u64 \<Rightarrow> ('h, 'v) heap_state \<Rightarrow> ('h \<times> ('h, 'v) heap_state) kres) \<Rightarrow> ('v \<Rightarrow> 'h \<Rightarrow> addr) \<Rightarrow> ('v \<Rightarrow> 'h \<Rightarrow> u64) \<Rightarrow>
   ('h, 'v) heap_state \<Rightarrow> ('h, 'v) heap_state kres" where
  "kheap_init allocate_kernel_virtual_memory get_vmem_addr get_vmem_size s =
     (let s1 = s\<lparr>kheap_lock := False\<rparr>
      in kassert (PAGE_SIZE mod 8 = 0)
        (kbind (allocate_kernel_virtual_memory (4 * MB) (8 * GB) (16 * KB) s1) (\<lambda>(kheap_mem, s2).
         kbind (initialize_heap get_vmem_addr get_vmem_size kheap_mem s2) (\<lambda>s3.
           Inr (s3\<lparr>kheap_initialized := True\<rparr>)))))"

text \<open>The request rounded up to the minimum size and to 8 bytes.\<close>

definition round_request :: "u64 \<Rightarrow> u64" where
  "round_request size0 =
     (let sz = (if size0 < HEAP_CHUNK_MIN_SIZE then HEAP_CHUNK_MIN_SIZE else size0)
      in if sz mod 8 \<noteq> 0 then sz + (8 - sz mod 8) else sz)"

text \<open>
  The walk through one bucket. There are \<open>2^61\<close> aligned addresses: a walk that has not ended after as
  many steps has entered a cycle and never ends. The next pointer is read also when the candidate
  is taken, as in the C \<open>for\<close> loop.
\<close>

function search_bucket :: "nat \<Rightarrow> memory \<Rightarrow> u64 \<Rightarrow> addr \<Rightarrow> addr kres" where
  "search_bucket n mem sz candidate =
     (if candidate = NULL then Inr NULL
      else if n = 0 then Inl Hang
      else
        let candidate_size = get_fixed_heap_chunk_size mem candidate;
            splittable = (candidate_size \<ge> HEAP_CHUNK_MIN_SIZE + CHUNK_OVERHEAD)
        in kbind (get_bucket_list_next mem candidate) (\<lambda>nxt.
             if candidate_size = sz \<or> splittable then Inr candidate
             else search_bucket (n - 1) mem sz nxt))"
  by pat_completeness auto
termination
  by (relation "measure (\<lambda>(n, mem, sz, candidate). n)") auto

declare search_bucket.simps [simp del]

function search_buckets :: "memory \<Rightarrow> 'h Heap \<Rightarrow> u64 \<Rightarrow> int \<Rightarrow> addr kres" where
  "search_buckets mem heap sz bucket_idx =
     (if bucket_idx < 128
      then kbind (read_bucket heap bucket_idx) (\<lambda>first.
           kbind (search_bucket (2 ^ 61) mem sz first) (\<lambda>found_chunk.
             if found_chunk \<noteq> NULL then Inr found_chunk
             else search_buckets mem heap sz (bucket_idx + 1)))
      else Inr NULL)"
  by pat_completeness auto
termination
  by (relation "measure (\<lambda>(mem, heap, sz, bucket_idx). nat (128 - bucket_idx))") auto

declare search_buckets.simps [simp del]

text \<open>
  The three ways to serve a request with the chunk that was found. The result of the split of a
  chunk that is not the wilderness is ignored, as in the code.
\<close>

definition serve_chunk :: "u64 \<Rightarrow> addr \<Rightarrow> ('h, 'v) heap_state \<Rightarrow> ('h, 'v) heap_state kres" where
  "serve_chunk sz found_chunk s =
     (if get_fixed_heap_chunk_size (hmem s) found_chunk = sz
      then kbind (alloc_chunk (hmem s) (kheap s) found_chunk) (\<lambda>(mem, heap).
             Inr (s\<lparr>hmem := mem, kheap := heap\<rparr>))
      else kassert (get_fixed_heap_chunk_size (hmem s) found_chunk \<ge> HEAP_CHUNK_MIN_SIZE + CHUNK_OVERHEAD)
             (kbind (split_chunk_and_alloc (hmem s) (kheap s) found_chunk sz) (\<lambda>(_, mem, heap).
                Inr (s\<lparr>hmem := mem, kheap := heap\<rparr>))))"

definition serve_wilderness ::
  "('h, 'v) expand_op \<Rightarrow> u64 \<Rightarrow> addr \<Rightarrow> ('h, 'v) heap_state \<Rightarrow> ('h, 'v) heap_state kres" where
  "serve_wilderness try_expand_vmem_top sz found_chunk s =
     kbind (split_chunk_and_alloc (hmem s) (kheap s) found_chunk sz) (\<lambda>(ok, mem, heap).
       if ok then Inr (s\<lparr>hmem := mem, kheap := heap\<rparr>)
       else kbind (try_increase_wilderness_chunk try_expand_vmem_top sz s) (\<lambda>(increased, s1).
         if \<not> increased then kpanic HEAP_OUT_OF_MEM
         else kbind (split_chunk_and_alloc (hmem s1) (kheap s1) found_chunk sz) (\<lambda>(ok1, mem1, heap1).
           if ok1 then Inr (s1\<lparr>hmem := mem1, kheap := heap1\<rparr>) else kpanic HEAP_OUT_OF_MEM)))"

definition kmalloc ::
  "('h, 'v) expand_op \<Rightarrow> u64 \<Rightarrow> ('h, 'v) heap_state \<Rightarrow>
   (addr \<times> ('h, 'v) heap_state) kres" where
  "kmalloc try_expand_vmem_top size0 s =
     (if kheap_lock s then Inl Hang
      else
        let s0 = s\<lparr>kheap_lock := True\<rparr>;
            sz = round_request size0
        in kbind (search_buckets (hmem s0) (kheap s0) sz (get_bucket_index_from_size sz)) (\<lambda>found.
           let found_chunk = (if found = NULL then wilderness_chunk (kheap s0) else found)
           in kbind (if \<not> get_heap_chunk_flag (hmem s0) found_chunk HEAP_WILDERNESS_CHUNK
                     then serve_chunk sz found_chunk s0
                     else serve_wilderness try_expand_vmem_top sz found_chunk s0) (\<lambda>s1.
                Inr (get_heap_chunk_user_data found_chunk, s1\<lparr>kheap_lock := False\<rparr>))))"

text \<open>The neighbours of a chunk that \<open>kfree\<close> merges with: null when absent or not free.\<close>

definition free_prev :: "memory \<Rightarrow> 'h Heap \<Rightarrow> addr \<Rightarrow> addr" where
  "free_prev mem heap header =
     (let prv = (if \<not> is_first_chunk_of_heap heap header then get_prev_heap_chunk_header mem header else NULL)
      in if prv \<noteq> NULL \<and> \<not> get_heap_chunk_flag mem prv HEAP_FREE_CHUNK then NULL else prv)"

definition free_next :: "memory \<Rightarrow> addr \<Rightarrow> addr" where
  "free_next mem header =
     (let nxt = (if \<not> is_last_chunk_of_heap mem header then get_next_heap_chunk_header mem header else NULL)
      in if nxt \<noteq> NULL \<and> \<not> get_heap_chunk_flag mem nxt HEAP_FREE_CHUNK then NULL else nxt)"

definition kfree :: "addr \<Rightarrow> ('h, 'v) heap_state \<Rightarrow> ('h, 'v) heap_state kres" where
  "kfree ptr s =
     (if kheap_lock s then Inl Hang
      else
        let header = get_heap_chunk_from_user_data ptr; mem = hmem s; heap = kheap s
        in if get_heap_chunk_flag mem header HEAP_FREE_CHUNK then kpanic HEAP_CORRUPTED
           else if get_heap_chunk_flag mem header HEAP_WILDERNESS_CHUNK then kpanic HEAP_CORRUPTED
           else if is_heap_chunk_corrupted mem header then kpanic HEAP_CORRUPTED
           else
             kbind (set_bucket_list_next (set_heap_chunk_flag mem header HEAP_FREE_CHUNK) header NULL) (\<lambda>mem1.
             kbind (set_bucket_list_prev mem1 header NULL) (\<lambda>mem2.
             let prv = free_prev mem2 heap header;
                 nxt = free_next mem2 header
             in kbind (if prv = NULL \<and> nxt = NULL then add_to_bucket_list mem2 heap header
                       else if prv \<noteq> NULL \<and> nxt = NULL then merge_with_next_chunk mem2 heap prv
                       else if prv = NULL \<and> nxt \<noteq> NULL then merge_with_next_chunk mem2 heap header
                       else merge_with_next_and_prev_chunk mem2 heap header) (\<lambda>(mem3, heap3).
                  Inr (s\<lparr>hmem := mem3, kheap := heap3\<rparr>)))))"

definition get_number_of_chunks_of_kheap :: "('h, 'v) heap_state \<Rightarrow> (u64 \<times> ('h, 'v) heap_state) kres" where
  "get_number_of_chunks_of_kheap s =
     (if kheap_lock s then Inl Hang else Inr (number_of_chunks (kheap s), s))"

definition get_kheap_total_size :: "('h, 'v) heap_state \<Rightarrow> (u64 \<times> ('h, 'v) heap_state) kres" where
  "get_kheap_total_size s = (if kheap_lock s then Inl Hang else Inr (heap_size (kheap s), s))"

definition enable_kheap_growth :: "('h, 'v) heap_state \<Rightarrow> ('h, 'v) heap_state kres" where
  "enable_kheap_growth s =
     (if kheap_lock s then Inl Hang else Inr (s\<lparr>kheap := enable_heap_growth (kheap s)\<rparr>))"

text \<open>
  The consistency check: the loop over the chunks with the number of chunks seen so far. Its first
  test bounds the number of iterations by \<open>number_of_chunks\<close>, which is the recursion measure.
\<close>

function corrupted_loop :: "memory \<Rightarrow> 'h Heap \<Rightarrow> addr \<Rightarrow> nat \<Rightarrow> bool" where
  "corrupted_loop mem heap header seen =
     (let start = heap_start heap;
          end_addr = heap_start heap + heap_size heap;
          n = seen + 1
      in if n > unat (number_of_chunks heap) then True
         else if header < start \<or> header + mem header > end_addr then True
         else if is_heap_chunk_corrupted mem header then True
         else if is_last_chunk_of_heap mem header then n \<noteq> unat (number_of_chunks heap)
         else
           let nxt = get_next_heap_chunk_header mem header
           in if nxt = NULL then n \<noteq> unat (number_of_chunks heap)
              else corrupted_loop mem heap nxt n)"
  by pat_completeness auto
termination
  by (relation "measure (\<lambda>(mem, heap, header, seen). unat (number_of_chunks heap) - seen)") auto

declare corrupted_loop.simps [simp del]

definition unsync_is_kheap_corrupted :: "('h, 'v) heap_state \<Rightarrow> bool" where
  "unsync_is_kheap_corrupted s =
     (let heap = kheap s
      in if heap_size heap mod PAGE_SIZE \<noteq> 0 then True
         else if heap_start heap mod PAGE_SIZE \<noteq> 0 then True
         else if heap_start heap = NULL then 0 \<noteq> number_of_chunks heap
         else corrupted_loop (hmem s) heap (heap_start heap) 0)"

definition is_kheap_corrupted :: "('h, 'v) heap_state \<Rightarrow> (bool \<times> ('h, 'v) heap_state) kres" where
  "is_kheap_corrupted s =
     (if kheap_lock s then Inl Hang else Inr (unsync_is_kheap_corrupted s, s))"

end
