(* ===== verification/Heap_Lists.thy ===== *)
theory Heap_Lists
  imports Heap
begin

text \<open>
  The free lists of the heap: doubly linked lists threaded through the user data of free chunks.
  Addresses are natural numbers here, cells are read at \<open>of_nat\<close> of them; the lemmas say what
  \<open>remove_from_bucket_list\<close> and \<open>add_to_bucket_list\<close> do to a list, and which cells they leave alone.
\<close>

lemma of_nat_inj_u64:
  "a < 18446744073709551616 \<Longrightarrow> b < 18446744073709551616 \<Longrightarrow> (of_nat a :: u64) = of_nat b \<longleftrightarrow> a = b"
  by (metis unat_of_nat_u64)

lemma of_nat_0_u64: "a < 18446744073709551616 \<Longrightarrow> (of_nat a :: u64) = 0 \<longleftrightarrow> a = 0"
  using of_nat_inj_u64 [of a 0] by simp

lemma cell_upd:
  "a < 18446744073709551616 \<Longrightarrow> b < 18446744073709551616 \<Longrightarrow>
   (mem(of_nat a := v)) (of_nat b :: u64) = (if b = a then v else mem (of_nat b))"
  by (simp add: of_nat_inj_u64)

lemma addr_arith:
  "(of_nat h :: u64) + 8 = of_nat (h + 8)"
  "(of_nat h :: u64) + 8 + 8 = of_nat (h + 16)"
  "(of_nat h :: u64) + 16 = of_nat (h + 16)"
  by simp_all

declare of_nat_add [simp del]

section \<open>Doubly linked segments\<close>

definition hd0 :: "u64 \<Rightarrow> nat list \<Rightarrow> u64" where
  "hd0 n xs = (case xs of [] \<Rightarrow> n | x # _ \<Rightarrow> of_nat x)"

definition last0 :: "u64 \<Rightarrow> nat list \<Rightarrow> u64" where
  "last0 p xs = (if xs = [] then p else of_nat (last xs))"

lemma hd0_simps [simp]: "hd0 n [] = n" "hd0 n (x # xs) = of_nat x" "hd0 n (xs @ x # ys) = hd0 (of_nat x) xs"
  by (simp_all add: hd0_def split: list.split)

lemma last0_simps [simp]: "last0 p [] = p" "last0 p (xs @ [x]) = of_nat x" "last0 p (x # xs) = last0 (of_nat x) xs"
  by (simp_all add: last0_def)

text \<open>
  \<open>dseg mem p xs n\<close>: the chunks \<open>xs\<close> are linked in both directions, the first one back to \<open>p\<close>, the
  last one forward to \<open>n\<close>.
\<close>

fun dseg :: "memory \<Rightarrow> u64 \<Rightarrow> nat list \<Rightarrow> u64 \<Rightarrow> bool" where
  "dseg mem p [] n = True"
| "dseg mem p (x # xs) n =
     (mem (of_nat (x + 16)) = p \<and> mem (of_nat (x + 8)) = hd0 n xs \<and> dseg mem (of_nat x) xs n)"

lemma dseg_append:
  "dseg mem p (xs @ ys) n \<longleftrightarrow> dseg mem p xs (hd0 n ys) \<and> dseg mem (last0 p xs) ys n"
  by (induction xs arbitrary: p) (auto simp: hd0_def split: list.splits)

definition links :: "nat set \<Rightarrow> nat set" where
  "links X = (\<lambda>x. x + 8) ` X \<union> (\<lambda>x. x + 16) ` X"

lemma dseg_cong:
  "(\<And>a. a \<in> links (set xs) \<Longrightarrow> mem' (of_nat a) = mem (of_nat a)) \<Longrightarrow> dseg mem' p xs n = dseg mem p xs n"
  by (induction xs arbitrary: p) (auto simp: links_def)

text \<open>Chunks far enough apart for their headers and links not to overlap.\<close>

definition spaced :: "nat set \<Rightarrow> bool" where
  "spaced X \<longleftrightarrow> (\<forall>x \<in> X. 0 < x \<and> x + 32 < 18446744073709551616 \<and> (\<forall>y \<in> X. x < y \<longrightarrow> x + 32 \<le> y))"

lemma spaced_subset: "spaced X \<Longrightarrow> Y \<subseteq> X \<Longrightarrow> spaced Y"
  by (auto simp: spaced_def)

lemma spaced_apart:
  assumes "spaced X" and "x \<in> X" and "y \<in> X" and "x \<noteq> y"
  shows "x + 32 \<le> y \<or> y + 32 \<le> x"
  using assms by (auto simp: spaced_def neq_iff)

lemma spaced_bound: "spaced X \<Longrightarrow> x \<in> X \<Longrightarrow> 0 < x \<and> x + 32 < 18446744073709551616"
  by (simp add: spaced_def)

lemma links_apart:
  assumes "spaced X" and "x \<in> X" and "y \<in> X"
  shows "x + 8 = y + 8 \<longleftrightarrow> x = y" and "x + 16 = y + 16 \<longleftrightarrow> x = y" and "x + 8 \<noteq> y + 16" and "x \<noteq> y + 8" and "x \<noteq> y + 16"
  using spaced_apart [OF assms] by (cases "x = y"; auto)+

lemma dseg_upd:
  assumes "spaced (insert x (set xs))" and "x \<notin> set xs" and "k = 8 \<or> k = 16"
  shows "dseg (mem(of_nat (x + k) := v)) p xs n = dseg mem p xs n"
proof (rule dseg_cong)
  fix a assume "a \<in> links (set xs)"
  then obtain y where y: "y \<in> set xs" "a = y + 8 \<or> a = y + 16" by (auto simp: links_def)
  then have "x + 32 \<le> y \<or> y + 32 \<le> x" using spaced_apart [OF assms(1), of x y] assms(2) by auto
  then have "a \<noteq> x + k" using y(2) assms(3) by auto
  moreover have "a < 18446744073709551616" "x + k < 18446744073709551616"
    using spaced_bound [OF assms(1), of y] spaced_bound [OF assms(1), of x] y assms(3) by auto
  ultimately show "(mem(of_nat (x + k) := v)) (of_nat a) = mem (of_nat a)"
    by (subst cell_upd) auto
qed

lemma link_set_next:
  assumes "spaced (set (xs @ [x]))" and "distinct (xs @ [x])" and "dseg mem p (xs @ [x]) n"
  shows "dseg (mem(of_nat (x + 8) := n')) p (xs @ [x]) n'"
proof -
  have "x + 32 < 18446744073709551616" using assms(1) by (auto simp: spaced_def)
  then have "(mem(of_nat (x + 8) := n')) (of_nat (x + 16)) = mem (of_nat (x + 16))"
    by (subst cell_upd) auto
  then show ?thesis
    using assms dseg_upd [of x xs 8 mem n' p] by (simp add: dseg_append)
qed

lemma link_set_prev:
  assumes "spaced (set (x # xs))" and "distinct (x # xs)" and "dseg mem p (x # xs) n"
  shows "dseg (mem(of_nat (x + 16) := p')) p' (x # xs) n"
proof -
  have "x + 32 < 18446744073709551616" using assms(1) by (auto simp: spaced_def)
  then have "(mem(of_nat (x + 16) := p')) (of_nat (x + 8)) = mem (of_nat (x + 8))"
    by (subst cell_upd) auto
  then show ?thesis
    using assms dseg_upd [of x xs 16 mem p' "of_nat x" n] by simp
qed

section \<open>The two list operations\<close>

definition all_free :: "memory \<Rightarrow> nat set \<Rightarrow> bool" where
  "all_free mem X \<longleftrightarrow> (\<forall>x \<in> X. get_heap_chunk_flag mem (of_nat x) HEAP_FREE_CHUNK)"

lemma link_keeps_header:
  fixes mem :: memory
  assumes "spaced X" and "x \<in> X" and "y \<in> X" and "k = 8 \<or> k = 16"
  shows "(mem(of_nat (y + k) := v)) (of_nat x) = mem (of_nat x)"
proof -
  have "x \<noteq> y + k" using links_apart(4,5) [OF assms(1-3)] assms(4) by auto
  then show ?thesis
    using spaced_bound [OF assms(1,2)] spaced_bound [OF assms(1,3)] assms(4) by (subst cell_upd) auto
qed

lemma all_free_upd:
  "spaced X \<Longrightarrow> y \<in> X \<Longrightarrow> k = 8 \<or> k = 16 \<Longrightarrow> all_free (mem(of_nat (y + k) := v)) X = all_free mem X"
  unfolding all_free_def get_heap_chunk_flag_def by (metis link_keeps_header)

lemma bucket_link_simps:
  assumes "all_free mem X" and "x \<in> X"
  shows "set_bucket_list_next mem (of_nat x) v = Inr (mem(of_nat (x + 8) := v))"
    and "set_bucket_list_prev mem (of_nat x) v = Inr (mem(of_nat (x + 16) := v))"
    and "get_bucket_list_next mem (of_nat x) = Inr (mem (of_nat (x + 8)))"
    and "get_bucket_list_prev mem (of_nat x) = Inr (mem (of_nat (x + 16)))"
  using assms
  by (simp_all add: all_free_def set_bucket_list_next_def set_bucket_list_prev_def get_bucket_list_next_def
      get_bucket_list_prev_def get_heap_chunk_user_data_def of_nat_add ac_simps)

text \<open>Unlinking \<open>h\<close> from between \<open>xs\<close> and \<open>ys\<close>, as the code does it: each neighbour that exists is updated.\<close>

definition unlink :: "nat list \<Rightarrow> nat list \<Rightarrow> memory \<Rightarrow> memory" where
  "unlink xs ys mem =
     (let mem1 = (if xs = [] then mem else mem(of_nat (last xs + 8) := hd0 0 ys))
      in if ys = [] then mem1 else mem1(of_nat (hd ys + 16) := last0 0 xs))"

lemma unlink_dseg:
  assumes sp: "spaced (set (xs @ ys))" and d: "distinct (xs @ ys)"
    and xs: "dseg mem 0 xs n" and ys: "dseg mem p ys 0"
  shows "dseg (unlink xs ys mem) 0 (xs @ ys) 0"
proof -
  define mem1 where "mem1 = (if xs = [] then mem else mem(of_nat (last xs + 8) := hd0 0 ys))"
  have spx: "spaced (insert x (set ys))" if "x \<in> set xs" for x
    by (rule spaced_subset [OF sp]) (use that in auto)
  have spy: "spaced (insert y (set xs))" if "y \<in> set ys" for y
    by (rule spaced_subset [OF sp]) (use that in auto)
  have x1: "dseg mem1 0 xs (hd0 0 ys)"
    using xs d spaced_subset [OF sp, of "set xs"] link_set_next [of "butlast xs" "last xs" mem 0 n "hd0 0 ys"]
    by (cases "xs = []") (auto simp: mem1_def)
  have y1: "dseg mem1 p ys 0"
    using ys dseg_upd [OF spx, of "last xs" 8 mem "hd0 0 ys" p 0] d
    by (cases "xs = []") (auto simp: mem1_def disjoint_iff)
  show ?thesis
  proof (cases ys)
    case Nil
    with x1 show ?thesis by (simp add: unlink_def mem1_def split: if_splits)
  next
    case (Cons y zs)
    have "dseg (mem1(of_nat (y + 16) := last0 0 xs)) (last0 0 xs) ys 0"
      unfolding Cons
      by (rule link_set_prev [of y zs mem1 p 0]) (use y1 spaced_subset [OF sp, of "set ys"] d Cons in auto)
    moreover have "dseg (mem1(of_nat (y + 16) := last0 0 xs)) 0 xs (hd0 0 ys)"
      using dseg_upd [OF spy, of y 16 mem1 "last0 0 xs" 0 "hd0 0 ys"] x1 d Cons by auto
    moreover have "unlink xs ys mem = mem1(of_nat (y + 16) := last0 0 xs)"
      by (simp add: unlink_def mem1_def Cons)
    ultimately show ?thesis
      by (simp only: dseg_append)
  qed
qed

lemma unlink_frame:
  assumes "spaced (set (xs @ ys))" and "a < 18446744073709551616" and "a \<notin> links (set (xs @ ys))"
  shows "unlink xs ys mem (of_nat a) = mem (of_nat a)"
proof -
  have "a \<noteq> last xs + 8" "last xs + 8 < 18446744073709551616" if "xs \<noteq> []"
    using assms(3) that spaced_bound [OF assms(1), of "last xs"] by (auto simp: links_def)
  moreover have "a \<noteq> hd ys + 16" "hd ys + 16 < 18446744073709551616" if "ys \<noteq> []"
    using assms(3) that spaced_bound [OF assms(1), of "hd ys"] by (auto simp: links_def)
  ultimately show ?thesis
    using assms(2) by (auto simp: unlink_def of_nat_inj_u64)
qed

lemma unlink_all_free:
  assumes "spaced X" and "set (xs @ ys) \<subseteq> X" and "all_free mem X"
  shows "all_free (unlink xs ys mem) X"
proof -
  have "last xs \<in> X" if "xs \<noteq> []" using that assms(2) by auto
  moreover have "hd ys \<in> X" if "ys \<noteq> []" using that assms(2) by (cases ys) auto
  ultimately show ?thesis
    using assms(1,3) by (auto simp: unlink_def all_free_upd)
qed

text \<open>The middle part of \<open>remove_from_bucket_list\<close> is \<open>unlink\<close>.\<close>

lemma relink_neighbours:
  fixes mem :: memory
  assumes sp: "spaced X" and X: "set (xs @ ys) \<subseteq> X" and free: "all_free mem X"
    and p: "p = last0 0 xs" and n: "n = hd0 0 ys"
  shows "(if p \<noteq> NULL \<and> n \<noteq> NULL
          then kbind (set_bucket_list_next mem p n) (\<lambda>mem1. set_bucket_list_prev mem1 n p)
          else if p = NULL \<and> n \<noteq> NULL then set_bucket_list_prev mem n NULL
          else if p \<noteq> NULL \<and> n = NULL then set_bucket_list_next mem p NULL
          else Inr mem) = Inr (unlink xs ys mem)"
proof -
  have nz: "x \<in> X \<Longrightarrow> (of_nat x :: u64) \<noteq> 0" for x
    using spaced_bound [OF sp, of x] of_nat_0_u64 [of x] by auto
  have l: "last xs \<in> X" if "xs \<noteq> []" using that X by auto
  have h: "hd ys \<in> X" if "ys \<noteq> []" using that X by (cases ys) auto
  have p': "p = (if xs = [] then 0 else of_nat (last xs))" by (simp add: p last0_def)
  have n': "n = (if ys = [] then 0 else of_nat (hd ys))" by (simp add: n hd0_def split: list.split)
  show ?thesis
    using nz [OF l] nz [OF h] l h
    by (cases "xs = []"; cases "ys = []")
      (auto simp: p' n' unlink_def p [symmetric] n [symmetric] bucket_link_simps [OF free]
        bucket_link_simps [OF all_free_upd [OF sp, THEN iffD2, OF _ _ free]])
qed

lemma remove_from_bucket_list_linked:
  fixes heap :: "'h Heap"
  assumes sp: "spaced (set (xs @ h # ys))" and d: "distinct (xs @ h # ys)"
    and seg: "dseg mem 0 (xs @ h # ys) 0" and free: "all_free mem (set (xs @ h # ys))"
    and idx: "get_bucket_index_from_header mem (of_nat h) = int i" "i < 128"
    and fb: "length (free_buckets heap) = 128" "free_buckets heap ! i = hd0 0 (xs @ h # ys)"
  obtains mem' where
    "remove_from_bucket_list mem heap (of_nat h) =
       Inr (mem', heap\<lparr>free_buckets := (free_buckets heap)[i := hd0 0 (xs @ ys)]\<rparr>)"
    and "dseg mem' 0 (xs @ ys) 0" and "mem' (of_nat (h + 8)) = 0" and "mem' (of_nat (h + 16)) = 0"
    and "\<And>a. a < 18446744073709551616 \<Longrightarrow> a \<notin> links (set (xs @ h # ys)) \<Longrightarrow> mem' (of_nat a) = mem (of_nat a)"
proof
  let ?X = "set (xs @ h # ys)"
  let ?u = "unlink xs ys mem"
  define mem' where "mem' = ?u(of_nat (h + 8) := 0, of_nat (h + 16) := 0)"
  have h: "h \<in> ?X" "h + 32 < 18446744073709551616" using spaced_bound [OF sp, of h] by auto
  have links: "mem (of_nat (h + 16)) = last0 0 xs" "mem (of_nat (h + 8)) = hd0 0 ys"
    using seg by (simp_all add: dseg_append)
  have sub: "spaced (set (xs @ ys))" by (rule spaced_subset [OF sp]) auto
  have fu: "all_free ?u ?X" by (rule unlink_all_free [OF sp _ free]) auto
  have heap1: "(if free_buckets heap ! i = of_nat h then write_bucket heap (int i) (hd0 0 ys) else Inr heap) =
      Inr (heap\<lparr>free_buckets := (free_buckets heap)[i := hd0 0 (xs @ ys)]\<rparr>)"
  proof (cases xs)
    case Nil then show ?thesis using fb idx(2) by (simp add: write_bucket_def)
  next
    case (Cons x zs)
    then have "x \<noteq> h" "x + 32 < 18446744073709551616" using d spaced_bound [OF sp, of x] by auto
    then have "(of_nat x :: u64) \<noteq> of_nat h" using h(2) by (subst of_nat_inj_u64) auto
    then have ne: "free_buckets heap ! i \<noteq> of_nat h" using fb Cons by simp
    have "(free_buckets heap)[i := hd0 0 (xs @ ys)] = free_buckets heap"
      using fb Cons by (simp add: list_update_same_conv idx(2))
    then show ?thesis using ne by simp
  qed
  have flag: "get_heap_chunk_flag mem (of_nat h) HEAP_FREE_CHUNK" using free h(1) by (simp only: all_free_def)
  have rd: "read_bucket heap (int i) = Inr (free_buckets heap ! i)" using idx(2) by (simp add: read_bucket_def)
  have mid: "(if last0 0 xs \<noteq> NULL \<and> hd0 0 ys \<noteq> NULL
      then kbind (set_bucket_list_next mem (last0 0 xs) (hd0 0 ys)) (\<lambda>mem1. set_bucket_list_prev mem1 (hd0 0 ys) (last0 0 xs))
      else if last0 0 xs = NULL \<and> hd0 0 ys \<noteq> NULL then set_bucket_list_prev mem (hd0 0 ys) NULL
      else if last0 0 xs \<noteq> NULL \<and> hd0 0 ys = NULL then set_bucket_list_next mem (last0 0 xs) NULL
      else Inr mem) = Inr ?u"
    by (rule relink_neighbours [OF sp _ free refl refl]) auto
  show "remove_from_bucket_list mem heap (of_nat h) =
      Inr (mem', heap\<lparr>free_buckets := (free_buckets heap)[i := hd0 0 (xs @ ys)]\<rparr>)"
    unfolding remove_from_bucket_list_def idx(1) Let_def bucket_link_simps [OF free h(1)] links kbind_simps rd
    unfolding heap1 mid kbind_simps bucket_link_simps [OF fu h(1)]
    using flag all_free_upd [OF sp h(1), of 8] fu h(1)
    by (simp add: bucket_link_simps(2) [of _ ?X] mem'_def)
  have "dseg ?u 0 (xs @ ys) 0"
    using unlink_dseg [OF sub, of mem "of_nat h" "of_nat h"] seg d by (simp add: dseg_append)
  then show "dseg mem' 0 (xs @ ys) 0"
    using d sp by (simp only: mem'_def) (subst dseg_upd; simp)+
  show "mem' (of_nat (h + 8)) = 0" "mem' (of_nat (h + 16)) = 0" using h by (simp_all add: mem'_def)
  show "mem' (of_nat a) = mem (of_nat a)" if "a < 18446744073709551616" "a \<notin> links ?X" for a
    using that unlink_frame [OF sub, of a mem] h(2) by (auto simp: mem'_def links_def of_nat_inj_u64)
qed

text \<open>A chunk with null links is not in a list; removing it changes nothing.\<close>

lemma remove_from_bucket_list_detached:
  assumes "get_heap_chunk_flag mem (of_nat h) HEAP_FREE_CHUNK"
    and "mem (of_nat (h + 8)) = 0" and "mem (of_nat (h + 16)) = 0"
    and "get_bucket_index_from_header mem (of_nat h) = int i" and "i < 128"
    and "free_buckets heap ! i \<noteq> of_nat h" and b: "h + 32 < 18446744073709551616"
  shows "remove_from_bucket_list mem heap (of_nat h) = Inr (mem, heap)"
proof -
  have f: "all_free mem {h}" using assms(1) by (simp add: all_free_def)
  have m: "mem(of_nat (h + 8) := 0) = mem" "mem(of_nat (h + 16) := 0) = mem"
    using assms(2,3) by (simp_all add: fun_upd_idem_iff)
  show ?thesis
    using assms(1,5,6) bucket_link_simps [OF f, of h]
    by (simp add: remove_from_bucket_list_def assms(2,3,4) read_bucket_def m)
qed

lemma add_to_bucket_list_linked:
  fixes heap :: "'h Heap"
  assumes sp: "spaced (set (h # xs))" and d: "distinct (h # xs)"
    and seg: "dseg mem 0 xs 0" and free: "all_free mem (set (h # xs))"
    and idx: "get_bucket_index_from_header mem (of_nat h) = int i" "i < 128"
    and fb: "free_buckets heap ! i = hd0 0 xs"
  obtains mem' where
    "add_to_bucket_list mem heap (of_nat h) =
       Inr (mem', heap\<lparr>free_buckets := (free_buckets heap)[i := of_nat h]\<rparr>)"
    and "dseg mem' 0 (h # xs) 0"
    and "\<And>a. a < 18446744073709551616 \<Longrightarrow> a \<notin> links (set (h # xs)) \<Longrightarrow> mem' (of_nat a) = mem (of_nat a)"
proof
  let ?X = "set (h # xs)"
  let ?m2 = "mem(of_nat (h + 16) := 0, of_nat (h + 8) := hd0 0 xs)"
  define mem' where "mem' = (case xs of [] \<Rightarrow> ?m2 | x # _ \<Rightarrow> ?m2(of_nat (x + 16) := of_nat h))"
  have h: "h \<in> ?X" "h + 32 < 18446744073709551616" using spaced_bound [OF sp, of h] by auto
  have f1: "all_free (mem(of_nat (h + 16) := 0)) ?X" using free all_free_upd [OF sp h(1), of 16] by blast
  have f2: "all_free ?m2 ?X" using f1 all_free_upd [OF sp h(1), of 8] by blast
  have rd: "read_bucket heap (int i) = Inr (hd0 0 xs)" using idx(2) fb by (simp add: read_bucket_def)
  have wr: "write_bucket heap (int i) (of_nat h) = Inr (heap\<lparr>free_buckets := (free_buckets heap)[i := of_nat h]\<rparr>)"
    using idx(2) by (simp add: write_bucket_def)
  have last: "(if hd0 0 xs \<noteq> NULL then set_bucket_list_prev ?m2 (hd0 0 xs) (of_nat h) else Inr ?m2) = Inr mem'"
  proof (cases xs)
    case (Cons x zs)
    then have "(of_nat x :: u64) \<noteq> 0" using spaced_bound [OF sp, of x] of_nat_0_u64 [of x] by auto
    then show ?thesis using bucket_link_simps(2) [OF f2, of x] Cons by (simp add: mem'_def)
  qed (simp add: mem'_def)
  show "add_to_bucket_list mem heap (of_nat h) =
      Inr (mem', heap\<lparr>free_buckets := (free_buckets heap)[i := of_nat h]\<rparr>)"
    unfolding add_to_bucket_list_def idx(1) Let_def bucket_link_simps [OF free h(1)] kbind_simps rd
      bucket_link_simps [OF f1 h(1)] last wr ..
  have own: "?m2 (of_nat (h + 16)) = 0" "?m2 (of_nat (h + 8)) = hd0 0 xs"
    using h(2) by (simp_all add: of_nat_inj_u64)
  have m2: "dseg ?m2 p xs 0 = dseg mem p xs 0" for p using d sp by (subst dseg_upd; simp)+
  show "dseg mem' 0 (h # xs) 0"
  proof (cases xs)
    case (Cons x zs)
    have "dseg mem' (of_nat h) xs 0"
      using link_set_prev [of x zs ?m2 0 0 "of_nat h"] m2 [of 0] seg d spaced_subset [OF sp, of "set xs"]
      unfolding mem'_def by (auto simp only: Cons list.case list.set distinct.simps)
    moreover have "x + 32 \<le> h \<or> h + 32 \<le> x" "x + 32 < 18446744073709551616"
      using spaced_apart [OF sp, of x h] spaced_bound [OF sp, of x] d Cons by auto
    ultimately show ?thesis
      using own h(2) by (auto simp: mem'_def Cons of_nat_inj_u64)
  qed (use own in \<open>simp add: mem'_def\<close>)
  have "hd xs + 16 < 18446744073709551616" if "xs \<noteq> []"
    using that spaced_bound [OF sp, of "hd xs"] by auto
  then show "mem' (of_nat a) = mem (of_nat a)" if "a < 18446744073709551616" "a \<notin> links ?X" for a
    using that h(2) by (auto simp: mem'_def links_def of_nat_inj_u64 split: list.splits)
qed

end
