(* ===== verification/Heap_Layout.thy ===== *)
theory Heap_Layout
  imports Heap_Lists
begin

text \<open>
  The abstract view of the kernel heap: the list of chunks that tile the region, which of them are
  free, and the free lists of the buckets. \<open>heap_wf\<close> relates it to the memory and to the \<open>Heap\<close>
  structure. The lemmas lift removal, insertion and the rewriting of a run of chunks to this view.
\<close>

section \<open>Header words\<close>

definition fval :: "bool \<Rightarrow> bool \<Rightarrow> nat" where
  "fval fr w = (if fr then 1 else 0) + (if w then 2 else 0)"

lemma and_not_minus: "(x :: u64) AND NOT y = x - (x AND y)"
proof -
  have "(x AND NOT y) + (x AND y) = (x AND NOT y) OR (x AND y)"
    by (rule disjunctive_add_eq_or) (auto intro: bit_word_eqI simp: bit_and_iff bit_not_iff)
  also have "\<dots> = x"
    by (auto intro!: bit_word_eqI simp: bit_and_iff bit_not_iff bit_or_iff possible_bit_word)
  finally show ?thesis
    by (simp add: eq_diff_eq)
qed

lemma and_not_7: "(w :: u64) AND NOT 7 = w - w mod 8"
proof -
  have "w AND 7 = w mod 8"
    using take_bit_eq_mask [of 3 w] by (simp add: take_bit_eq_mod mask_eq_exp_minus_1)
  then show ?thesis
    by (simp only: and_not_minus)
qed

lemma header_mod_8:
  assumes "8 dvd s" and "f < 8" and "s + 8 \<le> 18446744073709551616"
  shows "(of_nat (s + f) :: u64) mod 8 = of_nat f"
proof -
  have "unat (of_nat (s + f) mod 8 :: u64) = (s + f) mod 8"
    using assms by (simp add: unat_mod_distrib unat_of_nat_u64 del: unat_of_nat)
  also have "\<dots> = f"
    using assms by (auto elim!: dvdE)
  finally show ?thesis
    using assms(2) by (simp add: word_unat_eq_iff unat_of_nat_u64 del: unat_of_nat)
qed

lemma header_size_word:
  assumes "8 dvd s" and "s + 8 \<le> 18446744073709551616"
  shows "(of_nat (s + fval fr w) :: u64) AND NOT 7 = of_nat s"
proof -
  have "(of_nat (s + fval fr w) :: u64) mod 8 = of_nat (fval fr w)"
    by (rule header_mod_8) (use assms in \<open>auto simp: fval_def\<close>)
  then show ?thesis
    by (simp only: and_not_7) (simp add: of_nat_add)
qed

lemma header_size_plain:
  "8 dvd s \<Longrightarrow> s + 8 \<le> 18446744073709551616 \<Longrightarrow> (of_nat s :: u64) AND NOT 7 = of_nat s"
  using header_size_word [of s False False] by (simp add: fval_def)

lemma header_flags:
  assumes "8 dvd s"
  shows "(of_nat (s + fval fr w) :: u64) AND 1 = (if fr then 1 else 0)"
    and "(of_nat (s + fval fr w) :: u64) AND 2 = (if w then 2 else 0)"
proof -
  obtain k where s: "s = 8 * k" using assms by auto
  have b: "bit (of_nat n :: u64) j \<longleftrightarrow> j < 64 \<and> bit n j" for n j
    by (simp add: bit_of_nat_iff possible_bit_word)
  have b0: "bit (s + fval fr w) 0 = fr" and b1: "bit (s + fval fr w) (Suc 0) = w"
    by (auto simp: s fval_def bit_0 bit_Suc)
  show "(of_nat (s + fval fr w) :: u64) AND 1 = (if fr then 1 else 0)"
    by (rule bit_word_eqI) (use b0 in \<open>auto simp: bit_and_iff b bit_1_iff intro: gr0I\<close>)
  have two: "bit (2 :: u64) j \<longleftrightarrow> j = 1" for j
    using bit_exp_iff [where 'a = u64, of 1 j] by (auto simp: possible_bit_def)
  show "(of_nat (s + fval fr w) :: u64) AND 2 = (if w then 2 else 0)"
    by (rule bit_word_eqI) (use b1 in \<open>auto simp: bit_and_iff b two simp del: bit_numeral_word_iff\<close>)
qed

lemma or_disjoint: "x AND y = 0 \<Longrightarrow> x OR y = x + (y :: u64)"
  by (simp add: disjunctive_add_eq_or)

lemma header_set_flags:
  assumes "8 dvd s"
  shows "(of_nat (s + fval fr w) :: u64) OR 1 = of_nat (s + fval True w)"
    and "(of_nat (s + fval fr w) :: u64) OR 2 = of_nat (s + fval fr True)"
    and "(of_nat (s + fval fr w) :: u64) AND NOT 1 = of_nat (s + fval False w)"
proof -
  note f = header_flags [OF assms]
  have o: "(x :: u64) AND y = y \<Longrightarrow> x OR y = x" for x y
    by (rule bit_word_eqI) (metis bit_and_iff bit_or_iff)
  show "(of_nat (s + fval fr w) :: u64) OR 1 = of_nat (s + fval True w)"
    using or_disjoint [of "of_nat (s + fval False w)" 1] f(1) [of False w] o [of "of_nat (s + fval True w)" 1] f(1) [of True w]
    by (cases fr) (auto simp: fval_def of_nat_add)
  show "(of_nat (s + fval fr w) :: u64) OR 2 = of_nat (s + fval fr True)"
    using or_disjoint [of "of_nat (s + fval fr False)" 2] f(2) [of fr False] o [of "of_nat (s + fval fr True)" 2] f(2) [of fr True]
    by (cases w) (auto simp: fval_def of_nat_add)
  show "(of_nat (s + fval fr w) :: u64) AND NOT 1 = of_nat (s + fval False w)"
    unfolding and_not_minus f(1) by (cases fr) (simp_all add: fval_def of_nat_add)
qed

lemma header_set_flags_plain:
  assumes "8 dvd s"
  shows "(of_nat s :: u64) OR 1 = of_nat (s + fval True False)"
    and "(of_nat s :: u64) OR 2 = of_nat (s + fval False True)"
  using header_set_flags [OF assms, of False False] by (simp_all add: fval_def)

section \<open>Chunks that tile a region\<close>

record chunk =
  caddr :: nat
  csize :: nat
  cfree :: bool

abbreviation cend :: "chunk \<Rightarrow> nat" where
  "cend c \<equiv> caddr c + csize c + 16"

fun tiles :: "nat \<Rightarrow> chunk list \<Rightarrow> nat \<Rightarrow> bool" where
  "tiles a [] e \<longleftrightarrow> a = e"
| "tiles a (c # cs) e \<longleftrightarrow> caddr c = a \<and> 16 \<le> csize c \<and> 8 dvd csize c \<and> tiles (cend c) cs e"

lemma tiles_append: "tiles a (xs @ ys) e \<longleftrightarrow> (\<exists>m. tiles a xs m \<and> tiles m ys e)"
  by (induction xs arbitrary: a) auto

lemma tiles_le: "tiles a cs e \<Longrightarrow> a \<le> e"
  by (induction cs arbitrary: a) fastforce+

lemma tiles_bounds:
  assumes "tiles a cs e" and "c \<in> set cs"
  shows "a \<le> caddr c" and "cend c \<le> e" and "16 \<le> csize c" and "8 dvd csize c"
  using assms by (induction cs arbitrary: a) (fastforce dest: tiles_le)+

lemma tiles_aligned:
  "tiles a cs e \<Longrightarrow> c \<in> set cs \<Longrightarrow> 8 dvd a \<Longrightarrow> 8 dvd caddr c"
proof (induction cs arbitrary: a)
  case (Cons d cs)
  have "8 dvd cend d" using Cons.prems by (auto intro!: dvd_add)
  with Cons show ?case by auto
qed simp

lemma tiles_apart:
  assumes "tiles a cs e" and "c \<in> set cs" and "d \<in> set cs" and "c \<noteq> d"
  shows "cend c \<le> caddr d \<or> cend d \<le> caddr c"
  using assms
proof (induction cs arbitrary: a)
  case (Cons b cs)
  have t: "tiles (cend b) cs e" using Cons.prems(1) by auto
  have "cend b \<le> caddr x" if "x \<in> set cs" for x
    using tiles_bounds(1) [OF t that] .
  then show ?case using Cons.prems Cons.IH [OF t] by auto
qed simp

lemma tiles_caddr_eq:
  "tiles a cs e \<Longrightarrow> c \<in> set cs \<Longrightarrow> d \<in> set cs \<Longrightarrow> caddr c = caddr d \<longleftrightarrow> c = d"
  using tiles_apart [of a cs e c d] by (cases "c = d") auto

lemma tiles_distinct: "tiles a cs e \<Longrightarrow> distinct (map caddr cs)"
proof (induction cs arbitrary: a)
  case (Cons b cs)
  then have "tiles (cend b) cs e" by auto
  then have "caddr b \<notin> caddr ` set cs" using tiles_bounds(1) by fastforce
  with Cons show ?case by auto
qed simp

lemma tiles_spaced:
  assumes "tiles a cs e" and "0 < a" and "e < 18446744073709551616"
  shows "spaced (caddr ` set cs)"
proof -
  have "0 < caddr c \<and> caddr c + 32 < 18446744073709551616" if "c \<in> set cs" for c
    using tiles_bounds [OF assms(1) that] assms(2,3) by linarith
  moreover have "caddr c + 32 \<le> caddr d" if "c \<in> set cs" "d \<in> set cs" "caddr c < caddr d" for c d
    using tiles_apart [OF assms(1) that(1,2)] tiles_bounds(3) [OF assms(1) that(1)] that(3)
    by (cases "c = d") auto
  ultimately show ?thesis by (auto simp: spaced_def)
qed

text \<open>A chunk's header and footer in memory; the second argument says if it is the wilderness.\<close>

definition chunk_ok :: "memory \<Rightarrow> bool \<Rightarrow> chunk \<Rightarrow> bool" where
  "chunk_ok mem w c \<longleftrightarrow>
     mem (of_nat (caddr c)) = of_nat (csize c + fval (cfree c) w) \<and>
     mem (of_nat (caddr c + 8 + csize c)) = of_nat (csize c)"

definition layout :: "memory \<Rightarrow> chunk list \<Rightarrow> bool" where
  "layout mem cs \<longleftrightarrow> (\<forall>c \<in> set cs. chunk_ok mem (c = last cs) c)"

definition bidx :: "bool \<Rightarrow> nat \<Rightarrow> nat" where
  "bidx w sz = (if w then 127 else nat (get_bucket_index_from_size (of_nat sz)))"

lemma bucket_index_range:
  assumes "8 \<le> unat sz"
  shows "0 \<le> get_bucket_index_from_size sz" and "get_bucket_index_from_size sz < 128"
proof -
  have d: "uint (w div v) = int (unat w div unat v)" for w v :: u64
    by (simp add: uint_div of_nat_div)
  have "0 \<le> get_bucket_index_from_size sz \<and> get_bucket_index_from_size sz < 128"
  proof (cases "sz \<le> 512")
    case True
    then have "unat sz div 8 \<le> 64" "1 \<le> unat sz div 8" using assms by (auto simp: word_le_nat_alt)
    then show ?thesis using True by (simp add: get_bucket_index_from_size_def d)
  next
    case False
    have "0 \<le> uint w" for w :: u64 by simp
    moreover have "uint (w :: u64) < 128" if "\<not> 128 \<le> w" for w
      using that by (simp add: word_le_def)
    moreover have "uint (64 + (sz - 512) div 64) < 128" if "sz \<le> 2560"
    proof -
      have "unat (sz - 512) = unat sz - 512" using False by (simp add: unat_sub word_le_nat_alt)
      then have "unat (sz - 512) div 64 \<le> 32" using that by (simp add: word_le_nat_alt)
      then have "unat (64 + (sz - 512) div 64) \<le> 96"
        by (subst unat_add_u64) (simp_all add: unat_div_distrib)
      then show ?thesis unfolding unat_eq_nat_uint by linarith
    qed
    ultimately show ?thesis using False by (auto simp: get_bucket_index_from_size_def Let_def)
  qed
  then show "0 \<le> get_bucket_index_from_size sz" "get_bucket_index_from_size sz < 128" by simp_all
qed

lemma bidx_range: "16 \<le> sz \<Longrightarrow> sz < 18446744073709551616 \<Longrightarrow> bidx w sz < 128"
  using bucket_index_range [of "of_nat sz"]
  by (simp add: bidx_def unat_of_nat_u64 nat_less_iff del: unat_of_nat)

lemma chunk_facts:
  assumes "chunk_ok mem w c" and "16 \<le> csize c" and "8 dvd csize c" and "cend c < 18446744073709551616"
  shows "get_fixed_heap_chunk_size mem (of_nat (caddr c)) = of_nat (csize c)"
    and "get_heap_chunk_flag mem (of_nat (caddr c)) HEAP_FREE_CHUNK = cfree c"
    and "get_heap_chunk_flag mem (of_nat (caddr c)) HEAP_WILDERNESS_CHUNK = w"
    and "get_next_heap_chunk_header mem (of_nat (caddr c)) = of_nat (cend c)"
    and "get_heap_chunk_footer_from_header mem (of_nat (caddr c)) = of_nat (caddr c + 8 + csize c)"
    and "get_bucket_index_from_header mem (of_nat (caddr c)) = int (bidx w (csize c))"
    and "get_prev_heap_chunk_header mem (of_nat (cend c)) = of_nat (caddr c)"
    and "\<not> is_heap_chunk_corrupted mem (of_nat (caddr c))"
proof -
  have h: "mem (of_nat (caddr c)) = of_nat (csize c + fval (cfree c) w)"
    and f: "mem (of_nat (caddr c + 8 + csize c)) = of_nat (csize c)"
    using assms(1) by (simp_all add: chunk_ok_def)
  have sz: "csize c + 8 \<le> 18446744073709551616" using assms(4) by simp
  show 1: "get_fixed_heap_chunk_size mem (of_nat (caddr c)) = of_nat (csize c)"
    unfolding get_fixed_heap_chunk_size_def h by (rule header_size_word [OF assms(3) sz])
  show 2: "get_heap_chunk_flag mem (of_nat (caddr c)) HEAP_FREE_CHUNK = cfree c"
    and 3: "get_heap_chunk_flag mem (of_nat (caddr c)) HEAP_WILDERNESS_CHUNK = w"
    unfolding get_heap_chunk_flag_def h header_flags [OF assms(3)] by simp_all
  show "get_next_heap_chunk_header mem (of_nat (caddr c)) = of_nat (cend c)"
    by (simp add: get_next_heap_chunk_header_def 1 of_nat_add)
  show 5: "get_heap_chunk_footer_from_header mem (of_nat (caddr c)) = of_nat (caddr c + 8 + csize c)"
    by (simp add: get_heap_chunk_footer_from_header_def 1 of_nat_add)
  have "unat (of_nat (csize c) :: u64) = csize c" using assms(4) by (intro unat_of_nat_u64) simp
  then have "8 \<le> unat (of_nat (csize c) :: u64)" and min: "(16 :: u64) \<le> of_nat (csize c)"
    using assms(2) by (simp_all add: word_le_nat_alt del: unat_of_nat)
  then show "get_bucket_index_from_header mem (of_nat (caddr c)) = int (bidx w (csize c))"
    using bucket_index_range(1) by (simp add: get_bucket_index_from_header_def 1 3 bidx_def)
  have ft: "get_fixed_heap_chunk_size_from_footer mem (of_nat (caddr c + 8 + csize c)) = of_nat (csize c)"
    unfolding get_fixed_heap_chunk_size_from_footer_def f by (rule header_size_plain [OF assms(3) sz])
  have "(of_nat (cend c) :: u64) - 8 = of_nat (caddr c + 8 + csize c)" by (simp add: of_nat_add)
  then show "get_prev_heap_chunk_header mem (of_nat (cend c)) = of_nat (caddr c)"
    by (simp add: get_prev_heap_chunk_header_def get_heap_chunk_header_from_footer_def ft) (simp add: of_nat_add)
  have "(of_nat (csize c) :: u64) AND 7 = 0"
    using header_size_plain [OF assms(3) sz] unfolding and_not_minus by (metis diff_eq_eq add_left_cancel add_0_right)
  then show "\<not> is_heap_chunk_corrupted mem (of_nat (caddr c))"
    using min by (simp add: is_heap_chunk_corrupted_def Let_def 5 1 ft f not_less)
qed

section \<open>Well-formed heaps\<close>

text \<open>The free chunks of bucket \<open>i\<close>, apart from those in \<open>X\<close>, which are free but not in a list.\<close>

definition bucket_set :: "chunk list \<Rightarrow> nat set \<Rightarrow> nat \<Rightarrow> nat set" where
  "bucket_set cs X i = caddr ` {c \<in> set cs. cfree c \<and> caddr c \<notin> X \<and> bidx (c = last cs) (csize c) = i}"

definition buckets_ok :: "memory \<Rightarrow> addr list \<Rightarrow> chunk list \<Rightarrow> nat set \<Rightarrow> (nat \<Rightarrow> nat list) \<Rightarrow> bool" where
  "buckets_ok mem fb cs X B \<longleftrightarrow> length fb = 128 \<and>
     (\<forall>i < 128. fb ! i = hd0 0 (B i) \<and> dseg mem 0 (B i) 0 \<and> distinct (B i) \<and> set (B i) = bucket_set cs X i)"

definition detached :: "memory \<Rightarrow> nat set \<Rightarrow> bool" where
  "detached mem X \<longleftrightarrow> (\<forall>x \<in> X. mem (of_nat (x + 8)) = 0 \<and> mem (of_nat (x + 16)) = 0)"

definition free_addrs :: "chunk list \<Rightarrow> nat set" where
  "free_addrs cs = caddr ` {c \<in> set cs. cfree c}"

definition region_ok :: "'h Heap \<Rightarrow> chunk list \<Rightarrow> bool" where
  "region_ok heap cs \<longleftrightarrow>
     tiles (unat (heap_start heap)) cs (unat (heap_start heap) + unat (heap_size heap)) \<and>
     0 < unat (heap_start heap) \<and> 8 dvd unat (heap_start heap) \<and>
     unat (heap_start heap) + unat (heap_size heap) < 18446744073709551616 \<and>
     unat (heap_size heap) < 9223372036854775808 \<and> cs \<noteq> [] \<and> cfree (last cs) \<and> wilderness_chunk heap = of_nat (caddr (last cs))"

definition heap_wf :: "memory \<Rightarrow> 'h Heap \<Rightarrow> chunk list \<Rightarrow> nat set \<Rightarrow> (nat \<Rightarrow> nat list) \<Rightarrow> bool" where
  "heap_wf mem heap cs X B \<longleftrightarrow>
     region_ok heap cs \<and> layout mem cs \<and> buckets_ok mem (free_buckets heap) cs X B \<and>
     X \<subseteq> free_addrs cs"

lemma region_chunk:
  assumes "region_ok heap cs" and "c \<in> set cs"
  shows "16 \<le> csize c" and "8 dvd csize c" and "cend c < 18446744073709551616" and "0 < caddr c" and "8 dvd caddr c"
    and "unat (heap_start heap) \<le> caddr c" and "cend c \<le> unat (heap_start heap) + unat (heap_size heap)"
  using tiles_bounds [OF _ assms(2)] tiles_aligned [OF _ assms(2)] assms(1) unfolding region_ok_def
  by (fastforce)+

lemma region_spaced: "region_ok heap cs \<Longrightarrow> spaced (caddr ` set cs)"
  unfolding region_ok_def by (blast intro: tiles_spaced)

lemma region_caddr_eq:
  "region_ok heap cs \<Longrightarrow> c \<in> set cs \<Longrightarrow> d \<in> set cs \<Longrightarrow> caddr c = caddr d \<longleftrightarrow> c = d"
  unfolding region_ok_def by (blast dest: tiles_caddr_eq)

lemma heap_wf_chunk_ok:
  "heap_wf mem heap cs X B \<Longrightarrow> c \<in> set cs \<Longrightarrow> chunk_ok mem (c = last cs) c"
  by (simp add: heap_wf_def layout_def)

lemma heap_wf_region: "heap_wf mem heap cs X B \<Longrightarrow> region_ok heap cs"
  by (simp add: heap_wf_def)

lemma heap_wf_chunk_facts:
  assumes "heap_wf mem heap cs X B" and "c \<in> set cs"
  shows "get_fixed_heap_chunk_size mem (of_nat (caddr c)) = of_nat (csize c)"
    and "get_heap_chunk_flag mem (of_nat (caddr c)) HEAP_FREE_CHUNK = cfree c"
    and "get_heap_chunk_flag mem (of_nat (caddr c)) HEAP_WILDERNESS_CHUNK = (c = last cs)"
    and "get_next_heap_chunk_header mem (of_nat (caddr c)) = of_nat (cend c)"
    and "get_heap_chunk_footer_from_header mem (of_nat (caddr c)) = of_nat (caddr c + 8 + csize c)"
    and "get_bucket_index_from_header mem (of_nat (caddr c)) = int (bidx (c = last cs) (csize c))"
    and "get_prev_heap_chunk_header mem (of_nat (cend c)) = of_nat (caddr c)"
    and "\<not> is_heap_chunk_corrupted mem (of_nat (caddr c))"
  by (rule chunk_facts [OF heap_wf_chunk_ok [OF assms]]; rule region_chunk [OF heap_wf_region [OF assms(1)] assms(2)])+

section \<open>Removal and insertion on well-formed heaps\<close>

text \<open>Only the links of free chunks change.\<close>

definition links_frame :: "chunk list \<Rightarrow> memory \<Rightarrow> memory \<Rightarrow> bool" where
  "links_frame cs mem mem' \<longleftrightarrow>
     (\<forall>a < 18446744073709551616. a \<notin> links (free_addrs cs) \<longrightarrow> mem' (of_nat a) = mem (of_nat a))"

lemma links_frameD:
  "links_frame cs mem mem' \<Longrightarrow> a < 18446744073709551616 \<Longrightarrow> a \<notin> links (free_addrs cs) \<Longrightarrow>
   mem' (of_nat a) = mem (of_nat a)"
  by (simp add: links_frame_def)

lemma links_mono: "X \<subseteq> Y \<Longrightarrow> links X \<subseteq> links Y"
  by (auto simp: links_def)

lemma links_disjoint:
  assumes "spaced Z" and "X \<subseteq> Z" and "Y \<subseteq> Z" and "X \<inter> Y = {}"
  shows "links X \<inter> links Y = {}"
proof -
  have "x + 32 \<le> y \<or> y + 32 \<le> x" if "x \<in> X" "y \<in> Y" for x y
    using spaced_apart [OF assms(1), of x y] that assms(2-4) by auto
  then show ?thesis unfolding links_def by fastforce
qed

lemma free_addrs_sub: "free_addrs cs \<subseteq> caddr ` set cs"
  by (auto simp: free_addrs_def)

lemma tags_not_links:
  assumes "region_ok heap cs" and "c \<in> set cs"
  shows "caddr c \<notin> links (free_addrs cs)" and "caddr c + 8 + csize c \<notin> links (free_addrs cs)"
proof -
  have *: "cend c \<le> caddr d \<or> cend d \<le> caddr c" if "d \<in> set cs" "d \<noteq> c" for d
    using assms tiles_apart [OF _ assms(2) that(1)] that(2) by (auto simp: region_ok_def)
  have "caddr c \<noteq> caddr d + k \<and> caddr c + 8 + csize c \<noteq> caddr d + k" if "d \<in> set cs" "k = 8 \<or> k = 16" for d k
    using * [OF that(1)] that(2) region_chunk(1) [OF assms(1) that(1)] region_chunk(1) [OF assms]
    by (cases "d = c") auto
  then show "caddr c \<notin> links (free_addrs cs)" "caddr c + 8 + csize c \<notin> links (free_addrs cs)"
    unfolding links_def free_addrs_def by blast+
qed

lemma links_frame_layout:
  assumes "region_ok heap cs" and "layout mem cs" and "links_frame cs mem mem'"
  shows "layout mem' cs"
  unfolding layout_def
proof
  fix c assume c: "c \<in> set cs"
  have "caddr c < 18446744073709551616" "caddr c + 8 + csize c < 18446744073709551616"
    using region_chunk(3) [OF assms(1) c] by simp_all
  then have "mem' (of_nat (caddr c)) = mem (of_nat (caddr c))"
    "mem' (of_nat (caddr c + 8 + csize c)) = mem (of_nat (caddr c + 8 + csize c))"
    using tags_not_links [OF assms(1) c] assms(3) by (simp_all add: links_frame_def)
  then show "chunk_ok mem' (c = last cs) c"
    using assms(2) c by (simp add: layout_def chunk_ok_def)
qed

lemma bucket_set_sub: "bucket_set cs X i \<subseteq> free_addrs cs"
  by (auto simp: bucket_set_def free_addrs_def)

lemma bucket_set_disjoint:
  assumes "region_ok heap cs" and "i \<noteq> j"
  shows "bucket_set cs X i \<inter> bucket_set cs X j = {}"
  using region_caddr_eq [OF assms(1)] assms(2) unfolding bucket_set_def by auto

lemma bucket_change:
  assumes wf: "heap_wf mem heap cs X B" and i: "i < 128"
    and L: "L \<subseteq> free_addrs cs" "\<And>j. j \<noteq> i \<Longrightarrow> L \<inter> bucket_set cs X j = {}"
    and frame: "\<And>a. a < 18446744073709551616 \<Longrightarrow> a \<notin> links L \<Longrightarrow> mem' (of_nat a) = mem (of_nat a)"
    and xs: "dseg mem' 0 xs 0" "distinct xs" "set xs = bucket_set cs X' i"
    and other: "\<And>j. j \<noteq> i \<Longrightarrow> bucket_set cs X' j = bucket_set cs X j"
    and X': "X' \<subseteq> free_addrs cs"
  shows "heap_wf mem' (heap\<lparr>free_buckets := (free_buckets heap)[i := hd0 0 xs]\<rparr>) cs X' (B(i := xs))"
    and "links_frame cs mem mem'"
proof -
  have reg: "region_ok heap cs" and lay: "layout mem cs" and bk: "buckets_ok mem (free_buckets heap) cs X B"
    using wf by (simp_all add: heap_wf_def)
  note sp = region_spaced [OF reg]
  show lf: "links_frame cs mem mem'"
    using frame links_mono [OF L(1)] by (auto simp: links_frame_def)
  have seg: "dseg mem' 0 (B j) 0" if "j \<noteq> i" "j < 128" for j
  proof -
    have sB: "set (B j) = bucket_set cs X j" using bk that by (simp add: buckets_ok_def)
    have sub: "set (B j) \<subseteq> caddr ` set cs" using sB bucket_set_sub [of cs X j] free_addrs_sub [of cs] by blast
    have "links L \<inter> links (set (B j)) = {}"
      using links_disjoint [OF sp _ sub, of L] L free_addrs_sub that sB by (metis subset_trans)
    moreover have "a < 18446744073709551616" if "a \<in> links (set (B j))" for a
      using that spaced_bound [OF sp] sub by (fastforce simp: links_def)
    ultimately have "dseg mem' 0 (B j) 0 = dseg mem 0 (B j) 0"
      by (intro dseg_cong frame) auto
    then show ?thesis using bk that by (simp add: buckets_ok_def)
  qed
  have "buckets_ok mem' ((free_buckets heap)[i := hd0 0 xs]) cs X' (B(i := xs))"
    using bk seg xs other i unfolding buckets_ok_def by (auto simp: nth_list_update)
  moreover have "region_ok (heap\<lparr>free_buckets := fb\<rparr>) cs" for fb
    using reg by (simp add: region_ok_def)
  ultimately show "heap_wf mem' (heap\<lparr>free_buckets := (free_buckets heap)[i := hd0 0 xs]\<rparr>) cs X' (B(i := xs))"
    using links_frame_layout [OF reg lay lf] X' by (simp add: heap_wf_def)
qed

lemma all_free_addrs:
  assumes "heap_wf mem heap cs X B" and "Y \<subseteq> free_addrs cs"
  shows "all_free mem Y"
  using assms(2) heap_wf_chunk_facts(2) [OF assms(1)] by (fastforce simp: all_free_def free_addrs_def)

lemma bucket_set_insert: "bucket_set cs (insert a X) i = bucket_set cs X i - {a}"
  by (auto simp: bucket_set_def)

lemma bucket_set_delete:
  assumes "region_ok heap cs" and "c \<in> set cs" and "cfree c" and "caddr c \<in> X"
  shows "bucket_set cs (X - {caddr c}) i =
    (if bidx (c = last cs) (csize c) = i then insert (caddr c) (bucket_set cs X i) else bucket_set cs X i)"
proof -
  have "d = c" if "d \<in> set cs" "caddr d = caddr c" for d
    using region_caddr_eq [OF assms(1) that(1) assms(2)] that(2) by simp
  then show ?thesis using assms(2-4) by (auto simp: bucket_set_def)
qed

lemma hd0_not_member:
  assumes "spaced (set xs)" and "h \<notin> set xs" and "0 < h" and "h < 18446744073709551616"
  shows "hd0 0 xs \<noteq> of_nat h"
proof (cases xs)
  case (Cons x ys)
  then have "x < 18446744073709551616" "x \<noteq> h" using spaced_bound [OF assms(1), of x] assms(2) by auto
  then show ?thesis using assms(4) Cons by (simp add: of_nat_inj_u64)
qed (use assms(3,4) of_nat_0_u64 [of h] in auto)

lemma detached_frame:
  assumes "detached mem X" and "spaced Z" and "X \<subseteq> Z" and "L \<subseteq> Z" and "X \<inter> L = {}"
    and "\<And>a. a < 18446744073709551616 \<Longrightarrow> a \<notin> links L \<Longrightarrow> mem' (of_nat a) = mem (of_nat a)"
  shows "detached mem' X"
  unfolding detached_def
proof
  fix x assume x: "x \<in> X"
  then have "x + 8 \<notin> links L" "x + 16 \<notin> links L"
    using links_disjoint [OF assms(2-5)] by (auto simp: links_def)
  then show "mem' (of_nat (x + 8)) = 0 \<and> mem' (of_nat (x + 16)) = 0"
    using assms(1,6) x spaced_bound [OF assms(2), of x] assms(3) by (auto simp: detached_def)
qed

text \<open>Removing a free chunk, whether it is in its list or not.\<close>

lemma wf_remove:
  fixes heap :: "'h Heap"
  assumes wf: "heap_wf mem heap cs X B" and det: "detached mem X" and c: "c \<in> set cs" "cfree c"
  obtains mem' fb' B' where
    "remove_from_bucket_list mem heap (of_nat (caddr c)) = Inr (mem', heap\<lparr>free_buckets := fb'\<rparr>)"
    and "heap_wf mem' (heap\<lparr>free_buckets := fb'\<rparr>) cs (insert (caddr c) X) B'" and "links_frame cs mem mem'"
    and "detached mem' (insert (caddr c) X)"
proof -
  let ?h = "caddr c" and ?i = "bidx (c = last cs) (csize c)"
  have reg: "region_ok heap cs" and bk: "buckets_ok mem (free_buckets heap) cs X B"
    and X: "X \<subseteq> free_addrs cs" using wf by (simp_all add: heap_wf_def)
  have i: "?i < 128" using region_chunk(1,3) [OF reg c(1)] by (intro bidx_range) simp_all
  have Bi: "free_buckets heap ! ?i = hd0 0 (B ?i)" "dseg mem 0 (B ?i) 0" "distinct (B ?i)"
      "set (B ?i) = bucket_set cs X ?i" and len: "length (free_buckets heap) = 128"
    using bk i by (simp_all add: buckets_ok_def)
  note sp = region_spaced [OF reg] and idx = heap_wf_chunk_facts(6) [OF wf c(1)]
  have sub: "set (B ?i) \<subseteq> free_addrs cs" using Bi(4) bucket_set_sub by simp
  have spB: "spaced (set (B ?i))" by (rule spaced_subset [OF sp]) (use sub free_addrs_sub in blast)
  show ?thesis
  proof (cases "?h \<in> X")
    case True
    have flag: "get_heap_chunk_flag mem (of_nat ?h) HEAP_FREE_CHUNK" using heap_wf_chunk_facts(2) [OF wf c(1)] c(2) by simp
    have "?h \<notin> set (B ?i)" using Bi(4) True by (auto simp: bucket_set_def)
    then have "hd0 0 (B ?i) \<noteq> of_nat ?h"
      using spaced_bound [OF sp, of ?h] c(1) by (intro hd0_not_member [OF spB]) auto
    then have "remove_from_bucket_list mem heap (of_nat ?h) = Inr (mem, heap)"
      by (intro remove_from_bucket_list_detached [OF flag _ _ idx i])
        (use det True Bi(1) spaced_bound [OF sp, of ?h] c(1) in \<open>auto simp: detached_def\<close>)
    moreover have "insert ?h X = X" using True by auto
    ultimately show ?thesis
      using that [of mem "free_buckets heap" B] wf det by (simp add: links_frame_def)
  next
    case False
    then have "?h \<in> set (B ?i)" using Bi(4) c by (auto simp: bucket_set_def)
    then obtain xs ys where B: "B ?i = xs @ ?h # ys" by (auto dest: split_list)
    note raw = spB [unfolded B] Bi(3) [unfolded B] Bi(2) [unfolded B] all_free_addrs [OF wf sub, unfolded B]
    obtain mem' where rm: "remove_from_bucket_list mem heap (of_nat ?h) =
          Inr (mem', heap\<lparr>free_buckets := (free_buckets heap)[?i := hd0 0 (xs @ ys)]\<rparr>)"
      and seg: "dseg mem' 0 (xs @ ys) 0" and nul: "mem' (of_nat (?h + 8)) = 0" "mem' (of_nat (?h + 16)) = 0"
      and fr: "\<And>a. a < 18446744073709551616 \<Longrightarrow> a \<notin> links (set (xs @ ?h # ys)) \<Longrightarrow> mem' (of_nat a) = mem (of_nat a)"
      by (rule remove_from_bucket_list_linked [OF raw idx i len Bi(1) [unfolded B]]) blast
    have "detached mem' X"
      by (rule detached_frame [OF det sp _ _ _ fr])
        (use X free_addrs_sub sub Bi(4) B in \<open>auto simp: bucket_set_def\<close>)
    then have det': "detached mem' (insert ?h X)" using nul by (simp add: detached_def)
    have LL: "set (xs @ ?h # ys) \<inter> bucket_set cs X j = {}" if "j \<noteq> ?i" for j
      using Bi(4) B bucket_set_disjoint [OF reg, of ?i j X] that by simp
    have dd: "distinct (xs @ ys)" and sx: "set (xs @ ys) = bucket_set cs (insert ?h X) ?i"
      using Bi(3,4) B by (auto simp: bucket_set_insert)
    have other: "bucket_set cs (insert ?h X) j = bucket_set cs X j" if "j \<noteq> ?i" for j
      using LL [OF that] by (auto simp: bucket_set_insert)
    have Xs: "insert ?h X \<subseteq> free_addrs cs" using X c by (auto simp: free_addrs_def)
    note bucket_change [OF wf i sub [unfolded B] LL fr seg dd sx other Xs]
    with rm det' show ?thesis using that by blast
  qed
qed

lemma wf_add:
  fixes heap :: "'h Heap"
  assumes wf: "heap_wf mem heap cs X B" and c: "c \<in> set cs" "caddr c \<in> X"
  obtains mem' fb' B' where
    "add_to_bucket_list mem heap (of_nat (caddr c)) = Inr (mem', heap\<lparr>free_buckets := fb'\<rparr>)"
    and "heap_wf mem' (heap\<lparr>free_buckets := fb'\<rparr>) cs (X - {caddr c}) B'" and "links_frame cs mem mem'"
proof -
  let ?h = "caddr c" and ?i = "bidx (c = last cs) (csize c)"
  have reg: "region_ok heap cs" and bk: "buckets_ok mem (free_buckets heap) cs X B"
    and X: "X \<subseteq> free_addrs cs" using wf by (simp_all add: heap_wf_def)
  have free: "cfree c" using X c region_caddr_eq [OF reg c(1)] by (auto simp: free_addrs_def)
  have i: "?i < 128" using region_chunk(1,3) [OF reg c(1)] by (intro bidx_range) simp_all
  have Bi: "free_buckets heap ! ?i = hd0 0 (B ?i)" "dseg mem 0 (B ?i) 0" "distinct (B ?i)"
      "set (B ?i) = bucket_set cs X ?i"
    using bk i by (simp_all add: buckets_ok_def)
  note sp = region_spaced [OF reg] and idx = heap_wf_chunk_facts(6) [OF wf c(1)]
  have sub: "set (?h # B ?i) \<subseteq> free_addrs cs" using Bi(4) bucket_set_sub X c(2) by auto
  have sp': "spaced (set (?h # B ?i))" by (rule spaced_subset [OF sp]) (use sub free_addrs_sub in blast)
  have notin: "?h \<notin> bucket_set cs X j" for j using c(2) by (auto simp: bucket_set_def)
  then have d: "distinct (?h # B ?i)" using Bi(3,4) by simp
  obtain mem' where add: "add_to_bucket_list mem heap (of_nat ?h) =
        Inr (mem', heap\<lparr>free_buckets := (free_buckets heap)[?i := of_nat ?h]\<rparr>)"
    and seg: "dseg mem' 0 (?h # B ?i) 0"
    and fr: "\<And>a. a < 18446744073709551616 \<Longrightarrow> a \<notin> links (set (?h # B ?i)) \<Longrightarrow> mem' (of_nat a) = mem (of_nat a)"
    by (rule add_to_bucket_list_linked [OF sp' d Bi(2) all_free_addrs [OF wf sub] idx i Bi(1)]) blast
  note del = bucket_set_delete [OF reg c(1) free c(2)]
  have sx: "set (?h # B ?i) = bucket_set cs (X - {?h}) ?i" using Bi(4) del by simp
  have other: "bucket_set cs (X - {?h}) j = bucket_set cs X j" if "j \<noteq> ?i" for j using that del by simp
  have LL: "set (?h # B ?i) \<inter> bucket_set cs X j = {}" if "j \<noteq> ?i" for j
    using Bi(4) notin bucket_set_disjoint [OF reg, of ?i j X] that by simp
  have Xs: "X - {?h} \<subseteq> free_addrs cs" using X by auto
  note bucket_change [OF wf i sub LL fr seg d sx other Xs]
  with add show ?thesis using that by (simp only: hd0_simps) blast
qed

section \<open>Rewriting a run of chunks\<close>

lemma links_in_region: "a \<in> links {caddr c} \<Longrightarrow> 16 \<le> csize c \<Longrightarrow> caddr c < a \<and> a < cend c"
  by (auto simp: links_def)

lemma run_bounds:
  assumes "tiles s (l @ mid @ r) t" and "tiles a mid e" and "mid \<noteq> []"
  shows "tiles s l a" and "tiles e r t"
    and "c \<in> set l \<Longrightarrow> cend c \<le> a" and "c \<in> set r \<Longrightarrow> e \<le> caddr c"
proof -
  obtain x y where t: "tiles s l x" "tiles x mid y" "tiles y r t"
    using assms(1) by (auto simp: tiles_append)
  have "x = a" using t(2) assms(2,3) by (cases mid) auto
  moreover have "tiles a' mid e' \<Longrightarrow> tiles a' mid e'' \<Longrightarrow> e' = e''" for a' e' e''
    by (induction mid arbitrary: a') auto
  ultimately show *: "tiles s l a" "tiles e r t" using t assms(2) by blast+
  show "c \<in> set l \<Longrightarrow> cend c \<le> a" using tiles_bounds(2) [OF *(1)] .
  show "c \<in> set r \<Longrightarrow> e \<le> caddr c" using tiles_bounds(1) [OF *(2)] .
qed

lemma run_last:
  assumes "tiles s (l @ mid @ r) t" and "mid \<noteq> []" and "c \<in> set l \<union> set r"
  shows "c = last (l @ mid @ r) \<longleftrightarrow> r \<noteq> [] \<and> c = last r"
proof (cases "r = []")
  case True
  then have "last (l @ mid @ r) \<in> set mid" using assms(2) by simp
  moreover have "set l \<inter> set mid = {}" using tiles_distinct [OF assms(1)] by (auto simp: distinct_map)
  ultimately show ?thesis using True assms(3) by auto
qed simp

lemma run_bucket_set:
  assumes t: "tiles s (l @ mid @ r) t" "tiles s (l @ mid' @ r) t" "mid \<noteq> []" "mid' \<noteq> []"
    and out: "\<And>c. c \<in> set mid \<Longrightarrow> cfree c \<Longrightarrow> caddr c \<in> X"
    and X': "X' = (X - caddr ` set mid) \<union> free_addrs mid'"
  shows "bucket_set (l @ mid' @ r) X' i = bucket_set (l @ mid @ r) X i"
proof -
  have same: "c = last (l @ mid @ r) \<longleftrightarrow> c = last (l @ mid' @ r)" if "c \<in> set l \<union> set r" for c
    using run_last [OF t(1,3) that] run_last [OF t(2,4) that] by simp
  have "caddr c \<notin> caddr ` set mid" "caddr c \<notin> caddr ` set mid'" if "c \<in> set l \<union> set r" for c
    using tiles_distinct [OF t(1)] tiles_distinct [OF t(2)] that by (auto simp: disjoint_iff)
  then have "caddr c \<in> X' \<longleftrightarrow> caddr c \<in> X" if "c \<in> set l \<union> set r" for c
    using that by (auto simp: X' free_addrs_def)
  moreover have "caddr c \<in> X'" if "c \<in> set mid'" "cfree c" for c
    using that by (simp add: X' free_addrs_def)
  ultimately have "{c \<in> set (l @ mid' @ r). cfree c \<and> caddr c \<notin> X' \<and> bidx (c = last (l @ mid' @ r)) (csize c) = i} =
      {c \<in> set (l @ mid @ r). cfree c \<and> caddr c \<notin> X \<and> bidx (c = last (l @ mid @ r)) (csize c) = i}"
    using out same by fastforce
  then show ?thesis by (simp only: bucket_set_def)
qed

lemma wf_replace:
  fixes heap :: "'h Heap"
  assumes wf: "heap_wf mem heap (l @ mid @ r) X B"
    and t: "tiles a mid e" "tiles a mid' e" "mid \<noteq> []" "mid' \<noteq> []"
    and out: "\<And>c. c \<in> set mid \<Longrightarrow> cfree c \<Longrightarrow> caddr c \<in> X"
    and fr: "\<And>n. n < 18446744073709551616 \<Longrightarrow> n < a \<or> e \<le> n \<Longrightarrow> mem' (of_nat n) = mem (of_nat n)"
    and ok: "\<And>c. c \<in> set mid' \<Longrightarrow> chunk_ok mem' (r = [] \<and> c = last mid') c"
    and wild: "r = [] \<Longrightarrow> cfree (last mid')"
    and heap': "heap' = heap\<lparr>wilderness_chunk := of_nat (caddr (last (l @ mid' @ r)))\<rparr>"
    and X': "X' = (X - caddr ` set mid) \<union> free_addrs mid'"
  shows "heap_wf mem' heap' (l @ mid' @ r) X' B"
proof -
  have reg: "region_ok heap (l @ mid @ r)" and bk: "buckets_ok mem (free_buckets heap) (l @ mid @ r) X B"
    and X: "X \<subseteq> free_addrs (l @ mid @ r)" using wf by (simp_all add: heap_wf_def)
  obtain s z where sz: "s = unat (heap_start heap)" "z = s + unat (heap_size heap)" by simp
  have tl: "tiles s (l @ mid @ r) z" using reg by (simp add: region_ok_def sz)
  note rb = run_bounds [OF tl t(1,3)]
  have tl': "tiles s (l @ mid' @ r) z" using rb(1,2) t(2) by (auto simp: tiles_append)
  have reg': "region_ok heap' (l @ mid' @ r)"
    using reg tl' wild t(4) by (auto simp: region_ok_def heap' sz last_append split: if_splits)
  have cell: "mem' (of_nat n) = mem (of_nat n)" if "c \<in> set l \<union> set r" "caddr c \<le> n" "n < cend c" for c n
    using fr [of n] rb(3,4) [of c] that region_chunk(3) [OF reg, of c] by fastforce
  have link: "mem' (of_nat n) = mem (of_nat n)" if "n \<in> links {caddr c}" "c \<in> set l \<union> set r" for n c
    using links_in_region [OF that(1)] region_chunk(1) [OF reg, of c] that(2) by (intro cell [OF that(2)]) auto
  have "chunk_ok mem' (c = last (l @ mid' @ r)) c" if c: "c \<in> set l \<union> set r" for c
  proof -
    have "chunk_ok mem (r \<noteq> [] \<and> c = last r) c"
      using heap_wf_chunk_ok [OF wf, of c] run_last [OF tl t(3) c] c by auto
    then show ?thesis
      using run_last [OF tl' t(4) c] cell [OF c, of "caddr c"] cell [OF c, of "caddr c + 8 + csize c"] by (simp add: chunk_ok_def)
  qed
  moreover have "c = last (l @ mid' @ r) \<longleftrightarrow> r = [] \<and> c = last mid'" if c: "c \<in> set mid'" for c
    using tiles_distinct [OF tl'] c t(4) by (cases "r = []") (auto simp: distinct_map disjoint_iff)
  ultimately have lay': "layout mem' (l @ mid' @ r)" using ok by (auto simp: layout_def)
  have fr': "free_addrs (l @ mid' @ r) = free_addrs l \<union> free_addrs mid' \<union> free_addrs r"
    by (auto simp: free_addrs_def)
  have Xs: "X - caddr ` set mid \<subseteq> free_addrs l \<union> free_addrs r" using X by (auto simp: free_addrs_def)
  have bs: "bucket_set (l @ mid' @ r) X' i = bucket_set (l @ mid @ r) X i" for i
    by (rule run_bucket_set [OF tl tl' t(3,4) out X'])
  have "dseg mem' 0 (B i) 0 = dseg mem 0 (B i) 0" if "i < 128" for i
  proof (rule dseg_cong)
    fix n assume n: "n \<in> links (set (B i))"
    have "set (B i) \<subseteq> free_addrs l \<union> free_addrs r"
      using bk that out by (auto simp: buckets_ok_def bucket_set_def free_addrs_def)
    then obtain c where "c \<in> set l \<union> set r" "n \<in> links {caddr c}"
      using n by (fastforce simp: links_def free_addrs_def)
    then show "mem' (of_nat n) = mem (of_nat n)" using link by blast
  qed
  then have "buckets_ok mem' (free_buckets heap') (l @ mid' @ r) X' B"
    using bk bs by (simp add: buckets_ok_def heap')
  then show ?thesis using reg' lay' Xs fr' X' by (auto simp: heap_wf_def)
qed

end
