(* ===== verification/Heap_Ops.thy ===== *)
theory Heap_Ops
  imports Heap_Layout
begin

text \<open>
  The operations of kernel/mem/heap.c that rewrite chunks, on well-formed heaps: splitting, merging,
  allocating a whole chunk and growing the wilderness. Each lemma gives the list of chunks after the
  operation and the cells that may have changed.
\<close>

section \<open>Frames and boundary tags\<close>

definition free_region :: "chunk list \<Rightarrow> nat set" where
  "free_region cs = {n. \<exists>c \<in> set cs. cfree c \<and> caddr c \<le> n \<and> n < cend c}"

text \<open>Only cells of free chunks, tags included, change.\<close>

definition heap_frame :: "chunk list \<Rightarrow> memory \<Rightarrow> memory \<Rightarrow> bool" where
  "heap_frame cs mem mem' \<longleftrightarrow>
     (\<forall>n < 18446744073709551616. n \<notin> free_region cs \<longrightarrow> mem' (of_nat n) = mem (of_nat n))"

definition same_region :: "'h Heap \<Rightarrow> 'h Heap \<Rightarrow> bool" where
  "same_region heap heap' \<longleftrightarrow>
     heap_vmem heap' = heap_vmem heap \<and> enable_growth heap' = enable_growth heap \<and>
     heap_start heap' = heap_start heap \<and> heap_size heap' = heap_size heap"

lemma links_frame_heap_frame:
  assumes "region_ok heap cs" and "links_frame cs mem mem'"
  shows "heap_frame cs mem mem'"
proof -
  have "n \<in> free_region cs" if "n \<in> links (free_addrs cs)" for n
  proof -
    from that obtain c where c: "c \<in> set cs" "cfree c" "n \<in> links {caddr c}"
      by (auto simp: links_def free_addrs_def)
    then show ?thesis
      using links_in_region [OF c(3) region_chunk(1) [OF assms(1) c(1)]] by (force simp: free_region_def)
  qed
  then show ?thesis using assms(2) by (auto simp: links_frame_def heap_frame_def)
qed

lemma heap_frame_trans:
  assumes "heap_frame cs m1 m2" and "heap_frame cs' m2 m3" and "free_region cs' \<subseteq> free_region cs"
  shows "heap_frame cs m1 m3"
  using assms by (auto simp: heap_frame_def)

lemma heap_frame_refl [simp]: "heap_frame cs mem mem"
  by (simp add: heap_frame_def)

lemma free_addrs_simps [simp]:
  "free_addrs [] = {}"
  "free_addrs (c # cs) = (if cfree c then insert (caddr c) (free_addrs cs) else free_addrs cs)"
  by (auto simp: free_addrs_def)

definition set_tags :: "memory \<Rightarrow> bool \<Rightarrow> chunk \<Rightarrow> memory" where
  "set_tags mem w c =
     mem(of_nat (caddr c) := of_nat (csize c + fval (cfree c) w), of_nat (caddr c + 8 + csize c) := of_nat (csize c))"

lemma set_tags_ok: "cend c < 18446744073709551616 \<Longrightarrow> chunk_ok (set_tags mem w c) w c"
  by (simp add: set_tags_def chunk_ok_def of_nat_inj_u64)

lemma set_tags_other:
  "cend c < 18446744073709551616 \<Longrightarrow> n < 18446744073709551616 \<Longrightarrow> n < caddr c \<or> cend c \<le> n \<Longrightarrow>
   set_tags mem w c (of_nat n) = mem (of_nat n)"
  by (auto simp: set_tags_def of_nat_inj_u64)

lemma chunk_ok_set_tags_other:
  assumes "chunk_ok mem w d" and "cend c < 18446744073709551616" and "cend d < 18446744073709551616"
    and "cend c \<le> caddr d \<or> cend d \<le> caddr c"
  shows "chunk_ok (set_tags mem v c) w d"
  using assms by (auto simp: chunk_ok_def set_tags_other)

lemma write_header:
  fixes mem :: memory
  assumes "8 dvd s"
  shows "set_heap_chunk_flag (mem(of_nat a := of_nat s)) (of_nat a) HEAP_FREE_CHUNK =
           mem(of_nat a := of_nat (s + fval True False))"
    and "set_heap_chunk_flag (mem(of_nat a := of_nat (s + fval True False))) (of_nat a) HEAP_WILDERNESS_CHUNK =
           mem(of_nat a := of_nat (s + fval True True))"
    and "set_heap_chunk_flag (mem(of_nat a := of_nat s)) (of_nat a) HEAP_WILDERNESS_CHUNK =
           mem(of_nat a := of_nat (s + fval False True))"
    and "set_heap_chunk_flag (mem(of_nat a := of_nat (s + fval False True))) (of_nat a) HEAP_FREE_CHUNK =
           mem(of_nat a := of_nat (s + fval True True))"
  by (simp_all add: set_heap_chunk_flag_def header_set_flags_plain [OF assms] header_set_flags [OF assms])

lemma header_written:
  fixes mem :: memory
  assumes "8 dvd s" and "s + 8 \<le> 18446744073709551616"
  shows "get_fixed_heap_chunk_size (mem(of_nat a := of_nat (s + fval fr w))) (of_nat a) = of_nat s"
    and "get_fixed_heap_chunk_size (mem(of_nat a := of_nat s)) (of_nat a) = of_nat s"
    and "get_heap_chunk_footer_from_header (mem(of_nat a := of_nat (s + fval fr w))) (of_nat a) = of_nat (a + 8 + s)"
    and "get_heap_chunk_footer_from_header (mem(of_nat a := of_nat s)) (of_nat a) = of_nat (a + 8 + s)"
  using header_size_word [OF assms] header_size_plain [OF assms]
  by (simp_all add: get_heap_chunk_footer_from_header_def get_fixed_heap_chunk_size_def of_nat_add)

lemma size_checks:
  assumes "8 dvd s" and "16 \<le> s" and "s + 8 \<le> 18446744073709551616"
  shows "(of_nat s :: u64) mod 8 = 0" and "(16 :: u64) \<le> of_nat s"
proof -
  show "(of_nat s :: u64) mod 8 = 0" using header_mod_8 [of s 0] assms by simp
  have "unat (of_nat s :: u64) = s" using assms(3) by (intro unat_of_nat_u64) simp
  then show "(16 :: u64) \<le> of_nat s" using assms(2) by (simp add: word_le_nat_alt del: unat_of_nat)
qed

lemma last_run: "last (l @ mid @ r) = (if r = [] then (if mid = [] then last l else last mid) else last r)"
  by (simp add: last_append)

lemma pair_last:
  assumes "region_ok heap (l @ mid @ r)" and "c \<in> set mid"
  shows "c = last (l @ mid @ r) \<longleftrightarrow> r = [] \<and> c = last mid"
proof -
  have "distinct (map caddr (l @ mid @ r))"
    using assms(1) unfolding region_ok_def by (blast intro: tiles_distinct)
  then have "distinct (l @ mid @ r)" by (simp only: distinct_map)
  moreover have "mid \<noteq> []" using assms(2) by auto
  ultimately show ?thesis using assms(2) by (cases "r = []") (auto simp: disjoint_iff)
qed

lemma region_run:
  assumes "region_ok heap (l @ mid @ r)"
  obtains a e where "tiles a mid e"
  using assms by (auto simp: region_ok_def tiles_append)

section \<open>Splitting\<close>

lemma split_second_size:
  assumes "16 \<le> sz" and "sz \<le> 4611686018427387904" and "s < 9223372036854775808"
  shows "sint ((of_nat s :: u64) - (of_nat sz + 16)) = int s - int sz - 16"
proof -
  have "(of_nat s :: u64) - (of_nat sz + 16) = of_int (int s - int sz - 16)"
    by simp
  moreover have "sint (of_int x :: u64) = x" if "- 9223372036854775808 \<le> x" "x < 9223372036854775808" for x
    using that by (simp add: sint_sbintrunc' signed_take_bit_int_eq_self)
  ultimately show ?thesis using assms by (simp only:)
qed

lemma split_refused:
  assumes wf: "heap_wf mem heap cs X B" and c: "c \<in> set cs" "cfree c"
    and sz: "8 dvd sz" "16 \<le> sz" "sz \<le> 4611686018427387904" and small: "csize c < sz + 32"
  shows "split_chunk_and_alloc mem heap (of_nat (caddr c)) (of_nat sz) = Inr (False, mem, heap)"
proof -
  note f = heap_wf_chunk_facts [OF wf c(1)]
  have "csize c < 9223372036854775808"
    using region_chunk(6,7) [OF heap_wf_region [OF wf] c(1)] heap_wf_region [OF wf] by (simp add: region_ok_def)
  then have "sint ((of_nat (csize c) :: u64) - (of_nat sz + 16)) < 16"
    using split_second_size [OF sz(2,3), of "csize c"] small by simp
  moreover note size_checks [OF sz(1,2)]
  ultimately show ?thesis
    using sz(3) c(2) by (simp add: split_chunk_and_alloc_def Let_def f)
qed

definition first_part :: "nat \<Rightarrow> chunk \<Rightarrow> chunk" where
  "first_part sz c = \<lparr>caddr = caddr c, csize = sz, cfree = False\<rparr>"

definition second_part :: "nat \<Rightarrow> chunk \<Rightarrow> chunk" where
  "second_part sz c = \<lparr>caddr = caddr c + sz + 16, csize = csize c - (sz + 16), cfree = True\<rparr>"

lemma part_simps [simp]:
  "caddr (first_part sz c) = caddr c" "csize (first_part sz c) = sz" "\<not> cfree (first_part sz c)"
  "caddr (second_part sz c) = caddr c + sz + 16" "csize (second_part sz c) = csize c - (sz + 16)" "cfree (second_part sz c)"
  by (simp_all add: first_part_def second_part_def)

text \<open>The writes of \<open>split_chunk_and_alloc\<close>, as the tags of the two parts.\<close>

lemma split_writes:
  fixes mem :: memory
  assumes "8 dvd sz" and "16 \<le> sz" and "8 dvd csize c" and "sz + 32 \<le> csize c" and "cend c < 18446744073709551616"
    and "mem2 = mem(of_nat (caddr c) := of_nat sz)"
    and "mem3 = mem2(get_heap_chunk_footer_from_header mem2 (of_nat (caddr c)) := of_nat sz)"
    and sc: "sc = of_nat (caddr c + sz + 16)"
    and "mem4 = set_heap_chunk_flag (mem3(sc := of_nat (csize c - (sz + 16)))) sc HEAP_FREE_CHUNK"
    and "mem5 = (if w then set_heap_chunk_flag mem4 sc HEAP_WILDERNESS_CHUNK else mem4)"
  shows "get_next_heap_chunk_header mem3 (of_nat (caddr c)) = of_nat (caddr c + sz + 16)"
    and "get_heap_chunk_footer_from_header mem5 sc = of_nat (caddr c + 8 + csize c)"
    and "mem5(of_nat (caddr c + 8 + csize c) := of_nat (csize c - (sz + 16))) =
           set_tags (set_tags mem False (first_part sz c)) w (second_part sz c)"
proof -
  let ?b = "caddr c + sz + 16" and ?s = "csize c - (sz + 16)"
  have b: "sz + 8 \<le> 18446744073709551616" "8 dvd ?s" "?s + 8 \<le> 18446744073709551616"
    using assms(1,3,4,5) by (auto intro!: dvd_diff_nat)
  have m3: "mem3 = set_tags mem False (first_part sz c)"
    by (simp add: assms(7,6) header_written(4) [OF assms(1) b(1)] set_tags_def first_part_def fval_def)
  have "get_fixed_heap_chunk_size mem3 (of_nat (caddr c)) = of_nat sz"
    using chunk_facts(1) [OF set_tags_ok [of "first_part sz c" mem False]] assms(1,2,4,5) by (simp add: m3)
  then show "get_next_heap_chunk_header mem3 (of_nat (caddr c)) = of_nat ?b"
    by (simp add: get_next_heap_chunk_header_def of_nat_add)
  have m5: "mem5 = mem3(of_nat ?b := of_nat (?s + fval True w))"
    by (simp add: assms(10,9) sc write_header [OF b(2)])
  have e: "?b + 8 + ?s = caddr c + 8 + csize c" using assms(4) by simp
  show "get_heap_chunk_footer_from_header mem5 sc = of_nat (caddr c + 8 + csize c)"
    unfolding sc m5 header_written(3) [OF b(2,3)] e ..
  show "mem5(of_nat (caddr c + 8 + csize c) := of_nat ?s) =
           set_tags (set_tags mem False (first_part sz c)) w (second_part sz c)"
    unfolding m5 m3 set_tags_def [of _ w] by (simp only: part_simps e)
qed

lemma split_done:
  fixes heap :: "'h Heap"
  assumes wf: "heap_wf mem heap (l @ [c] @ r) {} B" and free: "cfree c"
    and sz: "8 dvd sz" "16 \<le> sz" "sz \<le> 4611686018427387904" and big: "sz + 32 \<le> csize c"
  obtains mem' heap' B' where
    "split_chunk_and_alloc mem heap (of_nat (caddr c)) (of_nat sz) = Inr (True, mem', heap')"
    and "heap_wf mem' heap' (l @ [first_part sz c, second_part sz c] @ r) {} B'"
    and "heap_frame (l @ [c] @ r) mem mem'" and "same_region heap heap'"
    and "number_of_chunks heap' = number_of_chunks heap + 1"
proof -
  let ?cs = "l @ [c] @ r" and ?h = "of_nat (caddr c) :: u64" and ?s = "csize c - (sz + 16)"
  let ?p = "first_part sz c" and ?q = "second_part sz c" and ?w = "r = []"
  let ?cs' = "l @ [?p, ?q] @ r"
  have c: "c \<in> set ?cs" by simp
  note reg = heap_wf_region [OF wf] and f = heap_wf_chunk_facts [OF wf c]
  note rc = region_chunk [OF reg c]
  have cs: "csize c < 9223372036854775808" using rc(6,7) reg by (simp add: region_ok_def)
  have w: "c = last ?cs \<longleftrightarrow> ?w" using pair_last [OF reg, of c] by simp
  have s2: "of_nat (csize c) - (of_nat sz + 16) = (of_nat ?s :: u64)" using big by (simp add: of_nat_diff of_nat_add)
  have s2i: "\<not> sint (of_nat ?s :: u64) < 16" using split_second_size [OF sz(2,3) cs] big by (simp only: s2)
  have d2: "8 dvd ?s" "16 \<le> ?s" "?s + 8 \<le> 18446744073709551616" using sz(1) rc(2,3) big by (auto intro!: dvd_diff_nat)
  have "detached mem {}" by (simp add: detached_def)
  then obtain mem1 fb1 B1 where rm: "remove_from_bucket_list mem heap ?h = Inr (mem1, heap\<lparr>free_buckets := fb1\<rparr>)"
    and wf1: "heap_wf mem1 (heap\<lparr>free_buckets := fb1\<rparr>) ?cs {caddr c} B1" and lf1: "links_frame ?cs mem mem1"
    by (rule wf_remove [OF wf _ c free])
  define heap5 where "heap5 = (if ?w then heap\<lparr>free_buckets := fb1, wilderness_chunk := of_nat (caddr c + sz + 16)\<rparr> else heap\<lparr>free_buckets := fb1\<rparr>)"
  define mem6 where "mem6 = set_tags (set_tags mem1 False ?p) ?w ?q"
  have wild: "heap5 = heap\<lparr>free_buckets := fb1, wilderness_chunk := of_nat (caddr (last ?cs'))\<rparr>"
    using heap_wf_region [OF wf1] by (auto simp: heap5_def region_ok_def last_run)
  have bd: "cend ?p < 18446744073709551616" "cend ?q < 18446744073709551616" using rc(3) big by simp_all
  have wf6: "heap_wf mem6 heap5 ?cs' {caddr ?q} B1"
  proof (rule wf_replace [OF wf1, where a = "caddr c" and e = "cend c"])
    show "mem6 (of_nat n) = mem1 (of_nat n)" if "n < 18446744073709551616" "n < caddr c \<or> cend c \<le> n" for n
      using that big bd by (auto simp: mem6_def set_tags_other)
    show "chunk_ok mem6 (?w \<and> d = last [?p, ?q]) d" if "d \<in> set [?p, ?q]" for d
      using that bd set_tags_ok [OF bd(2)] chunk_ok_set_tags_other [OF set_tags_ok [OF bd(1)] bd(2,1)]
      by (auto simp: mem6_def first_part_def second_part_def)
  qed (use rc sz big d2 wild in auto)
  obtain mem7 fb7 B7 where add: "add_to_bucket_list mem6 heap5 (of_nat (caddr ?q)) = Inr (mem7, heap5\<lparr>free_buckets := fb7\<rparr>)"
    and wf7: "heap_wf mem7 (heap5\<lparr>free_buckets := fb7\<rparr>) ?cs' ({caddr ?q} - {caddr ?q}) B7" and lf7: "links_frame ?cs' mem6 mem7"
    by (rule wf_add [OF wf6, of ?q]) auto
  let ?heap' = "heap5\<lparr>free_buckets := fb7, number_of_chunks := number_of_chunks heap5 + 1\<rparr>"
  note sw = split_writes [OF sz(1,2) rc(2) big rc(3) refl refl refl refl refl]
  have "split_chunk_and_alloc mem heap ?h (of_nat sz) = Inr (True, mem7, ?heap')"
    unfolding split_chunk_and_alloc_def Let_def f w s2 rm kbind_simps prod.case sw
      heap5_def [symmetric] mem6_def [symmetric] add [unfolded part_simps]
    using free size_checks [OF sz(1,2)] size_checks [OF d2] sz(3) s2i by simp
  moreover have "heap_wf mem7 ?heap' ?cs' {} B7" using wf7 by (simp add: heap_wf_def region_ok_def)
  moreover have "heap_frame ?cs mem mem7"
  proof -
    have "heap_frame ?cs mem1 mem6" using big bd free by (auto simp: heap_frame_def free_region_def mem6_def set_tags_other)
    then have "heap_frame ?cs mem mem6"
      using heap_frame_trans [OF links_frame_heap_frame [OF reg lf1]] by blast
    moreover have "free_region ?cs' \<subseteq> free_region ?cs" using big free by (auto simp: free_region_def)
    ultimately show ?thesis
      using heap_frame_trans [OF _ links_frame_heap_frame [OF heap_wf_region [OF wf6] lf7]] by blast
  qed
  ultimately show ?thesis
    by (intro that [of mem7 ?heap' B7]) (simp_all add: same_region_def heap5_def)
qed

section \<open>Merging\<close>

definition joined :: "chunk list \<Rightarrow> chunk" where
  "joined cs = \<lparr>caddr = caddr (hd cs), csize = cend (last cs) - caddr (hd cs) - 16, cfree = True\<rparr>"

text \<open>
  The last part of both merges: the tags of the joined chunk are written, the wilderness pointer is
  moved if the run was at the end, and the joined chunk is put into its bucket.
\<close>

lemma merge_finish:
  fixes heap :: "'h Heap"
  assumes wf: "heap_wf mem heap (l @ mid @ r) X B" and mid: "mid \<noteq> []" "X = caddr ` set mid"
    and ns: "ns = cend (last mid) - caddr (hd mid) - 16"
    and mem5: "mem5 = set_tags mem (r = []) (joined mid)"
    and heap4: "heap4 = (if r = [] then heap\<lparr>wilderness_chunk := of_nat (caddr (hd mid))\<rparr> else heap)"
  obtains mem' fb' B' where
    "add_to_bucket_list mem5 heap4 (of_nat (caddr (hd mid))) = Inr (mem', heap4\<lparr>free_buckets := fb'\<rparr>)"
    and "heap_wf mem' (heap4\<lparr>free_buckets := fb', number_of_chunks := k\<rparr>) (l @ [joined mid] @ r) {} B'"
    and "heap_frame (l @ mid @ r) mem mem'"
    and "8 dvd ns" and "16 \<le> ns" and "ns + 8 \<le> 18446744073709551616" and "caddr (hd mid) + 8 + ns = caddr (last mid) + 8 + csize (last mid)"
proof -
  let ?cs = "l @ mid @ r" and ?m = "joined mid" and ?cs' = "l @ [joined mid] @ r"
  note reg = heap_wf_region [OF wf]
  obtain a e where t: "tiles a mid e" by (rule region_run [OF reg])
  have hd: "hd mid \<in> set mid" "last mid \<in> set mid" using mid by auto
  have a: "caddr (hd mid) = a" using t mid(1) by (cases mid) auto
  have e: "cend (last mid) = e"
    using t mid(1) by (induction mid arbitrary: a) (auto split: if_splits)
  note rh = region_chunk [OF reg, of "hd mid"] and rl = region_chunk [OF reg, of "last mid"]
  have al: "8 dvd a" "8 dvd e" using rh(5) rl(2,5) hd a e by (auto intro!: dvd_add)
  have le: "a + 32 \<le> e" using tiles_bounds [OF t hd(1)] a by simp
  have m: "caddr ?m = a" "csize ?m = e - a - 16" "cfree ?m" "cend ?m = e" using a e le by (simp_all add: joined_def)
  have eb: "e < 18446744073709551616" using rl(3) hd e by simp
  have d: "8 dvd e - a - 16" using al le by (auto intro!: dvd_diff_nat)
  have free: "cfree c" if "c \<in> set mid" for c
    using wf that mid(2) region_caddr_eq [OF reg, of c] unfolding heap_wf_def free_addrs_def by force
  have tm: "tiles a [?m] e" using m d le by simp
  have wild: "heap4 = heap\<lparr>wilderness_chunk := of_nat (caddr (last ?cs'))\<rparr>"
    using reg mid a m by (auto simp: heap4 region_ok_def last_run)
  have wf5: "heap_wf mem5 heap4 ?cs' {a} B"
  proof (rule wf_replace [OF wf t tm mid(1) _ _ _ _ _ wild])
    show "mem5 (of_nat n) = mem (of_nat n)" if "n < 18446744073709551616" "n < a \<or> e \<le> n" for n
      unfolding mem5 by (rule set_tags_other) (use that m eb in auto)
    show "chunk_ok mem5 (r = [] \<and> c = last [?m]) c" if "c \<in> set [?m]" for c
      using that set_tags_ok [of ?m mem "r = []"] m(4) eb by (simp add: mem5)
  qed (use m mid(2) in auto)
  obtain mem' fb' B' where add: "add_to_bucket_list mem5 heap4 (of_nat a) = Inr (mem', heap4\<lparr>free_buckets := fb'\<rparr>)"
    and wf': "heap_wf mem' (heap4\<lparr>free_buckets := fb'\<rparr>) ?cs' ({a} - {a}) B'" and lf: "links_frame ?cs' mem5 mem'"
    by (rule wf_add [OF wf5, of ?m, unfolded m(1)]) auto
  have sub: "set mid \<subseteq> set ?cs" by auto
  have fr: "free_region ?cs' \<subseteq> free_region ?cs"
  proof -
    have "\<exists>c \<in> set mid. caddr c \<le> n \<and> n < cend c" if "a \<le> n" "n < e" for n
      using t that by (induction mid arbitrary: a) (auto simp: not_less, fastforce)
    then show ?thesis using m free by (fastforce simp: free_region_def)
  qed
  have "mem5 (of_nat n) = mem (of_nat n)" if "n < 18446744073709551616" "n \<notin> free_region ?cs'" for n
    unfolding mem5 by (rule set_tags_other) (use that m eb in \<open>auto simp: free_region_def\<close>)
  then have "heap_frame ?cs mem mem5" using fr by (auto simp: heap_frame_def)
  then have "heap_frame ?cs mem mem'"
    using heap_frame_trans [OF _ links_frame_heap_frame [OF heap_wf_region [OF wf5] lf] fr] by blast
  moreover have "heap_wf mem' (heap4\<lparr>free_buckets := fb', number_of_chunks := k\<rparr>) ?cs' {} B'"
    using wf' by (simp add: heap_wf_def region_ok_def)
  moreover have "caddr (hd mid) + 8 + ns = caddr (last mid) + 8 + csize (last mid)"
    using a e le by (simp add: ns)
  ultimately show ?thesis
    using that [of mem' fb' B'] add d le eb a e by (simp add: ns)
qed

lemma remove_twice:
  fixes heap :: "'h Heap"
  assumes wf: "heap_wf mem heap cs X B" and det: "detached mem X"
    and c: "c \<in> set cs" "cfree c" and d: "d \<in> set cs" "cfree d"
  obtains mem1 fb1 mem2 fb2 B2 where
    "remove_from_bucket_list mem heap (of_nat (caddr c)) = Inr (mem1, heap\<lparr>free_buckets := fb1\<rparr>)"
    and "remove_from_bucket_list mem1 (heap\<lparr>free_buckets := fb1\<rparr>) (of_nat (caddr d)) = Inr (mem2, heap\<lparr>free_buckets := fb2\<rparr>)"
    and "heap_wf mem2 (heap\<lparr>free_buckets := fb2\<rparr>) cs ({caddr c, caddr d} \<union> X) B2"
    and "heap_frame cs mem mem2" and "detached mem2 ({caddr c, caddr d} \<union> X)"
proof -
  obtain mem1 fb1 B1 where 1: "remove_from_bucket_list mem heap (of_nat (caddr c)) = Inr (mem1, heap\<lparr>free_buckets := fb1\<rparr>)"
    "heap_wf mem1 (heap\<lparr>free_buckets := fb1\<rparr>) cs (insert (caddr c) X) B1" "links_frame cs mem mem1"
    "detached mem1 (insert (caddr c) X)"
    by (rule wf_remove [OF wf det c])
  obtain mem2 fb2 B2 where 2: "remove_from_bucket_list mem1 (heap\<lparr>free_buckets := fb1\<rparr>) (of_nat (caddr d)) =
        Inr (mem2, heap\<lparr>free_buckets := fb1\<rparr>\<lparr>free_buckets := fb2\<rparr>)"
    "heap_wf mem2 (heap\<lparr>free_buckets := fb1\<rparr>\<lparr>free_buckets := fb2\<rparr>) cs (insert (caddr d) (insert (caddr c) X)) B2"
    "links_frame cs mem1 mem2" "detached mem2 (insert (caddr d) (insert (caddr c) X))"
    by (rule wf_remove [OF 1(2,4) d])
  have "heap_frame cs mem mem2"
    using heap_frame_trans [OF links_frame_heap_frame [OF heap_wf_region [OF wf] 1(3)]
        links_frame_heap_frame [OF heap_wf_region [OF 1(2)] 2(3)]] by simp
  then show ?thesis
    using that [of mem1 fb1 mem2 fb2 B2] 1(1) 2 by (simp add: insert_commute)
qed

lemma run_adjacent:
  assumes "region_ok heap (l @ [c, d] @ r)"
  shows "caddr d = cend c" and "c \<noteq> d" and "\<not> c = last (l @ [c, d] @ r)" and "d = last (l @ [c, d] @ r) \<longleftrightarrow> r = []"
proof -
  show 1: "caddr d = cend c" using assms by (auto simp: region_ok_def tiles_append)
  then show "c \<noteq> d" by auto
  then show "\<not> c = last (l @ [c, d] @ r)" "d = last (l @ [c, d] @ r) \<longleftrightarrow> r = []"
    using pair_last [OF assms] by auto
qed

lemma wf_merge_next:
  fixes heap :: "'h Heap"
  assumes wf: "heap_wf mem heap (l @ [c, d] @ r) X B" and det: "detached mem X" and X: "X \<subseteq> {caddr c, caddr d}"
    and free: "cfree c" "cfree d"
  obtains mem' heap' B' where
    "merge_with_next_chunk mem heap (of_nat (caddr c)) = Inr (mem', heap')"
    and "heap_wf mem' heap' (l @ [joined [c, d]] @ r) {} B'"
    and "heap_frame (l @ [c, d] @ r) mem mem'" and "same_region heap heap'"
    and "number_of_chunks heap' = number_of_chunks heap - 1"
proof -
  let ?cs = "l @ [c, d] @ r" and ?m = "joined [c, d]" and ?ns = "csize c + csize d + 16"
  note reg = heap_wf_region [OF wf]
  have cd: "c \<in> set ?cs" "d \<in> set ?cs" by simp_all
  note adj = run_adjacent [OF reg]
  obtain mem1 fb1 mem2 fb2 B2 where
    rm1: "remove_from_bucket_list mem heap (of_nat (caddr c)) = Inr (mem1, heap\<lparr>free_buckets := fb1\<rparr>)"
    and rm2: "remove_from_bucket_list mem1 (heap\<lparr>free_buckets := fb1\<rparr>) (of_nat (caddr d)) = Inr (mem2, heap\<lparr>free_buckets := fb2\<rparr>)"
    and wf2: "heap_wf mem2 (heap\<lparr>free_buckets := fb2\<rparr>) ?cs ({caddr c, caddr d} \<union> X) B2" and hf2: "heap_frame ?cs mem mem2"
    by (rule remove_twice [OF wf det cd(1) free(1) cd(2) free(2)])
  note f = heap_wf_chunk_facts [OF wf cd(1)] heap_wf_chunk_facts [OF wf cd(2)]
  note f2 = heap_wf_chunk_facts(1) [OF wf2 cd(1)] heap_wf_chunk_facts(1) [OF wf2 cd(2)]
  have X2: "{caddr c, caddr d} \<union> X = caddr ` set [c, d]" using X by auto
  define mem5 where "mem5 = set_tags mem2 (r = []) ?m"
  define heap4 where "heap4 = (if r = [] then heap\<lparr>free_buckets := fb2, wilderness_chunk := of_nat (caddr c)\<rparr> else heap\<lparr>free_buckets := fb2\<rparr>)"
  have eqs: "?ns = cend (last [c, d]) - caddr (hd [c, d]) - 16"
    "heap4 = (if r = [] then heap\<lparr>free_buckets := fb2\<rparr>\<lparr>wilderness_chunk := of_nat (caddr (hd [c, d]))\<rparr> else heap\<lparr>free_buckets := fb2\<rparr>)"
    by (simp_all add: adj(1) heap4_def)
  obtain mem' fb' B' where add: "add_to_bucket_list mem5 heap4 (of_nat (caddr c)) = Inr (mem', heap4\<lparr>free_buckets := fb'\<rparr>)"
    and wf': "heap_wf mem' (heap4\<lparr>free_buckets := fb', number_of_chunks := number_of_chunks heap - 1\<rparr>) (l @ [?m] @ r) {} B'"
    and hf: "heap_frame ?cs mem2 mem'"
    and ns: "8 dvd ?ns" "16 \<le> ?ns" "?ns + 8 \<le> 18446744073709551616"
    by (rule merge_finish [OF wf2 _ X2 eqs(1) mem5_def eqs(2), where k = "number_of_chunks heap - 1", unfolded list.sel]) blast+
  have tags: "mem5 = mem2(of_nat (caddr c) := of_nat (?ns + fval True (r = [])), of_nat (caddr d + 8 + csize d) := of_nat ?ns)"
    by (simp add: mem5_def set_tags_def joined_def adj(1) add_ac)
  have hdr: "(if r = [] then set_heap_chunk_flag (set_heap_chunk_flag (mem2(of_nat (caddr c) := of_nat ?ns)) (of_nat (caddr c)) HEAP_FREE_CHUNK)
        (of_nat (caddr c)) HEAP_WILDERNESS_CHUNK
      else set_heap_chunk_flag (mem2(of_nat (caddr c) := of_nat ?ns)) (of_nat (caddr c)) HEAP_FREE_CHUNK) =
      mem2(of_nat (caddr c) := of_nat (?ns + fval True (r = [])))"
    by (simp add: write_header [OF ns(1)])
  have size: "of_nat (csize d) + of_nat (csize c) + 16 = (of_nat ?ns :: u64)" by (simp add: of_nat_add)
  have ne: "(of_nat (caddr d) :: u64) \<noteq> of_nat (caddr c)"
    using adj(1) region_chunk(3) [OF reg cd(2)] by (subst of_nat_inj_u64) auto
  have ft: "get_heap_chunk_footer_from_header (mem2(of_nat (caddr c) := v)) (of_nat (caddr d)) = of_nat (caddr d + 8 + csize d)" for v
    using ne heap_wf_chunk_facts(5) [OF wf2 cd(2)]
    by (simp add: get_heap_chunk_footer_from_header_def get_fixed_heap_chunk_size_def)
  have "merge_with_next_chunk mem heap (of_nat (caddr c)) =
      Inr (mem', heap4\<lparr>free_buckets := fb', number_of_chunks := number_of_chunks heap - 1\<rparr>)"
    unfolding merge_with_next_chunk_def Let_def is_last_chunk_of_heap_def f adj(1) [symmetric]
    unfolding f adj(4) rm1 rm2 kbind_simps prod.case f2 size hdr ft
    unfolding tags [symmetric] heap4_def [symmetric] add
    using free adj(3) size_checks [OF ns] by (simp add: heap4_def)
  then show ?thesis
    by (rule that [OF _ wf' heap_frame_trans [OF hf2 hf subset_refl]]) (simp_all add: same_region_def heap4_def)
qed

lemma run_adjacent3:
  assumes "region_ok heap (l @ [b, c, d] @ r)"
  shows "caddr c = cend b" and "caddr d = cend c" and "\<not> c = last (l @ [b, c, d] @ r)"
    and "d = last (l @ [b, c, d] @ r) \<longleftrightarrow> r = []" and "\<not> b = last (l @ [b, c, d] @ r)"
    and "heap_start heap \<noteq> of_nat (caddr c)"
proof -
  show 1: "caddr c = cend b" "caddr d = cend c" using assms by (auto simp: region_ok_def tiles_append)
  then have "b \<noteq> c" "c \<noteq> d" "b \<noteq> d" by auto
  then show "\<not> c = last (l @ [b, c, d] @ r)" "d = last (l @ [b, c, d] @ r) \<longleftrightarrow> r = []" "\<not> b = last (l @ [b, c, d] @ r)"
    using pair_last [OF assms] by auto
  have "unat (heap_start heap) \<le> caddr b" "cend c < 18446744073709551616"
    using region_chunk(3,6) [OF assms] by auto
  then have "unat (heap_start heap) \<noteq> unat (of_nat (caddr c) :: u64)" using 1 by (subst unat_of_nat_u64) auto
  then show "heap_start heap \<noteq> of_nat (caddr c)" by metis
qed

lemma wf_merge_both:
  fixes heap :: "'h Heap"
  assumes wf: "heap_wf mem heap (l @ [b, c, d] @ r) X B" and det: "detached mem X" and X: "X \<subseteq> {caddr c}"
    and free: "cfree b" "cfree c" "cfree d"
  obtains mem' heap' B' where
    "merge_with_next_and_prev_chunk mem heap (of_nat (caddr c)) = Inr (mem', heap')"
    and "heap_wf mem' heap' (l @ [joined [b, c, d]] @ r) {} B'"
    and "heap_frame (l @ [b, c, d] @ r) mem mem'" and "same_region heap heap'"
    and "number_of_chunks heap' = number_of_chunks heap - 2"
proof -
  let ?cs = "l @ [b, c, d] @ r" and ?m = "joined [b, c, d]" and ?ns = "32 + csize c + csize d + csize b"
  note reg = heap_wf_region [OF wf]
  have in3: "b \<in> set ?cs" "c \<in> set ?cs" "d \<in> set ?cs" by simp_all
  note adj = run_adjacent3 [OF reg]
  obtain mem1 fb1 mem2 fb2 B2 where
    rm1: "remove_from_bucket_list mem heap (of_nat (caddr c)) = Inr (mem1, heap\<lparr>free_buckets := fb1\<rparr>)"
    and rm2: "remove_from_bucket_list mem1 (heap\<lparr>free_buckets := fb1\<rparr>) (of_nat (caddr d)) = Inr (mem2, heap\<lparr>free_buckets := fb2\<rparr>)"
    and wf2: "heap_wf mem2 (heap\<lparr>free_buckets := fb2\<rparr>) ?cs ({caddr c, caddr d} \<union> X) B2" and hf2: "heap_frame ?cs mem mem2"
    and det2: "detached mem2 ({caddr c, caddr d} \<union> X)"
    by (rule remove_twice [OF wf det in3(2) free(2) in3(3) free(3)])
  obtain mem3 fb3 B3 where
    rm3: "remove_from_bucket_list mem2 (heap\<lparr>free_buckets := fb2\<rparr>) (of_nat (caddr b)) =
      Inr (mem3, heap\<lparr>free_buckets := fb2\<rparr>\<lparr>free_buckets := fb3\<rparr>)"
    and wf3: "heap_wf mem3 (heap\<lparr>free_buckets := fb2\<rparr>\<lparr>free_buckets := fb3\<rparr>) ?cs (insert (caddr b) ({caddr c, caddr d} \<union> X)) B3"
    and lf3: "links_frame ?cs mem2 mem3"
    by (rule wf_remove [OF wf2 det2 in3(1) free(1)])
  have hf3: "heap_frame ?cs mem mem3"
    by (rule heap_frame_trans [OF hf2 links_frame_heap_frame [OF heap_wf_region [OF wf2] lf3] subset_refl])
  note f = heap_wf_chunk_facts [OF wf in3(1)] heap_wf_chunk_facts [OF wf in3(2)] heap_wf_chunk_facts [OF wf in3(3)]
  note f3 = heap_wf_chunk_facts(1) [OF wf3 in3(1)] heap_wf_chunk_facts(1) [OF wf3 in3(2)] heap_wf_chunk_facts(1) [OF wf3 in3(3)]
  have X3: "insert (caddr b) ({caddr c, caddr d} \<union> X) = caddr ` set [b, c, d]" using X by auto
  define mem5 where "mem5 = set_tags mem3 (r = []) ?m"
  define heap4 where "heap4 = (if r = [] then heap\<lparr>free_buckets := fb3, wilderness_chunk := of_nat (caddr b)\<rparr> else heap\<lparr>free_buckets := fb3\<rparr>)"
  have eqs: "?ns = cend (last [b, c, d]) - caddr (hd [b, c, d]) - 16"
    "heap4 = (if r = [] then heap\<lparr>free_buckets := fb2\<rparr>\<lparr>free_buckets := fb3\<rparr>\<lparr>wilderness_chunk := of_nat (caddr (hd [b, c, d]))\<rparr>
      else heap\<lparr>free_buckets := fb2\<rparr>\<lparr>free_buckets := fb3\<rparr>)"
    by (simp_all add: adj(1,2) heap4_def)
  obtain mem' fb' B' where add: "add_to_bucket_list mem5 heap4 (of_nat (caddr b)) = Inr (mem', heap4\<lparr>free_buckets := fb'\<rparr>)"
    and wf': "heap_wf mem' (heap4\<lparr>free_buckets := fb', number_of_chunks := number_of_chunks heap - 2\<rparr>) (l @ [?m] @ r) {} B'"
    and hf: "heap_frame ?cs mem3 mem'"
    and ns: "8 dvd ?ns" "16 \<le> ?ns" "?ns + 8 \<le> 18446744073709551616"
    by (rule merge_finish [OF wf3 _ X3 eqs(1) mem5_def eqs(2), where k = "number_of_chunks heap - 2", unfolded list.sel]) blast+
  have e: "caddr b + 8 + ?ns = caddr d + 8 + csize d" using adj(1,2) by simp
  have tags: "mem5 = mem3(of_nat (caddr b) := of_nat (?ns + fval True (r = [])), of_nat (caddr d + 8 + csize d) := of_nat ?ns)"
    unfolding mem5_def set_tags_def e [symmetric] using adj(1,2) by (simp add: joined_def add_ac)
  have hdr: "(if r = [] then set_heap_chunk_flag (set_heap_chunk_flag (mem3(of_nat (caddr b) := of_nat ?ns)) (of_nat (caddr b)) HEAP_FREE_CHUNK)
        (of_nat (caddr b)) HEAP_WILDERNESS_CHUNK
      else set_heap_chunk_flag (mem3(of_nat (caddr b) := of_nat ?ns)) (of_nat (caddr b)) HEAP_FREE_CHUNK) =
      mem3(of_nat (caddr b) := of_nat (?ns + fval True (r = [])))"
    by (simp add: write_header [OF ns(1)])
  have size: "8 * 2 + 8 * 2 + of_nat (csize c) + of_nat (csize d) + of_nat (csize b) = (of_nat ?ns :: u64)" by (simp add: of_nat_add)
  have prv: "get_prev_heap_chunk_header mem (of_nat (caddr c)) = of_nat (caddr b)"
    using heap_wf_chunk_facts(7) [OF wf in3(1)] by (simp only: adj(1))
  have "merge_with_next_and_prev_chunk mem heap (of_nat (caddr c)) =
      Inr (mem', heap4\<lparr>free_buckets := fb', number_of_chunks := number_of_chunks heap - 2\<rparr>)"
    unfolding merge_with_next_and_prev_chunk_def Let_def is_last_chunk_of_heap_def is_first_chunk_of_heap_def f adj(2) [symmetric] prv
    unfolding f adj(4) rm1 rm2 rm3 kbind_simps prod.case f3 size hdr header_written(3) [OF ns(1,3)] e Heap.select_convs Heap.update_convs
    using free adj(3,6) size_checks [OF ns] add by (simp add: tags [symmetric]) (cases "r = []"; simp add: heap4_def)
  then show ?thesis
    by (rule that [OF _ wf' heap_frame_trans [OF hf3 hf subset_refl]]) (simp_all add: same_region_def heap4_def)
qed

end
