(* ===== verification/Heap_Growth.thy ===== *)
theory Heap_Growth
  imports Heap_Ops
begin

text \<open>
  The remaining elementary steps of the heap on well-formed heaps: handing out a whole chunk,
  marking a chunk free before it is merged, growing the wilderness chunk, and the first chunk that
  \<open>initialize_heap\<close> makes of a fresh region.
\<close>

section \<open>Handing out and taking back a chunk\<close>

lemma header_upd_ok:
  fixes mem :: memory
  assumes "chunk_ok mem w c" and "cend c < 18446744073709551616"
  shows "chunk_ok (mem(of_nat (caddr c) := of_nat (csize c + fval fr w))) w (c\<lparr>cfree := fr\<rparr>)"
  using assms by (auto simp: chunk_ok_def of_nat_inj_u64)

lemma single_tiles:
  assumes "region_ok heap (l @ [c] @ r)"
  shows "tiles (caddr c) [c] (cend c)" and "tiles (caddr c) [c\<lparr>cfree := fr\<rparr>] (cend c)"
  using region_chunk [OF assms, of c] by simp_all

lemma wf_alloc:
  fixes heap :: "'h Heap"
  assumes wf: "heap_wf mem heap (l @ [c] @ r) {} B" and free: "cfree c" and r: "r \<noteq> []"
  obtains mem' heap' B' where
    "alloc_chunk mem heap (of_nat (caddr c)) = Inr (mem', heap')"
    and "heap_wf mem' heap' (l @ [c\<lparr>cfree := False\<rparr>] @ r) {} B'"
    and "heap_frame (l @ [c] @ r) mem mem'" and "same_region heap heap'"
    and "number_of_chunks heap' = number_of_chunks heap"
proof -
  let ?cs = "l @ [c] @ r" and ?c = "c\<lparr>cfree := False\<rparr>" and ?h = "of_nat (caddr c) :: u64"
  have c: "c \<in> set ?cs" by simp
  note reg = heap_wf_region [OF wf]
  have w: "\<not> c = last ?cs" using pair_last [OF reg, of c] r by simp
  have "detached mem {}" by (simp add: detached_def)
  then obtain mem1 fb1 B1 where rm: "remove_from_bucket_list mem heap ?h = Inr (mem1, heap\<lparr>free_buckets := fb1\<rparr>)"
    and wf1: "heap_wf mem1 (heap\<lparr>free_buckets := fb1\<rparr>) ?cs {caddr c} B1" and lf1: "links_frame ?cs mem mem1"
    by (rule wf_remove [OF wf _ c free])
  note rc = region_chunk [OF reg c]
  have ok1: "chunk_ok mem1 False c" using heap_wf_chunk_ok [OF wf1 c] w by simp
  define mem2 where "mem2 = mem1(?h := of_nat (csize c + fval False False))"
  have reset: "reset_heap_chunk_flag mem1 ?h HEAP_FREE_CHUNK = mem2"
    using ok1 header_set_flags(3) [OF rc(2)] by (simp add: reset_heap_chunk_flag_def mem2_def chunk_ok_def)
  have out: "mem2 (of_nat n) = mem1 (of_nat n)" if "n < 18446744073709551616" "n < caddr c \<or> cend c \<le> n" for n
    using that rc(3) by (auto simp: mem2_def of_nat_inj_u64)
  have wf2: "heap_wf mem2 (heap\<lparr>free_buckets := fb1\<rparr>) (l @ [?c] @ r) {} B1"
  proof (rule wf_replace [OF wf1 single_tiles [OF reg] _ _ _ out])
    show "chunk_ok mem2 (r = [] \<and> d = last [?c]) d" if "d \<in> set [?c]" for d
      using header_upd_ok [OF ok1 rc(3), of False] that r by (simp add: mem2_def)
    show "heap\<lparr>free_buckets := fb1\<rparr> = heap\<lparr>free_buckets := fb1\<rparr>\<lparr>wilderness_chunk := of_nat (caddr (last (l @ [?c] @ r)))\<rparr>"
      using heap_wf_region [OF wf1] r by (simp add: region_ok_def)
  qed (use r in auto)
  have "heap_frame ?cs mem1 mem2" using out free by (auto simp: heap_frame_def free_region_def)
  then have "heap_frame ?cs mem mem2"
    using heap_frame_trans [OF links_frame_heap_frame [OF reg lf1]] by blast
  moreover have "alloc_chunk mem heap ?h = Inr (mem2, heap\<lparr>free_buckets := fb1\<rparr>)"
    using w by (simp add: alloc_chunk_def heap_wf_chunk_facts(3) [OF wf c] rm reset)
  ultimately show ?thesis
    using wf2 by (intro that [of mem2 "heap\<lparr>free_buckets := fb1\<rparr>" B1]) (simp_all add: same_region_def)
qed

text \<open>The first steps of \<open>kfree\<close>: the chunk becomes free, with null links, but is in no list yet.\<close>

definition mark_free :: "memory \<Rightarrow> chunk \<Rightarrow> memory" where
  "mark_free mem c =
     mem(of_nat (caddr c) := of_nat (csize c + fval True False), of_nat (caddr c + 8) := 0, of_nat (caddr c + 16) := 0)"

lemma wf_mark_free:
  fixes heap :: "'h Heap"
  assumes wf: "heap_wf mem heap (l @ [c] @ r) {} B" and used: "\<not> cfree c" and r: "r \<noteq> []"
  shows "heap_wf (mark_free mem c) heap (l @ [c\<lparr>cfree := True\<rparr>] @ r) {caddr c} B"
    and "detached (mark_free mem c) {caddr c}"
    and "set_bucket_list_next (set_heap_chunk_flag mem (of_nat (caddr c)) HEAP_FREE_CHUNK) (of_nat (caddr c)) NULL =
           Inr (mem(of_nat (caddr c) := of_nat (csize c + fval True False), of_nat (caddr c + 8) := 0))"
    and "set_bucket_list_prev (mem(of_nat (caddr c) := of_nat (csize c + fval True False), of_nat (caddr c + 8) := 0))
           (of_nat (caddr c)) NULL = Inr (mark_free mem c)"
    and "heap_frame (l @ [c\<lparr>cfree := True\<rparr>] @ r) mem (mark_free mem c)"
proof -
  let ?cs = "l @ [c] @ r" and ?c = "c\<lparr>cfree := True\<rparr>" and ?h = "of_nat (caddr c) :: u64"
  have c: "c \<in> set ?cs" by simp
  note reg = heap_wf_region [OF wf] and ok = heap_wf_chunk_ok [OF wf c]
  have w: "\<not> c = last ?cs" using pair_last [OF reg, of c] r by simp
  note rc = region_chunk [OF reg c]
  let ?m1 = "mem(?h := of_nat (csize c + fval True False))"
  have flag: "set_heap_chunk_flag mem ?h HEAP_FREE_CHUNK = ?m1"
    using ok w header_set_flags(1) [OF rc(2), of "cfree c" False] by (simp add: set_heap_chunk_flag_def chunk_ok_def)
  have f1: "all_free ?m1 {caddr c}" "all_free (?m1(of_nat (caddr c + 8) := 0)) {caddr c}"
    using header_flags(1) [OF rc(2), of True False] rc(3)
    by (simp_all add: all_free_def get_heap_chunk_flag_def of_nat_inj_u64)
  show "set_bucket_list_next (set_heap_chunk_flag mem ?h HEAP_FREE_CHUNK) ?h NULL = Inr (?m1(of_nat (caddr c + 8) := 0))"
    unfolding flag by (rule bucket_link_simps(1) [OF f1(1)]) simp
  show "set_bucket_list_prev (?m1(of_nat (caddr c + 8) := 0)) ?h NULL = Inr (mark_free mem c)"
    using bucket_link_simps(2) [OF f1(2), of "caddr c" 0] by (simp add: mark_free_def)
  show "detached (mark_free mem c) {caddr c}" using rc(3) by (simp add: detached_def mark_free_def)
  have out: "mark_free mem c (of_nat n) = mem (of_nat n)" if "n < 18446744073709551616" "n < caddr c \<or> cend c \<le> n" for n
    using that rc(1,3) by (auto simp: mark_free_def of_nat_inj_u64)
  then show "heap_frame (l @ [?c] @ r) mem (mark_free mem c)" by (auto simp: heap_frame_def free_region_def)
  show "heap_wf (mark_free mem c) heap (l @ [?c] @ r) {caddr c} B"
  proof (rule wf_replace [OF wf single_tiles [OF reg] _ _ _ out])
    have "mark_free mem c (of_nat (caddr c + 8 + csize c)) = mem (of_nat (caddr c + 8 + csize c))"
      "mark_free mem c ?h = of_nat (csize c + fval True False)"
      using rc(1,3) by (simp_all add: mark_free_def of_nat_inj_u64)
    then show "chunk_ok (mark_free mem c) (r = [] \<and> d = last [?c]) d" if "d \<in> set [?c]" for d
      using ok that r by (simp add: chunk_ok_def)
    show "heap = heap\<lparr>wilderness_chunk := of_nat (caddr (last (l @ [?c] @ r)))\<rparr>"
      using reg r by (simp add: region_ok_def)
  qed (use r used in auto)
qed

section \<open>Growing the wilderness\<close>

lemma grown_layout:
  assumes wf: "heap_wf mem heap (l @ [c]) {} B" and t': "tiles s (l @ [c']) e" and c': "c' = c\<lparr>csize := n\<rparr>"
    and m: "mem' = set_tags mem True c'" and e: "e < 18446744073709551616" and n: "csize c \<le> n"
  shows "layout mem' (l @ [c'])" and "buckets_ok mem' (free_buckets heap) (l @ [c']) {} B"
proof -
  note reg = heap_wf_region [OF wf]
  have reg0: "region_ok heap (l @ [c] @ [])" using reg by simp
  have fc: "cfree c" using reg by (simp add: region_ok_def)
  have ce: "cend c' < 18446744073709551616" using tiles_bounds(2) [OF t', of c'] e by simp
  have before: "cend d \<le> caddr c" "cend d < 18446744073709551616" if "d \<in> set l" for d
    using run_bounds(3) [OF _ single_tiles(1) [OF reg0], of _ l "[]" _ d] that reg region_chunk(3) [OF reg, of d]
    by (auto simp: region_ok_def)
  have dl: "d \<noteq> c" "d \<noteq> c'" if "d \<in> set l" for d using before(1) [OF that] by (auto simp: c')
  have "chunk_ok mem' False d" if "d \<in> set l" for d
    using chunk_ok_set_tags_other [of mem False d c' True] heap_wf_chunk_ok [OF wf, of d] before [OF that] dl [OF that] ce that
    by (auto simp: m c')
  then show "layout mem' (l @ [c'])"
    using set_tags_ok [OF ce, of mem True] dl by (auto simp: layout_def m)
  have "bucket_set (l @ [c']) {} i = bucket_set (l @ [c]) {} i" for i
  proof -
    have "bucket_set (l @ [x]) {} i =
        caddr ` {d \<in> set l. cfree d \<and> bidx False (csize d) = i} \<union> (if cfree x \<and> i = 127 then {caddr x} else {})"
      if "x \<notin> set l" for x
    proof -
      have "{d \<in> set (l @ [x]). cfree d \<and> caddr d \<notin> {} \<and> bidx (d = last (l @ [x])) (csize d) = i} =
          {d \<in> set l. cfree d \<and> bidx False (csize d) = i} \<union> (if cfree x \<and> i = 127 then {x} else {})"
        using that by (auto simp: bidx_def)
      then show ?thesis by (simp only: bucket_set_def) auto
    qed
    moreover have "c \<notin> set l" "c' \<notin> set l" using dl by auto
    ultimately show ?thesis by (simp add: c')
  qed
  moreover have "dseg mem' 0 (B i) 0 = dseg mem 0 (B i) 0" if "i < 128" for i
  proof (rule dseg_cong)
    fix a assume "a \<in> links (set (B i))"
    moreover have "set (B i) \<subseteq> caddr ` set (l @ [c])"
      using wf that bucket_set_sub free_addrs_sub unfolding heap_wf_def buckets_ok_def by blast
    ultimately obtain d where d: "d \<in> set (l @ [c])" "a \<in> links {caddr d}" by (auto simp: links_def)
    have "caddr d < a" "a < caddr d + 8 + csize d" "16 \<le> csize d"
      using links_in_region [OF d(2)] region_chunk(1) [OF reg d(1)] d(2) by (auto simp: links_def)
    then have "a \<noteq> caddr c'" "a \<noteq> caddr c' + 8 + csize c'" "a < 18446744073709551616"
      using before [of d] d(1) n ce by (auto simp: c')
    then show "mem' (of_nat a) = mem (of_nat a)" using ce by (auto simp: m set_tags_def of_nat_inj_u64)
  qed
  ultimately show "buckets_ok mem' (free_buckets heap) (l @ [c']) {} B"
    using wf by (simp add: heap_wf_def buckets_ok_def)
qed

lemma wf_grow:
  fixes heap :: "'h Heap"
  assumes wf: "heap_wf mem heap (l @ [c]) {} B" and g: "4096 dvd unat g"
    and fits: "unat (heap_start heap) + unat (heap_size heap) + unat g < 18446744073709551616"
      "unat (heap_size heap) + unat g < 9223372036854775808"
    and w: "w = of_nat (caddr c)" and m1: "mem1 = mem(w := mem w + g)"
    and c': "c' = c\<lparr>csize := csize c + unat g\<rparr>"
  shows "get_heap_chunk_footer_from_header mem1 w + 8 = heap_start heap + (heap_size heap + g)"
    and "heap_wf (mem1(get_heap_chunk_footer_from_header mem1 w := mem1 w AND NOT 7))
           (heap\<lparr>heap_size := heap_size heap + g\<rparr>) (l @ [c']) {} B"
    and "heap_frame (l @ [c']) mem (mem1(get_heap_chunk_footer_from_header mem1 w := mem1 w AND NOT 7))"
proof -
  let ?s = "unat (heap_start heap)" and ?z = "unat (heap_size heap)" and ?n = "csize c + unat g"
  note reg = heap_wf_region [OF wf]
  have c: "c \<in> set (l @ [c])" by simp
  note rc = region_chunk [OF reg c]
  have tl: "tiles ?s (l @ [c]) (?s + ?z)" and fc: "cfree c" using reg by (simp_all add: region_ok_def)
  then have e: "cend c = ?s + ?z" and tl': "tiles ?s (l @ [c']) (?s + ?z + unat g)"
    using g by (auto simp: tiles_append c' dvd_add dvd_trans [of 8 4096])
  have hs: "unat (heap_size heap + g) = ?z + unat g" using fits by (simp add: unat_add_u64)
  have nb: "8 dvd ?n" "?n + 8 \<le> 18446744073709551616"
    using rc(2) g fits(1) e by (auto intro!: dvd_add intro: dvd_trans [of 8 4096])
  have "mem w = of_nat (csize c + fval True True)" using heap_wf_chunk_ok [OF wf c] fc by (simp add: chunk_ok_def w)
  then have "mem w + g = of_nat (?n + fval True True)" by (simp add: of_nat_add)
  then have m1': "mem1 = mem(of_nat (caddr c) := of_nat (?n + fval True True))" by (simp add: m1 w)
  have ft: "get_heap_chunk_footer_from_header mem1 w = of_nat (caddr c + 8 + ?n)"
    by (simp add: m1' w header_written(3) [OF nb])
  have "heap_start heap + (heap_size heap + g) = of_nat (?s + (?z + unat g))" by (simp add: of_nat_add)
  also have "?s + (?z + unat g) = caddr c + 8 + ?n + 8" using e by linarith
  finally show "get_heap_chunk_footer_from_header mem1 w + 8 = heap_start heap + (heap_size heap + g)"
    by (simp add: ft of_nat_add)
  have m2: "mem1(get_heap_chunk_footer_from_header mem1 w := mem1 w AND NOT 7) = set_tags mem True c'"
    using header_size_word [OF nb, of True True] fc unfolding ft by (simp add: m1' w set_tags_def c')
  note gl = grown_layout [OF wf tl' c' refl _ le_add1]
  have "region_ok (heap\<lparr>heap_size := heap_size heap + g\<rparr>) (l @ [c'])"
    using reg tl' fits by (simp add: region_ok_def hs add.assoc) (simp add: c')
  then show "heap_wf (mem1(get_heap_chunk_footer_from_header mem1 w := mem1 w AND NOT 7))
       (heap\<lparr>heap_size := heap_size heap + g\<rparr>) (l @ [c']) {} B"
    unfolding m2 using gl fits(1) by (simp add: heap_wf_def)
  have "cend c' < 18446744073709551616" using fits(1) e by (simp add: c')
  then show "heap_frame (l @ [c']) mem (mem1(get_heap_chunk_footer_from_header mem1 w := mem1 w AND NOT 7))"
    unfolding m2 using fc by (auto simp: heap_frame_def free_region_def c' set_tags_other)
qed

section \<open>The first chunk\<close>

lemma wf_initialize:
  fixes s :: "('h, 'v) heap_state"
  assumes start: "start = get_vmem_addr (vmem s) vm" "0 < unat start" "8 dvd unat start"
    and sz: "sz = get_vmem_size (vmem s) vm" "8 dvd unat sz" "128 < unat sz"
    and fits: "unat start + unat sz < 18446744073709551616" "unat sz < 9223372036854775808"
    and c: "c = \<lparr>caddr = unat start, csize = unat sz - 16, cfree = True\<rparr>"
  obtains mem' heap' B where
    "initialize_heap get_vmem_addr get_vmem_size vm s = Inr (s\<lparr>hmem := mem', kheap := heap'\<rparr>)"
    and "heap_wf mem' heap' [c] {} B" and "heap_frame [c] (hmem s) mem'"
    and "number_of_chunks heap' = 1" and "heap_start heap' = start" and "heap_size heap' = sz"
    and "heap_vmem heap' = vm" and "\<not> enable_growth heap'"
proof -
  define heap0 where "heap0 = \<lparr>heap_vmem = vm, enable_growth = False, heap_start = start, heap_size = sz,
    number_of_chunks = 1, wilderness_chunk = start, free_buckets = replicate 128 (0 :: u64)\<rparr>"
  define mem4 where "mem4 = set_tags (hmem s) True c"
  have n: "csize c = unat sz - 16" "8 dvd csize c" "16 \<le> csize c" "csize c + 8 \<le> 18446744073709551616" "cend c < 18446744073709551616"
    using sz fits by (auto simp: c intro!: dvd_diff_nat)
  have a: "of_nat (caddr c) = start" by (simp add: c)
  have us: "sz - 8 - 8 = of_nat (csize c)"
  proof -
    have "of_nat (unat sz) = (of_nat (csize c + 16) :: u64)" using sz(3) n(1) by simp
    then have "sz = of_nat (csize c) + 16" by (simp add: of_nat_add)
    then show ?thesis by simp
  qed
  have wf0: "heap_wf mem4 heap0 [c] {caddr c} (\<lambda>_. [])"
  proof -
    have "region_ok heap0 [c]" using start(2,3) sz(3) fits n by (simp add: region_ok_def heap0_def c)
    moreover have "layout mem4 [c]" using set_tags_ok [OF n(5)] by (simp add: layout_def mem4_def)
    moreover have "buckets_ok mem4 (free_buckets heap0) [c] {caddr c} (\<lambda>_. [])"
      by (simp add: buckets_ok_def heap0_def bucket_set_def)
    ultimately show ?thesis by (simp add: heap_wf_def c)
  qed
  obtain mem' fb' B' where add: "add_to_bucket_list mem4 heap0 (of_nat (caddr c)) = Inr (mem', heap0\<lparr>free_buckets := fb'\<rparr>)"
    and wf': "heap_wf mem' (heap0\<lparr>free_buckets := fb'\<rparr>) [c] ({caddr c} - {caddr c}) B'" and lf: "links_frame [c] mem4 mem'"
    by (rule wf_add [OF wf0, of c]) auto
  have checks: "sz > 128" "start mod 8 = 0" "sz mod 8 = 0"
  proof -
    have m: "x mod 8 = 0 \<longleftrightarrow> 8 dvd unat x" for x :: u64
      by (simp add: word_unat_eq_iff unat_mod_distrib dvd_eq_mod_eq_0)
    show "sz > 128" "start mod 8 = 0" "sz mod 8 = 0" using sz start by (simp_all add: word_less_nat_alt m)
  qed
  have hdr: "set_heap_chunk_flag (set_heap_chunk_flag ((hmem s)(start := of_nat (csize c))) start HEAP_WILDERNESS_CHUNK) start HEAP_FREE_CHUNK
      = (hmem s)(start := of_nat (csize c + fval True True))"
    using write_header(3,4) [OF n(2), of "hmem s" "caddr c"] unfolding a by simp
  have ft: "get_heap_chunk_footer_from_header ((hmem s)(start := of_nat (csize c + fval True True))) start = of_nat (caddr c + 8 + csize c)"
    using header_written(3) [OF n(2,4), of "hmem s" "caddr c" True True] unfolding a .
  have "initialize_heap get_vmem_addr get_vmem_size vm s = Inr (s\<lparr>hmem := mem', kheap := heap0\<lparr>free_buckets := fb'\<rparr>\<rparr>)"
    unfolding initialize_heap_def Let_def start(1) [symmetric] sz(1) [symmetric] us hdr ft heap0_def [symmetric]
    using checks add by (simp add: mem4_def set_tags_def a) (simp add: c)
  moreover have "heap_frame [c] (hmem s) mem4"
    using n(5) by (auto simp: heap_frame_def free_region_def mem4_def set_tags_other c)
  then have "heap_frame [c] (hmem s) mem'"
    by (rule heap_frame_trans [OF _ links_frame_heap_frame [OF heap_wf_region [OF wf0] lf] subset_refl])
  ultimately show ?thesis
    using wf' by (intro that [of "heap0\<lparr>free_buckets := fb'\<rparr>" mem' B']) (simp_all add: heap0_def)
qed

end
