(* ===== verification/Heap_Alloc.thy ===== *)
theory Heap_Alloc
  imports Heap_Growth
begin

text \<open>
  \<open>kmalloc\<close> and \<open>kfree\<close> on well-formed heaps. The heap invariant \<open>heap_inv\<close> adds to well-formedness
  that no two free chunks are neighbours and that the chunk counter is right; \<open>used\<close> is the set of
  blocks that callers hold, the abstract state of the allocator.
\<close>

section \<open>Invariant and abstract state\<close>

definition coalesced :: "chunk list \<Rightarrow> bool" where
  "coalesced cs = successively (\<lambda>c d. \<not> (cfree c \<and> cfree d)) cs"

definition heap_inv :: "('h, 'v) heap_state \<Rightarrow> chunk list \<Rightarrow> bool" where
  "heap_inv s cs \<longleftrightarrow>
     (\<exists>B. heap_wf (hmem s) (kheap s) cs {} B) \<and> coalesced cs \<and> number_of_chunks (kheap s) = of_nat (length cs)"

text \<open>The blocks in use, as pairs of user address and size.\<close>

definition used :: "chunk list \<Rightarrow> (nat \<times> nat) set" where
  "used cs = (\<lambda>c. (caddr c + 8, csize c)) ` {c \<in> set cs. \<not> cfree c}"

lemma used_append [simp]: "used (xs @ ys) = used xs \<union> used ys"
  by (auto simp: used_def)

lemma used_Cons [simp]: "used (c # cs) = (if cfree c then used cs else insert (caddr c + 8, csize c) (used cs))"
  by (auto simp: used_def)

lemma used_Nil [simp]: "used [] = {}"
  by (simp add: used_def)

text \<open>The user data of the blocks in \<open>U\<close> is the same in both memories.\<close>

definition keeps_data :: "(nat \<times> nat) set \<Rightarrow> memory \<Rightarrow> memory \<Rightarrow> bool" where
  "keeps_data U mem mem' \<longleftrightarrow>
     (\<forall>(p, k) \<in> U. \<forall>n. p \<le> n \<and> n < p + k \<longrightarrow> mem' (of_nat n) = mem (of_nat n))"

lemma frame_keeps_data:
  assumes reg: "region_ok heap cs" and fr: "heap_frame cs mem mem'"
  shows "keeps_data (used cs) mem mem'"
proof -
  have "mem' (of_nat n) = mem (of_nat n)" if c: "c \<in> set cs" "\<not> cfree c" and n: "caddr c + 8 \<le> n" "n < caddr c + 8 + csize c" for c n
  proof -
    have "cend c \<le> caddr d \<or> cend d \<le> caddr c" if "d \<in> set cs" "cfree d" for d
      using tiles_apart [OF _ c(1) that(1)] reg c(2) that(2) by (auto simp: region_ok_def)
    then have "n \<notin> free_region cs" using n by (fastforce simp: free_region_def)
    moreover have "n < 18446744073709551616" using region_chunk(3) [OF reg c(1)] n by simp
    ultimately show ?thesis using fr by (simp add: heap_frame_def)
  qed
  then show ?thesis by (auto simp: keeps_data_def used_def)
qed

lemma keeps_data_trans: "keeps_data U m1 m2 \<Longrightarrow> keeps_data U m2 m3 \<Longrightarrow> keeps_data U m1 m3"
  by (fastforce simp: keeps_data_def)

lemma keeps_data_mono: "keeps_data V m1 m2 \<Longrightarrow> U \<subseteq> V \<Longrightarrow> keeps_data U m1 m2"
  by (auto simp: keeps_data_def)

lemma coalesced_append:
  "coalesced (xs @ ys) \<longleftrightarrow> coalesced xs \<and> coalesced ys \<and> (xs = [] \<or> ys = [] \<or> \<not> (cfree (last xs) \<and> cfree (hd ys)))"
  by (auto simp: coalesced_def successively_append_iff)

lemma coalesced_head: "cfree d = cfree c \<Longrightarrow> coalesced (d # cs) = coalesced (c # cs)"
  by (cases cs) (simp_all add: coalesced_def)

lemma coalesced_simps [simp]:
  "coalesced []" "coalesced [c]" "coalesced (c # d # cs) \<longleftrightarrow> \<not> (cfree c \<and> cfree d) \<and> coalesced (d # cs)"
  by (simp_all add: coalesced_def)

section \<open>The search\<close>

definition fit :: "memory \<Rightarrow> u64 \<Rightarrow> nat \<Rightarrow> bool" where
  "fit mem sz x \<longleftrightarrow> get_fixed_heap_chunk_size mem (of_nat x) = sz \<or> get_fixed_heap_chunk_size mem (of_nat x) \<ge> 32"

lemma search_bucket_list:
  assumes "length xs \<le> n" and "dseg mem p xs 0" and "all_free mem (set xs)" and "spaced (set xs)"
  shows "search_bucket n mem sz (hd0 0 xs) =
    Inr (case find (fit mem sz) xs of None \<Rightarrow> 0 | Some x \<Rightarrow> of_nat x)"
  using assms
proof (induction xs arbitrary: n p)
  case Nil
  then show ?case by (simp add: search_bucket.simps)
next
  case (Cons x xs)
  then obtain k where n: "n = Suc k" by (cases n) auto
  have x: "(of_nat x :: u64) \<noteq> 0" using spaced_bound [OF Cons.prems(4), of x] of_nat_0_u64 [of x] by auto
  have nxt: "get_bucket_list_next mem (of_nat x) = Inr (hd0 0 xs)"
    using bucket_link_simps(3) [OF Cons.prems(3), of x] Cons.prems(2) by simp
  have IH: "search_bucket k mem sz (hd0 0 xs) = Inr (case find (fit mem sz) xs of None \<Rightarrow> 0 | Some x \<Rightarrow> of_nat x)"
    using Cons.prems n by (intro Cons.IH [of _ "of_nat x"]) (auto simp: all_free_def intro: spaced_subset)
  show ?case
    using x nxt IH by (subst search_bucket.simps) (simp add: n Let_def fit_def [of mem sz x])
qed

lemma bucket_length:
  fixes xs :: "nat list"
  assumes "distinct xs" and "\<And>x. x \<in> set xs \<Longrightarrow> 8 dvd x \<and> x < 18446744073709551616"
  shows "length xs \<le> 2305843009213693952"
proof -
  have "set xs \<subseteq> (\<lambda>k. 8 * k) ` {..< 2305843009213693952}"
    using assms(2) by (fastforce elim!: dvdE)
  then have "card (set xs) \<le> card ((\<lambda>k. 8 * k) ` {..< 2305843009213693952 :: nat})"
    by (intro card_mono) auto
  also have "\<dots> \<le> 2305843009213693952" using card_image_le [of "{..< 2305843009213693952 :: nat}" "\<lambda>k. 8 * k"] by simp
  finally show ?thesis using distinct_card [OF assms(1)] by simp
qed

text \<open>A free chunk that the search accepts for a request of \<open>n\<close> bytes.\<close>

definition candidate :: "chunk list \<Rightarrow> nat \<Rightarrow> nat \<Rightarrow> chunk \<Rightarrow> bool" where
  "candidate cs i n c \<longleftrightarrow>
     c \<in> set cs \<and> cfree c \<and> i \<le> bidx (c = last cs) (csize c) \<and> (csize c = n \<or> 32 \<le> csize c)"

lemma bucket_search:
  assumes wf: "heap_wf mem heap cs {} B" and i: "i < 128" and sz: "n < 18446744073709551616"
  obtains "search_bucket (2 ^ 61) mem (of_nat n) (free_buckets heap ! i) = Inr 0"
      "\<And>c. c \<in> set cs \<Longrightarrow> cfree c \<Longrightarrow> bidx (c = last cs) (csize c) = i \<Longrightarrow> \<not> (csize c = n \<or> 32 \<le> csize c)"
    | c where "search_bucket (2 ^ 61) mem (of_nat n) (free_buckets heap ! i) = Inr (of_nat (caddr c))"
      "candidate cs i n c" "of_nat (caddr c) \<noteq> (0 :: u64)" "bidx (c = last cs) (csize c) = i"
proof -
  note reg = heap_wf_region [OF wf]
  have Bi: "free_buckets heap ! i = hd0 0 (B i)" "dseg mem 0 (B i) 0" "distinct (B i)" "set (B i) = bucket_set cs {} i"
    using wf i by (simp_all add: heap_wf_def buckets_ok_def)
  have sub: "set (B i) \<subseteq> free_addrs cs" using Bi(4) bucket_set_sub by simp
  have sp: "spaced (set (B i))" by (rule spaced_subset [OF region_spaced [OF reg]]) (use sub free_addrs_sub in blast)
  have "length (B i) \<le> 2 ^ 61"
    using bucket_length [OF Bi(3)] sub region_chunk(3,5) [OF reg] by (force simp: free_addrs_def)
  note se = search_bucket_list [OF this Bi(2) all_free_addrs [OF wf sub] sp, of "of_nat n", folded Bi(1)]
  have fit: "fit mem (of_nat n) (caddr c) \<longleftrightarrow> csize c = n \<or> 32 \<le> csize c" if "c \<in> set cs" for c
  proof -
    have "csize c < 18446744073709551616" using region_chunk(3) [OF reg that] by simp
    then show ?thesis
      using sz heap_wf_chunk_facts(1) [OF wf that]
      by (simp add: fit_def of_nat_inj_u64 word_le_nat_alt unat_of_nat_u64 del: unat_of_nat)
  qed
  show ?thesis
  proof (cases "find (fit mem (of_nat n)) (B i)")
    case None
    then have "\<not> fit mem (of_nat n) x" if "x \<in> set (B i)" for x using that by (auto simp: find_None_iff)
    then have "\<not> (csize c = n \<or> 32 \<le> csize c)" if "c \<in> set cs" "cfree c" "bidx (c = last cs) (csize c) = i" for c
      using that fit Bi(4) by (auto simp: bucket_set_def)
    moreover have "search_bucket (2 ^ 61) mem (of_nat n) (free_buckets heap ! i) = Inr 0" using se None by simp
    ultimately show ?thesis using that(1) by blast
  next
    case (Some x)
    then have "x \<in> set (B i)" "fit mem (of_nat n) x" by (auto simp: find_Some_iff)
    then obtain c where c: "c \<in> set cs" "cfree c" "bidx (c = last cs) (csize c) = i" "x = caddr c" "csize c = n \<or> 32 \<le> csize c"
      using Bi(4) fit by (auto simp: bucket_set_def)
    then have "of_nat (caddr c) \<noteq> (0 :: u64)" using region_chunk(3,4) [OF reg c(1)] of_nat_0_u64 [of "caddr c"] by auto
    then show ?thesis using se Some c by (intro that(2) [of c]) (auto simp: candidate_def)
  qed
qed

lemma heap_search:
  assumes wf: "heap_wf mem heap cs {} B" and sz: "n < 18446744073709551616"
  shows "i \<le> 128 \<Longrightarrow>
    (search_buckets mem heap (of_nat n) (int i) = Inr 0 \<and> (\<forall>c. \<not> candidate cs i n c)) \<or>
    (\<exists>c. search_buckets mem heap (of_nat n) (int i) = Inr (of_nat (caddr c)) \<and> candidate cs i n c \<and> of_nat (caddr c) \<noteq> (0 :: u64) \<and>
      (\<forall>d. candidate cs i n d \<longrightarrow> bidx (c = last cs) (csize c) \<le> bidx (d = last cs) (csize d)))"
proof (induction "128 - i" arbitrary: i)
  case 0
  have "\<not> candidate cs 128 n c" for c
  proof
    assume c: "candidate cs 128 n c"
    then have "c \<in> set cs" by (simp add: candidate_def)
    note rc = region_chunk [OF heap_wf_region [OF wf] this]
    have "bidx (c = last cs) (csize c) < 128" using rc by (intro bidx_range) simp_all
    then show False using c by (simp add: candidate_def)
  qed
  moreover have "i = 128" using 0 by simp
  ultimately show ?case by (simp add: search_buckets.simps)
next
  case (Suc k)
  then have i: "i < 128" by simp
  have step: "search_buckets mem heap (of_nat n) (int i) =
      kbind (search_bucket (2 ^ 61) mem (of_nat n) (free_buckets heap ! i)) (\<lambda>found_chunk.
        if found_chunk \<noteq> 0 then Inr found_chunk else search_buckets mem heap (of_nat n) (int i + 1))"
    using i by (subst search_buckets.simps) (simp add: read_bucket_def)
  show ?case
  proof (rule bucket_search [OF wf i sz])
    assume none: "search_bucket (2 ^ 61) mem (of_nat n) (free_buckets heap ! i) = Inr 0"
      and no: "\<And>c. c \<in> set cs \<Longrightarrow> cfree c \<Longrightarrow> bidx (c = last cs) (csize c) = i \<Longrightarrow> \<not> (csize c = n \<or> 32 \<le> csize c)"
    have "candidate cs (Suc i) n c = candidate cs i n c" for c
      using no [of c] by (auto simp: candidate_def Suc_le_eq order.order_iff_strict)
    then show ?thesis using Suc.hyps(1) [of "Suc i"] Suc.hyps(2) i unfolding step none kbind_simps by (auto simp: add.commute)
  next
    fix c assume "search_bucket (2 ^ 61) mem (of_nat n) (free_buckets heap ! i) = Inr (of_nat (caddr c))"
      "candidate cs i n c" "of_nat (caddr c) \<noteq> (0 :: u64)" "bidx (c = last cs) (csize c) = i"
    then show ?thesis unfolding step by (auto simp: candidate_def)
  qed
qed

section \<open>Requests\<close>

definition rnd :: "nat \<Rightarrow> nat" where
  "rnd k = (max 16 k + 7) div 8 * 8"

lemma rnd_facts: "8 dvd rnd k" "16 \<le> rnd k" "k \<le> rnd k" "k \<le> 4611686018427387904 \<Longrightarrow> rnd k \<le> 4611686018427387904"
  by (auto simp: rnd_def max_def)

lemma pad8: "(if k mod 8 \<noteq> 0 then k + (8 - k mod 8) else k) = (k + 7) div 8 * (8 :: nat)"
  by presburger

lemma unat_round_request:
  assumes "unat sz \<le> 4611686018427387904"
  shows "round_request sz = of_nat (rnd (unat sz))"
proof -
  define k where "k = max 16 (unat sz)"
  have k: "k \<le> 4611686018427387904" using assms by (simp add: k_def)
  have s1: "(if sz < 16 then 16 else sz) = of_nat k"
    by (simp add: k_def max_def word_less_nat_alt)
  have uk: "unat (of_nat k :: u64) = k" using k by (intro unat_of_nat_u64) simp
  have m: "(of_nat k :: u64) mod 8 = of_nat (k mod 8)" by (simp add: word_unat_eq_iff unat_mod_distrib uk unat_of_nat_u64 del: unat_of_nat)
  have z: "(of_nat (k mod 8) :: u64) = 0 \<longleftrightarrow> k mod 8 = 0" by (rule of_nat_0_u64) simp
  have "of_nat k + (8 - of_nat (k mod 8)) = (of_nat (k + (8 - k mod 8)) :: u64)"
    by (simp add: of_nat_add of_nat_diff)
  then have "round_request sz = of_nat (if k mod 8 \<noteq> 0 then k + (8 - k mod 8) else k)"
    unfolding round_request_def Let_def s1 m z by simp
  also have "(if k mod 8 \<noteq> 0 then k + (8 - k mod 8) else k) = rnd (unat sz)"
    unfolding rnd_def k_def [symmetric] by (rule pad8)
  finally show ?thesis .
qed

text \<open>The effect of serving a request of \<open>n\<close> bytes from the free chunk \<open>c\<close>.\<close>

definition served :: "chunk list \<Rightarrow> nat \<Rightarrow> chunk \<Rightarrow> chunk list \<Rightarrow> bool" where
  "served cs n c cs' \<longleftrightarrow> (\<exists>l r. cs = l @ [c] @ r \<and> cfree c \<and>
     (csize c = n \<and> r \<noteq> [] \<and> cs' = l @ [c\<lparr>cfree := False\<rparr>] @ r \<or>
      n + 32 \<le> csize c \<and> cs' = l @ [first_part n c, second_part n c] @ r))"

lemma served_facts:
  assumes "served cs n c cs'"
  shows "used cs' = insert (caddr c + 8, n) (used cs)" and "coalesced cs \<Longrightarrow> coalesced cs'"
  using assms coalesced_head [of "second_part n c" c]
  by (auto simp: served_def coalesced_append neq_Nil_conv)

text \<open>Blocks never overlap.\<close>

definition blocks_apart :: "(nat \<times> nat) set \<Rightarrow> bool" where
  "blocks_apart U \<longleftrightarrow> (\<forall>(p, k) \<in> U. \<forall>(q, m) \<in> U. (p, k) \<noteq> (q, m) \<longrightarrow> p + k \<le> q \<or> q + m \<le> p)"

lemma heap_wf_blocks_apart: "heap_wf mem heap cs X B \<Longrightarrow> blocks_apart (used cs)"
  using tiles_apart by (fastforce simp: blocks_apart_def used_def heap_wf_def region_ok_def)

lemma served_fresh:
  assumes "heap_wf mem heap cs X B" and "served cs n c cs'"
  shows "(caddr c + 8, k) \<notin> used cs"
proof
  assume "(caddr c + 8, k) \<in> used cs"
  then obtain d where d: "d \<in> set cs" "\<not> cfree d" "caddr d = caddr c" by (auto simp: used_def)
  moreover have "c \<in> set cs" "cfree c" using assms(2) by (auto simp: served_def)
  ultimately show False using region_caddr_eq [OF heap_wf_region [OF assms(1)]] by metis
qed

section \<open>Serving a request\<close>

text \<open>What an allocation step guarantees about the new heap.\<close>

definition serve_post :: "memory \<Rightarrow> 'h Heap \<Rightarrow> chunk list \<Rightarrow> nat \<Rightarrow> chunk \<Rightarrow> memory \<Rightarrow> 'h Heap \<Rightarrow> chunk list \<Rightarrow> bool" where
  "serve_post mem heap cs n c mem' heap' cs' \<longleftrightarrow>
     (\<exists>B'. heap_wf mem' heap' cs' {} B') \<and> served cs n c cs' \<and> heap_frame cs mem mem' \<and> same_region heap heap' \<and>
     (number_of_chunks heap = of_nat (length cs) \<longrightarrow> number_of_chunks heap' = of_nat (length cs'))"

lemma split_served:
  fixes heap :: "'h Heap"
  assumes wf: "heap_wf mem heap cs {} B" and c: "c \<in> set cs" "cfree c"
    and n: "8 dvd n" "16 \<le> n" "n \<le> 4611686018427387904" "n + 32 \<le> csize c"
  obtains mem' heap' cs' where "split_chunk_and_alloc mem heap (of_nat (caddr c)) (of_nat n) = Inr (True, mem', heap')"
    and "serve_post mem heap cs n c mem' heap' cs'"
proof -
  obtain l r where cs: "cs = l @ [c] @ r" using c(1) by (auto simp: in_set_conv_decomp)
  obtain mem' heap' B' where *: "split_chunk_and_alloc mem heap (of_nat (caddr c)) (of_nat n) = Inr (True, mem', heap')"
    "heap_wf mem' heap' (l @ [first_part n c, second_part n c] @ r) {} B'" "heap_frame (l @ [c] @ r) mem mem'"
    "same_region heap heap'" "number_of_chunks heap' = number_of_chunks heap + 1"
    by (rule split_done [OF wf [unfolded cs] c(2) n])
  moreover have "served cs n c (l @ [first_part n c, second_part n c] @ r)"
    using c(2) n(4) unfolding served_def cs by blast
  ultimately show ?thesis
    by (intro that [of mem' heap' "l @ [first_part n c, second_part n c] @ r"])
      (auto simp: serve_post_def cs of_nat_add)
qed

lemma alloc_served:
  fixes heap :: "'h Heap"
  assumes wf: "heap_wf mem heap cs {} B" and c: "c \<in> set cs" "cfree c" "c \<noteq> last cs"
  obtains mem' heap' cs' where "alloc_chunk mem heap (of_nat (caddr c)) = Inr (mem', heap')"
    and "serve_post mem heap cs (csize c) c mem' heap' cs'"
proof -
  obtain l r where cs: "cs = l @ [c] @ r" using c(1) by (auto simp: in_set_conv_decomp)
  then have r: "r \<noteq> []" using c(3) by auto
  obtain mem' heap' B' where *: "alloc_chunk mem heap (of_nat (caddr c)) = Inr (mem', heap')"
    "heap_wf mem' heap' (l @ [c\<lparr>cfree := False\<rparr>] @ r) {} B'" "heap_frame (l @ [c] @ r) mem mem'"
    "same_region heap heap'" "number_of_chunks heap' = number_of_chunks heap"
    by (rule wf_alloc [OF wf [unfolded cs] c(2) r])
  moreover have "served cs (csize c) c (l @ [c\<lparr>cfree := False\<rparr>] @ r)"
    using c(2) r unfolding served_def cs by blast
  ultimately show ?thesis
    by (intro that [of mem' heap' "l @ [c\<lparr>cfree := False\<rparr>] @ r"]) (auto simp: serve_post_def cs)
qed

text \<open>
  The requests that the search serves correctly: no free chunk that it accepts is too small to be
  split.
\<close>

definition servable :: "chunk list \<Rightarrow> nat \<Rightarrow> bool" where
  "servable cs n \<longleftrightarrow> (\<forall>c \<in> set cs. c \<noteq> last cs \<and> cfree c \<and> bidx False n \<le> bidx False (csize c) \<and>
     32 \<le> csize c \<and> csize c \<noteq> n \<longrightarrow> n + 32 \<le> csize c)"

lemma serve_chunk_served:
  fixes s :: "('h, 'v) heap_state"
  assumes wf: "heap_wf (hmem s) (kheap s) cs {} B" and c: "candidate cs (bidx False n) n c" "c \<noteq> last cs"
    and n: "8 dvd n" "16 \<le> n" "n \<le> 4611686018427387904" and sv: "servable cs n"
  obtains mem' heap' cs' where "serve_chunk (of_nat n) (of_nat (caddr c)) s = Inr (s\<lparr>hmem := mem', kheap := heap'\<rparr>)"
    and "serve_post (hmem s) (kheap s) cs n c mem' heap' cs'"
proof -
  have cc: "c \<in> set cs" "cfree c" "csize c = n \<or> 32 \<le> csize c" "bidx False n \<le> bidx False (csize c)"
    using c by (simp_all add: candidate_def)
  have b: "csize c < 18446744073709551616" "n < 18446744073709551616"
    using region_chunk(3) [OF heap_wf_region [OF wf] cc(1)] n(3) by simp_all
  note f = heap_wf_chunk_facts(1) [OF wf cc(1)]
  show ?thesis
  proof (cases "csize c = n")
    case True
    obtain mem' heap' cs' where "alloc_chunk (hmem s) (kheap s) (of_nat (caddr c)) = Inr (mem', heap')"
      "serve_post (hmem s) (kheap s) cs n c mem' heap' cs'"
      by (rule alloc_served [OF wf cc(1,2) c(2)]) (use True in auto)
    then show ?thesis using True by (intro that) (simp_all add: serve_chunk_def f)
  next
    case False
    then have big: "n + 32 \<le> csize c" "32 \<le> csize c" using sv cc c(2) by (auto simp: servable_def)
    obtain mem' heap' cs' where "split_chunk_and_alloc (hmem s) (kheap s) (of_nat (caddr c)) (of_nat n) = Inr (True, mem', heap')"
      "serve_post (hmem s) (kheap s) cs n c mem' heap' cs'"
      by (rule split_served [OF wf cc(1,2) n big(1)])
    moreover have "(32 :: u64) \<le> of_nat (csize c)"
      using big(2) b(1) by (simp add: word_le_nat_alt unat_of_nat_u64 del: unat_of_nat)
    ultimately show ?thesis
      using False b by (intro that) (simp_all add: serve_chunk_def f of_nat_inj_u64)
  qed
qed

text \<open>The chunk that \<open>kmalloc\<close> settles on, and the flag that decides how it is served.\<close>

lemma kmalloc_found:
  fixes s :: "('h, 'v) heap_state"
  assumes wf: "heap_wf (hmem s) (kheap s) cs {} B" and lock: "\<not> kheap_lock s"
    and sz: "unat size0 \<le> 4611686018427387904" and n: "n = rnd (unat size0)"
  obtains c where "candidate cs (bidx False n) n c \<or> c = last cs" and "c \<in> set cs" and "cfree c"
    and "kmalloc expand size0 s =
      kbind (if c \<noteq> last cs then serve_chunk (of_nat n) (of_nat (caddr c)) (s\<lparr>kheap_lock := True\<rparr>)
             else serve_wilderness expand (of_nat n) (of_nat (caddr c)) (s\<lparr>kheap_lock := True\<rparr>))
        (\<lambda>s1. Inr (of_nat (caddr c + 8), s1\<lparr>kheap_lock := False\<rparr>))"
    and "\<And>d. candidate cs (bidx False n) n d \<Longrightarrow> bidx (c = last cs) (csize c) \<le> bidx (d = last cs) (csize d)"
proof -
  note rf = rnd_facts [of "unat size0", folded n]
  have nb: "n < 18446744073709551616" "n \<le> 4611686018427387904" using rf(4) sz by simp_all
  have un: "unat (of_nat n :: u64) = n" by (rule unat_of_nat_u64 [OF nb(1)])
  have idx: "get_bucket_index_from_size (of_nat n) = int (bidx False n)"
    using bucket_index_range(1) [of "of_nat n"] rf(2) un by (simp add: bidx_def del: unat_of_nat)
  have i: "bidx False n \<le> 128" using bidx_range [OF rf(2) nb(1), of False] by simp
  have reg: "region_ok (kheap s) cs" by (rule heap_wf_region [OF wf])
  have lastf: "last cs \<in> set cs" "cfree (last cs)" "wilderness_chunk (kheap s) = of_nat (caddr (last cs))"
    using reg by (simp_all add: region_ok_def)
  have lnz: "of_nat (caddr (last cs)) \<noteq> (0 :: u64)"
    using region_chunk(3,4) [OF reg lastf(1)] of_nat_0_u64 [of "caddr (last cs)"] by auto
  have km: "kmalloc expand size0 s =
      kbind (if c \<noteq> last cs then serve_chunk (of_nat n) (of_nat (caddr c)) (s\<lparr>kheap_lock := True\<rparr>)
             else serve_wilderness expand (of_nat n) (of_nat (caddr c)) (s\<lparr>kheap_lock := True\<rparr>))
        (\<lambda>s1. Inr (of_nat (caddr c + 8), s1\<lparr>kheap_lock := False\<rparr>))"
    if "search_buckets (hmem s) (kheap s) (of_nat n) (int (bidx False n)) = Inr f"
      "c \<in> set cs" "of_nat (caddr c) = (if f = 0 then wilderness_chunk (kheap s) else f)" for f c
  proof -
    have "(if f = 0 then wilderness_chunk (kheap (s\<lparr>kheap_lock := True\<rparr>)) else f) = of_nat (caddr c)"
      using that(3) by simp
    then show ?thesis
      using lock that(1,2) heap_wf_chunk_facts(3) [OF wf that(2)]
      by (simp add: kmalloc_def Let_def unat_round_request [OF sz] n [symmetric] idx get_heap_chunk_user_data_def addr_arith(1))
  qed
  show ?thesis
    using heap_search [OF wf nb(1) i]
  proof (elim disjE conjE exE)
    assume none: "search_buckets (hmem s) (kheap s) (of_nat n) (int (bidx False n)) = Inr 0" "\<forall>c. \<not> candidate cs (bidx False n) n c"
    show ?thesis using none lastf by (intro that [OF _ _ _ km [OF none(1)]]) simp_all
  next
    fix c assume c: "search_buckets (hmem s) (kheap s) (of_nat n) (int (bidx False n)) = Inr (of_nat (caddr c))"
      "candidate cs (bidx False n) n c" "of_nat (caddr c) \<noteq> (0 :: u64)"
      "\<forall>d. candidate cs (bidx False n) n d \<longrightarrow> bidx (c = last cs) (csize c) \<le> bidx (d = last cs) (csize d)"
    moreover from c(2) have "c \<in> set cs" "cfree c" by (simp_all add: candidate_def)
    ultimately show ?thesis using km [OF c(1)] by (intro that [of c]) auto
  qed
qed

lemma serve_post_inv:
  assumes post: "serve_post (hmem s) (kheap s) cs n c mem' heap' cs'" and inv: "heap_inv s cs"
    and s': "hmem s' = mem'" "kheap s' = heap'"
  shows "heap_inv s' cs'" and "used cs' = insert (caddr c + 8, n) (used cs)" and "(caddr c + 8, k) \<notin> used cs"
    and "keeps_data (used cs) (hmem s) mem'"
proof -
  obtain B where wf: "heap_wf (hmem s) (kheap s) cs {} B" using inv by (auto simp: heap_inv_def)
  have sv: "served cs n c cs'" and fr: "heap_frame cs (hmem s) mem'" using post by (simp_all add: serve_post_def)
  show "heap_inv s' cs'"
    using post inv served_facts(2) [OF sv] by (auto simp: heap_inv_def serve_post_def s')
  show "used cs' = insert (caddr c + 8, n) (used cs)" by (rule served_facts(1) [OF sv])
  show "(caddr c + 8, k) \<notin> used cs" by (rule served_fresh [OF wf sv])
  show "keeps_data (used cs) (hmem s) mem'" by (rule frame_keeps_data [OF heap_wf_region [OF wf] fr])
qed

lemma serve_wilderness_served:
  fixes s :: "('h, 'v) heap_state"
  assumes wf: "heap_wf (hmem s) (kheap s) cs {} B"
    and n: "8 dvd n" "16 \<le> n" "n \<le> 4611686018427387904" "n + 32 \<le> csize (last cs)"
  obtains mem' heap' cs' where
    "serve_wilderness expand (of_nat n) (of_nat (caddr (last cs))) s = Inr (s\<lparr>hmem := mem', kheap := heap'\<rparr>)"
    and "serve_post (hmem s) (kheap s) cs n (last cs) mem' heap' cs'"
proof -
  have l: "last cs \<in> set cs" "cfree (last cs)" using heap_wf_region [OF wf] by (simp_all add: region_ok_def)
  obtain mem' heap' cs' where "split_chunk_and_alloc (hmem s) (kheap s) (of_nat (caddr (last cs))) (of_nat n) = Inr (True, mem', heap')"
    "serve_post (hmem s) (kheap s) cs n (last cs) mem' heap' cs'"
    by (rule split_served [OF wf l n])
  then show ?thesis by (intro that) (simp_all add: serve_wilderness_def)
qed

text \<open>
  \<open>kmalloc\<close> when no growth is needed: the wilderness is large enough. What it returns, the new
  abstract state, and that the data of every block in use is kept.
\<close>

lemma kmalloc_no_growth:
  fixes s :: "('h, 'v) heap_state"
  assumes inv: "heap_inv s cs" and lock: "\<not> kheap_lock s"
    and sz: "unat size0 \<le> 4611686018427387904" and n: "n = rnd (unat size0)"
    and sv: "servable cs n" and room: "n + 32 \<le> csize (last cs)"
  obtains c mem' heap' cs' where
    "kmalloc expand size0 s = Inr (of_nat (caddr c + 8), s\<lparr>hmem := mem', kheap := heap'\<rparr>)"
    and "serve_post (hmem s) (kheap s) cs n c mem' heap' cs'"
proof -
  obtain B where wf: "heap_wf (hmem s) (kheap s) cs {} B" using inv by (auto simp: heap_inv_def)
  then have wf': "heap_wf (hmem (s\<lparr>kheap_lock := True\<rparr>)) (kheap (s\<lparr>kheap_lock := True\<rparr>)) cs {} B" by simp
  note rf = rnd_facts [of "unat size0", folded n]
  have nb: "n \<le> 4611686018427387904" using rf(4) sz by simp
  obtain c where c: "candidate cs (bidx False n) n c \<or> c = last cs"
    and km: "kmalloc expand size0 s =
      kbind (if c \<noteq> last cs then serve_chunk (of_nat n) (of_nat (caddr c)) (s\<lparr>kheap_lock := True\<rparr>)
             else serve_wilderness expand (of_nat n) (of_nat (caddr c)) (s\<lparr>kheap_lock := True\<rparr>))
        (\<lambda>s1. Inr (of_nat (caddr c + 8), s1\<lparr>kheap_lock := False\<rparr>))"
    by (rule kmalloc_found [OF wf lock sz n])
  have unlock: "s\<lparr>kheap_lock := True, hmem := mem', kheap := heap', kheap_lock := False\<rparr> = s\<lparr>hmem := mem', kheap := heap'\<rparr>" for mem' heap'
    using lock by simp
  show ?thesis
  proof (cases "c = last cs")
    case True
    obtain mem' heap' cs' where
      "serve_wilderness expand (of_nat n) (of_nat (caddr (last cs))) (s\<lparr>kheap_lock := True\<rparr>) = Inr (s\<lparr>kheap_lock := True\<rparr>\<lparr>hmem := mem', kheap := heap'\<rparr>)"
      "serve_post (hmem s) (kheap s) cs n (last cs) mem' heap' cs'"
      by (rule serve_wilderness_served [OF wf' rf(1,2) nb room]) (simp_all)
    then show ?thesis using km True unlock by (intro that [of c]) simp_all
  next
    case False
    obtain mem' heap' cs' where
      "serve_chunk (of_nat n) (of_nat (caddr c)) (s\<lparr>kheap_lock := True\<rparr>) = Inr (s\<lparr>kheap_lock := True\<rparr>\<lparr>hmem := mem', kheap := heap'\<rparr>)"
      "serve_post (hmem s) (kheap s) cs n c mem' heap' cs'"
      by (rule serve_chunk_served [OF wf' _ False rf(1,2) nb sv]) (use c False in simp_all)
    then show ?thesis using km False unlock by (intro that [of c]) simp_all
  qed
qed

end
