(* ===== verification/Heap_Free.thy ===== *)
theory Heap_Free
  imports Heap_Alloc
begin

text \<open>
  \<open>kfree\<close> on well-formed heaps: the block leaves the set of blocks in use and its chunk is merged with
  the free neighbours it has. Then the consistency check \<open>is_kheap_corrupted\<close>.
\<close>

section \<open>Neighbours\<close>

lemma chunk_before:
  assumes "region_ok heap (l @ [c] @ r)"
  shows "l \<noteq> [] \<Longrightarrow> cend (last l) = caddr c" and "heap_start heap = of_nat (caddr c) \<longleftrightarrow> l = []"
proof -
  have t: "tiles (unat (heap_start heap)) l (caddr c)" and b: "cend c < 18446744073709551616"
    using assms region_chunk(3) [OF assms, of c] by (auto simp: region_ok_def tiles_append)
  show "l \<noteq> [] \<Longrightarrow> cend (last l) = caddr c" using t by (induction l rule: rev_induct) (auto simp: tiles_append)
  have "unat (heap_start heap) = caddr c \<longleftrightarrow> l = []"
    using t tiles_bounds [OF t, of "hd l"] by (cases l) auto
  moreover have "heap_start heap = of_nat (caddr c) \<longleftrightarrow> unat (heap_start heap) = caddr c"
    using b by (simp add: word_unat_eq_iff unat_of_nat_u64 del: unat_of_nat)
  ultimately show "heap_start heap = of_nat (caddr c) \<longleftrightarrow> l = []" by simp
qed

lemma chunk_after: "region_ok heap (l @ [c] @ r) \<Longrightarrow> r \<noteq> [] \<Longrightarrow> caddr (hd r) = cend c"
  by (cases r) (auto simp: region_ok_def tiles_append)

lemma free_neighbours:
  assumes wf: "heap_wf mem heap (l @ [c] @ r) X B" and r: "r \<noteq> []"
  shows "free_prev mem heap (of_nat (caddr c)) = (if l \<noteq> [] \<and> cfree (last l) then of_nat (caddr (last l)) else 0)"
    and "free_next mem (of_nat (caddr c)) = (if cfree (hd r) then of_nat (caddr (hd r)) else 0)"
    and "x \<in> set (l @ [c] @ r) \<Longrightarrow> of_nat (caddr x) \<noteq> (0 :: u64)"
proof -
  let ?cs = "l @ [c] @ r"
  note reg = heap_wf_region [OF wf]
  have nz: "of_nat (caddr x) \<noteq> (0 :: u64)" if "x \<in> set ?cs" for x
    using region_chunk(3,4) [OF reg that] of_nat_0_u64 [of "caddr x"] by auto
  then show "x \<in> set ?cs \<Longrightarrow> of_nat (caddr x) \<noteq> (0 :: u64)" .
  show "free_prev mem heap (of_nat (caddr c)) = (if l \<noteq> [] \<and> cfree (last l) then of_nat (caddr (last l)) else 0)"
  proof (cases "l = []")
    case False
    then have p: "last l \<in> set ?cs" by simp
    have "get_prev_heap_chunk_header mem (of_nat (caddr c)) = of_nat (caddr (last l))"
      using heap_wf_chunk_facts(7) [OF wf p] chunk_before(1) [OF reg False] by simp
    then show ?thesis
      using False chunk_before(2) [OF reg] nz [OF p] heap_wf_chunk_facts(2) [OF wf p]
      by (simp add: free_prev_def is_first_chunk_of_heap_def Let_def)
  qed (use chunk_before(2) [OF reg] in \<open>simp add: free_prev_def is_first_chunk_of_heap_def\<close>)
  have q: "hd r \<in> set ?cs" and c: "c \<in> set ?cs" using r by simp_all
  have "get_next_heap_chunk_header mem (of_nat (caddr c)) = of_nat (caddr (hd r))"
    using heap_wf_chunk_facts(4) [OF wf c] chunk_after [OF reg r] by simp
  moreover have "\<not> is_last_chunk_of_heap mem (of_nat (caddr c))"
    using heap_wf_chunk_facts(3) [OF wf c] pair_last [OF reg, of c] r by (simp add: is_last_chunk_of_heap_def)
  ultimately show "free_next mem (of_nat (caddr c)) = (if cfree (hd r) then of_nat (caddr (hd r)) else 0)"
    using nz [OF q] heap_wf_chunk_facts(2) [OF wf q] by (simp add: free_next_def Let_def)
qed

section \<open>The effect of kfree\<close>

text \<open>The chunk list after \<open>c\<close>, between \<open>l\<close> and \<open>r\<close>, has been freed.\<close>

definition freed :: "chunk list \<Rightarrow> chunk \<Rightarrow> chunk list \<Rightarrow> chunk list" where
  "freed l c r =
     (let c1 = c\<lparr>cfree := True\<rparr>; prv = (l \<noteq> [] \<and> cfree (last l)); nxt = cfree (hd r)
      in if \<not> prv \<and> \<not> nxt then l @ [c1] @ r
         else if prv \<and> \<not> nxt then butlast l @ [joined [last l, c1]] @ r
         else if \<not> prv \<and> nxt then l @ [joined [c1, hd r]] @ tl r
         else butlast l @ [joined [last l, c1, hd r]] @ tl r)"

lemma joined_free [simp]: "cfree (joined cs)" "caddr (joined cs) = caddr (hd cs)"
  by (simp_all add: joined_def)

lemma freed_used:
  assumes r: "r \<noteq> []"
  shows "used (freed l c r) = used l \<union> used r"
proof -
  have "used l = used (butlast l) \<union> used [last l]" if "l \<noteq> []"
    using that used_append [of "butlast l" "[last l]"] by (simp del: used_append)
  moreover have "used r = used [hd r] \<union> used (tl r)"
    using r by (cases r) auto
  ultimately show ?thesis by (auto simp: freed_def Let_def)
qed

lemma freed_coalesced:
  assumes co: "coalesced (l @ [c] @ r)" and r: "r \<noteq> []"
  shows "coalesced (freed l c r)"
proof -
  have l: "coalesced l" and rc: "coalesced r" using co r by (cases r; simp add: coalesced_append)+
  obtain q r' where q: "r = q # r'" using r by (cases r) auto
  have L: "coalesced (butlast l)" "butlast l = [] \<or> \<not> cfree (last (butlast l)) \<or> \<not> cfree (last l)" if "l \<noteq> []"
    using l that coalesced_append [of "butlast l" "[last l]"] by auto
  have R: "coalesced r'" "r' = [] \<or> \<not> cfree q \<or> \<not> cfree (hd r')" using rc q by (cases r'; simp)+
  have cr: "coalesced (x # ys)" if "coalesced ys" "ys = [] \<or> \<not> cfree (hd ys)" for x ys
    using that by (cases ys) simp_all
  show ?thesis
    using l L R rc q by (auto simp: freed_def Let_def coalesced_append intro: cr)
qed

lemma freed_length:
  assumes "number_of_chunks heap = (of_nat (length (l @ [c] @ r)) :: u64)" and "r \<noteq> []"
  shows "(of_nat (length (freed l c r)) :: u64) =
    number_of_chunks heap - of_nat ((if l \<noteq> [] \<and> cfree (last l) then 1 else 0) + (if cfree (hd r) then 1 else 0))"
proof -
  have "length (freed l c r) + ((if l \<noteq> [] \<and> cfree (last l) then 1 else 0) + (if cfree (hd r) then 1 else 0)) = length (l @ [c] @ r)"
    using assms(2) by (cases "l = []"; cases r) (auto simp: freed_def Let_def)
  then have "(of_nat (length (freed l c r)) :: u64) + of_nat ((if l \<noteq> [] \<and> cfree (last l) then 1 else 0) + (if cfree (hd r) then 1 else 0)) =
      number_of_chunks heap"
    unfolding assms(1) by (simp only: of_nat_add [symmetric])
  then show ?thesis by (simp add: eq_diff_eq)
qed

lemma kfree_merge:
  fixes heap :: "'h Heap"
  assumes wf: "heap_wf mem heap (l @ [c] @ r) {caddr c} B" and det: "detached mem {caddr c}"
    and c: "cfree c" and r: "r \<noteq> []" and prv: "prv = free_prev mem heap (of_nat (caddr c))" and nxt: "nxt = free_next mem (of_nat (caddr c))"
  obtains mem' heap' B' where
    "(if prv = NULL \<and> nxt = NULL then add_to_bucket_list mem heap (of_nat (caddr c))
      else if prv \<noteq> NULL \<and> nxt = NULL then merge_with_next_chunk mem heap prv
      else if prv = NULL \<and> nxt \<noteq> NULL then merge_with_next_chunk mem heap (of_nat (caddr c))
      else merge_with_next_and_prev_chunk mem heap (of_nat (caddr c))) = Inr (mem', heap')"
    and "heap_wf mem' heap' (freed l c r) {} B'" and "heap_frame (l @ [c] @ r) mem mem'" and "same_region heap heap'"
    and "number_of_chunks heap' = number_of_chunks heap -
      of_nat ((if l \<noteq> [] \<and> cfree (last l) then 1 else 0) + (if cfree (hd r) then 1 else 0))"
proof -
  note fn = free_neighbours [OF wf r]
  have nz: "l \<noteq> [] \<Longrightarrow> of_nat (caddr (last l)) \<noteq> (0 :: u64)" "of_nat (caddr (hd r)) \<noteq> (0 :: u64)"
    using fn(3) r by auto
  have c1: "c\<lparr>cfree := True\<rparr> = c" using c by simp
  obtain q r' where q: "r = q # r'" using r by (cases r) auto
  show ?thesis
  proof (cases "l \<noteq> [] \<and> cfree (last l)")
    case False
    then have p0: "prv = 0" by (auto simp: prv fn(1))
    show ?thesis
    proof (cases "cfree q")
      case False
      with \<open>\<not> (l \<noteq> [] \<and> cfree (last l))\<close> have fr: "freed l c r = l @ [c] @ r" by (auto simp: freed_def q c1)
      have n0: "nxt = 0" using False by (simp add: nxt fn(2) q)
      obtain mem' fb' B' where "add_to_bucket_list mem heap (of_nat (caddr c)) = Inr (mem', heap\<lparr>free_buckets := fb'\<rparr>)"
        "heap_wf mem' (heap\<lparr>free_buckets := fb'\<rparr>) (l @ [c] @ r) ({caddr c} - {caddr c}) B'" "links_frame (l @ [c] @ r) mem mem'"
        by (rule wf_add [OF wf, of c]) auto
      then show ?thesis
        using fr p0 n0 False \<open>\<not> (l \<noteq> [] \<and> cfree (last l))\<close> links_frame_heap_frame [OF heap_wf_region [OF wf]]
        by (intro that [of mem' "heap\<lparr>free_buckets := fb'\<rparr>" B']) (auto simp: q same_region_def)
    next
      case True
      with \<open>\<not> (l \<noteq> [] \<and> cfree (last l))\<close> have fr: "freed l c r = l @ [joined [c, q]] @ r'" by (auto simp: freed_def q c1)
      have n1: "nxt \<noteq> 0" using True nz(2) by (simp add: nxt fn(2) q)
      obtain mem' heap' B' where "merge_with_next_chunk mem heap (of_nat (caddr c)) = Inr (mem', heap')"
        "heap_wf mem' heap' (l @ [joined [c, q]] @ r') {} B'" "heap_frame (l @ [c, q] @ r') mem mem'" "same_region heap heap'"
        "number_of_chunks heap' = number_of_chunks heap - 1"
        by (rule wf_merge_next [of mem heap l c q r' "{caddr c}" B]) (use wf det c True in \<open>auto simp: q\<close>)
      then show ?thesis
        using fr p0 n1 True \<open>\<not> (l \<noteq> [] \<and> cfree (last l))\<close> by (intro that [of mem' heap' B']) (auto simp: q)
    qed
  next
    case True
    define p l' where "p = last l" and "l' = butlast l"
    have l: "l = l' @ [p]" using True by (simp add: p_def l'_def)
    have p1: "prv = of_nat (caddr p)" "prv \<noteq> 0" and pf: "cfree p" using True nz(1) by (simp_all add: prv fn(1) l)
    show ?thesis
    proof (cases "cfree q")
      case False
      then have fr: "freed l c r = l' @ [joined [p, c]] @ r" using pf by (auto simp: freed_def q c1 l)
      have n0: "nxt = 0" using False by (simp add: nxt fn(2) q)
      obtain mem' heap' B' where "merge_with_next_chunk mem heap (of_nat (caddr p)) = Inr (mem', heap')"
        "heap_wf mem' heap' (l' @ [joined [p, c]] @ r) {} B'" "heap_frame (l' @ [p, c] @ r) mem mem'" "same_region heap heap'"
        "number_of_chunks heap' = number_of_chunks heap - 1"
        by (rule wf_merge_next [of mem heap l' p c r "{caddr c}" B]) (use wf det c pf in \<open>auto simp: l\<close>)
      then show ?thesis
        using fr p1 n0 False pf by (intro that [of mem' heap' B']) (auto simp: q l)
    next
      case True
      then have fr: "freed l c r = l' @ [joined [p, c, q]] @ r'" using pf by (auto simp: freed_def q c1 l)
      have n1: "nxt \<noteq> 0" using True nz(2) by (simp add: nxt fn(2) q)
      obtain mem' heap' B' where "merge_with_next_and_prev_chunk mem heap (of_nat (caddr c)) = Inr (mem', heap')"
        "heap_wf mem' heap' (l' @ [joined [p, c, q]] @ r') {} B'" "heap_frame (l' @ [p, c, q] @ r') mem mem'" "same_region heap heap'"
        "number_of_chunks heap' = number_of_chunks heap - 2"
        by (rule wf_merge_both [of mem heap l' p c q r' "{caddr c}" B]) (use wf det c pf True in \<open>auto simp: l q\<close>)
      then show ?thesis
        using fr p1 n1 True pf by (intro that [of mem' heap' B']) (auto simp: q l)
    qed
  qed
qed

lemma kfree_effect:
  fixes s :: "('h, 'v) heap_state"
  assumes inv: "heap_inv s (l @ [c] @ r)" and lock: "\<not> kheap_lock s" and c: "\<not> cfree c"
  obtains mem' heap' where "kfree (of_nat (caddr c + 8)) s = Inr (s\<lparr>hmem := mem', kheap := heap'\<rparr>)"
    and "heap_inv (s\<lparr>hmem := mem', kheap := heap'\<rparr>) (freed l c r)"
    and "used (freed l c r) = used (l @ [c] @ r) - {(caddr c + 8, csize c)}"
    and "keeps_data (used (freed l c r)) (hmem s) mem'" and "same_region (kheap s) heap'"
proof -
  let ?mem = "hmem s" and ?heap = "kheap s" and ?c1 = "c\<lparr>cfree := True\<rparr>"
  obtain B where wf: "heap_wf ?mem ?heap (l @ [c] @ r) {} B" and co: "coalesced (l @ [c] @ r)"
    and num: "number_of_chunks ?heap = of_nat (length (l @ [c] @ r))" using inv by (auto simp: heap_inv_def)
  note reg = heap_wf_region [OF wf]
  have r: "r \<noteq> []" using reg c by (auto simp: region_ok_def)
  have cin: "c \<in> set (l @ [c] @ r)" by simp
  note mf = wf_mark_free [OF wf c r]
  have hd: "get_heap_chunk_from_user_data (of_nat (caddr c + 8)) = of_nat (caddr c)"
    by (simp add: get_heap_chunk_from_user_data_def of_nat_add)
  have w: "\<not> c = last (l @ [c] @ r)" using pair_last [OF reg, of c] r by simp
  have wf1: "heap_wf (mark_free ?mem c) ?heap (l @ [?c1] @ r) {caddr ?c1} B" and det1: "detached (mark_free ?mem c) {caddr ?c1}"
    using mf(1,2) by simp_all
  have cc: "caddr ?c1 = caddr c" by simp
  obtain mem' heap' B' where
    step: "(if free_prev (mark_free ?mem c) ?heap (of_nat (caddr c)) = NULL \<and> free_next (mark_free ?mem c) (of_nat (caddr c)) = NULL
      then add_to_bucket_list (mark_free ?mem c) ?heap (of_nat (caddr c))
      else if free_prev (mark_free ?mem c) ?heap (of_nat (caddr c)) \<noteq> NULL \<and> free_next (mark_free ?mem c) (of_nat (caddr c)) = NULL
      then merge_with_next_chunk (mark_free ?mem c) ?heap (free_prev (mark_free ?mem c) ?heap (of_nat (caddr c)))
      else if free_prev (mark_free ?mem c) ?heap (of_nat (caddr c)) = NULL \<and> free_next (mark_free ?mem c) (of_nat (caddr c)) \<noteq> NULL
      then merge_with_next_chunk (mark_free ?mem c) ?heap (of_nat (caddr c))
      else merge_with_next_and_prev_chunk (mark_free ?mem c) ?heap (of_nat (caddr c))) = Inr (mem', heap')"
    and wf': "heap_wf mem' heap' (freed l ?c1 r) {} B'" and fr: "heap_frame (l @ [?c1] @ r) (mark_free ?mem c) mem'"
    and sr: "same_region ?heap heap'"
    and num': "number_of_chunks heap' = number_of_chunks ?heap -
      of_nat ((if l \<noteq> [] \<and> cfree (last l) then 1 else 0) + (if cfree (hd r) then 1 else 0))"
    by (rule kfree_merge [OF wf1 det1 _ r refl refl, unfolded cc]) (simp, blast)
  have fd: "freed l ?c1 r = freed l c r" by (simp add: freed_def)
  have "kfree (of_nat (caddr c + 8)) s = Inr (s\<lparr>hmem := mem', kheap := heap'\<rparr>)"
    unfolding kfree_def Let_def hd using lock c w heap_wf_chunk_facts [OF wf cin] mf(3,4) step by simp
  moreover have "heap_inv (s\<lparr>hmem := mem', kheap := heap'\<rparr>) (freed l c r)"
    using wf' freed_coalesced [OF co r] freed_length [OF num r] num' by (auto simp: heap_inv_def fd)
  moreover have ud: "used (freed l c r) = used (l @ [c] @ r) - {(caddr c + 8, csize c)}"
  proof -
    have "distinct (map caddr (l @ [c] @ r))" using reg unfolding region_ok_def by (blast intro: tiles_distinct)
    then have "caddr c \<notin> caddr ` (set l \<union> set r)" by (auto simp: disjoint_iff)
    moreover have "a \<in> caddr ` (set l \<union> set r)" if "(a + 8, k) \<in> used l \<union> used r" for a k
      using that by (auto simp: used_def)
    ultimately have "(caddr c + 8, csize c) \<notin> used l \<union> used r" by blast
    then show ?thesis using c by (auto simp: freed_used [OF r])
  qed
  moreover have "keeps_data (used (freed l c r)) ?mem mem'"
    using frame_keeps_data [OF heap_wf_region [OF wf1] heap_frame_trans [OF mf(5) fr subset_refl]]
    by (rule keeps_data_mono) (auto simp: freed_used [OF r])
  ultimately show ?thesis using that sr by blast
qed

section \<open>The consistency check\<close>

lemma corrupted_loop_step:
  fixes heap :: "'h Heap"
  assumes wf: "heap_wf mem heap cs X B" and num: "unat (number_of_chunks heap) = length cs"
    and c: "c \<in> set cs" and k: "k < length cs"
  shows "corrupted_loop mem heap (of_nat (caddr c)) k =
    (if c = last cs then Suc k \<noteq> length cs
     else if of_nat (cend c) = (0 :: u64) then Suc k \<noteq> length cs else corrupted_loop mem heap (of_nat (cend c)) (Suc k))"
proof -
  note reg = heap_wf_region [OF wf]
  note rc = region_chunk [OF reg c] and f = heap_wf_chunk_facts [OF wf c]
  have hdr: "mem (of_nat (caddr c)) = of_nat (csize c + fval (cfree c) (c = last cs))"
    using heap_wf_chunk_ok [OF wf c] by (simp add: chunk_ok_def)
  have fv: "fval (cfree c) (c = last cs) \<le> 3" by (simp add: fval_def)
  have "unat (of_nat (caddr c + (csize c + fval (cfree c) (c = last cs))) :: u64) = caddr c + (csize c + fval (cfree c) (c = last cs))"
    using rc(3) fv by (intro unat_of_nat_u64) simp
  moreover have "unat (heap_start heap + heap_size heap) = unat (heap_start heap) + unat (heap_size heap)"
    using reg by (intro unat_add_u64) (simp add: region_ok_def)
  ultimately have hi: "\<not> of_nat (caddr c) + mem (of_nat (caddr c)) > heap_start heap + heap_size heap"
    using rc(7) fv unfolding hdr of_nat_add [symmetric] by (simp add: word_less_nat_alt del: unat_of_nat)
  have "unat (of_nat (caddr c) :: u64) = caddr c" using rc(3) by (intro unat_of_nat_u64) simp
  then have lo: "\<not> of_nat (caddr c) < heap_start heap" using rc(6) by (simp add: word_less_nat_alt del: unat_of_nat)
  show ?thesis
    using num k hi lo f by (subst corrupted_loop.simps) (simp add: Let_def is_last_chunk_of_heap_def)
qed

lemma corrupted_loop_ok:
  fixes heap :: "'h Heap"
  assumes wf: "heap_wf mem heap cs X B" and num: "unat (number_of_chunks heap) = length cs"
  shows "cs = l @ [c] @ r \<Longrightarrow> \<not> corrupted_loop mem heap (of_nat (caddr c)) (length l)"
proof (induction r arbitrary: l c)
  case Nil
  then show ?case using corrupted_loop_step [OF wf num, of c "length l"] by simp
next
  case (Cons d r)
  note reg = heap_wf_region [OF wf]
  have "c \<noteq> last cs" using pair_last [of heap l "[c]" "d # r" c] reg Cons.prems by simp
  moreover have d: "cend c = caddr d" using chunk_after [of heap l c "d # r"] reg Cons.prems by simp
  moreover have "of_nat (caddr d) \<noteq> (0 :: u64)"
    using region_chunk(3,4) [OF reg, of d] of_nat_0_u64 [of "caddr d"] Cons.prems by auto
  moreover have "\<not> corrupted_loop mem heap (of_nat (caddr d)) (length (l @ [c]))"
    using Cons.prems by (intro Cons.IH) simp
  ultimately show ?case using corrupted_loop_step [OF wf num, of c "length l"] Cons.prems by simp
qed

lemma heap_not_corrupted:
  assumes inv: "heap_inv s cs" and lock: "\<not> kheap_lock s"
    and pages: "page_aligned (heap_start (kheap s))" "page_aligned (heap_size (kheap s))"
  shows "is_kheap_corrupted s = Inr (False, s)"
proof -
  obtain B where wf: "heap_wf (hmem s) (kheap s) cs {} B" and num: "number_of_chunks (kheap s) = of_nat (length cs)"
    using inv by (auto simp: heap_inv_def)
  note reg = heap_wf_region [OF wf]
  obtain c r where cs: "cs = [] @ [c] @ r" using reg by (cases cs) (auto simp: region_ok_def)
  have start: "heap_start (kheap s) = of_nat (caddr c)" "heap_start (kheap s) \<noteq> 0"
    using reg chunk_before(2) [of "kheap s" "[]" c r] cs by (auto simp: region_ok_def)
  have "length cs * 32 \<le> e - a" if "tiles a cs e" for a e
    using that by (induction cs arbitrary: a) (auto dest: tiles_le, fastforce dest: tiles_le)
  then have "length cs < 18446744073709551616" using reg by (fastforce simp: region_ok_def)
  then have "unat (number_of_chunks (kheap s)) = length cs" unfolding num by (rule unat_of_nat_u64)
  then have "\<not> corrupted_loop (hmem s) (kheap s) (of_nat (caddr c)) 0"
    using corrupted_loop_ok [OF wf _ cs] by simp
  then show ?thesis
    using lock pages start by (simp add: is_kheap_corrupted_def unsync_is_kheap_corrupted_def Let_def mod_page_unat)
qed

end
