(* ===== verification/Heap_Spec.thy ===== *)
theory Heap_Spec
  imports Heap_Free
begin

text \<open>
  What the kernel heap promises to its clients: the contract \<open>block_allocator\<close> and its proof for
  \<open>kmalloc\<close> and \<open>kfree\<close>, the properties of heap.c, and an example heap that grows by the operations
  of the code and on which the hypotheses of the properties are satisfied.
\<close>

section \<open>The memory determines the chunks\<close>

lemma header_inj:
  assumes "8 dvd s" and "8 dvd s'" and "s + 8 \<le> 18446744073709551616" and "s' + 8 \<le> 18446744073709551616"
    and "(of_nat (s + fval f w) :: u64) = of_nat (s' + fval f' w')"
  shows "s = s'" and "f = f'"
proof -
  have "(of_nat s :: u64) = of_nat s'"
    using header_size_word [OF assms(1,3)] header_size_word [OF assms(2,4)] assms(5) by metis
  then show "s = s'" using assms(3,4) by (simp add: of_nat_inj_u64)
  show "f = f'" using header_flags(1) [OF assms(1), of f w] header_flags(1) [OF assms(2), of f' w'] assms(5)
    by (auto split: if_splits)
qed

lemma tiles_unique:
  assumes "tiles a cs e" and "tiles a ds e" and "e < 18446744073709551616"
    and "\<And>c. c \<in> set cs \<Longrightarrow> \<exists>w. chunk_ok mem w c" and "\<And>d. d \<in> set ds \<Longrightarrow> \<exists>w. chunk_ok mem w d"
  shows "cs = ds"
  using assms
proof (induction cs arbitrary: a ds)
  case Nil
  then show ?case by (cases ds) (auto dest: tiles_le)
next
  case (Cons c cs)
  then obtain d ds' where ds: "ds = d # ds'" by (cases ds) (auto dest: tiles_le)
  obtain w where ok: "chunk_ok mem w c" using Cons.prems(4) [of c] by auto
  obtain w' where ok': "chunk_ok mem w' d" using Cons.prems(5) [of d] ds by auto
  have c: "caddr c = a" "8 dvd csize c" "tiles (cend c) cs e" and d: "caddr d = a" "8 dvd csize d" "tiles (cend d) ds' e"
    using Cons.prems(1,2) ds by auto
  have "cend c \<le> e" "cend d \<le> e" using c(3) d(3) by (auto dest: tiles_le)
  then have "csize c + 8 \<le> 18446744073709551616" "csize d + 8 \<le> 18446744073709551616" using Cons.prems(3) by auto
  moreover have "(of_nat (csize c + fval (cfree c) w) :: u64) = of_nat (csize d + fval (cfree d) w')"
    using ok ok' c(1) d(1) by (simp add: chunk_ok_def)
  ultimately have "csize c = csize d" "cfree c = cfree d" using header_inj [OF c(2) d(2)] by blast+
  then have "c = d" using c(1) d(1) by simp
  moreover have "cs = ds'"
    using Cons.IH [of "cend c" ds'] c d Cons.prems(3,4,5) ds \<open>c = d\<close> by auto
  ultimately show ?case using ds by simp
qed

lemma heap_inv_unique:
  assumes "heap_inv s cs" and "heap_inv s ds"
  shows "cs = ds"
proof -
  obtain B C where wf: "heap_wf (hmem s) (kheap s) cs {} B" "heap_wf (hmem s) (kheap s) ds {} C"
    using assms by (auto simp: heap_inv_def)
  show ?thesis
    by (rule tiles_unique [of "unat (heap_start (kheap s))" _ "unat (heap_start (kheap s)) + unat (heap_size (kheap s))" _ "hmem s"])
      (use heap_wf_chunk_ok [OF wf(1)] heap_wf_chunk_ok [OF wf(2)] heap_wf_region [OF wf(1)] heap_wf_region [OF wf(2)]
        in \<open>auto simp: region_ok_def\<close>)
qed

section \<open>The contract of a block allocator\<close>

locale block_allocator =
  fixes alloc :: "u64 \<Rightarrow> 's \<Rightarrow> (addr \<times> 's) kres"
    and free :: "addr \<Rightarrow> 's \<Rightarrow> 's kres"
    and inv :: "'s \<Rightarrow> (nat \<times> nat) set \<Rightarrow> bool"
    and ok :: "u64 \<Rightarrow> 's \<Rightarrow> bool"
    and data :: "'s \<Rightarrow> memory"
  assumes apart: "inv s U \<Longrightarrow> blocks_apart U"
    and alloc_law: "inv s U \<Longrightarrow> ok n s \<Longrightarrow>
      \<exists>p s' k. alloc n s = Inr (p, s') \<and> inv s' (insert (unat p, k) U) \<and> unat n \<le> k \<and>
        (\<forall>j. (unat p, j) \<notin> U) \<and> keeps_data U (data s) (data s')"
    and free_law: "inv s U \<Longrightarrow> (unat p, k) \<in> U \<Longrightarrow>
      \<exists>s'. free p s = Inr s' \<and> inv s' (U - {(unat p, k)}) \<and> keeps_data (U - {(unat p, k)}) (data s) (data s')"
begin

lemma alloc_then_free:
  assumes "inv s U" and "ok n s"
  shows "\<exists>p s1 s2. alloc n s = Inr (p, s1) \<and> free p s1 = Inr s2 \<and> inv s2 U \<and> keeps_data U (data s) (data s2)"
proof -
  obtain p s1 k where a: "alloc n s = Inr (p, s1)" "inv s1 (insert (unat p, k) U)" "\<forall>j. (unat p, j) \<notin> U"
    "keeps_data U (data s) (data s1)"
    using alloc_law [OF assms] by blast
  obtain s2 where f: "free p s1 = Inr s2" "inv s2 (insert (unat p, k) U - {(unat p, k)})"
    "keeps_data (insert (unat p, k) U - {(unat p, k)}) (data s1) (data s2)"
    using free_law [OF a(2), of p k] by blast
  have "insert (unat p, k) U - {(unat p, k)} = U" using a(3) by auto
  then show ?thesis using a f keeps_data_trans by (metis (no_types))
qed

lemma alloc_disjoint:
  assumes "inv s U" and "ok n s" and "alloc n s = Inr (p, s')" and "(q, m) \<in> U"
  shows "unat p + unat n \<le> q \<or> q + m \<le> unat p"
proof -
  obtain k where k: "inv s' (insert (unat p, k) U)" "unat n \<le> k" "\<forall>j. (unat p, j) \<notin> U"
    using alloc_law [OF assms(1,2)] assms(3) by auto
  have "(unat p, k) \<noteq> (q, m)" using k(3) assms(4) by auto
  then have "unat p + k \<le> q \<or> q + m \<le> unat p"
    using apart [OF k(1)] assms(4) by (fastforce simp: blocks_apart_def)
  then show ?thesis using k(2) by auto
qed

end

text \<open>The kernel heap satisfies the contract on requests it can serve without growing.\<close>

definition heap_rel :: "('h, 'v) heap_state \<Rightarrow> (nat \<times> nat) set \<Rightarrow> bool" where
  "heap_rel s U \<longleftrightarrow> \<not> kheap_lock s \<and> (\<exists>cs. heap_inv s cs \<and> used cs = U)"

definition heap_ok :: "u64 \<Rightarrow> ('h, 'v) heap_state \<Rightarrow> bool" where
  "heap_ok sz s \<longleftrightarrow> unat sz \<le> 4611686018427387904 \<and>
     (\<exists>cs. heap_inv s cs \<and> servable cs (rnd (unat sz)) \<and> rnd (unat sz) + 32 \<le> csize (last cs))"

lemma used_addr:
  assumes "heap_inv s cs" and "(p, k) \<in> used cs"
  obtains l c r where "cs = l @ [c] @ r" and "\<not> cfree c" and "p = caddr c + 8" and "k = csize c"
    and "p < 18446744073709551616" and "8 dvd p"
proof -
  obtain B where wf: "heap_wf (hmem s) (kheap s) cs {} B" using assms(1) by (auto simp: heap_inv_def)
  obtain c where c: "c \<in> set cs" "\<not> cfree c" "p = caddr c + 8" "k = csize c" using assms(2) by (auto simp: used_def)
  note rc = region_chunk [OF heap_wf_region [OF wf] c(1)]
  obtain l r where "cs = l @ [c] @ r" using c(1) by (auto simp: in_set_conv_decomp)
  then show ?thesis using c rc by (intro that [of l c r]) (auto intro!: dvd_add)
qed

lemma kmalloc_law:
  fixes s :: "('h, 'v) heap_state"
  assumes inv: "heap_inv s cs" and lock: "\<not> kheap_lock s" and sz: "unat sz \<le> 4611686018427387904"
    and sv: "servable cs (rnd (unat sz))" "rnd (unat sz) + 32 \<le> csize (last cs)"
  shows "\<exists>p s' cs'. kmalloc expand sz s = Inr (p, s') \<and> heap_inv s' cs' \<and> \<not> kheap_lock s' \<and> vmem s' = vmem s \<and>
    used cs' = insert (unat p, rnd (unat sz)) (used cs) \<and> (\<forall>j. (unat p, j) \<notin> used cs) \<and>
    8 dvd unat p \<and> keeps_data (used cs) (hmem s) (hmem s')"
proof -
  obtain c mem' heap' cs' where km: "kmalloc expand sz s = Inr (of_nat (caddr c + 8), s\<lparr>hmem := mem', kheap := heap'\<rparr>)"
    and post: "serve_post (hmem s) (kheap s) cs (rnd (unat sz)) c mem' heap' cs'"
    by (rule kmalloc_no_growth [OF inv lock sz refl sv])
  let ?s' = "s\<lparr>hmem := mem', kheap := heap'\<rparr>"
  have inv': "heap_inv ?s' cs'" by (rule serve_post_inv(1) [OF post inv]) simp_all
  have u: "used cs' = insert (caddr c + 8, rnd (unat sz)) (used cs)" and "\<forall>j. (caddr c + 8, j) \<notin> used cs"
    and "keeps_data (used cs) (hmem s) (hmem ?s')"
    using serve_post_inv(2,3,4) [OF post inv, of ?s'] by simp_all
  moreover have "unat (of_nat (caddr c + 8) :: u64) = caddr c + 8" "8 dvd caddr c + 8"
    by (rule used_addr [OF inv', of "caddr c + 8" "rnd (unat sz)"], use u unat_of_nat_u64 in auto)+
  ultimately show ?thesis
    using km inv' lock by (intro exI [of _ "of_nat (caddr c + 8)"] exI [of _ ?s'] exI [of _ cs']) (simp del: unat_of_nat)
qed

lemma kfree_law:
  fixes s :: "('h, 'v) heap_state"
  assumes inv: "heap_inv s cs" and lock: "\<not> kheap_lock s" and p: "(unat p, k) \<in> used cs"
  shows "\<exists>s' cs'. kfree p s = Inr s' \<and> heap_inv s' cs' \<and> \<not> kheap_lock s' \<and> vmem s' = vmem s \<and>
    used cs' = used cs - {(unat p, k)} \<and> keeps_data (used cs') (hmem s) (hmem s')"
proof -
  obtain l c r where c: "cs = l @ [c] @ r" "\<not> cfree c" "unat p = caddr c + 8" "k = csize c" by (rule used_addr [OF inv p])
  have pw: "p = of_nat (caddr c + 8)" using c(3) by (metis word_unat_eq_iff unat_of_nat_u64 u64_bound)
  obtain mem' heap' where "kfree (of_nat (caddr c + 8)) s = Inr (s\<lparr>hmem := mem', kheap := heap'\<rparr>)"
    "heap_inv (s\<lparr>hmem := mem', kheap := heap'\<rparr>) (freed l c r)"
    "used (freed l c r) = used (l @ [c] @ r) - {(caddr c + 8, csize c)}"
    "keeps_data (used (freed l c r)) (hmem s) mem'"
    by (rule kfree_effect [OF inv [unfolded c(1)] lock c(2)])
  then show ?thesis
    using lock c by (intro exI [of _ "s\<lparr>hmem := mem', kheap := heap'\<rparr>"] exI [of _ "freed l c r"]) (simp add: pw [symmetric])
qed

interpretation kh: block_allocator "kmalloc expand" kfree heap_rel heap_ok hmem for expand
proof
  fix s :: "('a, 'b) heap_state" and U n p k
  show "heap_rel s U \<Longrightarrow> blocks_apart U"
    by (auto simp: heap_rel_def heap_inv_def dest: heap_wf_blocks_apart)
  show "\<exists>p s' k. kmalloc expand n s = Inr (p, s') \<and> heap_rel s' (insert (unat p, k) U) \<and> unat n \<le> k \<and>
      (\<forall>j. (unat p, j) \<notin> U) \<and> keeps_data U (hmem s) (hmem s')" if "heap_rel s U" "heap_ok n s"
  proof -
    note h = that
    obtain cs where cs: "heap_inv s cs" "used cs = U" "\<not> kheap_lock s" using h(1) by (auto simp: heap_rel_def)
    have ok: "unat n \<le> 4611686018427387904" "servable cs (rnd (unat n))" "rnd (unat n) + 32 \<le> csize (last cs)"
      using h(2) heap_inv_unique [OF cs(1)] by (auto simp: heap_ok_def)
    obtain p s' cs' where "kmalloc expand n s = Inr (p, s')" "heap_inv s' cs'" "\<not> kheap_lock s'"
      "used cs' = insert (unat p, rnd (unat n)) U" "\<forall>j. (unat p, j) \<notin> U" "keeps_data U (hmem s) (hmem s')"
      using kmalloc_law [OF cs(1,3) ok, of expand] cs(2) by auto
    then show ?thesis using rnd_facts(3) [of "unat n"] unfolding heap_rel_def by blast
  qed
  show "\<exists>s'. kfree p s = Inr s' \<and> heap_rel s' (U - {(unat p, k)}) \<and> keeps_data (U - {(unat p, k)}) (hmem s) (hmem s')"
    if "heap_rel s U" "(unat p, k) \<in> U"
  proof -
    note h = that
    obtain cs where cs: "heap_inv s cs" "used cs = U" "\<not> kheap_lock s" using h(1) by (auto simp: heap_rel_def)
    obtain s' cs' where "kfree p s = Inr s'" "heap_inv s' cs'" "\<not> kheap_lock s'" "used cs' = U - {(unat p, k)}"
      "keeps_data (used cs') (hmem s) (hmem s')"
      using kfree_law [OF cs(1,3), of p k] h(2) cs(2) by auto
    then show ?thesis unfolding heap_rel_def by auto
  qed
qed

section \<open>An example heap\<close>

text \<open>A region of 8192 bytes at address 65536, initialised by the code and then used.\<close>

definition ex_zero :: "(unit, unit) heap_state" where
  "ex_zero = \<lparr>hmem = (\<lambda>_. 0), kheap = \<lparr>heap_vmem = (), enable_growth = False, heap_start = 0, heap_size = 0,
     number_of_chunks = 0, wilderness_chunk = 0, free_buckets = replicate 128 0\<rparr>,
     kheap_lock = False, kheap_initialized = False, vmem = ()\<rparr>"

definition ex_init :: "(unit, unit) heap_state kres" where
  "ex_init = initialize_heap (\<lambda>_ _. 65536) (\<lambda>_ _. 8192) () ex_zero"

definition ex_no_expand :: "(unit, unit) expand_op" where
  "ex_no_expand h g s = Inr (False, s)"

definition get_state :: "'s \<Rightarrow> 's kres \<Rightarrow> 's" where
  "get_state d x = (case x of Inr s \<Rightarrow> s | Inl _ \<Rightarrow> d)"

definition ex0 :: "(unit, unit) heap_state" where
  "ex0 = get_state ex_zero ex_init"

definition ex_chunk :: chunk where
  "ex_chunk = \<lparr>caddr = 65536, csize = 8176, cfree = True\<rparr>"

lemma ex0_inv: "heap_inv ex0 [ex_chunk]" "\<not> kheap_lock ex0"
  and ex0_pages: "heap_start (kheap ex0) = 65536" "heap_size (kheap ex0) = 8192"
proof -
  obtain mem' heap' B where i: "initialize_heap (\<lambda>_ _. 65536) (\<lambda>_ _. 8192) () ex_zero = Inr (ex_zero\<lparr>hmem := mem', kheap := heap'\<rparr>)"
    and wf: "heap_wf mem' heap' [ex_chunk] {} B" and n: "number_of_chunks heap' = 1"
    and r: "heap_start heap' = 65536" "heap_size heap' = 8192"
    by (rule wf_initialize [of 65536 "\<lambda>_ _. 65536" ex_zero "()" 8192 "\<lambda>_ _. 8192" ex_chunk]) (auto simp: ex_chunk_def)
  have ex0: "ex0 = ex_zero\<lparr>hmem := mem', kheap := heap'\<rparr>" by (simp add: ex0_def ex_init_def i get_state_def)
  show "heap_inv ex0 [ex_chunk]" "\<not> kheap_lock ex0" "heap_start (kheap ex0) = 65536" "heap_size (kheap ex0) = 8192"
    using wf n r by (auto simp: heap_inv_def ex0 ex_zero_def)
qed

lemma rnd_examples: "rnd 32 = 32" "rnd 16 = 16" "rnd 24 = 24"
  by (simp_all add: rnd_def)

text \<open>When only the wilderness is free, the block comes from its start.\<close>

lemma kmalloc_from_wilderness:
  fixes s :: "('h, 'v) heap_state"
  assumes inv: "heap_inv s (l @ [c])" and lock: "\<not> kheap_lock s" and full: "\<And>d. d \<in> set l \<Longrightarrow> \<not> cfree d"
    and sz: "unat sz \<le> 4611686018427387904" "rnd (unat sz) + 32 \<le> csize c"
  obtains s' where "kmalloc expand sz s = Inr (of_nat (caddr c + 8), s')"
    and "heap_inv s' (l @ [first_part (rnd (unat sz)) c, second_part (rnd (unat sz)) c])" and "\<not> kheap_lock s'"
proof -
  let ?n = "rnd (unat sz)"
  have sv: "servable (l @ [c]) ?n" using full by (auto simp: servable_def)
  obtain d mem' heap' cs' where km: "kmalloc expand sz s = Inr (of_nat (caddr d + 8), s\<lparr>hmem := mem', kheap := heap'\<rparr>)"
    and post: "serve_post (hmem s) (kheap s) (l @ [c]) ?n d mem' heap' cs'"
    by (rule kmalloc_no_growth [OF inv lock sz(1) refl sv]) (use sz(2) in simp_all)
  have "served (l @ [c]) ?n d cs'" using post by (simp add: serve_post_def)
  then obtain l' r' where d: "l @ [c] = l' @ [d] @ r'" "cfree d"
    "csize d = ?n \<and> r' \<noteq> [] \<and> cs' = l' @ [d\<lparr>cfree := False\<rparr>] @ r' \<or> ?n + 32 \<le> csize d \<and> cs' = l' @ [first_part ?n d, second_part ?n d] @ r'"
    by (auto simp: served_def)
  have "r' = []"
  proof (rule ccontr)
    assume "r' \<noteq> []"
    then have "l = l' @ [d] @ butlast r'" using d(1) by (metis butlast_append butlast_snoc append_is_Nil_conv)
    then show False using full d(2) by auto
  qed
  then have "d = c" "cs' = l @ [first_part ?n c, second_part ?n c]" using d by auto
  then show ?thesis
    using km serve_post_inv(1) [OF post inv, of "s\<lparr>hmem := mem', kheap := heap'\<rparr>"] lock
    by (intro that [of "s\<lparr>hmem := mem', kheap := heap'\<rparr>"]) simp_all
qed

text \<open>Two blocks are taken from the example heap and the first one is given back.\<close>

definition ex1 :: "(unit, unit) heap_state" where
  "ex1 = get_state ex0 (map_sum id snd (kmalloc ex_no_expand 32 ex0))"

definition ex2 :: "(unit, unit) heap_state" where
  "ex2 = get_state ex0 (map_sum id snd (kmalloc ex_no_expand 16 ex1))"

definition ex3 :: "(unit, unit) heap_state" where
  "ex3 = get_state ex0 (kfree 65544 ex2)"

definition ex_a :: chunk where
  "ex_a = \<lparr>caddr = 65536, csize = 32, cfree = False\<rparr>"

definition ex_b :: chunk where
  "ex_b = \<lparr>caddr = 65584, csize = 16, cfree = False\<rparr>"

definition ex_w :: chunk where
  "ex_w = \<lparr>caddr = 65616, csize = 8096, cfree = True\<rparr>"

lemmas ex_chunk_defs = ex_a_def ex_b_def ex_w_def ex_chunk_def first_part_def second_part_def

lemma ex1_inv: "heap_inv ex1 [ex_a, second_part 32 ex_chunk]" "\<not> kheap_lock ex1"
proof -
  obtain s' where "kmalloc ex_no_expand 32 ex0 = Inr (of_nat (caddr ex_chunk + 8), s')"
    "heap_inv s' ([] @ [first_part (rnd (unat (32 :: u64))) ex_chunk, second_part (rnd (unat (32 :: u64))) ex_chunk])" "\<not> kheap_lock s'"
    by (rule kmalloc_from_wilderness [of ex0 "[]" ex_chunk 32 ex_no_expand])
      (use ex0_inv in \<open>auto simp: rnd_examples ex_chunk_def\<close>)
  then show "heap_inv ex1 [ex_a, second_part 32 ex_chunk]" "\<not> kheap_lock ex1"
    by (simp_all add: ex1_def get_state_def rnd_examples ex_chunk_defs)
qed

lemma ex2_inv: "heap_inv ex2 [ex_a, ex_b, ex_w]" "\<not> kheap_lock ex2"
proof -
  obtain s' where "kmalloc ex_no_expand 16 ex1 = Inr (of_nat (caddr (second_part 32 ex_chunk) + 8), s')"
    "heap_inv s' ([ex_a] @ [first_part (rnd (unat (16 :: u64))) (second_part 32 ex_chunk), second_part (rnd (unat (16 :: u64))) (second_part 32 ex_chunk)])" "\<not> kheap_lock s'"
    by (rule kmalloc_from_wilderness [of ex1 "[ex_a]" "second_part 32 ex_chunk" 16 ex_no_expand])
      (use ex1_inv in \<open>auto simp: rnd_examples ex_chunk_defs\<close>)
  then show "heap_inv ex2 [ex_a, ex_b, ex_w]" "\<not> kheap_lock ex2"
    by (simp_all add: ex2_def get_state_def rnd_examples ex_chunk_defs)
qed

lemma ex3_inv: "heap_inv ex3 [ex_a\<lparr>cfree := True\<rparr>, ex_b, ex_w]" "\<not> kheap_lock ex3"
proof -
  obtain mem' heap' where "kfree (of_nat (caddr ex_a + 8)) ex2 = Inr (ex2\<lparr>hmem := mem', kheap := heap'\<rparr>)"
    "heap_inv (ex2\<lparr>hmem := mem', kheap := heap'\<rparr>) (freed [] ex_a [ex_b, ex_w])"
    by (rule kfree_effect [of ex2 "[]" ex_a "[ex_b, ex_w]"]) (use ex2_inv in \<open>auto simp: ex_a_def\<close>)
  moreover have "freed [] ex_a [ex_b, ex_w] = [ex_a\<lparr>cfree := True\<rparr>, ex_b, ex_w]"
    by (simp add: freed_def ex_b_def)
  ultimately show "heap_inv ex3 [ex_a\<lparr>cfree := True\<rparr>, ex_b, ex_w]" "\<not> kheap_lock ex3"
    using ex2_inv(2) by (simp_all add: ex3_def get_state_def ex_a_def)
qed

section \<open>Properties\<close>

text \<open>
  C11. Allocation. On a heap that satisfies the invariant, for a request of at most \<open>2^62\<close> bytes, when every chunk
  that the search accepts fits exactly or is large enough to be split (otherwise \<open>kmalloc\<close> may return a free
  chunk, as another theorem shows) and the wilderness has room for the request and 32 bytes, \<open>kmalloc\<close> returns an 8-byte aligned pointer to a new
  block at least as long as the request. The set of blocks in use grows by exactly this block, it
  overlaps no other, the data of the other blocks is untouched, and the heap invariant holds again.
\<close>

theorem kmalloc_refines:
  fixes s :: "('h, 'v) heap_state"
  assumes "heap_inv s cs" and "\<not> kheap_lock s" and "unat sz \<le> 4611686018427387904"
    and "servable cs (rnd (unat sz))" and "rnd (unat sz) + 32 \<le> csize (last cs)"
  shows "\<exists>p s' cs'. kmalloc expand sz s = Inr (p, s') \<and> heap_inv s' cs' \<and> \<not> kheap_lock s' \<and> vmem s' = vmem s \<and>
    used cs' = insert (unat p, rnd (unat sz)) (used cs) \<and> unat sz \<le> rnd (unat sz) \<and> 8 dvd unat p \<and>
    (\<forall>j. (unat p, j) \<notin> used cs) \<and> blocks_apart (used cs') \<and> keeps_data (used cs) (hmem s) (hmem s')"
proof -
  obtain p s' cs' where *: "kmalloc expand sz s = Inr (p, s')" "heap_inv s' cs'" "\<not> kheap_lock s'" "vmem s' = vmem s"
    "used cs' = insert (unat p, rnd (unat sz)) (used cs)" "\<forall>j. (unat p, j) \<notin> used cs" "8 dvd unat p"
    "keeps_data (used cs) (hmem s) (hmem s')"
    using kmalloc_law [OF assms] by blast
  moreover have "blocks_apart (used cs')" using *(2) by (auto simp: heap_inv_def dest: heap_wf_blocks_apart)
  ultimately show ?thesis using rnd_facts(3) by blast
qed

theorem kmalloc_refines_witness:
  "\<exists>p s' cs'. kmalloc ex_no_expand 100 ex3 = Inr (p, s') \<and> heap_inv s' cs' \<and> \<not> kheap_lock s' \<and> vmem s' = vmem ex3 \<and>
    used cs' = insert (unat p, 104) (used [ex_a\<lparr>cfree := True\<rparr>, ex_b, ex_w]) \<and> (100 :: nat) \<le> 104 \<and> 8 dvd unat p \<and>
    (\<forall>j. (unat p, j) \<notin> used [ex_a\<lparr>cfree := True\<rparr>, ex_b, ex_w]) \<and> blocks_apart (used cs') \<and>
    keeps_data (used [ex_a\<lparr>cfree := True\<rparr>, ex_b, ex_w]) (hmem ex3) (hmem s')"
proof -
  have r: "rnd (unat (100 :: u64)) = 104" and u: "unat (100 :: u64) = 100" by (simp_all add: rnd_def)
  have h: "unat (100 :: u64) \<le> 4611686018427387904" "servable [ex_a\<lparr>cfree := True\<rparr>, ex_b, ex_w] (rnd (unat (100 :: u64)))"
    "rnd (unat (100 :: u64)) + 32 \<le> csize (last [ex_a\<lparr>cfree := True\<rparr>, ex_b, ex_w])"
    by (simp_all only: r) (simp_all add: servable_def ex_chunk_defs bidx_def get_bucket_index_from_size_def)
  show ?thesis
    using kmalloc_refines [OF ex3_inv h, of ex_no_expand] unfolding r unfolding u .
qed

text \<open>
  C12. Freeing. On a heap that satisfies the invariant, \<open>kfree\<close> of a block in use always returns; the set
  of blocks in use loses exactly this block, the data of the others is untouched, and the invariant
  holds again, so the freed chunk has been merged with its free neighbours.
\<close>

theorem kfree_refines:
  fixes s :: "('h, 'v) heap_state"
  assumes "heap_inv s cs" and "\<not> kheap_lock s" and "(unat p, k) \<in> used cs"
  shows "\<exists>s' cs'. kfree p s = Inr s' \<and> heap_inv s' cs' \<and> \<not> kheap_lock s' \<and> vmem s' = vmem s \<and>
    used cs' = used cs - {(unat p, k)} \<and> keeps_data (used cs') (hmem s) (hmem s')"
  using kfree_law [OF assms] .

theorem kfree_refines_witness:
  "\<exists>s' cs'. kfree 65544 ex2 = Inr s' \<and> heap_inv s' cs' \<and> \<not> kheap_lock s' \<and> vmem s' = vmem ex2 \<and>
    used cs' = used [ex_a, ex_b, ex_w] - {(65544, 32)} \<and> keeps_data (used cs') (hmem ex2) (hmem s')"
  using kfree_refines [OF ex2_inv, of 65544 32] by (simp add: ex_chunk_defs)

text \<open>
  C13. For a request that the heap can serve (at most \<open>2^62\<close> bytes, every chunk that the search accepts is large
  enough to be split or fits exactly, and the wilderness has room for the request and 32 bytes), allocating a
  block and freeing it again brings the set of blocks in use back and keeps the data of all of them: no block
  is lost and none is created.
\<close>

theorem kmalloc_kfree_roundtrip:
  fixes s :: "('h, 'v) heap_state"
  assumes "heap_rel s U" and "heap_ok sz s"
  shows "\<exists>p s1 s2. kmalloc expand sz s = Inr (p, s1) \<and> kfree p s1 = Inr s2 \<and> heap_rel s2 U \<and>
    keeps_data U (hmem s) (hmem s2)"
  by (rule kh.alloc_then_free [OF assms])

theorem kmalloc_kfree_roundtrip_witness:
  "\<exists>p s1 s2. kmalloc ex_no_expand 48 ex2 = Inr (p, s1) \<and> kfree p s1 = Inr s2 \<and> heap_rel s2 {(65544, 32), (65592, 16)} \<and>
    keeps_data {(65544, 32), (65592, 16)} (hmem ex2) (hmem s2)"
proof (rule kmalloc_kfree_roundtrip)
  show "heap_rel ex2 {(65544, 32), (65592, 16)}"
    using ex2_inv unfolding heap_rel_def by (intro conjI exI [of _ "[ex_a, ex_b, ex_w]"]) (auto simp: ex_chunk_defs)
  show "heap_ok 48 ex2"
    using ex2_inv(1) unfolding heap_ok_def
    by (intro conjI exI [of _ "[ex_a, ex_b, ex_w]"]) (auto simp: ex_chunk_defs servable_def rnd_def)
qed

text \<open>
  C33. Initialisation. For an aligned region of more than 128 bytes, \<open>initialize_heap\<close> returns and
  makes the region one free chunk, the wilderness: the invariant holds, no block is in use, growth is
  off, and no cell outside the region is written.
\<close>

theorem initialize_heap_correct:
  fixes s :: "('h, 'v) heap_state"
  assumes "0 < unat (get_vmem_addr (vmem s) vm)" and "8 dvd unat (get_vmem_addr (vmem s) vm)"
    and "8 dvd unat (get_vmem_size (vmem s) vm)" and "128 < unat (get_vmem_size (vmem s) vm)"
    and "unat (get_vmem_addr (vmem s) vm) + unat (get_vmem_size (vmem s) vm) < 18446744073709551616"
    and "unat (get_vmem_size (vmem s) vm) < 9223372036854775808"
  shows "\<exists>mem' heap' c. initialize_heap get_vmem_addr get_vmem_size vm s = Inr (s\<lparr>hmem := mem', kheap := heap'\<rparr>) \<and>
    heap_inv (s\<lparr>hmem := mem', kheap := heap'\<rparr>) [c] \<and> used [c] = {} \<and> \<not> enable_growth heap' \<and>
    csize c + 16 = unat (get_vmem_size (vmem s) vm) \<and>
    (\<forall>n < 18446744073709551616. n < unat (get_vmem_addr (vmem s) vm) \<or>
       unat (get_vmem_addr (vmem s) vm) + unat (get_vmem_size (vmem s) vm) \<le> n \<longrightarrow> mem' (of_nat n) = hmem s (of_nat n))"
proof -
  let ?c = "\<lparr>caddr = unat (get_vmem_addr (vmem s) vm), csize = unat (get_vmem_size (vmem s) vm) - 16, cfree = True\<rparr>"
  obtain mem' heap' B where *: "initialize_heap get_vmem_addr get_vmem_size vm s = Inr (s\<lparr>hmem := mem', kheap := heap'\<rparr>)"
    "heap_wf mem' heap' [?c] {} B" "heap_frame [?c] (hmem s) mem'" "number_of_chunks heap' = 1" "\<not> enable_growth heap'"
    by (rule wf_initialize [of "get_vmem_addr (vmem s) vm" get_vmem_addr s vm "get_vmem_size (vmem s) vm" get_vmem_size ?c,
          OF refl assms(1,2) refl assms(3-6) refl])
  have "mem' (of_nat n) = hmem s (of_nat n)" if "n < 18446744073709551616" "n < unat (get_vmem_addr (vmem s) vm) \<or>
       unat (get_vmem_addr (vmem s) vm) + unat (get_vmem_size (vmem s) vm) \<le> n" for n
    using *(3) that assms(4) by (auto simp: heap_frame_def free_region_def)
  moreover have "heap_inv (s\<lparr>hmem := mem', kheap := heap'\<rparr>) [?c]" using *(2,4) by (auto simp: heap_inv_def)
  ultimately show ?thesis using *(1,5) assms(4) by (intro exI [of _ mem'] exI [of _ heap'] exI [of _ ?c]) simp
qed

theorem initialize_heap_correct_witness:
  "\<exists>mem' heap' c. initialize_heap (\<lambda>_ _. 65536) (\<lambda>_ _. 8192) () ex_zero = Inr (ex_zero\<lparr>hmem := mem', kheap := heap'\<rparr>) \<and>
    heap_inv (ex_zero\<lparr>hmem := mem', kheap := heap'\<rparr>) [c] \<and> used [c] = {} \<and> \<not> enable_growth heap' \<and> csize c + 16 = 8192 \<and>
    (\<forall>n < 18446744073709551616. n < 65536 \<or> 73728 \<le> n \<longrightarrow> mem' (of_nat n) = hmem ex_zero (of_nat n))"
  using initialize_heap_correct [of "\<lambda>_ _. 65536" ex_zero "()" "\<lambda>_ _. 8192"] by simp

text \<open>
  C35. A chunk that the search accepts but that cannot be split is handed out while it stays free.
  If the only free chunk beside the wilderness has between 32 and \<open>n + 31\<close> bytes, in a bucket that the
  search for \<open>n\<close> bytes visits, \<open>kmalloc\<close> returns a pointer into it and leaves the heap exactly as it was.
  The next call therefore returns the same pointer again: two callers share one block, which may
  also be shorter than what they asked for.
\<close>

theorem kmalloc_returns_free_chunk:
  fixes s :: "('h, 'v) heap_state"
  assumes inv: "heap_inv s cs" and lock: "\<not> kheap_lock s" and sz: "unat sz \<le> 4611686018427387904"
    and c: "c \<in> set cs" "cfree c" "c \<noteq> last cs" "\<forall>d \<in> set cs. cfree d \<longrightarrow> d = c \<or> d = last cs"
    and tight: "32 \<le> csize c" "csize c \<noteq> rnd (unat sz)" "csize c < rnd (unat sz) + 32"
      "bidx False (rnd (unat sz)) \<le> bidx False (csize c)" "bidx False (csize c) < 127"
  shows "kmalloc expand sz s = Inr (of_nat (caddr c + 8), s) \<and> (\<forall>k. (caddr c + 8, k) \<notin> used cs)"
proof -
  let ?n = "rnd (unat sz)"
  obtain B where wf: "heap_wf (hmem s) (kheap s) cs {} B" using inv by (auto simp: heap_inv_def)
  note rf = rnd_facts [of "unat sz"]
  have cand: "candidate cs (bidx False ?n) ?n c" using c tight by (simp add: candidate_def)
  obtain d where d: "d \<in> set cs" "cfree d" and min: "bidx (d = last cs) (csize d) \<le> bidx (c = last cs) (csize c)"
    and km: "kmalloc expand sz s =
      kbind (if d \<noteq> last cs then serve_chunk (of_nat ?n) (of_nat (caddr d)) (s\<lparr>kheap_lock := True\<rparr>)
             else serve_wilderness expand (of_nat ?n) (of_nat (caddr d)) (s\<lparr>kheap_lock := True\<rparr>))
        (\<lambda>s1. Inr (of_nat (caddr d + 8), s1\<lparr>kheap_lock := False\<rparr>))"
    by (rule kmalloc_found [OF wf lock sz refl]) (use cand in blast)
  have "d = c" using c(3,4) d min tight(5) by (auto simp: bidx_def)
  have ref: "split_chunk_and_alloc (hmem s) (kheap s) (of_nat (caddr c)) (of_nat ?n) = Inr (False, hmem s, kheap s)"
    using split_refused [OF wf c(1,2) rf(1,2)] rf(4) [OF sz] tight(3) by simp
  have b: "csize c < 18446744073709551616" "?n < 18446744073709551616"
    using region_chunk(3) [OF heap_wf_region [OF wf] c(1)] rf(4) [OF sz] by simp_all
  have "(32 :: u64) \<le> of_nat (csize c)" "(of_nat (csize c) :: u64) \<noteq> of_nat ?n"
    using tight(1,2) b by (simp_all add: word_le_nat_alt unat_of_nat_u64 of_nat_inj_u64 del: unat_of_nat)
  then have "serve_chunk (of_nat ?n) (of_nat (caddr c)) (s\<lparr>kheap_lock := True\<rparr>) = Inr (s\<lparr>kheap_lock := True\<rparr>)"
    using ref heap_wf_chunk_facts(1) [OF wf c(1)] by (simp add: serve_chunk_def)
  moreover have "(caddr c + 8, k) \<notin> used cs" for k
    using region_caddr_eq [OF heap_wf_region [OF wf] c(1)] c(2) by (auto simp: used_def)
  ultimately show ?thesis using km \<open>d = c\<close> c(3) lock by simp
qed

theorem kmalloc_returns_free_chunk_witness:
  "kmalloc ex_no_expand 24 ex3 = Inr (65544, ex3) \<and>
   (\<forall>k. (65544, k) \<notin> used [ex_a\<lparr>cfree := True\<rparr>, ex_b, ex_w])"
proof -
  have r: "rnd (unat (24 :: u64)) = 24" by (simp add: rnd_def)
  have "kmalloc ex_no_expand 24 ex3 = Inr (of_nat (caddr (ex_a\<lparr>cfree := True\<rparr>) + 8), ex3) \<and>
      (\<forall>k. (caddr (ex_a\<lparr>cfree := True\<rparr>) + 8, k) \<notin> used [ex_a\<lparr>cfree := True\<rparr>, ex_b, ex_w])"
    by (rule kmalloc_returns_free_chunk [OF ex3_inv])
      (simp_all only: r, simp_all add: ex_chunk_defs bidx_def get_bucket_index_from_size_def)
  then show ?thesis by (simp add: ex_a_def)
qed

text \<open>
  C36. Freeing a chunk that is already free, the wilderness included, stops the kernel with
  \<open>HEAP_CORRUPTED\<close> and never touches the free lists.
\<close>

theorem kfree_double_free_panics:
  fixes s :: "('h, 'v) heap_state"
  assumes "heap_inv s cs" and "\<not> kheap_lock s" and "c \<in> set cs" and "cfree c"
  shows "kfree (of_nat (caddr c + 8)) s = Inl (Panic HEAP_CORRUPTED)"
proof -
  obtain B where wf: "heap_wf (hmem s) (kheap s) cs {} B" using assms(1) by (auto simp: heap_inv_def)
  show ?thesis
    using assms(2,4) heap_wf_chunk_facts(2) [OF wf assms(3)]
    by (simp add: kfree_def Let_def get_heap_chunk_from_user_data_def of_nat_add kpanic_def)
qed

theorem kfree_double_free_panics_witness:
  "kfree 65544 ex3 = Inl (Panic HEAP_CORRUPTED)"
  using kfree_double_free_panics [OF ex3_inv, of "ex_a\<lparr>cfree := True\<rparr>"] by (simp add: ex_a_def)

text \<open>
  C37. The consistency check accepts every heap that satisfies the invariant and starts and ends at a
  page boundary; it terminates and changes nothing.
\<close>

theorem is_kheap_corrupted_accepts:
  fixes s :: "('h, 'v) heap_state"
  assumes "heap_inv s cs" and "\<not> kheap_lock s"
    and "page_aligned (heap_start (kheap s))" and "page_aligned (heap_size (kheap s))"
  shows "is_kheap_corrupted s = Inr (False, s)"
  by (rule heap_not_corrupted [OF assms])

theorem is_kheap_corrupted_accepts_witness: "is_kheap_corrupted ex0 = Inr (False, ex0)"
  by (rule is_kheap_corrupted_accepts [OF ex0_inv]) (simp_all add: ex0_pages)

lemma bucket_index_nat:
  "get_bucket_index_from_size sz =
     (if unat sz \<le> 512 then int (unat sz div 8) - 1
      else if unat sz \<le> 2560 then int (64 + (unat sz - 512) div 64)
      else int (min 127 (96 + (unat sz - 2560) div 512)))"
proof -
  have u: "uint w = int (unat w)" for w :: u64 by simp
  consider "unat sz \<le> 512" | "512 < unat sz" "unat sz \<le> 2560" | "2560 < unat sz" by linarith
  then show ?thesis
  proof cases
    case 1
    then show ?thesis by (simp add: get_bucket_index_from_size_def word_le_nat_alt u unat_div_distrib del: of_nat_unat)
  next
    case 2
    have s: "unat (sz - 512) = unat sz - 512" using 2 by (simp add: unat_sub word_le_nat_alt)
    have "unat (64 + (sz - 512) div 64) = 64 + (unat sz - 512) div 64"
      using 2 by (subst unat_add_u64) (simp_all add: unat_div_distrib s)
    then show ?thesis using 2 by (simp add: get_bucket_index_from_size_def word_le_nat_alt u del: of_nat_unat)
  next
    case 3
    have s: "unat (sz - 2560) = unat sz - 2560" using 3 by (simp add: unat_sub word_le_nat_alt)
    have "(unat sz - 2560) div 512 < 36028797018963968"
      using u64_bound [of sz] by (subst div_less_iff_less_mult) linarith+
    then have "unat (96 + (sz - 2560) div 512) = 96 + (unat sz - 2560) div 512"
      by (subst unat_add_u64) (simp_all add: unat_div_distrib s)
    then show ?thesis
      using 3 by (auto simp: get_bucket_index_from_size_def word_le_nat_alt u Let_def min_def simp del: of_nat_unat)
  qed
qed

text \<open>
  C34. The bucket of a size: every size the heap uses has a bucket inside the array, and larger sizes
  are never in an earlier bucket, so the upward search of \<open>kmalloc\<close> cannot miss a large enough chunk.
\<close>

theorem bucket_index_bounds_mono:
  assumes "8 \<le> unat a" and "a \<le> b"
  shows "0 \<le> get_bucket_index_from_size a \<and> get_bucket_index_from_size a \<le> get_bucket_index_from_size b \<and>
    get_bucket_index_from_size b < 128"
proof -
  have ab: "unat a \<le> unat b" using assms(2) by (simp add: word_le_nat_alt)
  then have "unat a div 8 \<le> unat b div 8" "(unat a - 512) div 64 \<le> (unat b - 512) div 64"
    "(unat a - 2560) div 512 \<le> (unat b - 2560) div 512" by (simp_all add: div_le_mono)
  moreover have "unat a \<le> 512 \<Longrightarrow> unat a div 8 \<le> 64" "unat a \<le> 2560 \<Longrightarrow> (unat a - 512) div 64 \<le> 32" by simp_all
  ultimately have "get_bucket_index_from_size a \<le> get_bucket_index_from_size b"
    using ab unfolding bucket_index_nat by (auto simp: min_def)
  then show ?thesis using bucket_index_range [of a] bucket_index_range [of b] assms(1) ab by simp
qed

theorem bucket_index_bounds_mono_witness:
  "0 \<le> get_bucket_index_from_size 512 \<and> get_bucket_index_from_size 512 \<le> get_bucket_index_from_size 20000 \<and>
    get_bucket_index_from_size 20000 < 128"
  by (rule bucket_index_bounds_mono) (simp_all add: word_le_nat_alt)

end
