(* ===== verification/Circular_Buffer.thy ===== *)
theory Circular_Buffer
  imports Kernel_Prelude
begin

text \<open>
  The byte ring of the console, kernel/util/circular_buffer.c. The structure holds the pointer to the
  bytes and the indices; the bytes are in a byte memory. The second section shows that a ring which is
  not full behaves as a queue of bytes, what a write to a full ring does, and that the loss of data is
  never recorded.
\<close>

section \<open>Operations\<close>

type_synonym bytes = "addr \<Rightarrow> u8"

record CircularBuffer =
  cb_buffer :: addr
  buffer_size :: u64
  read_idx :: u64
  old_write_idx :: u64
  write_idx :: u64
  data_lost :: bool

text \<open>
  The structure of \<open>make_circular_buffer\<close> is a local variable of which \<open>old_write_idx\<close> is not set:
  its indeterminate value is the argument \<open>garbage\<close>.
\<close>

definition make_circular_buffer ::
  "(u64 \<Rightarrow> 's \<Rightarrow> (addr \<times> 's) kres) \<Rightarrow> u64 \<Rightarrow> u64 \<Rightarrow> 's \<Rightarrow> (CircularBuffer \<times> 's) kres" where
  "make_circular_buffer kmalloc garbage size0 s =
     kbind (kmalloc size0 s) (\<lambda>(p, s1).
       Inr (\<lparr>cb_buffer = p, buffer_size = size0, read_idx = 0, old_write_idx = garbage, write_idx = 0,
             data_lost = False\<rparr>, s1))"

definition destory_circular_buffer ::
  "(addr \<Rightarrow> 's \<Rightarrow> 's kres) \<Rightarrow> CircularBuffer \<Rightarrow> 's \<Rightarrow> (CircularBuffer \<times> 's) kres" where
  "destory_circular_buffer kfree buff s =
     kbind (kfree (cb_buffer buff) s) (\<lambda>s1. Inr (buff\<lparr>cb_buffer := NULL\<rparr>, s1))"

definition is_circular_buffer_empty :: "CircularBuffer \<Rightarrow> bool" where
  "is_circular_buffer_empty buff \<longleftrightarrow> read_idx buff = write_idx buff"

text \<open>The remainder by a size of zero is not defined.\<close>

definition ring_next :: "CircularBuffer \<Rightarrow> u64 \<Rightarrow> u64 kres" where
  "ring_next buff i = (if buffer_size buff = 0 then Inl Undefined else Inr ((i + 1) mod buffer_size buff))"

definition write_circular_buffer :: "CircularBuffer \<Rightarrow> u8 \<Rightarrow> bytes \<Rightarrow> (CircularBuffer \<times> bytes) kres" where
  "write_circular_buffer buff b mem =
     (let lost = (data_lost buff \<or>
                  old_write_idx buff - 1 = read_idx buff \<and> write_idx buff = read_idx buff);
          mem1 = mem(cb_buffer buff + write_idx buff := b)
      in kbind (ring_next buff (write_idx buff)) (\<lambda>w.
           Inr (buff\<lparr>data_lost := lost, old_write_idx := write_idx buff, write_idx := w\<rparr>, mem1)))"

definition read_circular_buffer :: "CircularBuffer \<Rightarrow> bytes \<Rightarrow> (u8 \<times> CircularBuffer) kres" where
  "read_circular_buffer buff mem =
     kassert (\<not> is_circular_buffer_empty buff)
       (let b = mem (cb_buffer buff + read_idx buff)
        in kbind (ring_next buff (read_idx buff)) (\<lambda>r. Inr (b, buff\<lparr>read_idx := r\<rparr>)))"

definition has_circular_buffer_lost_data :: "CircularBuffer \<Rightarrow> bool \<times> CircularBuffer" where
  "has_circular_buffer_lost_data buff = (data_lost buff, buff\<lparr>data_lost := False\<rparr>)"

definition circular_buffer_written_bytes :: "CircularBuffer \<Rightarrow> u64" where
  "circular_buffer_written_bytes buff =
     (if write_idx buff > read_idx buff then write_idx buff - read_idx buff
      else buffer_size buff - read_idx buff + write_idx buff)"

section \<open>The ring as a queue\<close>

text \<open>The indices are within the ring; the bytes from the read index on, as many as are stored.\<close>

definition ring_ok :: "CircularBuffer \<Rightarrow> bool" where
  "ring_ok buff \<longleftrightarrow> 1 < unat (buffer_size buff) \<and> unat (read_idx buff) < unat (buffer_size buff) \<and>
     unat (write_idx buff) < unat (buffer_size buff)"

definition ring_length :: "CircularBuffer \<Rightarrow> nat" where
  "ring_length buff =
     (unat (write_idx buff) + unat (buffer_size buff) - unat (read_idx buff)) mod unat (buffer_size buff)"

definition ring_byte :: "CircularBuffer \<Rightarrow> bytes \<Rightarrow> nat \<Rightarrow> u8" where
  "ring_byte buff mem k =
     mem (cb_buffer buff + of_nat ((unat (read_idx buff) + k) mod unat (buffer_size buff)))"

definition ring_contents :: "CircularBuffer \<Rightarrow> bytes \<Rightarrow> u8 list" where
  "ring_contents buff mem = map (ring_byte buff mem) [0..<ring_length buff]"

lemma length_ring_contents [simp]: "length (ring_contents buff mem) = ring_length buff"
  by (simp add: ring_contents_def)

lemma ring_next_Inr:
  assumes "ring_ok buff" and "unat i < unat (buffer_size buff)"
  shows "\<exists>w. ring_next buff i = Inr w \<and> unat w = (unat i + 1) mod unat (buffer_size buff)"
proof -
  have "unat i + 1 < 18446744073709551616" using assms(2) u64_bound [of "buffer_size buff"] by linarith
  then have "unat (i + 1) = unat i + 1" by (simp add: unat_add_u64)
  moreover have "buffer_size buff \<noteq> 0" using assms by (auto simp: ring_ok_def)
  ultimately show ?thesis by (simp add: ring_next_def unat_mod_distrib)
qed

lemma ring_length_less: "ring_ok buff \<Longrightarrow> ring_length buff < unat (buffer_size buff)"
  by (simp add: ring_ok_def ring_length_def)

text \<open>Stepping an index around a ring of \<open>n\<close> cells.\<close>

lemma ring_distance_write:
  fixes w r n :: nat
  assumes "w < n" and "r < n"
  shows "((w + 1) mod n + n - r) mod n = ((w + n - r) mod n + 1) mod n"
proof -
  have "((w + 1) mod n + n - r) mod n = ((w + 1) mod n + (n - r)) mod n" using assms by simp
  also have "\<dots> = (w + 1 + (n - r)) mod n" by (rule mod_add_left_eq)
  also have "\<dots> = (w + n - r + 1) mod n" using assms by simp
  also have "\<dots> = ((w + n - r) mod n + 1) mod n" by (rule mod_add_left_eq [symmetric])
  finally show ?thesis .
qed

lemma ring_distance_back:
  fixes w r n :: nat
  assumes "w < n" and "r < n"
  shows "(r + (w + n - r) mod n) mod n = w"
proof -
  have "(r + (w + n - r) mod n) mod n = (r + (w + n - r)) mod n" by (rule mod_add_right_eq)
  also have "\<dots> = w" using assms by simp
  finally show ?thesis .
qed

lemma ring_empty_iff:
  assumes "ring_ok buff"
  shows "ring_contents buff mem = [] \<longleftrightarrow> is_circular_buffer_empty buff"
proof
  assume "ring_contents buff mem = []"
  then have "ring_length buff = 0" by (metis length_ring_contents list.size(3))
  then have "unat (write_idx buff) = unat (read_idx buff)"
    using ring_distance_back [of "unat (write_idx buff)" "unat (buffer_size buff)" "unat (read_idx buff)"] assms
    by (simp add: ring_length_def ring_ok_def)
  then show "is_circular_buffer_empty buff" by (simp add: is_circular_buffer_empty_def word_unat_eq_iff)
qed (simp add: is_circular_buffer_empty_def ring_contents_def ring_length_def)

lemma ring_distance_read:
  fixes w r n :: nat
  assumes "w < n" and "r < n" and "(w + n - r) mod n \<noteq> 0"
  shows "(w + n - (r + 1) mod n) mod n = (w + n - r) mod n - 1"
proof (cases "r + 1 = n")
  case True
  then show ?thesis using assms by (cases "w = r") (auto simp: mod_if)
next
  case False
  then have "r + 1 < n" using assms by simp
  then show ?thesis using assms by (auto simp: mod_if split: if_splits)
qed

lemma ring_slots_apart:
  fixes k n :: nat
  assumes "j < k" and "k < n" and "n \<le> 18446744073709551616"
  shows "(b :: u64) + of_nat ((r + j) mod n) \<noteq> b + of_nat ((r + k) mod n)"
proof
  assume "b + of_nat ((r + j) mod n) = b + of_nat ((r + k) mod n)"
  then have "unat (of_nat ((r + j) mod n) :: u64) = unat (of_nat ((r + k) mod n) :: u64)" by simp
  moreover have "(r + j) mod n < 18446744073709551616" "(r + k) mod n < 18446744073709551616"
    using assms mod_less_divisor [of n "r + j"] mod_less_divisor [of n "r + k"] by linarith+
  ultimately have "(r + j) mod n = (r + k) mod n" by (simp add: unat_of_nat_u64 del: unat_of_nat)
  then have "n dvd (r + k) - (r + j)" using assms(1) by (intro mod_eq_dvd_iff_nat [THEN iffD1]) simp_all
  then show False using assms dvd_imp_le [of n "k - j"] by simp
qed


lemma ring_write:
  assumes ok: "ring_ok buff"
  obtains buff' where
    "write_circular_buffer buff b mem = Inr (buff', mem(cb_buffer buff + write_idx buff := b))"
    and "ring_ok buff'" and "cb_buffer buff' = cb_buffer buff" and "buffer_size buff' = buffer_size buff"
    and "read_idx buff' = read_idx buff" and "old_write_idx buff' = write_idx buff"
    and "ring_length buff' = (ring_length buff + 1) mod unat (buffer_size buff)"
    and "data_lost buff' = (data_lost buff \<or> old_write_idx buff - 1 = read_idx buff \<and> write_idx buff = read_idx buff)"
    and "unat (write_idx buff') = (unat (write_idx buff) + 1) mod unat (buffer_size buff)"
proof -
  obtain w where w: "ring_next buff (write_idx buff) = Inr w"
    "unat w = (unat (write_idx buff) + 1) mod unat (buffer_size buff)"
    using ring_next_Inr [OF ok, of "write_idx buff"] ok by (auto simp: ring_ok_def)
  let ?lost = "data_lost buff \<or> old_write_idx buff - 1 = read_idx buff \<and> write_idx buff = read_idx buff"
  have "((unat w) + unat (buffer_size buff) - unat (read_idx buff)) mod unat (buffer_size buff) =
    (ring_length buff + 1) mod unat (buffer_size buff)"
    using ok w(2) by (simp only: ring_length_def ring_ok_def ring_distance_write)
  then show ?thesis
    by (intro that [of "buff\<lparr>data_lost := ?lost, old_write_idx := write_idx buff, write_idx := w\<rparr>"])
      (use ok w in \<open>simp_all add: write_circular_buffer_def ring_ok_def ring_length_def Let_def\<close>)
qed

lemma ring_write_contents:
  assumes ok: "ring_ok buff" and room: "ring_length buff + 1 < unat (buffer_size buff)"
  shows "\<exists>buff' mem'. write_circular_buffer buff b mem = Inr (buff', mem') \<and> ring_ok buff' \<and>
    ring_contents buff' mem' = ring_contents buff mem @ [b] \<and> buffer_size buff' = buffer_size buff"
proof -
  obtain buff' where wr: "write_circular_buffer buff b mem = Inr (buff', mem(cb_buffer buff + write_idx buff := b))"
    and ok': "ring_ok buff'"
    and eq: "cb_buffer buff' = cb_buffer buff" "buffer_size buff' = buffer_size buff" "read_idx buff' = read_idx buff"
    and len: "ring_length buff' = (ring_length buff + 1) mod unat (buffer_size buff)"
    by (rule ring_write [OF ok])
  let ?n = "unat (buffer_size buff)" and ?r = "unat (read_idx buff)" and ?k = "ring_length buff"
  let ?mem = "mem(cb_buffer buff + write_idx buff := b)"
  have slot: "of_nat ((?r + ?k) mod ?n) = write_idx buff"
    using ok by (simp add: ring_length_def ring_ok_def ring_distance_back)
  have last: "ring_byte buff' ?mem ?k = b" using eq slot by (simp add: ring_byte_def)
  have old: "ring_byte buff' ?mem j = ring_byte buff mem j" if "j < ?k" for j
    using ring_slots_apart [of j ?k ?n "cb_buffer buff" ?r] that room slot eq u64_bound [of "buffer_size buff"]
    by (simp add: ring_byte_def)
  have "ring_contents buff' ?mem = ring_contents buff mem @ [b]"
    using room len last old by (simp add: ring_contents_def)
  then show ?thesis using wr ok' eq by blast
qed

lemma ring_read_contents:
  assumes ok: "ring_ok buff" and ne: "ring_contents buff mem \<noteq> []"
  shows "\<exists>b buff'. read_circular_buffer buff mem = Inr (b, buff') \<and> ring_ok buff' \<and>
    ring_contents buff mem = b # ring_contents buff' mem \<and> buffer_size buff' = buffer_size buff"
proof -
  let ?n = "unat (buffer_size buff)" and ?r = "unat (read_idx buff)" and ?k = "ring_length buff"
  have k: "0 < ?k" using ne by (simp add: ring_contents_def)
  obtain r' where r': "ring_next buff (read_idx buff) = Inr r'" "unat r' = (?r + 1) mod ?n"
    using ring_next_Inr [OF ok, of "read_idx buff"] ok by (auto simp: ring_ok_def)
  let ?b = "mem (cb_buffer buff + read_idx buff)" and ?buff = "buff\<lparr>read_idx := r'\<rparr>"
  have "\<not> is_circular_buffer_empty buff" using k ok by (auto simp: is_circular_buffer_empty_def ring_length_def)
  then have rd: "read_circular_buffer buff mem = Inr (?b, ?buff)"
    using r' by (simp add: read_circular_buffer_def)
  have ok': "ring_ok ?buff" using ok r' by (auto simp: ring_ok_def)
  have len: "ring_length ?buff = ?k - 1"
    using ok k r' ring_distance_read [of "unat (write_idx buff)" ?n ?r] by (simp add: ring_length_def ring_ok_def)
  have byte: "ring_byte ?buff mem j = ring_byte buff mem (Suc j)" for j
    using r' by (simp add: ring_byte_def mod_add_left_eq)
  have first: "ring_byte buff mem 0 = ?b" using ok by (simp add: ring_byte_def ring_ok_def)
  have "[0..<?k] = 0 # map Suc [0..<?k - 1]" using k by (simp add: map_Suc_upt upt_conv_Cons)
  then have "ring_contents buff mem = ?b # ring_contents ?buff mem"
    using first byte len by (simp add: ring_contents_def comp_def)
  then show ?thesis using rd ok' by auto
qed

section \<open>The contract of a queue of bytes\<close>

locale byte_queue =
  fixes enq :: "u8 \<Rightarrow> 'q \<Rightarrow> 'q kres"
    and deq :: "'q \<Rightarrow> (u8 \<times> 'q) kres"
    and contents :: "'q \<Rightarrow> u8 list"
    and capacity :: "'q \<Rightarrow> nat"
    and inv :: "'q \<Rightarrow> bool"
  assumes enq_law: "inv q \<Longrightarrow> length (contents q) < capacity q \<Longrightarrow>
      \<exists>q'. enq b q = Inr q' \<and> inv q' \<and> contents q' = contents q @ [b] \<and> capacity q' = capacity q"
    and deq_law: "inv q \<Longrightarrow> contents q \<noteq> [] \<Longrightarrow>
      \<exists>b q'. deq q = Inr (b, q') \<and> inv q' \<and> contents q = b # contents q' \<and> capacity q' = capacity q"
begin

lemma enq_all_contents:
  "inv q \<Longrightarrow> length (contents q) + length bs \<le> capacity q \<Longrightarrow>
   \<exists>q'. kfold enq bs q = Inr q' \<and> inv q' \<and> contents q' = contents q @ bs \<and> capacity q' = capacity q"
proof (induction bs arbitrary: q)
  case (Cons b bs)
  obtain q1 where q1: "enq b q = Inr q1" "inv q1" "contents q1 = contents q @ [b]" "capacity q1 = capacity q"
    using enq_law [OF Cons.prems(1), of b] Cons.prems(2) by auto
  then show ?case using Cons.IH [of q1] Cons.prems(2) by auto
qed simp

lemma deq_many_contents:
  "inv q \<Longrightarrow> n \<le> length (contents q) \<Longrightarrow>
   \<exists>q'. kcollect n deq q = Inr (take n (contents q), q') \<and> inv q' \<and> contents q' = drop n (contents q)"
proof (induction n arbitrary: q)
  case (Suc n)
  then have "contents q \<noteq> []" by auto
  then obtain b q1 where q1: "deq q = Inr (b, q1)" "inv q1" "contents q = b # contents q1"
    using deq_law [OF Suc.prems(1)] by blast
  then show ?case using Suc.IH [of q1] Suc.prems(2) by auto
qed simp

lemma enq_deq:
  assumes "inv q" and "contents q = []" and "length bs \<le> capacity q"
  shows "\<exists>q1 q2. kfold enq bs q = Inr q1 \<and> kcollect (length bs) deq q1 = Inr (bs, q2) \<and> inv q2 \<and> contents q2 = []"
proof -
  obtain q1 where q1: "kfold enq bs q = Inr q1" "inv q1" "contents q1 = bs"
    using enq_all_contents [of q bs] assms by auto
  then show ?thesis using deq_many_contents [of q1 "length bs"] by auto
qed

end

definition ring_enq :: "u8 \<Rightarrow> CircularBuffer \<times> bytes \<Rightarrow> (CircularBuffer \<times> bytes) kres" where
  "ring_enq b q = (case q of (buff, mem) \<Rightarrow> write_circular_buffer buff b mem)"

definition ring_deq :: "CircularBuffer \<times> bytes \<Rightarrow> (u8 \<times> CircularBuffer \<times> bytes) kres" where
  "ring_deq q = (case q of (buff, mem) \<Rightarrow>
     kbind (read_circular_buffer buff mem) (\<lambda>(b, buff1). Inr (b, buff1, mem)))"

definition ring_capacity :: "CircularBuffer \<times> bytes \<Rightarrow> nat" where
  "ring_capacity q = unat (buffer_size (fst q)) - 1"

interpretation cb: byte_queue ring_enq ring_deq "\<lambda>q. ring_contents (fst q) (snd q)" ring_capacity "\<lambda>q. ring_ok (fst q)"
proof
  fix q b
  assume "ring_ok (fst q)" "length (ring_contents (fst q) (snd q)) < ring_capacity q"
  then have "ring_length (fst q) + 1 < unat (buffer_size (fst q))" by (simp add: ring_capacity_def)
  with \<open>ring_ok (fst q)\<close> show "\<exists>q'. ring_enq b q = Inr q' \<and> ring_ok (fst q') \<and>
    ring_contents (fst q') (snd q') = ring_contents (fst q) (snd q) @ [b] \<and> ring_capacity q' = ring_capacity q"
    using ring_write_contents [of "fst q" b "snd q"] by (auto simp: ring_enq_def ring_capacity_def split: prod.splits)
next
  fix q
  assume "ring_ok (fst q)" "ring_contents (fst q) (snd q) \<noteq> []"
  then show "\<exists>b q'. ring_deq q = Inr (b, q') \<and> ring_ok (fst q') \<and>
    ring_contents (fst q) (snd q) = b # ring_contents (fst q') (snd q') \<and> ring_capacity q' = ring_capacity q"
    using ring_read_contents [of "fst q" "snd q"] by (auto simp: ring_deq_def ring_capacity_def split: prod.splits)
qed

section \<open>Properties\<close>

text \<open>
  C38. Bytes come out of the ring in the order in which they went in: writing at most
  \<open>buffer_size - 1\<close> bytes to an empty ring and reading as many returns the same bytes, and the ring is
  empty again.
\<close>

theorem circular_buffer_fifo:
  assumes "ring_ok buff" and "is_circular_buffer_empty buff" and "length bs < unat (buffer_size buff)"
  shows "\<exists>q1 q2. kfold ring_enq bs (buff, mem) = Inr q1 \<and> kcollect (length bs) ring_deq q1 = Inr (bs, q2) \<and>
    is_circular_buffer_empty (fst q2)"
proof -
  have "ring_contents buff mem = []"
    using assms(2) by (simp add: is_circular_buffer_empty_def ring_contents_def ring_length_def)
  moreover have "length bs \<le> ring_capacity (buff, mem)" using assms(3) by (simp add: ring_capacity_def)
  ultimately obtain q1 q2 where q: "kfold ring_enq bs (buff, mem) = Inr q1" "kcollect (length bs) ring_deq q1 = Inr (bs, q2)"
    "ring_ok (fst q2)" "ring_contents (fst q2) (snd q2) = []"
    using cb.enq_deq [of "(buff, mem)" bs] assms(1) by auto
  moreover have "is_circular_buffer_empty (fst q2)"
    using ring_empty_iff [OF q(3)] q(4) by simp
  ultimately show ?thesis by blast
qed

theorem circular_buffer_fifo_witness:
  "\<exists>q1 q2. kfold ring_enq [7, 8, 9]
     (\<lparr>cb_buffer = 4096, buffer_size = 4, read_idx = 2, old_write_idx = 1, write_idx = 2, data_lost = False\<rparr>, \<lambda>_. 0) = Inr q1 \<and>
   kcollect 3 ring_deq q1 = Inr ([7, 8, 9], q2) \<and> is_circular_buffer_empty (fst q2)"
  using circular_buffer_fifo [of "\<lparr>cb_buffer = 4096, buffer_size = 4, read_idx = 2, old_write_idx = 1, write_idx = 2,
      data_lost = False\<rparr>" "[7, 8, 9]" "\<lambda>_. 0"]
  by (simp add: ring_ok_def is_circular_buffer_empty_def numeral_3_eq_3 del: kfold.simps kcollect.simps)

text \<open>
  A write to a full ring empties it, and the count of stored bytes of the empty ring is its size.
  In a ring of more than two bytes no write that follows another one records that data was lost: the
  flag \<open>data_lost\<close> stays as it was.
\<close>

theorem circular_buffer_overflow:
  assumes ok: "ring_ok buff" and n: "2 < unat (buffer_size buff)"
    and w1: "write_circular_buffer buff b mem = Inr (buff1, mem1)"
    and w2: "write_circular_buffer buff1 c mem1 = Inr (buff2, mem2)"
  shows "data_lost buff2 = data_lost buff1 \<and>
    (ring_length buff + 1 = unat (buffer_size buff) \<longrightarrow>
       is_circular_buffer_empty buff1 \<and> circular_buffer_written_bytes buff1 = buffer_size buff)"
proof -
  let ?n = "unat (buffer_size buff)"
  obtain s1: "ring_ok buff1" "buffer_size buff1 = buffer_size buff" "read_idx buff1 = read_idx buff"
    "old_write_idx buff1 = write_idx buff" "ring_length buff1 = (ring_length buff + 1) mod ?n"
    "unat (write_idx buff1) = (unat (write_idx buff) + 1) mod ?n"
    by (rule ring_write [OF ok, of b mem]) (use w1 in auto)
  have lost: "data_lost buff2 \<longleftrightarrow> data_lost buff1 \<or> write_idx buff - 1 = read_idx buff \<and> write_idx buff1 = read_idx buff"
    by (rule ring_write [OF s1(1), of c mem1]) (use w2 s1 in auto)
  have "\<not> (write_idx buff - 1 = read_idx buff \<and> write_idx buff1 = read_idx buff)"
  proof (intro notI, elim conjE)
    assume e: "write_idx buff - 1 = read_idx buff" "write_idx buff1 = read_idx buff"
    have "write_idx buff = read_idx buff + 1" using e(1) by (simp add: algebra_simps)
    moreover have b: "unat (read_idx buff) + 1 < 18446744073709551616"
      using ok u64_bound [of "buffer_size buff"] unfolding ring_ok_def by linarith
    ultimately have "unat (write_idx buff) = unat (read_idx buff) + 1" by (simp add: unat_add_u64)
    then have "(unat (read_idx buff) + 2) mod ?n = unat (read_idx buff) mod ?n" using s1(6) e(2) ok by (simp add: ring_ok_def)
    then have "?n dvd 2" by (metis add_diff_cancel_left' le_add1 mod_eq_dvd_iff_nat)
    then show False using n dvd_imp_le [of ?n 2] by simp
  qed
  moreover have "is_circular_buffer_empty buff1 \<and> circular_buffer_written_bytes buff1 = buffer_size buff"
    if "ring_length buff + 1 = ?n"
  proof -
    have "ring_contents buff1 mem = []" using that s1(5) by (simp add: ring_contents_def)
    then have e: "is_circular_buffer_empty buff1" using ring_empty_iff [OF s1(1)] by blast
    then show ?thesis using s1(2) by (simp add: is_circular_buffer_empty_def circular_buffer_written_bytes_def)
  qed
  ultimately show ?thesis using lost by blast
qed

definition full_ring :: CircularBuffer where
  "full_ring = \<lparr>cb_buffer = 4096, buffer_size = 4, read_idx = 0, old_write_idx = 2, write_idx = 3, data_lost = False\<rparr>"

theorem circular_buffer_overflow_witness:
  "\<exists>buff1 mem1 buff2 mem2. write_circular_buffer full_ring 7 (\<lambda>_. 0) = Inr (buff1, mem1) \<and>
     write_circular_buffer buff1 8 mem1 = Inr (buff2, mem2) \<and> is_circular_buffer_empty buff1 \<and> \<not> data_lost buff2"
proof -
  let ?b1 = "full_ring\<lparr>old_write_idx := 3, write_idx := 0\<rparr>" and ?m1 = "(\<lambda>_. 0)(4099 := 7)"
  let ?b2 = "full_ring\<lparr>old_write_idx := 0, write_idx := 1\<rparr>" and ?m2 = "(\<lambda>_. 0)(4099 := 7, 4096 := 8)"
  have w: "write_circular_buffer full_ring 7 (\<lambda>_. 0) = Inr (?b1, ?m1)" "write_circular_buffer ?b1 8 ?m1 = Inr (?b2, ?m2)"
    by (simp_all add: full_ring_def write_circular_buffer_def ring_next_def Let_def)
  have "is_circular_buffer_empty ?b1 \<and> data_lost ?b2 = data_lost ?b1"
    using circular_buffer_overflow [OF _ _ w] by (simp add: full_ring_def ring_ok_def ring_length_def)
  then show ?thesis using w by (intro exI [of _ ?b1] exI [of _ ?m1] exI [of _ ?b2] exI [of _ ?m2]) (simp add: full_ring_def)
qed

end
