(* ===== verification/Psf.thy ===== *)
theory Psf
  imports Circular_Buffer
begin

text \<open>
  Pixels and colours (kernel/display_interface.h and .c), the bitmap font (kernel/psf.h and psf.c).
  The font file is linked into the kernel image: it is read from a byte memory between two addresses.
  The pixel buffer that glyphs are drawn into is a list; a store outside of it leaves defined
  behaviour.
\<close>

section \<open>Pixels and colours\<close>

record Pixel =
  px_b :: u8
  px_g :: u8
  px_r :: u8
  px_a :: u8

record Color =
  col_r :: u8
  col_g :: u8
  col_b :: u8
  col_a :: u8

definition color_to_pixel :: "Color \<Rightarrow> Pixel" where
  "color_to_pixel c = \<lparr>px_b = col_b c, px_g = col_g c, px_r = col_r c, px_a = col_a c\<rparr>"

definition pixel_to_color :: "Pixel \<Rightarrow> Color" where
  "pixel_to_color p = \<lparr>col_r = px_r p, col_g = px_g p, col_b = px_b p, col_a = px_a p\<rparr>"

section \<open>The font\<close>

abbreviation (input) PSF2_MAGIC_NUMBER :: u32 where
  "PSF2_MAGIC_NUMBER \<equiv> 0x864ab572"

record PSFHeader =
  psf_magic :: u32
  psf_version :: u32
  psf_headersize :: u32
  psf_flags :: u32
  psf_numglyph :: u32
  psf_bytesperglyph :: u32
  psf_height :: u32
  psf_width :: u32

text \<open>
  \<open>font_header\<close> is the structure that the header pointer points to. \<open>glyphs\<close> is the cache: \<open>None\<close> is
  the null pointer, otherwise one list of pixels, row after row, for each glyph.
\<close>

record PSFFont =
  font_header :: PSFHeader
  ascii_table :: "u16 list"
  is_valid :: bool
  has_table :: bool
  glyphs :: "bool list list option"

definition read_u32 :: "bytes \<Rightarrow> addr \<Rightarrow> u32" where
  "read_u32 mem a = ucast (mem a) OR push_bit 8 (ucast (mem (a + 1))) OR
     push_bit 16 (ucast (mem (a + 2))) OR push_bit 24 (ucast (mem (a + 3)))"

definition read_PSFHeader :: "bytes \<Rightarrow> addr \<Rightarrow> PSFHeader" where
  "read_PSFHeader mem a =
     \<lparr>psf_magic = read_u32 mem a, psf_version = read_u32 mem (a + 4), psf_headersize = read_u32 mem (a + 8),
      psf_flags = read_u32 mem (a + 12), psf_numglyph = read_u32 mem (a + 16),
      psf_bytesperglyph = read_u32 mem (a + 20), psf_height = read_u32 mem (a + 24),
      psf_width = read_u32 mem (a + 28)\<rparr>"

text \<open>The pixels of one glyph: the loops over \<open>y\<close> and \<open>x\<close> of \<open>calc_glyphs_caches\<close>.\<close>

definition glyph_pixels :: "bytes \<Rightarrow> PSFHeader \<Rightarrow> addr \<Rightarrow> bool list" where
  "glyph_pixels mem h glyph =
     (let line_in_bytes = (psf_width h + 7) div 8
      in concat (map (\<lambda>y. map (\<lambda>x.
           push_bit (x mod 8) (mem (glyph + of_nat y * ucast line_in_bytes + of_nat (x div 8))) AND 0x80 \<noteq> 0)
         [0..<unat (psf_width h)]) [0..<unat (psf_height h)]))"

definition calc_glyphs_caches ::
  "(u64 \<Rightarrow> 's \<Rightarrow> (addr \<times> 's) kres) \<Rightarrow> bytes \<Rightarrow> addr \<Rightarrow> PSFFont \<Rightarrow> 's \<Rightarrow> (PSFFont \<times> 's) kres" where
  "calc_glyphs_caches kmalloc mem start font s =
     (let h = font_header font;
          n = unat (psf_numglyph h);
          font_width = ucast (psf_width h) :: u64;
          font_height = ucast (psf_height h) :: u64
      in kbind (kmalloc (8 * ucast (psf_numglyph h)) s) (\<lambda>(_, s1).
         kbind (kcollect n (kmalloc (font_width * font_height)) s1) (\<lambda>(_, s2).
           Inr (font\<lparr>glyphs := Some (map (\<lambda>i. glyph_pixels mem h
                  (start + ucast (psf_headersize h) + of_nat i * ucast (psf_bytesperglyph h))) [0..<n])\<rparr>, s2))))"

text \<open>
  The loop over the unicode table: \<open>s\<close> is the address of the next byte, \<open>e\<close> the end of the file.
  An index of 128 or more fails the assertion; there is none because the bit 7 is clear.
\<close>

function parse_unicode_table :: "bytes \<Rightarrow> nat \<Rightarrow> nat \<Rightarrow> u16 \<Rightarrow> u16 list \<Rightarrow> u16 list kres" where
  "parse_unicode_table mem s e glyph table =
     (if s < e then
        let uc = ucast (mem (of_nat s)) :: u16
        in if uc = 0xFF then parse_unicode_table mem (s + 1) e (glyph + 1) table
           else if uc AND 128 \<noteq> 0 then
             (if uc AND 32 = 0 then parse_unicode_table mem (s + 2) e glyph table
              else if uc AND 16 = 0 then parse_unicode_table mem (s + 3) e glyph table
              else if uc AND 8 = 0 then parse_unicode_table mem (s + 4) e glyph table
              else parse_unicode_table mem (s + 1) e glyph table)
           else kassert (uc < 128) (parse_unicode_table mem (s + 1) e glyph (table[unat uc := glyph]))
      else Inr table)"
  by pat_completeness auto
termination
  by (relation "measure (\<lambda>(mem, s, e, glyph, table). e - s)") auto

declare parse_unicode_table.simps [simp del]

definition invalid_font :: PSFFont where
  "invalid_font = \<lparr>font_header = \<lparr>psf_magic = 0, psf_version = 0, psf_headersize = 0, psf_flags = 0,
       psf_numglyph = 0, psf_bytesperglyph = 0, psf_height = 0, psf_width = 0\<rparr>,
     ascii_table = replicate 128 0, is_valid = False, has_table = False, glyphs = None\<rparr>"

definition get_default_PSF_font ::
  "(u64 \<Rightarrow> 's \<Rightarrow> (addr \<times> 's) kres) \<Rightarrow> bytes \<Rightarrow> addr \<Rightarrow> addr \<Rightarrow> 's \<Rightarrow> (PSFFont \<times> 's) kres" where
  "get_default_PSF_font kmalloc mem start end_addr s =
     (let h = read_PSFHeader mem start
      in if psf_magic h \<noteq> PSF2_MAGIC_NUMBER then Inr (invalid_font, s)
         else
           let bitmaps_size = psf_bytesperglyph h * psf_numglyph h;
               table_start = start + ucast bitmaps_size + ucast (psf_headersize h);
               table_present = (psf_flags h = 0);
               font = \<lparr>font_header = h, ascii_table = replicate 128 0, is_valid = True,
                       has_table = table_present, glyphs = None\<rparr>
           in if \<not> table_present
              then calc_glyphs_caches kmalloc mem start (font\<lparr>ascii_table := map of_nat [0..<128]\<rparr>) s
              else kbind (parse_unicode_table mem (unat table_start) (unat end_addr) 0 (ascii_table font)) (\<lambda>table.
                     calc_glyphs_caches kmalloc mem start (font\<lparr>ascii_table := table\<rparr>) s))"

section \<open>Drawing\<close>

definition put_pixel :: "u64 \<Rightarrow> Pixel \<Rightarrow> Pixel list \<Rightarrow> Pixel list kres" where
  "put_pixel i p buf = (if unat i < length buf then Inr (buf[unat i := p]) else Inl Undefined)"

definition draw_glyph :: "nat \<Rightarrow> nat \<Rightarrow> bool list \<Rightarrow> u64 \<Rightarrow> u64 \<Rightarrow> Pixel \<Rightarrow> Pixel \<Rightarrow> Pixel list \<Rightarrow> Pixel list kres" where
  "draw_glyph w h pixels display_offset line_size background_pixel font_pixel buf =
     kfold (\<lambda>y. kfold (\<lambda>x.
       put_pixel (display_offset + of_nat y * line_size + of_nat x)
         (if pixels ! (y * w + x) then font_pixel else background_pixel)) [0..<w]) [0..<h] buf"

text \<open>
  The position and the size of the buffer are signed 64-bit numbers; the offset is computed in 64 bits.
\<close>

definition write_PSF_char ::
  "PSFFont \<Rightarrow> u8 \<Rightarrow> u64 \<times> u64 \<Rightarrow> Pixel list \<Rightarrow> u64 \<Rightarrow> Color \<Rightarrow> Color \<Rightarrow> (bool \<times> Pixel list) kres" where
  "write_PSF_char font c position buffer buffer_width background_color font_color =
     (if c AND 128 \<noteq> 0 then Inr (False, buffer)
      else kassert (\<not> has_table font \<or> c < 128)
        (let unicode = (if has_table font then ascii_table font ! unat c else ucast c)
         in case glyphs font of
              None \<Rightarrow> kpanic FAILED_ASSERT
            | Some gs \<Rightarrow>
                if unat unicode < length gs then
                  let h = font_header font;
                      display_offset = snd position * buffer_width + fst position
                  in kbind (draw_glyph (unat (psf_width h)) (unat (psf_height h)) (gs ! unat unicode) display_offset
                       buffer_width (color_to_pixel background_color) (color_to_pixel font_color) buffer)
                       (\<lambda>buffer1. Inr (True, buffer1))
                else Inl Undefined))"

section \<open>Lemmas\<close>

lemma pixel_color_inverse [simp]:
  "pixel_to_color (color_to_pixel c) = c"
  "color_to_pixel (pixel_to_color p) = p"
  by (simp_all add: pixel_to_color_def color_to_pixel_def)

lemma length_put_pixel: "put_pixel i p buf = Inr buf' \<Longrightarrow> length buf' = length buf"
  by (auto simp: put_pixel_def split: if_splits)

lemma length_glyph_pixels: "length (glyph_pixels mem h g) = unat (psf_height h) * unat (psf_width h)"
  by (simp add: glyph_pixels_def Let_def length_concat comp_def sum_list_triv)

lemma kfold_total:
  assumes "P s" and "\<And>x s. x \<in> set xs \<Longrightarrow> P s \<Longrightarrow> \<exists>s'. f x s = Inr s' \<and> P s'"
  shows "\<exists>s'. kfold f xs s = Inr s' \<and> P s'"
  using assms
proof (induction xs arbitrary: s)
  case (Cons x xs)
  then obtain s1 where "f x s = Inr s1" "P s1" by (meson list.set_intros(1))
  then show ?case using Cons.IH [of s1] Cons.prems(2) by auto
qed simp

lemma put_pixel_total:
  "unat i < length buf \<Longrightarrow> length buf = n \<Longrightarrow> \<exists>buf'. put_pixel i p buf = Inr buf' \<and> length buf' = n"
  by (simp add: put_pixel_def)

text \<open>A glyph that lies within the buffer is drawn, and the buffer keeps its size.\<close>

lemma draw_glyph_total:
  assumes "\<And>x y. x < w \<Longrightarrow> y < h \<Longrightarrow> unat (off + of_nat y * line + of_nat x) < length buf"
  shows "\<exists>buf'. draw_glyph w h pixels off line bg fg buf = Inr buf' \<and> length buf' = length buf"
  unfolding draw_glyph_def
proof (rule kfold_total [where P = "\<lambda>b. length b = length buf"])
  fix y and b :: "Pixel list"
  assume y: "y \<in> set [0..<h]" and b: "length b = length buf"
  show "\<exists>b'. kfold (\<lambda>x. put_pixel (off + of_nat y * line + of_nat x) (if pixels ! (y * w + x) then fg else bg)) [0..<w] b =
    Inr b' \<and> length b' = length buf"
    by (rule kfold_total [where P = "\<lambda>b. length b = length buf"], rule b)
      (rule put_pixel_total; use assms y in simp)
qed simp

end
