(* ===== verification/Kio.thy ===== *)
theory Kio
  imports Psf
begin

text \<open>
  The console, kernel/kio.c, with the display it writes to, kernel/HAL/bios/vbe.c. Characters wait in
  the byte ring; a flush draws them into the pixel buffer, scrolling it when the last line is full, and
  copies the buffer to the frame buffer of the display. The operations work on one state that holds
  the structure \<open>KioState\<close>, the bytes of the ring, the frame buffer and its memory.
\<close>

section \<open>State\<close>

record VbeModeInfo =
  vbe_width :: u16
  vbe_height :: u16
  vbe_bpp :: u8
  vbe_framebuffer :: u32

text \<open>The fields of \<open>VbeFrameBuffer\<close> that writing uses; \<open>None\<close> is a null mode pointer.\<close>

record VbeFrameBuffer =
  fb_vaddr :: addr
  fb_paddr :: addr
  fb_mode :: "VbeModeInfo option"

record KioState =
  char_buffer :: CircularBuffer
  disp_width :: u32
  disp_height :: u32
  next_x :: u64
  next_y :: u64
  screen_size :: u64
  background_color :: Color
  font_color :: Color
  kio_font :: PSFFont
  kio_buffer_ptr :: addr
  kio_buffer :: "Pixel list"
  kio_lock :: bool
  is_initialized :: bool
  ring_mem :: bytes
  global_frame_buffer :: VbeFrameBuffer
  fb_mem :: bytes

section \<open>The display\<close>

definition is_frame_buffer_valid :: "VbeFrameBuffer \<Rightarrow> bool" where
  "is_frame_buffer_valid fb \<longleftrightarrow> \<not> (fb_paddr fb = NULL \<or> fb_vaddr fb = NULL \<or> fb_mode fb = None)"

definition store_pixel24 :: "addr \<Rightarrow> Pixel \<Rightarrow> bytes \<Rightarrow> bytes" where
  "store_pixel24 a p mem = mem(a := px_b p, a + 1 := px_g p, a + 2 := px_r p)"

definition store_pixel32 :: "addr \<Rightarrow> Pixel \<Rightarrow> bytes \<Rightarrow> bytes" where
  "store_pixel32 a p mem = mem(a := px_b p, a + 1 := px_g p, a + 2 := px_r p, a + 3 := px_a p)"

text \<open>
  With 32 bits per pixel the copy takes as many pixels as the screen has, whatever \<open>size\<close> is: reading
  past the buffer is not defined. \<open>height * width\<close> is an \<open>int\<close> product of two 16-bit numbers.
\<close>

definition write_pixels_vbe_display :: "Pixel list \<Rightarrow> u64 \<Rightarrow> KioState \<Rightarrow> KioState kres" where
  "write_pixels_vbe_display pixels size0 st =
     (let fb = global_frame_buffer st
      in if \<not> is_frame_buffer_valid fb then kpanic VBE_ERROR
         else case fb_mode fb of
           None \<Rightarrow> Inl Undefined
         | Some mode \<Rightarrow>
             let pixel_count = scast (ucast (vbe_height mode) * ucast (vbe_width mode) :: u32) :: u64
             in if size0 > pixel_count then kpanic VBE_ERROR
                else if vbe_bpp mode = 24 then
                  (if unat size0 \<le> length pixels
                   then Inr (st\<lparr>fb_mem := fold (\<lambda>i. store_pixel24 (fb_vaddr fb + of_nat (3 * i)) (pixels ! i))
                               [0..<unat size0] (fb_mem st)\<rparr>)
                   else Inl Undefined)
                else if vbe_bpp mode = 32 then
                  (if unat pixel_count \<le> length pixels
                   then Inr (st\<lparr>fb_mem := fold (\<lambda>i. store_pixel32 (fb_vaddr fb + of_nat (4 * i)) (pixels ! i))
                               [0..<unat pixel_count] (fb_mem st)\<rparr>)
                   else Inl Undefined)
                else kpanic VBE_ERROR)"

section \<open>Characters\<close>

definition is_kio_initialized :: "KioState \<Rightarrow> bool" where
  "is_kio_initialized st = is_initialized st"

text \<open>
  The pixel buffer after a scroll by \<open>offset\<close> pixels: the two loops with their 32-bit counter. A load or a store outside
  of the buffer leaves defined behaviour.
\<close>

definition move_pixel :: "u64 \<Rightarrow> nat \<Rightarrow> Pixel list \<Rightarrow> Pixel list kres" where
  "move_pixel offset i buf = (if i < length buf then put_pixel (of_nat i - offset) (buf ! i) buf else Inl Undefined)"

definition scroll :: "u64 \<Rightarrow> u64 \<Rightarrow> Pixel \<Rightarrow> Pixel list \<Rightarrow> Pixel list kres" where
  "scroll offset size0 background_pixel buf =
     kbind (kfold (move_pixel offset) [unat (ucast offset :: u32)..<unat size0] buf)
       (kfold (\<lambda>i. put_pixel (of_nat i) background_pixel) [unat (ucast (size0 - offset) :: u32)..<unat size0])"

definition next_line :: "KioState \<Rightarrow> KioState kres" where
  "next_line st =
     (let h = psf_height (font_header (kio_font st))
      in kbind (if next_y st + ucast (h * 2) \<ge> ucast (disp_height st)
                then kbind (scroll (ucast (disp_width st * h)) (screen_size st) (color_to_pixel (background_color st)) (kio_buffer st))
                       (\<lambda>buf. Inr (st\<lparr>next_y := next_y st - ucast h, kio_buffer := buf\<rparr>))
                else Inr st)
           (\<lambda>st1. Inr (st1\<lparr>next_y := next_y st1 + ucast h, next_x := 0\<rparr>)))"

abbreviation (input) newline :: u8 where
  "newline \<equiv> 10"

definition unsync_write_char :: "u8 \<Rightarrow> KioState \<Rightarrow> KioState kres" where
  "unsync_write_char c st =
     (let w = ucast (psf_width (font_header (kio_font st)))
      in kbind (if next_x st + w \<ge> ucast (disp_width st) \<or> c = newline then next_line st else Inr st) (\<lambda>st1.
         if c \<noteq> newline
         then kbind (write_PSF_char (kio_font st1) c (next_x st1, next_y st1) (kio_buffer st1) (ucast (disp_width st1))
                (background_color st1) (font_color st1)) (\<lambda>(_, buf).
                Inr (st1\<lparr>kio_buffer := buf, next_x := next_x st1 + w\<rparr>))
         else Inr st1))"

text \<open>
  The loop that draws what the ring holds. A ring of \<open>n\<close> bytes is empty after at most \<open>n + 1\<close> reads or
  the loop does not end, so that \<open>n + 1\<close> is enough fuel.
\<close>

fun drain :: "nat \<Rightarrow> KioState \<Rightarrow> KioState kres" where
  "drain 0 st = (if is_circular_buffer_empty (char_buffer st) then Inr st else Inl Hang)"
| "drain (Suc n) st =
     (if is_circular_buffer_empty (char_buffer st) then Inr st
      else kbind (read_circular_buffer (char_buffer st) (ring_mem st)) (\<lambda>(c, buff).
           kbind (unsync_write_char c (st\<lparr>char_buffer := buff\<rparr>)) (drain n)))"

definition unsync_flush :: "KioState \<Rightarrow> KioState kres" where
  "unsync_flush st =
     (if is_circular_buffer_empty (char_buffer st) then Inr st
      else kbind (drain (unat (buffer_size (char_buffer st)) + 1) st) (\<lambda>st1.
           write_pixels_vbe_display (kio_buffer st1) (screen_size st1) st1))"

definition unsync_opt_flush :: "KioState \<Rightarrow> KioState kres" where
  "unsync_opt_flush st =
     (if circular_buffer_written_bytes (char_buffer st) \<ge> 32 then unsync_flush st else Inr st)"

definition acquire_kio_lock :: "KioState \<Rightarrow> KioState kres" where
  "acquire_kio_lock st = (if kio_lock st then Inl Hang else Inr (st\<lparr>kio_lock := True\<rparr>))"

definition release_kio_lock :: "KioState \<Rightarrow> KioState" where
  "release_kio_lock st = st\<lparr>kio_lock := False\<rparr>"

text \<open>The operations of the interface take the lock, work, and release the lock.\<close>

definition with_kio_lock :: "(KioState \<Rightarrow> KioState kres) \<Rightarrow> KioState \<Rightarrow> KioState kres" where
  "with_kio_lock f st =
     kbind (acquire_kio_lock st) (\<lambda>st1. kbind (f st1) (\<lambda>st2. Inr (release_kio_lock st2)))"

definition kio_flush :: "KioState \<Rightarrow> KioState kres" where
  "kio_flush = with_kio_lock unsync_flush"

definition unsync_putchar :: "u8 \<Rightarrow> bool \<Rightarrow> KioState \<Rightarrow> KioState kres" where
  "unsync_putchar c flush st =
     kbind (write_circular_buffer (char_buffer st) c (ring_mem st)) (\<lambda>(buff, mem).
       let st1 = st\<lparr>char_buffer := buff, ring_mem := mem\<rparr>
       in if flush then unsync_flush st1 else Inr st1)"

definition putchar :: "u8 \<Rightarrow> bool \<Rightarrow> KioState \<Rightarrow> KioState kres" where
  "putchar c flush = with_kio_lock (unsync_putchar c flush)"

definition put_text :: "u8 list \<Rightarrow> KioState \<Rightarrow> KioState kres" where
  "put_text = kfold (\<lambda>c. unsync_putchar c False)"

abbreviation (input) ascii :: "string \<Rightarrow> u8 list" where
  "ascii \<equiv> map of_char"

definition unsync_print :: "string \<Rightarrow> KioState \<Rightarrow> KioState kres" where
  "unsync_print str = put_text (ascii str)"

definition print :: "string \<Rightarrow> KioState \<Rightarrow> KioState kres" where
  "print str = with_kio_lock (\<lambda>st. kbind (unsync_print str st) unsync_opt_flush)"

section \<open>Initialisation\<close>

text \<open>
  The pixel buffer and the ring are allocated. The products are 32-bit products; the buffer has as many
  pixels as the screen.
\<close>

definition init_kio ::
  "(u64 \<Rightarrow> 's \<Rightarrow> (addr \<times> 's) kres) \<Rightarrow> u64 \<Rightarrow> u32 \<Rightarrow> u32 \<Rightarrow> PSFFont \<Rightarrow> Color \<Rightarrow> Color \<Rightarrow>
   KioState \<Rightarrow> 's \<Rightarrow> (KioState \<times> 's) kres" where
  "init_kio kmalloc garbage width height font background font_col st s =
     (let n = ucast (height * width) :: u64
      in kbind (kmalloc (n * 4) s) (\<lambda>(p, s1).
         kbind (make_circular_buffer kmalloc garbage 4096 s1) (\<lambda>(ring, s2).
           Inr (st\<lparr>kio_lock := False, is_initialized := True, kio_buffer_ptr := p, disp_width := width,
                   disp_height := height, font_color := font_col, background_color := background, next_x := 0,
                   next_y := 0, kio_font := font, screen_size := n, char_buffer := ring,
                   kio_buffer := replicate (unat n) (color_to_pixel background)\<rparr>, s2))))"

text \<open>\<open>finalize_kio\<close>; the finalisation of the display is an argument.\<close>

definition finalize_kio ::
  "('s \<Rightarrow> 's kres) \<Rightarrow> (addr \<Rightarrow> 's \<Rightarrow> 's kres) \<Rightarrow> KioState \<Rightarrow> 's \<Rightarrow> (KioState \<times> 's) kres" where
  "finalize_kio finalize_display kfree st s =
     (if \<not> is_initialized st then kpanic KIO_ERROR
      else kbind (kio_flush st) (\<lambda>st1.
           kbind (finalize_display s) (\<lambda>s1.
           kbind (kfree (kio_buffer_ptr st1) s1) (\<lambda>s2.
           kbind (destory_circular_buffer kfree (char_buffer st1) s2) (\<lambda>(ring, s3).
             Inr (st1\<lparr>char_buffer := ring\<rparr>, s3))))))"

section \<open>Numbers\<close>

text \<open>
  The digits of \<open>n\<close>, the least significant first, in a buffer of \<open>buffer_size\<close> bytes that starts as
  zeroes, and the number of digits written. The assertion on the counter bounds the loop. The counter
  is an 8-bit number; it stays below \<open>buffer_size\<close>, which is at most 128 in every call.
\<close>

function digit_loop :: "u64 \<Rightarrow> u64 \<Rightarrow> nat \<Rightarrow> nat \<Rightarrow> u8 list \<Rightarrow> (u8 list \<times> nat) kres" where
  "digit_loop n base size0 counter buf =
     (if n = 0 then Inr (buf, counter)
      else if base = 0 then Inl Undefined
      else if counter < size0
      then digit_loop (n div base) base size0 (counter + 1) (buf[counter := ucast (n mod base)])
      else kpanic FAILED_ASSERT)"
  by pat_completeness auto
termination
  by (relation "measure (\<lambda>(n, base, size0, counter, buf). size0 - counter)") auto

declare digit_loop.simps [simp del]

definition fill_digit_buffer :: "u64 \<Rightarrow> u64 \<Rightarrow> nat \<Rightarrow> (u8 list \<times> nat) kres" where
  "fill_digit_buffer n base size0 = digit_loop n base size0 0 (replicate size0 0)"

definition hex_digit :: "u8 \<Rightarrow> u8" where
  "hex_digit d = (if d \<ge> 10 then 65 + d - 10 else 48 + d)"

definition dec_digit :: "u8 \<Rightarrow> u8" where
  "dec_digit d = 48 + d"

definition print_uint64_hex :: "u64 \<Rightarrow> KioState \<Rightarrow> KioState kres" where
  "print_uint64_hex number st =
     kbind (fill_digit_buffer number 16 16) (\<lambda>(buf, _).
       with_kio_lock (\<lambda>st1.
         kbind (put_text (ascii ''0x'' @ map hex_digit (rev buf)) st1) unsync_opt_flush) st)"

definition print_uint64_dec :: "u64 \<Rightarrow> KioState \<Rightarrow> KioState kres" where
  "print_uint64_dec n st =
     kbind (fill_digit_buffer n 10 128) (\<lambda>(buf, written_digits_count).
       with_kio_lock (\<lambda>st1.
         kbind (put_text ((if n = 0 then ascii ''0'' else []) @ map dec_digit (rev (take written_digits_count buf))) st1)
           unsync_opt_flush) st)"

text \<open>The digits from index 15 down to index \<open>16 - 2 * size_bytes\<close>.\<close>

definition unsync_print_uintmax_hex :: "u64 \<Rightarrow> nat \<Rightarrow> KioState \<Rightarrow> KioState kres" where
  "unsync_print_uintmax_hex number size_bytes st =
     kassert (size_bytes \<le> 8)
       (kbind (fill_digit_buffer number 16 16) (\<lambda>(buf, _).
        kbind (put_text (ascii ''0x'') st) (\<lambda>st1.
          kassert (16 \<ge> size_bytes * 2)
            (put_text (map hex_digit (rev (drop (16 - size_bytes * 2) buf))) st1))))"

definition unsync_print_uintmax_hex_not_padded :: "u64 \<Rightarrow> nat \<Rightarrow> KioState \<Rightarrow> KioState kres" where
  "unsync_print_uintmax_hex_not_padded number size_bytes st =
     kassert (size_bytes \<le> 8)
       (kbind (fill_digit_buffer number 16 16) (\<lambda>(buf, written_digits_count).
          put_text (ascii ''0x'' @ map hex_digit (rev (take written_digits_count buf))) st))"

definition unsync_print_uintmax_dec :: "u64 \<Rightarrow> KioState \<Rightarrow> KioState kres" where
  "unsync_print_uintmax_dec n st =
     kbind (fill_digit_buffer n 10 128) (\<lambda>(buf, written_digits_count).
       put_text ((if n = 0 then ascii ''0'' else []) @ map dec_digit (rev (take written_digits_count buf))) st)"

section \<open>Formatted output\<close>

fun substr_cmp :: "string \<Rightarrow> string \<Rightarrow> bool" where
  "substr_cmp string [] = True"
| "substr_cmp [] (c # substr) = False"
| "substr_cmp (d # string) (c # substr) = (d = c \<and> substr_cmp string substr)"

text \<open>
  The arguments of a call. Reading an argument of another type than was passed, or one that was not
  passed, is not defined.
\<close>

datatype printf_arg = ArgU64 u64 | ArgU32 u32 | ArgStr string

definition next_u64 :: "printf_arg list \<Rightarrow> (u64 \<times> printf_arg list) kres" where
  "next_u64 args = (case args of ArgU64 v # rest \<Rightarrow> Inr (v, rest) | _ \<Rightarrow> Inl Undefined)"

definition next_u32 :: "printf_arg list \<Rightarrow> (u32 \<times> printf_arg list) kres" where
  "next_u32 args = (case args of ArgU32 v # rest \<Rightarrow> Inr (v, rest) | _ \<Rightarrow> Inl Undefined)"

definition next_str :: "printf_arg list \<Rightarrow> (string \<times> printf_arg list) kres" where
  "next_str args = (case args of ArgStr v # rest \<Rightarrow> Inr (v, rest) | _ \<Rightarrow> Inl Undefined)"

text \<open>
  One token after the percent sign: what is left of the format, with its first character the last one
  of the token, the arguments left and the state. The second chain of tests is not an \<open>else\<close> of the first one.
\<close>

definition printf_token64 ::
  "string \<Rightarrow> printf_arg list \<Rightarrow> KioState \<Rightarrow> (string \<times> printf_arg list \<times> KioState) kres" where
  "printf_token64 format args st =
     (if substr_cmp format ''u64'' then
        kbind (next_u64 args) (\<lambda>(v, args1).
        kbind (unsync_print_uintmax_dec v st) (\<lambda>st1. Inr (drop 2 format, args1, st1)))
      else if substr_cmp format ''h64'' then
        kbind (next_u64 args) (\<lambda>(v, args1).
        kbind (unsync_print_uintmax_hex v 8 st) (\<lambda>st1. Inr (drop 2 format, args1, st1)))
      else if substr_cmp format ''x64'' then
        kbind (next_u64 args) (\<lambda>(v, args1).
        kbind (unsync_print_uintmax_hex_not_padded v 8 st) (\<lambda>st1. Inr (drop 2 format, args1, st1)))
      else Inr (format, args, st))"

definition printf_token32 ::
  "string \<Rightarrow> printf_arg list \<Rightarrow> KioState \<Rightarrow> (string \<times> printf_arg list \<times> KioState) kres" where
  "printf_token32 format args st =
     (if substr_cmp format ''u32'' then
        kbind (next_u32 args) (\<lambda>(v, args1).
        kbind (unsync_print_uintmax_dec (ucast v) st) (\<lambda>st1. Inr (drop 2 format, args1, st1)))
      else if substr_cmp format ''h32'' then
        kbind (next_u32 args) (\<lambda>(v, args1).
        kbind (unsync_print_uintmax_hex (ucast v) 4 st) (\<lambda>st1. Inr (drop 2 format, args1, st1)))
      else if substr_cmp format ''x32'' then
        kbind (next_u32 args) (\<lambda>(v, args1).
        kbind (unsync_print_uintmax_hex_not_padded (ucast v) 4 st) (\<lambda>st1. Inr (drop 2 format, args1, st1)))
      else if substr_cmp format ''s'' then
        kbind (next_str args) (\<lambda>(v, args1).
        kbind (unsync_print v st) (\<lambda>st1. Inr (format, args1, st1)))
      else Inr (format, args, st))"

definition printf_token ::
  "string \<Rightarrow> printf_arg list \<Rightarrow> KioState \<Rightarrow> (string \<times> printf_arg list \<times> KioState) kres" where
  "printf_token format args st =
     kbind (printf_token64 format args st) (\<lambda>(format1, args1, st1). printf_token32 format1 args1 st1)"

lemma printf_token_shorter:
  "printf_token format args st = Inr (format1, args1, st1) \<Longrightarrow> length format1 \<le> length format"
  by (auto simp: printf_token_def printf_token64_def printf_token32_def kres_simps split: if_splits)

function printf_loop :: "bool \<Rightarrow> string \<Rightarrow> printf_arg list \<Rightarrow> KioState \<Rightarrow> KioState kres" where
  "printf_loop token_found [] args st = Inr st"
| "printf_loop token_found (c # format) args st =
     (if token_found then
        (if c = CHR ''%'' then kbind (unsync_putchar (of_char c) False st) (printf_loop False format args)
         else kbind (printf_token (c # format) args st) (\<lambda>(format1, args1, st1).
              printf_loop False (tl format1) args1 st1))
      else if c = CHR ''%'' then printf_loop True format args st
      else kbind (unsync_putchar (of_char c) False st) (printf_loop False format args))"
  by pat_completeness auto
termination
  by (relation "measure (\<lambda>(token_found, format, args, st). length format)")
    (auto dest: printf_token_shorter)

definition printf :: "string \<Rightarrow> printf_arg list \<Rightarrow> KioState \<Rightarrow> KioState kres" where
  "printf format args =
     with_kio_lock (\<lambda>st. kbind (printf_loop False format args st) unsync_opt_flush)"

end
