(* ===== verification/Kio_Proofs.thy ===== *)
theory Kio_Proofs
  imports Kio
begin

text \<open>
  What the console guarantees: drawing stays within the pixel buffer, a flush returns and leaves the
  ring empty, and a number printed in hexadecimal can be read back from the ring.
\<close>

section \<open>Drawing stays within the screen\<close>

definition font_ok :: "PSFFont \<Rightarrow> bool" where
  "font_ok font \<longleftrightarrow> (case glyphs font of None \<Rightarrow> False | Some gs \<Rightarrow>
     (\<forall>c < 128. unat (if has_table font then ascii_table font ! c else of_nat c) < length gs))"

definition font_width :: "KioState \<Rightarrow> nat" where
  "font_width st = unat (psf_width (font_header (kio_font st)))"

definition font_height :: "KioState \<Rightarrow> nat" where
  "font_height st = unat (psf_height (font_header (kio_font st)))"

text \<open>
  A usable console: the font fits on the screen, the buffer has one pixel for each of the screen, and
  the line that is being written is on the screen.
\<close>

definition screen_ok :: "KioState \<Rightarrow> bool" where
  "screen_ok st \<longleftrightarrow> font_ok (kio_font st) \<and> font_width st \<le> unat (disp_width st) \<and>
     2 * font_height st < 4294967296 \<and> unat (disp_width st) * unat (disp_height st) < 4294967296 \<and>
     unat (screen_size st) = unat (disp_width st) * unat (disp_height st) \<and>
     length (kio_buffer st) = unat (screen_size st) \<and> unat (next_x st) \<le> unat (disp_width st) \<and>
     unat (next_y st) + font_height st \<le> unat (disp_height st)"

lemma u32_bound: "unat (w :: u32) < 4294967296"
  using unsigned_less [of w] by simp

text \<open>
  A scroll by at most the size of the buffer stays within it, moves its pixels up and fills the rest with the background.
\<close>

lemma move_pixels:
  assumes "off + k \<le> length buf" and "length buf < 2 ^ 64"
  shows "kfold (move_pixel (of_nat off)) [off..<off + k] buf = Inr (take k (drop off buf) @ drop k buf)"
  using assms(1)
proof (induction k)
  case (Suc k)
  let ?b = "take k (drop off buf) @ drop k buf"
  have "unat (of_nat (off + k) - of_nat off :: u64) = k"
    using Suc.prems assms(2) by (simp add: unat_of_nat_u64)
  moreover have "?b ! (off + k) = buf ! (off + k)" using Suc.prems by (simp add: nth_append add.commute)
  moreover have "?b[k := buf ! (off + k)] = take (Suc k) (drop off buf) @ drop (Suc k) buf"
  proof -
    have "take (Suc k) (drop off buf) = take k (drop off buf) @ [buf ! (off + k)]" using Suc.prems by (simp add: take_Suc_conv_app_nth)
    moreover have "drop k buf = buf ! k # drop (Suc k) buf" using Suc.prems by (simp add: Cons_nth_drop_Suc)
    ultimately show ?thesis using Suc.prems by (simp add: list_update_append)
  qed
  ultimately have "move_pixel (of_nat off) (off + k) ?b = Inr (take (Suc k) (drop off buf) @ drop (Suc k) buf)"
    using Suc.prems by (simp add: move_pixel_def put_pixel_def)
  then show ?case using Suc by (simp add: kfold_append)
qed simp

lemma fill_pixels:
  assumes "j + k \<le> length buf" and "length buf < 2 ^ 64"
  shows "kfold (\<lambda>i. put_pixel (of_nat i) p) [j..<j + k] buf = Inr (take j buf @ replicate k p @ drop (j + k) buf)"
  using assms(1)
proof (induction k)
  case (Suc k)
  let ?b = "take j buf @ replicate k p @ drop (j + k) buf"
  have "unat (of_nat (j + k) :: u64) = j + k" using Suc.prems assms(2) by (intro unat_of_nat_u64) simp
  moreover have "?b[j + k := p] = take j buf @ replicate (Suc k) p @ drop (j + Suc k) buf"
    using Suc.prems by (simp add: list_update_append replicate_append_same [symmetric] flip: Cons_nth_drop_Suc del: replicate_append_same)
  ultimately have "put_pixel (of_nat (j + k)) p ?b = Inr (take j buf @ replicate (Suc k) p @ drop (j + Suc k) buf)"
    using Suc.prems by (simp only: put_pixel_def) simp
  then show ?case using Suc by (simp add: kfold_append)
qed simp

lemma scroll_correct:
  assumes "unat off \<le> unat n" and "length buf = unat n" and "unat n < 2 ^ 32"
  shows "scroll off n bg buf = Inr (drop (unat off) buf @ replicate (unat off) bg)"
proof -
  have o: "unat (ucast off :: u32) = unat off" "unat (ucast (n - off) :: u32) = unat n - unat off"
    using assms by (simp_all add: unat_sub word_le_nat_alt unsigned_ucast_eq take_bit_nat_eq_self)
  have "kfold (move_pixel off) [unat off..<unat n] buf = Inr (drop (unat off) buf @ drop (unat n - unat off) buf)"
    using move_pixels [of "unat off" "unat n - unat off" buf] assms by simp
  moreover have "kfold (\<lambda>i. put_pixel (of_nat i) bg) [unat n - unat off..<unat n] (drop (unat off) buf @ drop (unat n - unat off) buf) =
      Inr (drop (unat off) buf @ replicate (unat off) bg)"
    using fill_pixels [of "unat n - unat off" "unat off" "drop (unat off) buf @ drop (unat n - unat off) buf" bg] assms by simp
  ultimately show ?thesis by (simp add: scroll_def o)
qed

lemma next_line_ok:
  assumes "screen_ok st"
  shows "\<exists>st'. next_line st = Inr st' \<and> screen_ok st' \<and> next_x st' = 0 \<and> char_buffer st' = char_buffer st \<and>
    ring_mem st' = ring_mem st \<and> kio_font st' = kio_font st \<and> global_frame_buffer st' = global_frame_buffer st \<and>
    kio_lock st' = kio_lock st \<and> disp_width st' = disp_width st \<and> screen_size st' = screen_size st"
proof -
  let ?h = "psf_height (font_header (kio_font st))"
  have h2: "unat (?h * 2) = 2 * font_height st"
    using assms by (simp add: screen_ok_def font_height_def unat_mult_lem [THEN iffD1] mult.commute)
  have b: "unat (next_y st) + 2 * font_height st < 18446744073709551616"
    using assms u32_bound [of "disp_height st"] unfolding screen_ok_def by linarith
  then have nat2: "unat (next_y st + ucast (?h * 2)) = unat (next_y st) + 2 * font_height st"
    using h2 by (subst unat_add_u64) simp_all
  have nat1: "unat (next_y st + ucast ?h) = unat (next_y st) + font_height st"
    using b by (subst unat_add_u64) (simp_all add: font_height_def)
  show ?thesis
  proof (cases "next_y st + ucast (?h * 2) \<ge> ucast (disp_height st)")
    case True
    let ?off = "ucast (disp_width st * ?h) :: u64"
    have le: "unat (disp_width st) * font_height st \<le> unat (disp_width st) * unat (disp_height st)"
      using assms by (intro mult_le_mono2) (simp add: screen_ok_def)
    moreover have "unat (disp_width st) * unat (disp_height st) < 2 ^ 32" using assms by (simp add: screen_ok_def)
    with le have "unat (disp_width st) * unat ?h < 2 ^ 32" unfolding font_height_def by (rule le_less_trans)
    then have "unat (disp_width st * ?h) = unat (disp_width st) * font_height st"
      by (simp add: font_height_def unat_word_ariths)
    ultimately have "unat ?off \<le> unat (screen_size st)" using assms by (simp add: screen_ok_def)
    from scroll_correct [OF this, of "kio_buffer st" "color_to_pixel (background_color st)"]
    have s: "scroll ?off (screen_size st) (color_to_pixel (background_color st)) (kio_buffer st) =
        Inr (drop (unat ?off) (kio_buffer st) @ replicate (unat ?off) (color_to_pixel (background_color st)))"
      using assms by (simp add: screen_ok_def)
    show ?thesis
      using True assms \<open>unat ?off \<le> unat (screen_size st)\<close> unfolding next_line_def Let_def s
      by (simp add: screen_ok_def font_width_def font_height_def)
  next
    case False
    then have "unat (next_y st) + 2 * font_height st < unat (disp_height st)"
      using nat2 by (simp add: word_le_nat_alt)
    then show ?thesis using False assms nat1
      by (simp add: next_line_def Let_def screen_ok_def font_width_def font_height_def)
  qed
qed

lemma unat_position:
  assumes "screen_ok st" and "x < font_width st" and "y < font_height st"
    and "unat (next_x st) + font_width st \<le> unat (disp_width st)"
  shows "unat (next_y st * ucast (disp_width st) + next_x st + of_nat y * ucast (disp_width st) + of_nat x) < unat (screen_size st)"
proof -
  let ?w = "unat (disp_width st)" and ?h = "unat (disp_height st)"
  let ?n = "(unat (next_y st) + y) * ?w + (unat (next_x st) + x)"
  have "(unat (next_y st) + y + 1) * ?w \<le> ?h * ?w"
    using assms by (intro mult_le_mono1) (simp add: screen_ok_def)
  moreover have "unat (next_x st) + x < ?w" using assms by simp
  ultimately have n: "?n < ?w * ?h" by (simp add: algebra_simps)
  have "next_y st * ucast (disp_width st) + next_x st + of_nat y * ucast (disp_width st) + of_nat x = (of_nat ?n :: u64)"
    by (simp add: algebra_simps)
  moreover have "unat (of_nat ?n :: u64) = ?n"
    using n assms(1) by (intro unat_of_nat_u64) (simp add: screen_ok_def)
  ultimately show ?thesis using n assms(1) by (simp only: screen_ok_def)
qed

lemma ascii_u8:
  assumes "(c :: u8) AND 128 = 0"
  shows "c < 128" and "unat c < 128"
proof -
  have "\<not> bit c 7" using assms and_exp_eq_0_iff_not_bit [of c 7] by simp
  then have "take_bit 7 c = c"
    by (intro bit_word_eqI) (auto simp: bit_take_bit_iff less_Suc_eq eval_nat_numeral)
  then have "unat c = take_bit 7 (unat c)" by (metis unsigned_take_bit_eq)
  then show "unat c < 128" using take_bit_nat_less_exp [of 7 "unat c"] by simp
  then show "c < 128" by (simp add: word_less_nat_alt)
qed

lemma write_PSF_char_ok:
  assumes ok: "screen_ok st" and x: "unat (next_x st) + font_width st \<le> unat (disp_width st)"
  shows "\<exists>r buf. write_PSF_char (kio_font st) c (next_x st, next_y st) (kio_buffer st) (ucast (disp_width st)) bg fg = Inr (r, buf) \<and>
    length buf = unat (screen_size st)"
proof (cases "c AND 128 = 0")
  case True
  note c = ascii_u8 [OF True]
  obtain gs where gs: "glyphs (kio_font st) = Some gs"
    "unat (if has_table (kio_font st) then ascii_table (kio_font st) ! unat c else of_nat (unat c)) < length gs"
    using ok c by (auto simp: screen_ok_def font_ok_def split: option.splits)
  have uc: "(of_nat (unat c) :: u16) = ucast c" by simp
  let ?g = "gs ! unat (if has_table (kio_font st) then ascii_table (kio_font st) ! unat c else ucast c)"
  have len: "length (kio_buffer st) = unat (screen_size st)" using ok by (simp add: screen_ok_def)
  have "\<exists>buf. draw_glyph (font_width st) (font_height st) ?g
      (next_y st * ucast (disp_width st) + next_x st) (ucast (disp_width st)) (color_to_pixel bg) (color_to_pixel fg)
      (kio_buffer st) = Inr buf \<and> length buf = length (kio_buffer st)"
    by (rule draw_glyph_total) (simp only: len unat_position [OF ok _ _ x])
  then show ?thesis
    using True c gs len unfolding uc by (simp add: write_PSF_char_def Let_def font_width_def font_height_def) auto
next
  case False
  then show ?thesis using ok by (auto simp: write_PSF_char_def screen_ok_def)
qed

lemma unsync_write_char_ok:
  assumes "screen_ok st"
  shows "\<exists>st'. unsync_write_char c st = Inr st' \<and> screen_ok st' \<and> char_buffer st' = char_buffer st \<and>
    ring_mem st' = ring_mem st \<and> global_frame_buffer st' = global_frame_buffer st \<and> kio_lock st' = kio_lock st \<and>
    screen_size st' = screen_size st"
proof -
  let ?w = "ucast (psf_width (font_header (kio_font st))) :: u64"
  let ?nl = "next_x st + ?w \<ge> ucast (disp_width st) \<or> c = newline"
  have xw: "unat (next_x st + ?w) = unat (next_x st) + font_width st"
  proof -
    have "unat (next_x st) + font_width st < 18446744073709551616"
      using assms u32_bound [of "disp_width st"] unfolding screen_ok_def by linarith
    then show ?thesis by (subst unat_add_u64) (simp_all add: font_width_def)
  qed
  obtain st1 where st1: "(if ?nl then next_line st else Inr st) = Inr st1" and ok1: "screen_ok st1"
    and same: "char_buffer st1 = char_buffer st" "ring_mem st1 = ring_mem st" "kio_font st1 = kio_font st"
    "global_frame_buffer st1 = global_frame_buffer st" "kio_lock st1 = kio_lock st" "disp_width st1 = disp_width st" "screen_size st1 = screen_size st"
    and x0: "?nl \<Longrightarrow> next_x st1 = 0" "\<not> ?nl \<Longrightarrow> st1 = st"
    using next_line_ok [OF assms] assms by (cases ?nl) auto
  have x1: "unat (next_x st1) + font_width st1 \<le> unat (disp_width st1)"
  proof (cases ?nl)
    case True
    then show ?thesis using x0(1) ok1 by (simp add: screen_ok_def)
  next
    case False
    then have "unat (next_x st) + font_width st < unat (disp_width st)" using xw by (simp add: word_le_nat_alt)
    then show ?thesis using x0(2) [OF False] by simp
  qed
  obtain r buf where wr: "write_PSF_char (kio_font st1) c (next_x st1, next_y st1) (kio_buffer st1) (ucast (disp_width st1))
      (background_color st1) (font_color st1) = Inr (r, buf)" "length buf = unat (screen_size st1)"
    using write_PSF_char_ok [OF ok1 x1] by blast
  have x2: "unat (next_x st1 + ?w) = unat (next_x st1) + font_width st1"
  proof -
    have "unat (next_x st1) + font_width st1 < 18446744073709551616" using x1 u32_bound [of "disp_width st1"] by linarith
    then show ?thesis using same by (subst unat_add_u64) (simp_all add: font_width_def)
  qed
  have eq: "unsync_write_char c st =
      (if c \<noteq> newline then Inr (st1\<lparr>kio_buffer := buf, next_x := next_x st1 + ?w\<rparr>) else Inr st1)"
    unfolding unsync_write_char_def Let_def st1 using wr(1) by simp
  have "screen_ok (st1\<lparr>kio_buffer := buf, next_x := next_x st1 + ?w\<rparr>)"
    using ok1 wr(2) x1 x2 by (simp add: screen_ok_def font_width_def font_height_def)
  then show ?thesis using eq ok1 same by auto
qed

lemma drain_ok:
  assumes "screen_ok st" and "ring_ok (char_buffer st)" and "ring_length (char_buffer st) \<le> n"
  shows "\<exists>st'. drain n st = Inr st' \<and> screen_ok st' \<and> ring_ok (char_buffer st') \<and>
    is_circular_buffer_empty (char_buffer st') \<and> global_frame_buffer st' = global_frame_buffer st \<and> kio_lock st' = kio_lock st \<and>
    screen_size st' = screen_size st"
  using assms
proof (induction n arbitrary: st)
  case 0
  then have "is_circular_buffer_empty (char_buffer st)"
    using ring_empty_iff [of "char_buffer st" "ring_mem st"] by (simp add: ring_contents_def)
  then show ?case using 0 by simp
next
  case (Suc n)
  show ?case
  proof (cases "is_circular_buffer_empty (char_buffer st)")
    case False
    then have "ring_contents (char_buffer st) (ring_mem st) \<noteq> []" using Suc.prems ring_empty_iff by blast
    then obtain c buff where r: "read_circular_buffer (char_buffer st) (ring_mem st) = Inr (c, buff)" "ring_ok buff"
      "ring_contents (char_buffer st) (ring_mem st) = c # ring_contents buff (ring_mem st)"
      using ring_read_contents [OF Suc.prems(2)] by blast
    have len: "ring_length buff \<le> n" using r(3) Suc.prems(3) by (metis Suc_le_mono length_Cons length_ring_contents)
    have ok1: "screen_ok (st\<lparr>char_buffer := buff\<rparr>)" using Suc.prems(1) by (simp add: screen_ok_def font_width_def font_height_def)
    obtain st1 where st1: "unsync_write_char c (st\<lparr>char_buffer := buff\<rparr>) = Inr st1" "screen_ok st1" "char_buffer st1 = buff"
      "global_frame_buffer st1 = global_frame_buffer st" "kio_lock st1 = kio_lock st" "screen_size st1 = screen_size st"
      using unsync_write_char_ok [OF ok1, of c] by auto
    then show ?thesis using False r len Suc.IH [of st1] by simp
  qed (use Suc.prems in auto)
qed

text \<open>The display of the console: 24 or 32 bits per pixel and the size of the pixel buffer.\<close>

definition display_ok :: "KioState \<Rightarrow> bool" where
  "display_ok st \<longleftrightarrow> (\<exists>mode. fb_mode (global_frame_buffer st) = Some mode \<and> is_frame_buffer_valid (global_frame_buffer st) \<and>
     (vbe_bpp mode = 24 \<or> vbe_bpp mode = 32) \<and> screen_size st = scast (ucast (vbe_height mode) * ucast (vbe_width mode) :: u32))"

lemma write_pixels_ok:
  assumes "display_ok st" and "length (kio_buffer st) = unat (screen_size st)"
  shows "\<exists>mem. write_pixels_vbe_display (kio_buffer st) (screen_size st) st = Inr (st\<lparr>fb_mem := mem\<rparr>)"
proof -
  obtain mode where m: "fb_mode (global_frame_buffer st) = Some mode" "is_frame_buffer_valid (global_frame_buffer st)"
    "vbe_bpp mode = 24 \<or> vbe_bpp mode = 32" "screen_size st = scast (ucast (vbe_height mode) * ucast (vbe_width mode) :: u32)"
    using assms(1) unfolding display_ok_def by blast
  have eq: "write_pixels_vbe_display (kio_buffer st) (screen_size st) st = Inr (st\<lparr>fb_mem :=
      if vbe_bpp mode = 24
      then fold (\<lambda>i. store_pixel24 (fb_vaddr (global_frame_buffer st) + of_nat (3 * i)) (kio_buffer st ! i))
        [0..<unat (screen_size st)] (fb_mem st)
      else fold (\<lambda>i. store_pixel32 (fb_vaddr (global_frame_buffer st) + of_nat (4 * i)) (kio_buffer st ! i))
        [0..<unat (screen_size st)] (fb_mem st)\<rparr>)"
    unfolding write_pixels_vbe_display_def Let_def m(1) option.case m(4) [symmetric]
    using m(3) by (elim disjE) (simp_all only: m(2) assms(2) if_True if_False order.refl simp_thms less_irrefl, simp_all)
  show ?thesis by (intro exI) (rule eq)
qed


lemma unsync_flush_ok:
  assumes "screen_ok st" and "ring_ok (char_buffer st)" and "display_ok st"
  shows "\<exists>st'. unsync_flush st = Inr st' \<and> screen_ok st' \<and> ring_ok (char_buffer st') \<and>
    is_circular_buffer_empty (char_buffer st') \<and> kio_lock st' = kio_lock st \<and> display_ok st'"
proof (cases "is_circular_buffer_empty (char_buffer st)")
  case False
  have "ring_length (char_buffer st) \<le> unat (buffer_size (char_buffer st)) + 1"
    using ring_length_less [OF assms(2)] by simp
  then obtain st1 where st1: "drain (unat (buffer_size (char_buffer st)) + 1) st = Inr st1" "screen_ok st1"
    "ring_ok (char_buffer st1)" "is_circular_buffer_empty (char_buffer st1)" "kio_lock st1 = kio_lock st"
    "global_frame_buffer st1 = global_frame_buffer st" "screen_size st1 = screen_size st"
    using drain_ok [OF assms(1,2)] by blast
  have "display_ok st1" using assms(3) st1(6,7) by (simp add: display_ok_def)
  then obtain mem where "write_pixels_vbe_display (kio_buffer st1) (screen_size st1) st1 = Inr (st1\<lparr>fb_mem := mem\<rparr>)"
    using write_pixels_ok [of st1] st1(2) by (auto simp: screen_ok_def)
  moreover have "screen_ok (st1\<lparr>fb_mem := mem\<rparr>)"
    using st1(2) by (simp add: screen_ok_def font_width_def font_height_def)
  moreover have "display_ok (st1\<lparr>fb_mem := mem\<rparr>)" using \<open>display_ok st1\<close> by (simp add: display_ok_def)
  ultimately show ?thesis using False st1 by (simp add: unsync_flush_def)
qed (use assms in \<open>auto simp: unsync_flush_def\<close>)

section \<open>Digits\<close>

primrec digits_value :: "nat \<Rightarrow> u8 list \<Rightarrow> nat" where
  "digits_value B [] = 0"
| "digits_value B (d # ds) = unat d + B * digits_value B ds"

lemma digits_value_zeros [simp]: "digits_value B (replicate n 0) = 0"
  by (induction n) simp_all

lemma digits_value_append: "digits_value B (xs @ ys) = digits_value B xs + B ^ length xs * digits_value B ys"
  by (induction xs) (simp_all add: algebra_simps)

lemma digits_value_eq_0: "0 < B \<Longrightarrow> digits_value B ds = 0 \<Longrightarrow> ds = replicate (length ds) 0"
  by (induction ds) (simp_all add: unat_eq_0)

lemma digits_value_top:
  assumes "digits_value 16 buf < 16 ^ k" and "k \<le> length buf"
  shows "drop k buf = replicate (length buf - k) 0"
proof -
  have "digits_value 16 buf = digits_value 16 (take k buf) + 16 ^ k * digits_value 16 (drop k buf)"
    using digits_value_append [of 16 "take k buf" "drop k buf"] assms(2) by simp
  then have "digits_value 16 (drop k buf) = 0" using assms(1) by (cases "digits_value 16 (drop k buf)") simp_all
  then show ?thesis using digits_value_eq_0 [of 16 "drop k buf"] by simp
qed

lemma digit_loop_correct:
  assumes "1 < unat base" and "unat base \<le> 256" and "counter \<le> size0" and "length buf = size0"
    and "drop counter buf = replicate (size0 - counter) 0" and "unat n < unat base ^ (size0 - counter)"
  shows "\<exists>buf' k. digit_loop n base size0 counter buf = Inr (buf', k) \<and> length buf' = size0 \<and> k \<le> size0 \<and> counter \<le> k \<and>
    take counter buf' = take counter buf \<and> digits_value (unat base) (drop counter buf') = unat n \<and>
    (\<forall>d \<in> set (drop counter buf'). unat d < unat base)"
  using assms
proof (induction n base size0 counter buf rule: digit_loop.induct)
  case (1 n base size0 counter buf)
  show ?case
  proof (cases "n = 0")
    case True
    then have "digit_loop n base size0 counter buf = Inr (buf, counter)" by (simp add: digit_loop.simps [of 0])
    then show ?thesis using True "1.prems" by simp
  next
    case False
    then have c: "counter < size0" using "1.prems"(3,6) by (cases "counter = size0") (auto simp: unat_eq_0)
    then have exp: "unat base ^ (size0 - counter) = unat base * unat base ^ (size0 - (counter + 1))"
      by (metis Suc_diff_Suc Suc_eq_plus1 power_Suc)
    have b0: "base \<noteq> 0" using "1.prems"(1) by auto
    let ?d = "ucast (n mod base) :: u8" and ?buf = "buf[counter := ucast (n mod base)]"
    have d: "unat ?d = unat n mod unat base"
    proof -
      have "unat n mod unat base < 256" using "1.prems"(1,2) mod_less_divisor [of "unat base" "unat n"] by linarith
      then show ?thesis by (simp add: unsigned_ucast_eq unat_mod_distrib take_bit_nat_eq_self)
    qed
    have n': "unat (n div base) = unat n div unat base" by (simp add: unat_div_distrib)
    have lt: "unat (n div base) < unat base ^ (size0 - (counter + 1))"
      unfolding n' using "1.prems"(1,6) exp by (intro less_mult_imp_div_less) (simp add: mult.commute)
    have dr: "drop (counter + 1) ?buf = replicate (size0 - (counter + 1)) 0"
      using "1.prems"(5) by (metis Suc_eq_plus1 drop_Suc drop_replicate drop_update_cancel lessI diff_diff_left tl_drop)
    obtain buf' k where r: "digit_loop (n div base) base size0 (counter + 1) ?buf = Inr (buf', k)" "length buf' = size0" "k \<le> size0"
      "counter + 1 \<le> k" "take (counter + 1) buf' = take (counter + 1) ?buf"
      "digits_value (unat base) (drop (counter + 1) buf') = unat (n div base)"
      "\<forall>d \<in> set (drop (counter + 1) buf'). unat d < unat base"
      using "1.IH" [OF False b0 c "1.prems"(1,2)] c "1.prems"(4) dr lt by auto
    have at: "buf' ! counter = ?d"
      using r(2,5) c "1.prems"(4) by (metis length_list_update less_add_one nth_list_update_eq nth_take)
    have split: "drop counter buf' = ?d # drop (counter + 1) buf'" using r(2) c at by (metis Cons_nth_drop_Suc Suc_eq_plus1)
    have "take counter buf' = take counter buf"
      using r(5) by (metis le_add1 min_def take_take take_update_cancel le_refl)
    moreover have "digits_value (unat base) (drop counter buf') = unat n"
      using split r(6) d n' by simp
    moreover have "\<forall>d \<in> set (drop counter buf'). unat d < unat base"
      using split r(7) d "1.prems"(1) by simp
    moreover have "digit_loop n base size0 counter buf = Inr (buf', k)"
      using False b0 c r(1) by (simp add: digit_loop.simps [of n])
    ultimately show ?thesis using r by auto
  qed
qed

lemma fill_digit_buffer_correct:
  assumes "1 < unat base" and "unat base \<le> 256" and "unat n < unat base ^ size0"
  obtains buf k where "fill_digit_buffer n base size0 = Inr (buf, k)" and "length buf = size0" and "k \<le> size0"
    and "digits_value (unat base) buf = unat n" and "\<forall>d \<in> set buf. unat d < unat base"
  using digit_loop_correct [of base 0 size0 "replicate size0 0" n] assms that by (auto simp: fill_digit_buffer_def)

section \<open>Text\<close>

lemma put_text_contents:
  assumes "ring_ok (char_buffer st)" and "ring_length (char_buffer st) + length cs < unat (buffer_size (char_buffer st))"
  shows "\<exists>buff mem. put_text cs st = Inr (st\<lparr>char_buffer := buff, ring_mem := mem\<rparr>) \<and> ring_ok buff \<and>
    buffer_size buff = buffer_size (char_buffer st) \<and>
    ring_contents buff mem = ring_contents (char_buffer st) (ring_mem st) @ cs"
  using assms
proof (induction cs arbitrary: st)
  case Nil
  show ?case using Nil by (intro exI [of _ "char_buffer st"] exI [of _ "ring_mem st"]) (simp add: put_text_def)
next
  case (Cons c cs)
  obtain buff mem where w: "write_circular_buffer (char_buffer st) c (ring_mem st) = Inr (buff, mem)" "ring_ok buff"
    "ring_contents buff mem = ring_contents (char_buffer st) (ring_mem st) @ [c]" "buffer_size buff = buffer_size (char_buffer st)"
    using ring_write_contents [OF Cons.prems(1), of c "ring_mem st"] Cons.prems(2) by auto
  let ?st = "st\<lparr>char_buffer := buff, ring_mem := mem\<rparr>"
  have "length (ring_contents buff mem) = ring_length (char_buffer st) + 1" using w(3) by simp
  then have len: "ring_length buff = ring_length (char_buffer st) + 1" by simp
  obtain buff' mem' where "put_text cs ?st = Inr (?st\<lparr>char_buffer := buff', ring_mem := mem'\<rparr>)" "ring_ok buff'"
    "buffer_size buff' = buffer_size buff" "ring_contents buff' mem' = ring_contents buff mem @ cs"
    using Cons.IH [of ?st] w len Cons.prems(2) by auto
  then show ?case using w by (auto simp: put_text_def unsync_putchar_def)
qed

lemma put_text_append: "put_text (xs @ ys) st = kbind (put_text xs st) (put_text ys)"
  by (simp add: put_text_def kfold_append)

lemma written_bytes_contents:
  assumes "ring_ok buff" and "\<not> is_circular_buffer_empty buff"
  shows "unat (circular_buffer_written_bytes buff) = ring_length buff"
proof (cases "write_idx buff > read_idx buff")
  case True
  then show ?thesis using assms
    by (simp add: circular_buffer_written_bytes_def ring_length_def ring_ok_def unat_sub word_less_nat_alt word_le_nat_alt
        less_imp_le) (simp add: mod_if, linarith)
next
  case False
  have lt: "write_idx buff < read_idx buff" using False assms(2) by (auto simp: is_circular_buffer_empty_def)
  have "unat (buffer_size buff - read_idx buff) = unat (buffer_size buff) - unat (read_idx buff)"
    using assms(1) by (simp add: ring_ok_def unat_sub word_le_nat_alt)
  then have "unat (buffer_size buff - read_idx buff + write_idx buff) =
    unat (buffer_size buff) - unat (read_idx buff) + unat (write_idx buff)"
    using lt assms(1) u64_bound [of "buffer_size buff"] unfolding ring_ok_def word_less_nat_alt
    by (subst unat_add_u64) linarith+
  moreover have "(unat (write_idx buff) + unat (buffer_size buff) - unat (read_idx buff)) mod unat (buffer_size buff) =
    unat (buffer_size buff) - unat (read_idx buff) + unat (write_idx buff)"
    using lt assms(1) by (subst mod_less) (auto simp: ring_ok_def word_less_nat_alt)
  ultimately show ?thesis using False by (simp only: circular_buffer_written_bytes_def ring_length_def if_False)
qed

lemma opt_flush_not_due:
  assumes "ring_ok (char_buffer st)" and "0 < ring_length (char_buffer st)" and "ring_length (char_buffer st) < 32"
  shows "unsync_opt_flush st = Inr st"
proof -
  have "\<not> is_circular_buffer_empty (char_buffer st)"
    using assms(2) by (auto simp: is_circular_buffer_empty_def ring_length_def)
  then show ?thesis using written_bytes_contents [OF assms(1)] assms(3)
    by (simp add: unsync_opt_flush_def word_le_nat_alt)
qed

text \<open>Reading hexadecimal text back.\<close>

definition hex_char_value :: "u8 \<Rightarrow> nat" where
  "hex_char_value c = (if c \<ge> 65 then unat c - 55 else unat c - 48)"

definition hex_value :: "u8 list \<Rightarrow> nat" where
  "hex_value cs = fold (\<lambda>c a. 16 * a + hex_char_value c) cs 0"

lemma hex_char_value_digit:
  assumes "unat d < 16"
  shows "hex_char_value (hex_digit d) = unat d"
proof -
  have "d = of_nat (unat d)" by simp
  moreover have "unat d \<in> set [0..<16]" using assms by simp
  moreover have "\<forall>k \<in> set [0..<16]. hex_char_value (hex_digit (of_nat k)) = k" by code_simp
  ultimately show ?thesis by metis
qed

lemma hex_value_digits:
  "\<forall>d \<in> set ds. unat d < 16 \<Longrightarrow> hex_value (map hex_digit (rev ds)) = digits_value 16 ds"
  by (induction ds) (simp_all add: hex_value_def hex_char_value_digit)

section \<open>Properties\<close>

text \<open>
  C39. A number printed in hexadecimal arrives in the console as text from which it can be read back. While
  fewer than 14 characters wait, so that the 18 new ones do not make a flush due, in a ring of at least 32 bytes,
  \<open>print_uint64_hex\<close> appends to the characters that wait in the ring the two characters \<open>0x\<close> and 16
  digits whose value is the number, and it returns with the lock released.
\<close>

theorem print_uint64_hex_roundtrip:
  assumes "ring_ok (char_buffer st)" and "32 \<le> unat (buffer_size (char_buffer st))" and "\<not> kio_lock st"
    and "ring_length (char_buffer st) < 14"
  shows "\<exists>st' digits. print_uint64_hex n st = Inr st' \<and> \<not> kio_lock st' \<and> length digits = 16 \<and> hex_value digits = unat n \<and>
    ring_contents (char_buffer st') (ring_mem st') = ring_contents (char_buffer st) (ring_mem st) @ [48, 120] @ digits"
proof -
  obtain buf k where buf: "fill_digit_buffer n 16 16 = Inr (buf, k)" "length buf = 16" "digits_value 16 buf = unat n"
    "\<forall>d \<in> set buf. unat d < 16"
    by (rule fill_digit_buffer_correct [of 16 n 16]) (use u64_bound [of n] in auto)
  let ?digits = "map hex_digit (rev buf)" and ?st = "st\<lparr>kio_lock := True\<rparr>"
  obtain buff mem where t: "put_text (ascii ''0x'' @ ?digits) ?st = Inr (?st\<lparr>char_buffer := buff, ring_mem := mem\<rparr>)" "ring_ok buff"
    "ring_contents buff mem = ring_contents (char_buffer st) (ring_mem st) @ ascii ''0x'' @ ?digits"
    using put_text_contents [of ?st "ascii ''0x'' @ ?digits"] assms buf(2) by auto
  have "length (ring_contents buff mem) = ring_length (char_buffer st) + 18" using t(3) buf(2) by simp
  then have "unsync_opt_flush (?st\<lparr>char_buffer := buff, ring_mem := mem\<rparr>) = Inr (?st\<lparr>char_buffer := buff, ring_mem := mem\<rparr>)"
    using t(2) assms(4) by (intro opt_flush_not_due) simp_all
  then have "print_uint64_hex n st = Inr (st\<lparr>kio_lock := False, char_buffer := buff, ring_mem := mem\<rparr>)"
    using assms(3) buf(1) t(1) by (simp add: print_uint64_hex_def with_kio_lock_def acquire_kio_lock_def release_kio_lock_def)
  then show ?thesis using t(3) buf(2) hex_value_digits [OF buf(4)] buf(3)
    by (intro exI [of _ "st\<lparr>kio_lock := False, char_buffer := buff, ring_mem := mem\<rparr>"] exI [of _ ?digits]) simp
qed

definition ex_kio :: KioState where
  "ex_kio = \<lparr>char_buffer = \<lparr>cb_buffer = 8192, buffer_size = 4096, read_idx = 0, old_write_idx = 0, write_idx = 0, data_lost = False\<rparr>,
     disp_width = 2, disp_height = 2, next_x = 0, next_y = 0, screen_size = 4,
     background_color = \<lparr>col_r = 0, col_g = 0, col_b = 0, col_a = 255\<rparr>, font_color = \<lparr>col_r = 0, col_g = 255, col_b = 0, col_a = 255\<rparr>,
     kio_font = \<lparr>font_header = \<lparr>psf_magic = PSF2_MAGIC_NUMBER, psf_version = 0, psf_headersize = 32, psf_flags = 1, psf_numglyph = 128,
         psf_bytesperglyph = 1, psf_height = 1, psf_width = 1\<rparr>,
       ascii_table = replicate 128 0, is_valid = True, has_table = False, glyphs = Some (replicate 128 [True])\<rparr>,
     kio_buffer_ptr = 4096, kio_buffer = replicate 4 \<lparr>px_b = 0, px_g = 0, px_r = 0, px_a = 255\<rparr>, kio_lock = False,
     is_initialized = True, ring_mem = (\<lambda>_. 0),
     global_frame_buffer = \<lparr>fb_vaddr = 16384, fb_paddr = 16384,
       fb_mode = Some \<lparr>vbe_width = 2, vbe_height = 2, vbe_bpp = 32, vbe_framebuffer = 16384\<rparr>\<rparr>,
     fb_mem = (\<lambda>_. 0)\<rparr>"

lemma ex_kio_ring: "ring_ok (char_buffer ex_kio)" "buffer_size (char_buffer ex_kio) = 4096" "\<not> kio_lock ex_kio"
  "ring_length (char_buffer ex_kio) = 0"
  by (simp_all add: ex_kio_def ring_ok_def ring_length_def)

theorem print_uint64_hex_roundtrip_witness:
  "\<exists>st' digits. print_uint64_hex 0xBEEF ex_kio = Inr st' \<and> \<not> kio_lock st' \<and> length digits = 16 \<and> hex_value digits = 0xBEEF \<and>
    ring_contents (char_buffer st') (ring_mem st') = [48, 120] @ digits"
proof -
  have "ring_contents (char_buffer ex_kio) (ring_mem ex_kio) = []" using ex_kio_ring(4) by (simp add: ring_contents_def)
  then show ?thesis using print_uint64_hex_roundtrip [OF ex_kio_ring(1) _ ex_kio_ring(3), of "0xBEEF"] ex_kio_ring(2,4) by simp
qed

text \<open>
  The format \<open>%h32\<close> prints eight zeroes for every 32-bit number: the digits are taken from the top
  half of the 16 digits of the number widened to 64 bits.
\<close>

theorem printf_h32_prints_zeroes:
  assumes "ring_ok (char_buffer st)" and "buffer_size (char_buffer st) = 4096" and "\<not> kio_lock st"
    and "ring_length (char_buffer st) < 22"
  shows "\<exists>st'. printf ''%h32'' [ArgU32 v] st = Inr st' \<and> \<not> kio_lock st' \<and>
    ring_contents (char_buffer st') (ring_mem st') = ring_contents (char_buffer st) (ring_mem st) @ [48, 120] @ replicate 8 48"
proof -
  obtain buf k where buf: "fill_digit_buffer (ucast v) 16 16 = Inr (buf, k)" "length buf = 16"
    "digits_value 16 buf = unat v"
    by (rule fill_digit_buffer_correct [of 16 "ucast v" 16]) (use u32_bound [of v] in auto)
  have top: "drop 8 buf = replicate 8 0"
    using digits_value_top [of buf 8] buf(2,3) u32_bound [of v] by simp
  let ?st = "st\<lparr>kio_lock := True\<rparr>" and ?text = "ascii ''0x'' @ replicate 8 48"
  obtain buff mem where t: "put_text ?text ?st = Inr (?st\<lparr>char_buffer := buff, ring_mem := mem\<rparr>)" "ring_ok buff"
    "ring_contents buff mem = ring_contents (char_buffer st) (ring_mem st) @ ?text"
    using put_text_contents [of ?st ?text] assms by auto
  let ?st1 = "?st\<lparr>char_buffer := buff, ring_mem := mem\<rparr>"
  have "unsync_print_uintmax_hex (ucast v) 4 ?st = Inr ?st1"
    using buf(1) t(1) top by (simp add: unsync_print_uintmax_hex_def put_text_append [symmetric] hex_digit_def)
  then have loop: "printf_loop False ''%h32'' [ArgU32 v] ?st = Inr ?st1"
    by (simp add: printf_token_def printf_token64_def printf_token32_def next_u32_def)
  have "length (ring_contents buff mem) = ring_length (char_buffer st) + 10" using t(3) by simp
  then have "unsync_opt_flush ?st1 = Inr ?st1" using t(2) assms(4) by (intro opt_flush_not_due) simp_all
  then show ?thesis using assms(3) loop t(3)
    by (simp add: printf_def with_kio_lock_def acquire_kio_lock_def release_kio_lock_def)
qed

theorem printf_h32_prints_zeroes_witness:
  "\<exists>st'. printf ''%h32'' [ArgU32 0xBEEF] ex_kio = Inr st' \<and> ring_contents (char_buffer st') (ring_mem st') = [48, 120] @ replicate 8 48"
proof -
  have "ring_contents (char_buffer ex_kio) (ring_mem ex_kio) = []" using ex_kio_ring(4) by (simp add: ring_contents_def)
  then show ?thesis using printf_h32_prints_zeroes [OF ex_kio_ring(1,2,3), of "0xBEEF"] ex_kio_ring(4) by auto
qed

text \<open>
  C40. A flush of a usable console returns: every character that waits is drawn within the pixel
  buffer, scrolling when the screen is full, the pixels reach the frame buffer, the ring is empty
  afterwards, the lock is free and the console is still usable.
\<close>

theorem kio_flush_safe:
  assumes "screen_ok st" and "ring_ok (char_buffer st)" and "display_ok st" and "\<not> kio_lock st"
  shows "\<exists>st'. kio_flush st = Inr st' \<and> screen_ok st' \<and> is_circular_buffer_empty (char_buffer st') \<and> \<not> kio_lock st'"
proof -
  let ?st = "st\<lparr>kio_lock := True\<rparr>"
  have "screen_ok ?st" "ring_ok (char_buffer ?st)" "display_ok ?st"
    using assms by (simp_all add: screen_ok_def display_ok_def font_width_def font_height_def)
  then obtain st1 where "unsync_flush ?st = Inr st1" "screen_ok st1" "is_circular_buffer_empty (char_buffer st1)"
    using unsync_flush_ok by blast
  then show ?thesis using assms(4)
    by (simp add: kio_flush_def with_kio_lock_def acquire_kio_lock_def release_kio_lock_def screen_ok_def font_width_def font_height_def)
qed

theorem kio_flush_safe_witness:
  "\<exists>st'. kio_flush ex_kio = Inr st' \<and> screen_ok st' \<and> is_circular_buffer_empty (char_buffer st') \<and> \<not> kio_lock st'"
proof (rule kio_flush_safe [OF _ ex_kio_ring(1) _ ex_kio_ring(3)])
  have "unat (of_nat c :: u16) < 128" if "c < 128" for c
    using that le_less_trans [OF mod_less_eq_dividend] by (simp add: unat_of_nat)
  then show "screen_ok ex_kio" by (simp add: ex_kio_def screen_ok_def font_ok_def font_width_def font_height_def)
  show "display_ok ex_kio" by (simp add: ex_kio_def display_ok_def is_frame_buffer_valid_def)
qed

end
