(* ===== verification/Kernel_State.thy ===== *)
theory Kernel_State
  imports Paging_Structures Heap_Spec Kio_Proofs
begin

text \<open>
  The state of the running kernel: the structures of the virtual memory manager (kernel/mem/vmm.h), of
  the translation cache shootdown (kernel/mem/vaddr_cache_shootdown.c), of the interrupt code, of the
  per-CPU data (kernel/kernel_data.c) and of the devices, next to the machine of the paging code and
  the console.

  Structures that the code allocates with \<open>kmalloc\<close> are kept in stores that map the pointer to the
  structure; the cells of the heap hold only what the heap itself stores. A pointer to a static
  structure is a constructor. One CPU executes; the registers of the others are saved in \<open>cpus\<close>.
\<close>

section \<open>Structures\<close>

datatype VirtualMemoryType =
    VM_TYPE_FREE
  | VM_TYPE_STACK
  | VM_TYPE_HEAP
  | VM_TYPE_GENERAL_USE
  | VM_TYPE_IDENTITY_MAP_FREE
  | VM_TYPE_IDENTITY_MAP
  | VM_TYPE_MEMORY_MAPPING

text \<open>A descriptor is an element of the static array of the bump allocator or a block of the heap.\<close>

datatype desc_ref = Bump nat | HeapDesc addr

record VirtualMemoryDescriptor =
  start_vaddr :: addr
  size_bytes :: u64
  upper_padding :: u64
  lower_padding :: u64
  vm_type :: VirtualMemoryType
  next_desc :: "desc_ref option"
  prev_desc :: "desc_ref option"
  is_from_heap :: bool

text \<open>The kernel has one static manager; any other manager is at an address.\<close>

datatype vmm_ref = KernelVMM | VMM_at addr

record VirtualMemoryManager =
  vm_list_head :: "desc_ref option"
  paging_structure :: addr
  kernel_mode :: bool
  vmm_lock :: bool

record VMemHandle =
  vm_desc :: "desc_ref option"
  handle_vmm :: "vmm_ref option"

record VMMCacheShootdownState =
  queues_to_wait_count :: u32
  emptied_queues_count :: u32

record VMMCacheShootdownRange =
  addr_start :: addr
  size_in_pages :: u64

text \<open>The pointer to the state is 0 when absent.\<close>

record CSQNode =
  node_range :: VMMCacheShootdownRange
  node_state :: addr
  node_next :: addr

record VMMCacheShootdownQueue =
  q_head :: addr
  q_tail :: addr
  node_count :: u64
  active :: bool
  queue_lock :: bool

record VMMCacheShootdownSystem =
  queue_array :: addr
  queues_count :: u64
  queues :: "VMMCacheShootdownQueue list"

record LocalKernelData =
  kernel_stack :: VMemHandle
  apic_id :: u32

record LocalKernelDataList =
  lk_cpu_id :: u32
  local_data :: LocalKernelData
  lk_next :: addr

record PIT =
  hardware_lock :: bool
  tick_counter :: u64
  interrupt_frequency :: u64
  interrupt_vector :: u8
  interrupt_receiver_apic_id :: u32
  channel_0_initialized :: bool
  channel_2_initialized :: bool

text \<open>\<open>KernelData\<close> without the manager, which is the one that \<open>KernelVMM\<close> refers to.\<close>

record KernelData =
  local_data_list :: addr
  kd_lock :: bool
  cpuid_to_allocate :: u32
  pit :: PIT
  pit_initialized :: u32

text \<open>Pointers into the ACPI tables are addresses; 0 is null.\<close>

record LocalAPIC =
  APIC_ID :: u32
  ics_lapic :: addr
  ics_lapic_nmi :: addr
  lapic_enabled :: bool

record LAPICSubsystemData =
  lapic_array :: addr
  lapic_array_size :: u64
  lapics :: "LocalAPIC list"
  lapic_base_address :: addr
  register_space_mapping :: VMemHandle

record IOAPIC =
  ics_ioapic :: addr
  physical_base_address :: addr
  ioapic_mmap :: VMemHandle
  ioapic_id :: u8
  ioapic_version :: u8
  maximum_redirection_entry :: u8

record IOAPICSubsystemData =
  ioapic_array :: addr
  ioapic_array_size :: u64
  ioapics :: "IOAPIC list"
  source_override_array :: addr
  source_override_array_size :: u64
  source_overrides :: "addr list"

text \<open>Function pointers and the extra data of a handler.\<close>

datatype InterruptHandler =
    page_fault_handler
  | cache_shootdown_handler
  | apic_error_handler
  | pit_handler
  | interrupt_print_handler
  | general_protection_fault_handler

datatype extra_data = NoExtraData | ExtraPIT

section \<open>Hardware\<close>

text \<open>What a CPU has of its own: its page table register, translation cache and local APIC registers.\<close>

record cpu =
  cpu_cr3 :: addr
  cpu_tlb :: "u64 \<Rightarrow> u64 option"
  cpu_lapic :: "u64 \<Rightarrow> u32"

text \<open>An I/O APIC: the selected register and the registers.\<close>

record ioapic_device =
  ioregsel :: u8
  ioregs :: "u8 \<Rightarrow> u32"

datatype io_op = Outb u16 u8 | Outw u16 u16

section \<open>The state\<close>

record kernel =
  mach :: machine
  descs :: "desc_ref \<Rightarrow> VirtualMemoryDescriptor"
  next_free_descriptor :: u64
  vmms :: "vmm_ref \<Rightarrow> VirtualMemoryManager"
  servicing_page_fault :: bool
  page_fault_lock :: bool
  handlers :: "InterruptHandler option list"
  extra_data_array :: "extra_data list"
  default_handler :: "InterruptHandler option"
  handlers_lock :: bool
  kernel_data :: KernelData
  lkd_nodes :: "addr \<Rightarrow> LocalKernelDataList"
  lapic_gdata :: LAPICSubsystemData
  lapic_regs :: "u64 \<Rightarrow> u32"
  ipi_log :: "(u32 \<times> u32) list"
  this_cpu :: nat
  online_cpus :: "nat list"
  cpus :: "nat \<Rightarrow> cpu"
  number_of_logical_cores :: u32
  cache_shootdown_sys :: VMMCacheShootdownSystem
  csq_nodes :: "addr \<Rightarrow> CSQNode"
  shootdown_states :: "addr \<Rightarrow> VMMCacheShootdownState"
  kio :: KioState
  ioapic_gdata :: IOAPICSubsystemData
  ioapic_lock :: bool
  ioapic_devices :: "addr \<Rightarrow> ioapic_device"
  pic_present :: bool
  pic_lock :: bool
  io_trace :: "io_op list"
  io_in :: "u16 \<Rightarrow> u8"
  acpi_mem :: bytes
  cached_rsdp :: addr
  cached_xsdp :: addr
  cached_madt :: addr
  interrupts_enabled :: bool

text \<open>The heap with the rest of the kernel as the state behind it.\<close>

type_synonym kstate = "(VMemHandle, kernel) heap_state"

type_synonym kmalloc_op = "u64 \<Rightarrow> kstate \<Rightarrow> (addr \<times> kstate) kres"

section \<open>Access to the state\<close>

definition on_kernel :: "(kernel \<Rightarrow> kernel) \<Rightarrow> kstate \<Rightarrow> kstate" where
  "on_kernel f s = s\<lparr>vmem := f (vmem s)\<rparr>"

definition on_machine :: "(machine \<Rightarrow> machine kres) \<Rightarrow> kstate \<Rightarrow> kstate kres" where
  "on_machine f s = kbind (f (mach (vmem s))) (\<lambda>m. Inr (on_kernel (mach_update (\<lambda>_. m)) s))"

definition on_kio :: "(KioState \<Rightarrow> KioState kres) \<Rightarrow> kstate \<Rightarrow> kstate kres" where
  "on_kio f s = kbind (f (kio (vmem s))) (\<lambda>st. Inr (on_kernel (kio_update (\<lambda>_. st)) s))"

definition new_frame :: "kstate \<Rightarrow> (addr \<times> kstate) kres" where
  "new_frame s = kbind (alloc_frame (mach (vmem s))) (\<lambda>(p, m). Inr (p, on_kernel (mach_update (\<lambda>_. m)) s))"

text \<open>Reading and changing a descriptor; following a null pointer is not defined.\<close>

definition the_ref :: "'r option \<Rightarrow> 'r kres" where
  "the_ref r = (case r of None \<Rightarrow> Inl Undefined | Some d \<Rightarrow> Inr d)"

abbreviation desc :: "kstate \<Rightarrow> desc_ref \<Rightarrow> VirtualMemoryDescriptor" where
  "desc s d \<equiv> descs (vmem s) d"

definition upd_desc ::
  "desc_ref \<Rightarrow> (VirtualMemoryDescriptor \<Rightarrow> VirtualMemoryDescriptor) \<Rightarrow> kstate \<Rightarrow> kstate" where
  "upd_desc d f s = on_kernel (descs_update (\<lambda>ds. ds(d := f (ds d)))) s"

text \<open>A store through a pointer that may be null, guarded by the test of the code.\<close>

definition upd_desc_opt ::
  "desc_ref option \<Rightarrow> (VirtualMemoryDescriptor \<Rightarrow> VirtualMemoryDescriptor) \<Rightarrow> kstate \<Rightarrow> kstate" where
  "upd_desc_opt r f s = (case r of None \<Rightarrow> s | Some d \<Rightarrow> upd_desc d f s)"

abbreviation vmm_of :: "kstate \<Rightarrow> vmm_ref \<Rightarrow> VirtualMemoryManager" where
  "vmm_of s v \<equiv> vmms (vmem s) v"

definition upd_vmm ::
  "vmm_ref \<Rightarrow> (VirtualMemoryManager \<Rightarrow> VirtualMemoryManager) \<Rightarrow> kstate \<Rightarrow> kstate" where
  "upd_vmm v f s = on_kernel (vmms_update (\<lambda>vs. vs(v := f (vs v)))) s"

definition acquire_vmm_lock :: "vmm_ref \<Rightarrow> kstate \<Rightarrow> kstate kres" where
  "acquire_vmm_lock v s = (if vmm_lock (vmm_of s v) then Inl Hang else Inr (upd_vmm v (vmm_lock_update (\<lambda>_. True)) s))"

definition release_vmm_lock :: "vmm_ref \<Rightarrow> kstate \<Rightarrow> kstate" where
  "release_vmm_lock v s = upd_vmm v (vmm_lock_update (\<lambda>_. False)) s"

named_theorems kstate_defs \<open>definitions of the access functions\<close>

lemmas [kstate_defs] = on_kernel_def upd_desc_def upd_desc_opt_def upd_vmm_def release_vmm_lock_def

lemma vmem_on_kernel [simp]: "vmem (on_kernel f s) = f (vmem s)"
  by (simp add: on_kernel_def)

lemma heap_on_kernel [simp]:
  "hmem (on_kernel f s) = hmem s" "kheap (on_kernel f s) = kheap s"
  "kheap_lock (on_kernel f s) = kheap_lock s" "kheap_initialized (on_kernel f s) = kheap_initialized s"
  by (simp_all add: on_kernel_def)

lemma desc_upd_desc [simp]: "desc (upd_desc d f s) e = (if e = d then f (desc s d) else desc s e)"
  by (simp add: upd_desc_def)

lemma desc_upd_desc_opt [simp]:
  "desc (upd_desc_opt r f s) e = (if r = Some e then f (desc s e) else desc s e)"
  by (cases r) (auto simp: upd_desc_opt_def)

lemma vmms_upd_desc [simp]: "vmms (vmem (upd_desc d f s)) = vmms (vmem s)"
  by (simp add: upd_desc_def)

lemma vmms_upd_desc_opt [simp]: "vmms (vmem (upd_desc_opt d f s)) = vmms (vmem s)"
  by (cases d) (simp_all add: upd_desc_opt_def)

lemma vmm_of_upd_vmm [simp]: "vmm_of (upd_vmm v f s) w = (if w = v then f (vmm_of s v) else vmm_of s w)"
  by (simp add: upd_vmm_def)

lemma descs_upd_vmm [simp]: "descs (vmem (upd_vmm v f s)) = descs (vmem s)"
  by (simp add: upd_vmm_def)

end
