(* ===== verification/Cpu_Data.thy ===== *)
theory Cpu_Data
  imports Kernel_State
begin

text \<open>
  Handles of virtual memory (the accessors of kernel/mem/vmm.c), the interrupt handler table
  (kernel/interrupt/interrupts.c), the list of per-CPU data (kernel/kernel_data.c) and the registers and
  commands of the local APIC (kernel/interrupt/apic.c). The components above need these operations of
  each other; the rest of those files is in later theories.
\<close>

section \<open>Handles of virtual memory\<close>

abbreviation (input) KERNEL_VMEM_START :: addr where
  "KERNEL_VMEM_START \<equiv> 0xffff800000000000"

abbreviation (input) IDENTITY_MAP_VMEM_END :: addr where
  "IDENTITY_MAP_VMEM_END \<equiv> 0x8000000000"

abbreviation (input) LAST_VADDR :: addr where
  "LAST_VADDR \<equiv> 0xffffffffffffffff"

definition is_kernel_virtual_memory :: "addr \<Rightarrow> bool" where
  "is_kernel_virtual_memory vaddr \<longleftrightarrow> \<not> (vaddr \<ge> IDENTITY_MAP_VMEM_END \<and> vaddr < KERNEL_VMEM_START)"

definition invalid_handle :: VMemHandle where
  "invalid_handle = \<lparr>vm_desc = None, handle_vmm = None\<rparr>"

definition is_vmemhandle_invalid :: "VMemHandle \<Rightarrow> bool" where
  "is_vmemhandle_invalid h \<longleftrightarrow> handle_vmm h = None \<and> vm_desc h = None"

definition get_no_padding_size :: "VirtualMemoryDescriptor \<Rightarrow> u64" where
  "get_no_padding_size d = size_bytes d - upper_padding d - lower_padding d"

definition get_no_padding_start_addr :: "VirtualMemoryDescriptor \<Rightarrow> addr" where
  "get_no_padding_start_addr d = start_vaddr d + lower_padding d"

definition get_vmem_size :: "VMemHandle \<Rightarrow> kstate \<Rightarrow> u64 kres" where
  "get_vmem_size h s = kbind (the_ref (vm_desc h)) (\<lambda>d. Inr (get_no_padding_size (desc s d)))"

definition get_vmem_addr :: "VMemHandle \<Rightarrow> kstate \<Rightarrow> addr kres" where
  "get_vmem_addr h s = kbind (the_ref (vm_desc h)) (\<lambda>d. Inr (get_no_padding_start_addr (desc s d)))"

definition get_vmem_type :: "VMemHandle \<Rightarrow> kstate \<Rightarrow> VirtualMemoryType kres" where
  "get_vmem_type h s = kbind (the_ref (vm_desc h)) (\<lambda>d. Inr (vm_type (desc s d)))"

section \<open>The handler table\<close>

definition init_interrupts :: "kstate \<Rightarrow> kstate" where
  "init_interrupts s = on_kernel (\<lambda>k. k\<lparr>handlers_lock := False, default_handler := None,
     handlers := replicate 256 None, extra_data_array := replicate 256 NoExtraData\<rparr>) s"

definition with_handlers_lock :: "(kernel \<Rightarrow> kernel kres) \<Rightarrow> kstate \<Rightarrow> kstate kres" where
  "with_handlers_lock f s =
     (if handlers_lock (vmem s) then Inl Hang
      else kbind (f ((vmem s)\<lparr>handlers_lock := True\<rparr>)) (\<lambda>k. Inr (s\<lparr>vmem := k\<lparr>handlers_lock := False\<rparr>\<rparr>)))"

definition install_interrupt_handler :: "u64 \<Rightarrow> InterruptHandler \<Rightarrow> kstate \<Rightarrow> kstate kres" where
  "install_interrupt_handler interrupt_number handler s =
     kassert (interrupt_number < 256)
       (with_handlers_lock (\<lambda>k. Inr (k\<lparr>handlers := (handlers k)[unat interrupt_number := Some handler]\<rparr>)) s)"

definition install_default_interrupt_handler :: "InterruptHandler \<Rightarrow> kstate \<Rightarrow> kstate kres" where
  "install_default_interrupt_handler handler s =
     with_handlers_lock (\<lambda>k. Inr (k\<lparr>default_handler := Some handler\<rparr>)) s"

definition set_interrupt_handler_extra_data :: "u64 \<Rightarrow> extra_data \<Rightarrow> kstate \<Rightarrow> kstate kres" where
  "set_interrupt_handler_extra_data interrupt_number extra s =
     with_handlers_lock (\<lambda>k. kassert (interrupt_number < 256)
       (Inr (k\<lparr>extra_data_array := (extra_data_array k)[unat interrupt_number := extra]\<rparr>))) s"

section \<open>Per-CPU data\<close>

definition on_kdata :: "(KernelData \<Rightarrow> KernelData) \<Rightarrow> kstate \<Rightarrow> kstate" where
  "on_kdata f s = on_kernel (kernel_data_update f) s"

definition upd_lkd :: "addr \<Rightarrow> (LocalKernelDataList \<Rightarrow> LocalKernelDataList) \<Rightarrow> kstate \<Rightarrow> kstate" where
  "upd_lkd p f s = on_kernel (lkd_nodes_update (\<lambda>ns. ns(p := f (ns p)))) s"

definition init_kernel_data :: "kstate \<Rightarrow> kstate" where
  "init_kernel_data s = on_kdata (\<lambda>d. d\<lparr>kd_lock := False, local_data_list := NULL, cpuid_to_allocate := 0\<rparr>) s"

definition acquire_kd_lock :: "kstate \<Rightarrow> kstate kres" where
  "acquire_kd_lock s = (if kd_lock (kernel_data (vmem s)) then Inl Hang else Inr (on_kdata (\<lambda>d. d\<lparr>kd_lock := True\<rparr>) s))"

definition release_kd_lock :: "kstate \<Rightarrow> kstate" where
  "release_kd_lock s = on_kdata (\<lambda>d. d\<lparr>kd_lock := False\<rparr>) s"

text \<open>
  The walks through the list. A walk that visits \<open>2^61\<close> nodes, as many as there are aligned addresses,
  has met a node twice and does not end.
\<close>

fun last_lkd :: "nat \<Rightarrow> addr \<Rightarrow> kernel \<Rightarrow> addr kres" where
  "last_lkd 0 itr k = Inl Hang"
| "last_lkd (Suc n) itr k =
     (if lk_next (lkd_nodes k itr) \<noteq> NULL then last_lkd n (lk_next (lkd_nodes k itr)) k else Inr itr)"

fun find_lkd :: "nat \<Rightarrow> (LocalKernelDataList \<Rightarrow> bool) \<Rightarrow> addr \<Rightarrow> kernel \<Rightarrow> addr kres" where
  "find_lkd 0 P itr k = Inl Hang"
| "find_lkd (Suc n) P itr k =
     (if itr = NULL then Inr NULL
      else if P (lkd_nodes k itr) then Inr itr
      else find_lkd n P (lk_next (lkd_nodes k itr)) k)"

text \<open>
  The test of the new node comes after its fields are set in the first branch; in the second one the
  node is allocated only when the number of the CPU is not 0.
\<close>

definition register_local_kernel_data_cpu :: "kmalloc_op \<Rightarrow> kstate \<Rightarrow> (u32 \<times> kstate) kres" where
  "register_local_kernel_data_cpu km s =
     kbind (acquire_kd_lock s) (\<lambda>s1.
       let cpuid = cpuid_to_allocate (kernel_data (vmem s1));
           s2 = on_kdata (\<lambda>d. d\<lparr>cpuid_to_allocate := cpuid + 1\<rparr>) s1;
           head = local_data_list (kernel_data (vmem s2))
       in if head = NULL then
            kbind (km 40 s2) (\<lambda>(p, s3).
              let s4 = upd_lkd p (\<lambda>n. n\<lparr>lk_cpu_id := cpuid, lk_next := NULL\<rparr>)
                         (on_kdata (\<lambda>d. d\<lparr>local_data_list := p\<rparr>) s3)
              in kassert (p \<noteq> NULL) (Inr (cpuid, release_kd_lock s4)))
          else
            kbind (last_lkd (2 ^ 61) head (vmem s2)) (\<lambda>itr.
            kassert (itr \<noteq> NULL)
             (kbind (if cpuid \<noteq> 0 then kbind (km 40 s2) (\<lambda>(p, s3). Inr (upd_lkd itr (\<lambda>n. n\<lparr>lk_next := p\<rparr>) s3))
                     else Inr s2) (\<lambda>s4.
                let p = lk_next (lkd_nodes (vmem s4) itr)
                in kassert (p \<noteq> NULL)
                  (Inr (cpuid, release_kd_lock (upd_lkd p (\<lambda>n. n\<lparr>lk_cpu_id := cpuid, lk_next := NULL\<rparr>) s4)))))))"

definition set_local_kernel_data :: "u32 \<Rightarrow> LocalKernelData \<Rightarrow> kstate \<Rightarrow> kstate kres" where
  "set_local_kernel_data cpu_id data s =
     kbind (acquire_kd_lock s) (\<lambda>s1.
     kbind (find_lkd (2 ^ 61) (\<lambda>n. lk_cpu_id n = cpu_id) (local_data_list (kernel_data (vmem s1))) (vmem s1)) (\<lambda>itr.
       kassert (itr \<noteq> NULL) (Inr (release_kd_lock (upd_lkd itr (\<lambda>n. n\<lparr>local_data := data\<rparr>) s1)))))"

definition get_local_kernel_data :: "u32 \<Rightarrow> kstate \<Rightarrow> (LocalKernelData \<times> kstate) kres" where
  "get_local_kernel_data cpu_id s =
     kbind (acquire_kd_lock s) (\<lambda>s1.
     kbind (find_lkd (2 ^ 61) (\<lambda>n. lk_cpu_id n = cpu_id) (local_data_list (kernel_data (vmem s1))) (vmem s1)) (\<lambda>itr.
       kassert (itr \<noteq> NULL) (Inr (local_data (lkd_nodes (vmem s1) itr), release_kd_lock s1))))"

definition get_cpu_id_from_apic_id :: "u32 \<Rightarrow> kstate \<Rightarrow> (u32 \<times> kstate) kres" where
  "get_cpu_id_from_apic_id lapic_id s =
     kbind (acquire_kd_lock s) (\<lambda>s1.
     kbind (find_lkd (2 ^ 61) (\<lambda>n. apic_id (local_data n) = lapic_id) (local_data_list (kernel_data (vmem s1))) (vmem s1)) (\<lambda>itr.
       kassert (itr \<noteq> NULL) (Inr (lk_cpu_id (lkd_nodes (vmem s1) itr), release_kd_lock s1))))"

section \<open>The registers of the local APIC\<close>

text \<open>
  The registers of the executing CPU by their offset. The write of the low half of the interrupt
  command sends the interrupt that the two halves describe at that moment.
\<close>

definition lapic_store :: "u64 \<Rightarrow> u32 \<Rightarrow> kernel \<Rightarrow> kernel" where
  "lapic_store off v k =
     (let k1 = k\<lparr>lapic_regs := (lapic_regs k)(off := v)\<rparr>
      in if off = 0x300 then k1\<lparr>ipi_log := ipi_log k @ [(lapic_regs k 0x310, v)]\<rparr> else k1)"

definition lapic_mapped :: "kstate \<Rightarrow> bool" where
  "lapic_mapped s \<longleftrightarrow> \<not> is_vmemhandle_invalid (register_space_mapping (lapic_gdata (vmem s)))"

definition get_register_space_start_addr :: "kstate \<Rightarrow> addr kres" where
  "get_register_space_start_addr s =
     kassert (lapic_mapped s) (get_vmem_addr (register_space_mapping (lapic_gdata (vmem s))) s)"

definition write_32_lapic_register :: "u64 \<Rightarrow> u32 \<Rightarrow> kstate \<Rightarrow> kstate kres" where
  "write_32_lapic_register register_offset value s =
     kbind (get_register_space_start_addr s) (\<lambda>_. Inr (on_kernel (lapic_store register_offset value) s))"

definition read_32_lapic_register :: "u64 \<Rightarrow> kstate \<Rightarrow> u32 kres" where
  "read_32_lapic_register register_offset s =
     kbind (get_register_space_start_addr s) (\<lambda>_. Inr (lapic_regs (vmem s) register_offset))"

definition write_64_lapic_register :: "u64 \<Rightarrow> u64 \<Rightarrow> kstate \<Rightarrow> kstate kres" where
  "write_64_lapic_register reg_low value s =
     (let low_value = ucast value :: u32;
          high_value = ucast (drop_bit 32 value) :: u32
      in kbind (get_register_space_start_addr s) (\<lambda>_.
           Inr (on_kernel (lapic_store (reg_low + 0x10) high_value) (on_kernel (lapic_store reg_low low_value) s))))"

definition read_64_lapic_register :: "u64 \<Rightarrow> kstate \<Rightarrow> u64 kres" where
  "read_64_lapic_register reg_low s =
     kbind (get_register_space_start_addr s) (\<lambda>_.
       Inr (ucast (lapic_regs (vmem s) reg_low) OR push_bit 32 (ucast (lapic_regs (vmem s) (reg_low + 0x10)))))"

definition get_logical_core_lapic_id :: "kstate \<Rightarrow> u32 kres" where
  "get_logical_core_lapic_id s =
     kbind (read_32_lapic_register 0x20 s) (\<lambda>raw. Inr (drop_bit 24 raw AND 0xff))"

section \<open>Interrupt commands\<close>

datatype APICDeliveryMode =
    APIC_DEL_MODE_FIXED
  | APIC_DEL_MODE_LOWEST_PRIORITY
  | APIC_DEL_MODE_SMI
  | APIC_DEL_MODE_NMI
  | APIC_DEL_MODE_INIT
  | APIC_DEL_MODE_START_UP
  | APIC_DEL_MODE_EXT_INT

fun del_mode_code :: "APICDeliveryMode \<Rightarrow> u64" where
  "del_mode_code APIC_DEL_MODE_FIXED = 0"
| "del_mode_code APIC_DEL_MODE_LOWEST_PRIORITY = 1"
| "del_mode_code APIC_DEL_MODE_SMI = 2"
| "del_mode_code APIC_DEL_MODE_NMI = 4"
| "del_mode_code APIC_DEL_MODE_INIT = 5"
| "del_mode_code APIC_DEL_MODE_START_UP = 6"
| "del_mode_code APIC_DEL_MODE_EXT_INT = 7"

datatype APICDestinationShorthand =
    APIC_DESTSH_NO_SH
  | APIC_DESTSH_SELF
  | APIC_DESTSH_ALL_INCLUDING_SELF
  | APIC_DESTSH_ALL_EXCLUDING_SELF

fun dest_sh_code :: "APICDestinationShorthand \<Rightarrow> u64" where
  "dest_sh_code APIC_DESTSH_NO_SH = 0"
| "dest_sh_code APIC_DESTSH_SELF = 1"
| "dest_sh_code APIC_DESTSH_ALL_INCLUDING_SELF = 2"
| "dest_sh_code APIC_DESTSH_ALL_EXCLUDING_SELF = 3"

definition make_interrupt_command ::
  "u8 \<Rightarrow> APICDestinationShorthand \<Rightarrow> u8 \<Rightarrow> u8 \<Rightarrow> u8 \<Rightarrow> APICDeliveryMode \<Rightarrow> u8 \<Rightarrow> u64" where
  "make_interrupt_command destination_id dest_sh trigger_mode level destination_mode del_mode vector =
     push_bit 56 (ucast destination_id) OR push_bit 18 (dest_sh_code dest_sh AND 3) OR
     push_bit 15 (ucast (trigger_mode AND 1)) OR push_bit 14 (ucast (level AND 1)) OR
     push_bit 11 (ucast (destination_mode AND 1)) OR push_bit 8 (del_mode_code del_mode AND 7) OR ucast vector"

definition is_IPI_sending_complete :: "kstate \<Rightarrow> bool kres" where
  "is_IPI_sending_complete s =
     kassert (lapic_mapped s)
       (kbind (read_64_lapic_register 0x300 s) (\<lambda>icr. Inr (icr AND push_bit 12 1 = 0)))"

text \<open>
  The loop that waits for the previous command. The registers change only by the stores of the code: a
  delivery that is pending stays pending, and the loop does not end.
\<close>

definition wait_and_write_interrupt_command_register :: "u64 \<Rightarrow> kstate \<Rightarrow> kstate kres" where
  "wait_and_write_interrupt_command_register ICR s =
     kassert (lapic_mapped s)
       (kbind (is_IPI_sending_complete s) (\<lambda>complete.
          if complete then write_64_lapic_register 0x300 ICR s else Inl Hang))"

definition send_IPI_by_destination_shorthand :: "APICDestinationShorthand \<Rightarrow> u8 \<Rightarrow> kstate \<Rightarrow> kstate kres" where
  "send_IPI_by_destination_shorthand dest_sh vec s =
     kassert (dest_sh \<noteq> APIC_DESTSH_NO_SH)
      (kassert (lapic_mapped s)
        (wait_and_write_interrupt_command_register
          (make_interrupt_command 0xff dest_sh 0 1 0 APIC_DEL_MODE_FIXED vec) s))"

definition send_IPI_by_lapic_id :: "u32 \<Rightarrow> u8 \<Rightarrow> kstate \<Rightarrow> kstate kres" where
  "send_IPI_by_lapic_id lapic_id_target vec s =
     kassert (lapic_mapped s)
       (wait_and_write_interrupt_command_register
         (make_interrupt_command (ucast lapic_id_target) APIC_DESTSH_NO_SH 0 1 0 APIC_DEL_MODE_FIXED vec) s)"

definition send_IPI_INIT_by_lapic_id :: "u32 \<Rightarrow> kstate \<Rightarrow> kstate kres" where
  "send_IPI_INIT_by_lapic_id lapic_id_target s =
     kassert (lapic_mapped s)
       (wait_and_write_interrupt_command_register
         (make_interrupt_command (ucast lapic_id_target) APIC_DESTSH_NO_SH 0 1 0 APIC_DEL_MODE_INIT 0) s)"

definition send_IPI_INIT_to_all_excluding_self :: "kstate \<Rightarrow> kstate kres" where
  "send_IPI_INIT_to_all_excluding_self s =
     kassert (lapic_mapped s)
       (wait_and_write_interrupt_command_register
         (make_interrupt_command 0 APIC_DESTSH_ALL_EXCLUDING_SELF 0 1 0 APIC_DEL_MODE_INIT 0) s)"

definition send_IPI_INIT_deassert :: "kstate \<Rightarrow> kstate kres" where
  "send_IPI_INIT_deassert s =
     kassert (lapic_mapped s)
       (wait_and_write_interrupt_command_register
         (make_interrupt_command 0 APIC_DESTSH_ALL_INCLUDING_SELF 1 0 0 APIC_DEL_MODE_INIT 0) s)"

definition send_IPI_INIT_deassert_by_lapic_id :: "u32 \<Rightarrow> kstate \<Rightarrow> kstate kres" where
  "send_IPI_INIT_deassert_by_lapic_id lapic_id s =
     kassert (lapic_mapped s)
       (wait_and_write_interrupt_command_register
         (make_interrupt_command (ucast lapic_id) APIC_DESTSH_NO_SH 1 0 0 APIC_DEL_MODE_INIT 0) s)"

definition send_startup_IPI :: "u32 \<Rightarrow> u8 \<Rightarrow> kstate \<Rightarrow> kstate kres" where
  "send_startup_IPI lapic_id_target vec s =
     kassert (lapic_mapped s)
       (wait_and_write_interrupt_command_register
         (make_interrupt_command (ucast lapic_id_target) APIC_DESTSH_NO_SH 0 1 0 APIC_DEL_MODE_START_UP vec) s)"

definition send_startup_IPI_to_all_excluding_self :: "u8 \<Rightarrow> kstate \<Rightarrow> kstate kres" where
  "send_startup_IPI_to_all_excluding_self vec s =
     kassert (lapic_mapped s)
       (wait_and_write_interrupt_command_register
         (make_interrupt_command 0 APIC_DESTSH_ALL_EXCLUDING_SELF 0 1 0 APIC_DEL_MODE_START_UP vec) s)"

definition send_lapic_EOI :: "kstate \<Rightarrow> kstate kres" where
  "send_lapic_EOI s = kassert (lapic_mapped s) (write_32_lapic_register 0xB0 0 s)"

end
