(* ===== verification/Shootdown.thy ===== *)
theory Shootdown
  imports Cpu_Data
begin

text \<open>
  The shootdown of translation caches on other CPUs, kernel/mem/vaddr_cache_shootdown.c. Every CPU has
  a queue of ranges in an array; the queue of a CPU is named by its index. The nodes of the queues are
  blocks of the heap. \<open>kmalloc\<close> is an argument, because the heap itself calls these functions when it
  grows.

  An interrupt that a CPU sends is taken at once: every CPU it is addressed to runs the handler, one after
  the other, before the sender continues.
\<close>

section \<open>Queues\<close>

abbreviation shoot_sys :: "kstate \<Rightarrow> VMMCacheShootdownSystem" where
  "shoot_sys s \<equiv> cache_shootdown_sys (vmem s)"

definition queue :: "nat \<Rightarrow> kstate \<Rightarrow> VMMCacheShootdownQueue" where
  "queue i s = queues (shoot_sys s) ! i"

definition upd_queue :: "nat \<Rightarrow> (VMMCacheShootdownQueue \<Rightarrow> VMMCacheShootdownQueue) \<Rightarrow> kstate \<Rightarrow> kstate" where
  "upd_queue i f s =
     on_kernel (cache_shootdown_sys_update (\<lambda>y. y\<lparr>queues := (queues y)[i := f (queues y ! i)]\<rparr>)) s"

definition upd_node :: "addr \<Rightarrow> (CSQNode \<Rightarrow> CSQNode) \<Rightarrow> kstate \<Rightarrow> kstate" where
  "upd_node p f s = on_kernel (csq_nodes_update (\<lambda>ns. ns(p := f (ns p)))) s"

definition upd_sd_state :: "addr \<Rightarrow> (VMMCacheShootdownState \<Rightarrow> VMMCacheShootdownState) \<Rightarrow> kstate \<Rightarrow> kstate" where
  "upd_sd_state p f s = on_kernel (shootdown_states_update (\<lambda>m. m(p := f (m p)))) s"

definition null_range :: VMMCacheShootdownRange where
  "null_range = \<lparr>addr_start = NULL, size_in_pages = 0\<rparr>"

definition is_vmmcache_shootdown_range_null :: "VMMCacheShootdownRange \<Rightarrow> bool" where
  "is_vmmcache_shootdown_range_null r \<longleftrightarrow>
     addr_start null_range = addr_start r \<and> size_in_pages null_range = size_in_pages r"

definition get_logical_core_vmmcache_shootdown_queue_index :: "kstate \<Rightarrow> (nat \<times> kstate) kres" where
  "get_logical_core_vmmcache_shootdown_queue_index s =
     kassert (queue_array (shoot_sys s) \<noteq> NULL)
       (kbind (get_logical_core_lapic_id s) (\<lambda>lapic_id.
        kbind (get_cpu_id_from_apic_id lapic_id s) (\<lambda>(cpuid, s1).
          let index = ucast cpuid :: u64
          in kassert (index < queues_count (shoot_sys s1)) (Inr (unat index, s1)))))"

text \<open>The queue itself, by its index.\<close>

definition get_logical_core_vmmcache_shootdown_queue :: "kstate \<Rightarrow> (nat \<times> kstate) kres" where
  "get_logical_core_vmmcache_shootdown_queue s =
     kassert (queue_array (shoot_sys s) \<noteq> NULL)
       (kbind (get_logical_core_lapic_id s) (\<lambda>lapic_id.
        kbind (get_cpu_id_from_apic_id lapic_id s) (\<lambda>(cpuid, s1).
          let index = ucast cpuid :: u64
          in kassert (index < queues_count (shoot_sys s1)) (Inr (unat index, s1)))))"

definition create_CSQNode :: "kmalloc_op \<Rightarrow> VMMCacheShootdownRange \<Rightarrow> addr \<Rightarrow> kstate \<Rightarrow> (addr \<times> kstate) kres" where
  "create_CSQNode km r state s =
     kbind (km 32 s) (\<lambda>(p, s1).
       Inr (p, upd_node p (\<lambda>n. n\<lparr>node_next := NULL, node_range := r, node_state := state\<rparr>) s1))"

definition destroy_CSQNode :: "addr \<Rightarrow> kstate \<Rightarrow> kstate kres" where
  "destroy_CSQNode node s = kfree node s"

definition acquire_queue_lock :: "nat \<Rightarrow> kstate \<Rightarrow> kstate kres" where
  "acquire_queue_lock i s =
     (if queue_lock (queue i s) then Inl Hang else Inr (upd_queue i (queue_lock_update (\<lambda>_. True)) s))"

definition release_queue_lock :: "nat \<Rightarrow> kstate \<Rightarrow> kstate" where
  "release_queue_lock i s = upd_queue i (queue_lock_update (\<lambda>_. False)) s"

definition unsync_is_shootdown_q_empty :: "VMMCacheShootdownQueue \<Rightarrow> bool" where
  "unsync_is_shootdown_q_empty q \<longleftrightarrow> q_head q = NULL \<and> q_tail q = NULL"

definition is_shootdown_q_empty :: "nat \<Rightarrow> kstate \<Rightarrow> (bool \<times> kstate) kres" where
  "is_shootdown_q_empty i s =
     kbind (acquire_queue_lock i s) (\<lambda>s1.
       Inr (unsync_is_shootdown_q_empty (queue i s1), release_queue_lock i s1))"

definition push_to_shootdown_q ::
  "kmalloc_op \<Rightarrow> nat \<Rightarrow> VMMCacheShootdownRange \<Rightarrow> addr \<Rightarrow> kstate \<Rightarrow> kstate kres" where
  "push_to_shootdown_q km i r state s =
     kbind (acquire_queue_lock i s) (\<lambda>s1.
     kbind (if unsync_is_shootdown_q_empty (queue i s1)
            then kbind (create_CSQNode km r state s1) (\<lambda>(p, s2).
                   Inr (upd_queue i (\<lambda>q. q\<lparr>q_head := p, q_tail := p\<rparr>) s2))
            else let old_head = q_head (queue i s1)
                 in kbind (create_CSQNode km r state s1) (\<lambda>(p, s2).
                      Inr (upd_node p (\<lambda>n. n\<lparr>node_next := old_head\<rparr>) (upd_queue i (\<lambda>q. q\<lparr>q_head := p\<rparr>) s2))))
       (\<lambda>s3. Inr (release_queue_lock i (upd_queue i (\<lambda>q. q\<lparr>node_count := node_count q + 1\<rparr>) s3))))"

definition pop_from_shootdown_q :: "nat \<Rightarrow> kstate \<Rightarrow> ((VMMCacheShootdownRange \<times> addr) \<times> kstate) kres" where
  "pop_from_shootdown_q i s =
     kbind (acquire_queue_lock i s) (\<lambda>s1.
     kassert (\<not> unsync_is_shootdown_q_empty (queue i s1))
       (let to_pop = q_head (queue i s1);
            node = csq_nodes (vmem s1) to_pop
        in if to_pop = NULL then Inl Undefined
           else kbind (if to_pop = q_tail (queue i s1)
                  then kbind (destroy_CSQNode to_pop s1) (\<lambda>s2.
                         Inr (upd_queue i (\<lambda>q. q\<lparr>q_head := NULL, q_tail := NULL\<rparr>) s2))
                  else destroy_CSQNode to_pop (upd_queue i (\<lambda>q. q\<lparr>q_head := node_next node\<rparr>) s1))
             (\<lambda>s3. Inr ((node_range node, node_state node),
                release_queue_lock i (upd_queue i (\<lambda>q. q\<lparr>node_count := node_count q - 1\<rparr>) s3)))))"

definition is_shootdown_q_active :: "nat \<Rightarrow> kstate \<Rightarrow> (bool \<times> kstate) kres" where
  "is_shootdown_q_active i s =
     kbind (acquire_queue_lock i s) (\<lambda>s1. Inr (active (queue i s1), release_queue_lock i s1))"

definition get_shootdown_q_count :: "nat \<Rightarrow> kstate \<Rightarrow> (u64 \<times> kstate) kres" where
  "get_shootdown_q_count i s =
     kbind (acquire_queue_lock i s) (\<lambda>s1. Inr (node_count (queue i s1), release_queue_lock i s1))"

definition delete_vmmcache_range :: "VMMCacheShootdownRange \<Rightarrow> kstate \<Rightarrow> kstate" where
  "delete_vmmcache_range r s =
     (let start = addr_start r - addr_start r mod PAGE_SIZE
      in on_kernel (mach_update (fold (\<lambda>i. delete_page_translation_cache (start + of_nat i * PAGE_SIZE))
           [0..<unat (size_in_pages r)])) s)"

section \<open>Initialisation\<close>

definition initialize_cache_shootdown_queue :: "VMMCacheShootdownQueue \<Rightarrow> VMMCacheShootdownQueue" where
  "initialize_cache_shootdown_queue q =
     q\<lparr>q_head := NULL, q_tail := NULL, active := False, node_count := 0, queue_lock := False\<rparr>"

definition get_number_of_usable_logical_cores :: "kstate \<Rightarrow> u64" where
  "get_number_of_usable_logical_cores s = ucast (number_of_logical_cores (vmem s))"

text \<open>The memory of the array is not initialised: its contents before are the argument \<open>garbage\<close>.\<close>

definition initialize_vmmcache_shootdown_subsystem ::
  "kmalloc_op \<Rightarrow> VMMCacheShootdownQueue \<Rightarrow> kstate \<Rightarrow> kstate kres" where
  "initialize_vmmcache_shootdown_subsystem km garbage s =
     (let n = get_number_of_usable_logical_cores s;
          s1 = on_kernel (cache_shootdown_sys_update (\<lambda>y. y\<lparr>queues_count := n\<rparr>)) s
      in kbind (km (32 * n) s1) (\<lambda>(p, s2).
           install_interrupt_handler 0x31 cache_shootdown_handler
             (on_kernel (cache_shootdown_sys_update (\<lambda>y. y\<lparr>queue_array := p,
                queues := map initialize_cache_shootdown_queue (replicate (unat n) garbage)\<rparr>)) s2)))"

definition activate_this_cpu_vmmcache_shootdown :: "kstate \<Rightarrow> kstate kres" where
  "activate_this_cpu_vmmcache_shootdown s =
     kbind (get_logical_core_vmmcache_shootdown_queue s) (\<lambda>(i, s1).
     kbind (acquire_queue_lock i s1) (\<lambda>s2.
       Inr (on_kernel (mach_update delete_all_translation_cache)
              (release_queue_lock i (upd_queue i (active_update (\<lambda>_. True)) s2)))))"

section \<open>Shootdowns\<close>

text \<open>The loop over all queues: the ones of the other CPUs that are active get the range.\<close>

definition enqueue_vmmcache_shootdown_range_with_state ::
  "kmalloc_op \<Rightarrow> VMMCacheShootdownRange \<Rightarrow> addr \<Rightarrow> kstate \<Rightarrow> kstate kres" where
  "enqueue_vmmcache_shootdown_range_with_state km r state s =
     kassert (queue_array (shoot_sys s) \<noteq> NULL)
       (kbind (get_logical_core_vmmcache_shootdown_queue_index s) (\<lambda>(self_queue_index, s1).
          kfold (\<lambda>i s2. kbind (is_shootdown_q_active i s2) (\<lambda>(act, s3).
              if act \<and> i \<noteq> self_queue_index then push_to_shootdown_q km i r state s3 else Inr s3))
            [0..<unat (queues_count (shoot_sys s1))] s1))"

definition enqueue_vmmcache_shootdown_range :: "kmalloc_op \<Rightarrow> VMMCacheShootdownRange \<Rightarrow> kstate \<Rightarrow> kstate kres" where
  "enqueue_vmmcache_shootdown_range km r s = enqueue_vmmcache_shootdown_range_with_state km r NULL s"

definition init_vmmcache_shootdown_state :: "addr \<Rightarrow> kstate \<Rightarrow> kstate kres" where
  "init_vmmcache_shootdown_state state s =
     kassert (queue_array (shoot_sys s) \<noteq> NULL)
       (let s1 = upd_sd_state state (\<lambda>t. t\<lparr>emptied_queues_count := 0\<rparr>) s
        in kbind (get_logical_core_vmmcache_shootdown_queue_index s1) (\<lambda>(self_queue_index, s2).
             let count = length (filter (\<lambda>i. i \<noteq> self_queue_index \<and> active (queue i s2))
                   [0..<unat (queues_count (shoot_sys s2))])
             in Inr (upd_sd_state state (\<lambda>t. t\<lparr>queues_to_wait_count := of_nat count\<rparr>) s2)))"

definition vmmcache_shootdown_state_signal_queue_empty :: "addr \<Rightarrow> kstate \<Rightarrow> kstate" where
  "vmmcache_shootdown_state_signal_queue_empty state s =
     upd_sd_state state (\<lambda>t. t\<lparr>emptied_queues_count := emptied_queues_count t + 1\<rparr>) s"

text \<open>The state that is waited for changes only by the handlers, which have run.\<close>

definition wait_for_vmmcache_shootdown_completition :: "addr \<Rightarrow> kstate \<Rightarrow> kstate kres" where
  "wait_for_vmmcache_shootdown_completition state s =
     (let t = shootdown_states (vmem s) state
      in if emptied_queues_count t < queues_to_wait_count t then Inl Hang else Inr s)"

definition is_vmmcache_shootdown_subsystem_initialized :: "kstate \<Rightarrow> bool" where
  "is_vmmcache_shootdown_subsystem_initialized s \<longleftrightarrow> queue_array (shoot_sys s) \<noteq> NULL"

definition handle_one_range :: "nat \<Rightarrow> kstate \<Rightarrow> kstate kres" where
  "handle_one_range i s =
     kbind (pop_from_shootdown_q i s) (\<lambda>((r, state), s1).
       let s2 = (if is_vmmcache_shootdown_range_null r then delete_vmmcache_range r s1 else s1)
       in Inr (if state \<noteq> NULL then vmmcache_shootdown_state_signal_queue_empty state s2 else s2))"

text \<open>The loop of the handler; a chain of nodes that has not ended after \<open>2^61\<close> nodes is a cycle.\<close>

fun empty_queue :: "nat \<Rightarrow> nat \<Rightarrow> kstate \<Rightarrow> kstate kres" where
  "empty_queue n i s =
     kbind (is_shootdown_q_empty i s) (\<lambda>(e, s1).
       if e then Inr s1
       else case n of 0 \<Rightarrow> Inl Hang | Suc m \<Rightarrow> kbind (handle_one_range i s1) (empty_queue m i))"

declare empty_queue.simps [simp del]

definition cache_shootdown_interrupt_handler :: "kstate \<Rightarrow> kstate kres" where
  "cache_shootdown_interrupt_handler s =
     kbind (get_logical_core_vmmcache_shootdown_queue s) (\<lambda>(i, s1). empty_queue (2 ^ 61) i s1)"

section \<open>Other CPUs\<close>

definition save_cpu :: "kernel \<Rightarrow> kernel" where
  "save_cpu k = k\<lparr>cpus := (cpus k)(this_cpu k :=
     \<lparr>cpu_cr3 = cr3 (mach k), cpu_tlb = tlb (mach k), cpu_lapic = lapic_regs k\<rparr>)\<rparr>"

definition load_cpu :: "nat \<Rightarrow> kernel \<Rightarrow> kernel" where
  "load_cpu j k = k\<lparr>this_cpu := j, lapic_regs := cpu_lapic (cpus k j),
     mach := (mach k)\<lparr>cr3 := cpu_cr3 (cpus k j), tlb := cpu_tlb (cpus k j)\<rparr>\<rparr>"

definition switch_cpu :: "nat \<Rightarrow> kstate \<Rightarrow> kstate" where
  "switch_cpu j s = on_kernel (\<lambda>k. load_cpu j (save_cpu k)) s"

definition interrupt_cpus :: "nat list \<Rightarrow> kstate \<Rightarrow> kstate kres" where
  "interrupt_cpus targets s =
     (let sender = this_cpu (vmem s)
      in kbind (kfold (\<lambda>j s1. cache_shootdown_interrupt_handler (switch_cpu j s1)) targets s) (\<lambda>s2.
           Inr (switch_cpu sender s2)))"

definition empty_all_vmmcache_shootdown_queues :: "kmalloc_op \<Rightarrow> addr \<Rightarrow> kstate \<Rightarrow> kstate kres" where
  "empty_all_vmmcache_shootdown_queues km state s =
     kbind (if state \<noteq> NULL
            then kbind (init_vmmcache_shootdown_state state s) (enqueue_vmmcache_shootdown_range_with_state km null_range state)
            else Inr s) (\<lambda>s1.
     kbind (send_IPI_by_destination_shorthand APIC_DESTSH_ALL_INCLUDING_SELF 0x31 s1) (\<lambda>s2.
       interrupt_cpus (online_cpus (vmem s2)) s2))"

definition empty_other_cpus_vmmcache_shootdown_queues :: "kmalloc_op \<Rightarrow> addr \<Rightarrow> kstate \<Rightarrow> kstate kres" where
  "empty_other_cpus_vmmcache_shootdown_queues km state s =
     kbind (if state \<noteq> NULL
            then kbind (init_vmmcache_shootdown_state state s) (enqueue_vmmcache_shootdown_range_with_state km null_range state)
            else Inr s) (\<lambda>s1.
     kbind (send_IPI_by_destination_shorthand APIC_DESTSH_ALL_EXCLUDING_SELF 0x31 s1) (\<lambda>s2.
       interrupt_cpus (filter (\<lambda>j. j \<noteq> this_cpu (vmem s2)) (online_cpus (vmem s2))) s2))"

definition vmmcache_shootdown :: "kmalloc_op \<Rightarrow> VMMCacheShootdownRange \<Rightarrow> addr \<Rightarrow> kstate \<Rightarrow> kstate kres" where
  "vmmcache_shootdown km r state s =
     kbind (if state \<noteq> NULL then init_vmmcache_shootdown_state state s else Inr s) (\<lambda>s1.
     kbind (enqueue_vmmcache_shootdown_range_with_state km r state s1)
       (empty_other_cpus_vmmcache_shootdown_queues km NULL))"

end
