(* ===== verification/Vmm.thy ===== *)
theory Vmm
  imports Shootdown
begin

text \<open>
  The virtual memory manager, kernel/mem/vmm.c. The address space of a manager is a doubly linked list
  of descriptors in the order of their addresses; allocation cuts a piece from a free descriptor and
  maps frames to it, deallocation unmaps the piece and joins it with free neighbours.

  The heap asks the manager to grow its region while it holds its own lock, and the manager allocates
  descriptors and queue nodes from the heap. The operations take \<open>kmalloc\<close> as an argument \<open>km\<close>; the
  section on the composition with the heap ties the two together.
\<close>

section \<open>Shootdown and descriptors\<close>

text \<open>The shootdown state is a local variable of the caller, at the address \<open>local_state\<close> of its stack.\<close>

definition local_state :: addr where
  "local_state = 8"

definition shootdown :: "kmalloc_op \<Rightarrow> addr \<Rightarrow> u64 \<Rightarrow> kstate \<Rightarrow> kstate kres" where
  "shootdown km vaddr_start size0 s =
     kassert (size0 mod PAGE_SIZE = 0)
       (let r = \<lparr>addr_start = vaddr_start, size_in_pages = size0 div PAGE_SIZE\<rparr>
        in if is_vmmcache_shootdown_subsystem_initialized s
           then kbind (vmmcache_shootdown km r local_state s) (wait_for_vmmcache_shootdown_completition local_state)
           else Inr s)"

definition clear_padding :: "VirtualMemoryDescriptor \<Rightarrow> VirtualMemoryDescriptor" where
  "clear_padding d = d\<lparr>lower_padding := 0, upper_padding := 0\<rparr>"

definition allocate_vmem_descriptor :: "kmalloc_op \<Rightarrow> kstate \<Rightarrow> (desc_ref \<times> kstate) kres" where
  "allocate_vmem_descriptor km s =
     (if is_kheap_initialzed s
      then kbind (km 64 s) (\<lambda>(p, s1).
             Inr (HeapDesc p, upd_desc (HeapDesc p) (\<lambda>d. clear_padding (d\<lparr>is_from_heap := True\<rparr>)) s1))
      else
        let n = next_free_descriptor (vmem s)
        in if n \<ge> 64 then kpanic VMM_ERROR
           else Inr (Bump (unat n), upd_desc (Bump (unat n)) (\<lambda>d. clear_padding (d\<lparr>is_from_heap := False\<rparr>))
                  (on_kernel (next_free_descriptor_update (\<lambda>n. n + 1)) s)))"

text \<open>A descriptor of the bump allocator is never from the heap; freeing one as if it was is not defined.\<close>

definition deallocate_vmm_descriptor :: "desc_ref \<Rightarrow> kstate \<Rightarrow> kstate kres" where
  "deallocate_vmm_descriptor d s =
     (if is_from_heap (desc s d)
      then (case d of HeapDesc p \<Rightarrow> kfree p s | Bump _ \<Rightarrow> Inl Undefined)
      else Inr s)"

section \<open>Initialisation\<close>

definition initialize_kernel_VMM :: "kmalloc_op \<Rightarrow> vmm_ref \<Rightarrow> addr \<Rightarrow> kstate \<Rightarrow> kstate kres" where
  "initialize_kernel_VMM km v ps s =
     kbind (install_interrupt_handler 0xe page_fault_handler s) (\<lambda>s0.
     kbind (allocate_vmem_descriptor km s0) (\<lambda>(first_desc, s1).
     kbind (allocate_vmem_descriptor km s1) (\<lambda>(second_desc, s2).
       let size1 = IDENTITY_MAP_VMEM_END - PAGE_SIZE;
           size2 = LAST_VADDR - (KERNEL_VMEM_START + 1);
           s3 = upd_desc first_desc (\<lambda>d. d\<lparr>start_vaddr := PAGE_SIZE, size_bytes := size1 - size1 mod PAGE_SIZE,
                  vm_type := VM_TYPE_IDENTITY_MAP_FREE, prev_desc := None, next_desc := Some second_desc\<rparr>) s2;
           s4 = upd_desc second_desc (\<lambda>d. d\<lparr>start_vaddr := KERNEL_VMEM_START, size_bytes := size2 - size2 mod PAGE_SIZE,
                  vm_type := VM_TYPE_FREE, prev_desc := Some first_desc, next_desc := None\<rparr>) s3
       in Inr (upd_vmm v (\<lambda>_. \<lparr>vm_list_head = Some first_desc, paging_structure = ps, kernel_mode = True,
                 vmm_lock = False\<rparr>) s4))))"

definition initialize_user_VMM :: "kmalloc_op \<Rightarrow> vmm_ref \<Rightarrow> addr \<Rightarrow> kstate \<Rightarrow> kstate kres" where
  "initialize_user_VMM km v ps s =
     kbind (install_interrupt_handler 0xe page_fault_handler s) (\<lambda>s0.
     kbind (allocate_vmem_descriptor km s0) (\<lambda>(d, s1).
       let size1 = KERNEL_VMEM_START - IDENTITY_MAP_VMEM_END;
           s2 = upd_desc d (\<lambda>x. x\<lparr>start_vaddr := IDENTITY_MAP_VMEM_END, size_bytes := size1 - size1 mod PAGE_SIZE,
                  vm_type := VM_TYPE_FREE, prev_desc := None, next_desc := None\<rparr>) s1
       in Inr (upd_vmm v (\<lambda>_. \<lparr>vm_list_head = Some d, paging_structure = ps, kernel_mode = False, vmm_lock = False\<rparr>) s2)))"

definition get_VMM_paging_structure :: "vmm_ref \<Rightarrow> kstate \<Rightarrow> addr" where
  "get_VMM_paging_structure v s = paging_structure (vmm_of s v)"

section \<open>Cutting descriptors\<close>

text \<open>The walk to the head; \<open>2^64\<close> steps without an end are a cycle.\<close>

fun walk_to_head :: "nat \<Rightarrow> desc_ref \<Rightarrow> kstate \<Rightarrow> desc_ref kres" where
  "walk_to_head n d s = (case prev_desc (desc s d) of None \<Rightarrow> Inr d
     | Some p \<Rightarrow> (case n of 0 \<Rightarrow> Inl Hang | Suc m \<Rightarrow> walk_to_head m p s))"

declare walk_to_head.simps [simp del]

definition update_head :: "vmm_ref \<Rightarrow> kstate \<Rightarrow> kstate kres" where
  "update_head v s =
     kbind (the_ref (vm_list_head (vmm_of s v))) (\<lambda>h.
     kbind (walk_to_head (2 ^ 64) h s) (\<lambda>d. Inr (upd_vmm v (vm_list_head_update (\<lambda>_. Some d)) s)))"

definition is_free_type :: "VirtualMemoryType \<Rightarrow> bool" where
  "is_free_type t \<longleftrightarrow> t = VM_TYPE_FREE \<or> t = VM_TYPE_IDENTITY_MAP_FREE"

definition cut_descriptor_start :: "kmalloc_op \<Rightarrow> vmm_ref \<Rightarrow> desc_ref \<Rightarrow> u64 \<Rightarrow> kstate \<Rightarrow> (desc_ref \<times> kstate) kres" where
  "cut_descriptor_start km v d size0 s =
     kassert (is_free_type (vm_type (desc s d)))
      (kassert (size_bytes (desc s d) \<ge> size0)
      (kassert (size_bytes (desc s d) mod PAGE_SIZE = 0)
      (kassert (size0 mod PAGE_SIZE = 0)
        (let old_prev = prev_desc (desc s d);
             old_next = next_desc (desc s d)
         in if size_bytes (desc s d) = size0 then Inr (d, s)
            else kbind (allocate_vmem_descriptor km s) (\<lambda>(n, s1).
              let new_size = size_bytes (desc s1 d) - size0;
                  s2 = upd_desc d (size_bytes_update (\<lambda>_. size0)) s1;
                  s3 = upd_desc n (\<lambda>x. x\<lparr>size_bytes := new_size, vm_type := vm_type (desc s2 d),
                         start_vaddr := start_vaddr (desc s2 d) + size_bytes (desc s2 d)\<rparr>) s2;
                  s4 = upd_desc_opt old_prev (next_desc_update (\<lambda>_. Some d)) s3;
                  s5 = upd_desc d (\<lambda>x. x\<lparr>prev_desc := old_prev, next_desc := Some n\<rparr>) s4;
                  s6 = upd_desc n (\<lambda>x. x\<lparr>next_desc := old_next, prev_desc := Some d\<rparr>) s5;
                  s7 = upd_desc_opt old_next (prev_desc_update (\<lambda>_. Some n)) s6
              in kassert (start_vaddr (desc s7 d) + size_bytes (desc s7 d) = start_vaddr (desc s7 n))
                   (kbind (update_head v s7) (\<lambda>s8. Inr (d, s8))))))))"

text \<open>The piece at the end of the descriptor.\<close>

definition cut_descriptor_end ::
  "kmalloc_op \<Rightarrow> vmm_ref \<Rightarrow> desc_ref \<Rightarrow> addr \<Rightarrow> u64 \<Rightarrow> desc_ref option \<Rightarrow> desc_ref option \<Rightarrow> kstate \<Rightarrow>
   (desc_ref \<times> kstate) kres" where
  "cut_descriptor_end km v d start size0 old_prev old_next s =
     kbind (allocate_vmem_descriptor km s) (\<lambda>(n, s1).
       let new_size = size_bytes (desc s1 d) - size0;
           s2 = upd_desc d (size_bytes_update (\<lambda>_. new_size)) s1;
           s3 = upd_desc n (\<lambda>x. x\<lparr>size_bytes := size0, start_vaddr := start_vaddr (desc s2 d) + size_bytes (desc s2 d),
                  vm_type := vm_type (desc s2 d)\<rparr>) s2
       in kassert (start_vaddr (desc s3 n) = start)
         (let s4 = upd_desc_opt old_prev (next_desc_update (\<lambda>_. Some d)) s3;
              s5 = upd_desc d (\<lambda>x. x\<lparr>prev_desc := old_prev, next_desc := Some n\<rparr>) s4;
              s6 = upd_desc n (\<lambda>x. x\<lparr>next_desc := old_next, prev_desc := Some d\<rparr>) s5;
              s7 = upd_desc_opt old_next (prev_desc_update (\<lambda>_. Some n)) s6
          in kassert (start_vaddr (desc s7 d) + size_bytes (desc s7 d) = start_vaddr (desc s7 n))
               (kbind (update_head v s7) (\<lambda>s8. Inr (n, s8)))))"

text \<open>A piece from the middle: the descriptor becomes the piece, with a new one on each side.\<close>

definition cut_descriptor_middle ::
  "kmalloc_op \<Rightarrow> vmm_ref \<Rightarrow> desc_ref \<Rightarrow> addr \<Rightarrow> u64 \<Rightarrow> desc_ref option \<Rightarrow> desc_ref option \<Rightarrow> kstate \<Rightarrow>
   (desc_ref \<times> kstate) kres" where
  "cut_descriptor_middle km v d start size0 old_prev old_next s =
     kassert (start > start_vaddr (desc s d))
       (let old_size = size_bytes (desc s d);
            old_start_vaddr = start_vaddr (desc s d)
        in kbind (allocate_vmem_descriptor km s) (\<lambda>(p, s1).
           kbind (allocate_vmem_descriptor km s1) (\<lambda>(n, s2).
           let s3 = upd_desc n (vm_type_update (\<lambda>_. vm_type (desc s2 d)))
                      (upd_desc p (vm_type_update (\<lambda>_. vm_type (desc s2 d))) s2);
               s4 = upd_desc_opt old_prev (next_desc_update (\<lambda>_. Some p)) s3;
               s5 = upd_desc p (\<lambda>x. x\<lparr>prev_desc := old_prev, next_desc := Some d\<rparr>) s4;
               s6 = upd_desc d (\<lambda>x. x\<lparr>prev_desc := Some p, next_desc := Some n\<rparr>) s5;
               s7 = upd_desc n (\<lambda>x. x\<lparr>prev_desc := Some d, next_desc := old_next\<rparr>) s6;
               s8 = upd_desc_opt old_next (prev_desc_update (\<lambda>_. Some n)) s7;
               s9 = upd_desc p (\<lambda>x. x\<lparr>start_vaddr := old_start_vaddr,
                      size_bytes := start - start_vaddr (desc s8 d)\<rparr>) s8
           in kassert (start_vaddr (desc s9 p) + size_bytes (desc s9 p) = start)
             (let s10 = upd_desc d (\<lambda>x. x\<lparr>start_vaddr := start, size_bytes := size0\<rparr>) s9;
                  s11 = upd_desc n (\<lambda>x. x\<lparr>start_vaddr := start_vaddr (desc s10 d) + size_bytes (desc s10 d),
                          size_bytes := old_start_vaddr + old_size - (start + size0)\<rparr>) s10
              in kassert (old_start_vaddr + old_size = start_vaddr (desc s11 n) + size_bytes (desc s11 n))
                   (kbind (update_head v s11) (\<lambda>s12. Inr (d, s12)))))))"

definition cut_descriptor ::
  "kmalloc_op \<Rightarrow> vmm_ref \<Rightarrow> desc_ref \<Rightarrow> addr \<Rightarrow> u64 \<Rightarrow> kstate \<Rightarrow> (desc_ref \<times> kstate) kres" where
  "cut_descriptor km v d start size0 s =
     kassert (is_free_type (vm_type (desc s d)))
      (kassert (size_bytes (desc s d) mod PAGE_SIZE = 0)
      (kassert (size0 mod PAGE_SIZE = 0)
        (let old_prev = prev_desc (desc s d);
             old_next = next_desc (desc s d)
         in if start_vaddr (desc s d) = start \<and> size_bytes (desc s d) = size0 then Inr (d, s)
            else if start_vaddr (desc s d) = start then cut_descriptor_start km v d size0 s
            else if start_vaddr (desc s d) + size_bytes (desc s d) = start + size0
            then cut_descriptor_end km v d start size0 old_prev old_next s
            else cut_descriptor_middle km v d start size0 old_prev old_next s)))"

section \<open>Searching the list\<close>

text \<open>
  The walks along the list: from \<open>d\<close> on while there is a next descriptor and the test \<open>P\<close> asks to go
  on.
\<close>

fun walk_list :: "nat \<Rightarrow> (VirtualMemoryDescriptor \<Rightarrow> bool) \<Rightarrow> desc_ref \<Rightarrow> kstate \<Rightarrow> desc_ref kres" where
  "walk_list n P d s = (case next_desc (desc s d) of None \<Rightarrow> Inr d
     | Some e \<Rightarrow> if P (desc s d) then (case n of 0 \<Rightarrow> Inl Hang | Suc m \<Rightarrow> walk_list m P e s) else Inr d)"

declare walk_list.simps [simp del]

definition find_desc :: "(VirtualMemoryDescriptor \<Rightarrow> bool) \<Rightarrow> vmm_ref \<Rightarrow> kstate \<Rightarrow> desc_ref kres" where
  "find_desc P v s = kbind (the_ref (vm_list_head (vmm_of s v))) (\<lambda>h. walk_list (2 ^ 64) P h s)"

definition get_vmem_from_address :: "vmm_ref \<Rightarrow> addr \<Rightarrow> kstate \<Rightarrow> VMemHandle kres" where
  "get_vmem_from_address v a s =
     kbind (find_desc (\<lambda>d. \<not> (a \<ge> start_vaddr d \<and> a < start_vaddr d + size_bytes d)) v s) (\<lambda>d.
       if a \<ge> start_vaddr (desc s d) + size_bytes (desc s d) then Inr invalid_handle
       else if a < start_vaddr (desc s d) then Inr invalid_handle
       else Inr \<lparr>vm_desc = Some d, handle_vmm = Some v\<rparr>)"

section \<open>Mapping\<close>

definition identity_map :: "kmalloc_op \<Rightarrow> vmm_ref \<Rightarrow> addr \<Rightarrow> u64 \<Rightarrow> kstate \<Rightarrow> (VMemHandle \<times> kstate) kres" where
  "identity_map km v pa size0 s =
     kassert (pa \<noteq> NULL)
      (kassert (size0 mod PAGE_SIZE = 0)
      (kassert (pa mod PAGE_SIZE = 0)
       (kbind (acquire_vmm_lock v s) (\<lambda>s1.
        kassert (kernel_mode (vmm_of s1 v))
         (kbind (find_desc (\<lambda>d. start_vaddr d + size_bytes d \<le> pa) v s1) (\<lambda>d.
            if pa < start_vaddr (desc s1 d) \<or> pa + size0 > start_vaddr (desc s1 d) + size_bytes (desc s1 d)
            then Inr (invalid_handle, release_vmm_lock v s1)
            else if vm_type (desc s1 d) \<noteq> VM_TYPE_IDENTITY_MAP_FREE
            then Inr (invalid_handle, release_vmm_lock v s1)
            else kbind (cut_descriptor km v d pa size0 s1) (\<lambda>(c, s2).
                 kassert (start_vaddr (desc s2 c) mod PAGE_SIZE = 0)
                   (Inr (\<lparr>vm_desc = Some c, handle_vmm = Some v\<rparr>,
                      release_vmm_lock v (upd_desc c (vm_type_update (\<lambda>_. VM_TYPE_IDENTITY_MAP)) s2))))))))))"

text \<open>
  The loop \<open>for(to_map = first; to_map < last; to_map += PAGE_SIZE)\<close> over addresses, with the same
  remark on the wrap-around as for \<open>for_pages\<close>.
\<close>

definition map_identity :: "addr \<Rightarrow> addr \<Rightarrow> kstate \<Rightarrow> kstate kres" where
  "map_identity ps to_map s = on_machine (paging_map ps to_map to_map 3) s"

definition load_identity_map_pages ::
  "kmalloc_op \<Rightarrow> vmm_ref \<Rightarrow> addr \<Rightarrow> u64 \<Rightarrow> VMemHandle \<Rightarrow> kstate \<Rightarrow> kstate kres" where
  "load_identity_map_pages km v pa size0 handle s =
     kassert (handle_vmm handle = Some v)
      (kassert (size0 mod PAGE_SIZE = 0)
      (kassert (pa mod PAGE_SIZE = 0)
       (kbind (acquire_vmm_lock v s) (\<lambda>s1.
        kassert (kernel_mode (vmm_of s1 v))
         (let s2 = release_vmm_lock v s1
          in kbind (for_pages (map_identity (paging_structure (vmm_of s2 v))) pa (pa + size0) s2)
               (shootdown km pa size0))))))"

definition map_contiguous :: "addr \<Rightarrow> addr \<Rightarrow> addr \<Rightarrow> u16 \<Rightarrow> u64 \<Rightarrow> kstate \<Rightarrow> kstate kres" where
  "map_contiguous ps vaddr pa flags i s = on_machine (paging_map ps (vaddr + i) (pa + i) flags) s"

abbreviation (input) MEMORY_MAP_PADDING :: u64 where
  "MEMORY_MAP_PADDING \<equiv> 16384"

definition fits_free :: "u64 \<Rightarrow> VirtualMemoryDescriptor \<Rightarrow> bool" where
  "fits_free size0 d \<longleftrightarrow> size_bytes d \<ge> size0 \<and> vm_type d = VM_TYPE_FREE"

definition memory_map ::
  "kmalloc_op \<Rightarrow> vmm_ref \<Rightarrow> addr \<Rightarrow> u64 \<Rightarrow> u16 \<Rightarrow> kstate \<Rightarrow> (VMemHandle \<times> kstate) kres" where
  "memory_map km v pa size1 page_flags s =
     kbind (acquire_vmm_lock v s) (\<lambda>s1.
     kassert (kernel_mode (vmm_of s1 v))
      (let size0 = size1 + MEMORY_MAP_PADDING * 2
       in kassert (size0 mod PAGE_SIZE = 0)
        (kassert (pa mod PAGE_SIZE = 0)
          (kbind (find_desc (\<lambda>d. \<not> fits_free size0 d) v s1) (\<lambda>d.
           if vm_type (desc s1 d) \<noteq> VM_TYPE_FREE then kpanic VMM_ERROR
           else kbind (cut_descriptor_start km v d size0 s1) (\<lambda>(c, s2).
             let s3 = upd_desc c (vm_type_update (\<lambda>_. VM_TYPE_MEMORY_MAPPING)) s2
             in kassert (start_vaddr (desc s3 c) mod PAGE_SIZE = 0)
               (let s4 = upd_desc c (\<lambda>x. x\<lparr>lower_padding := MEMORY_MAP_PADDING, upper_padding := MEMORY_MAP_PADDING\<rparr>) s3;
                    vaddr = get_no_padding_start_addr (desc s4 c);
                    no_padding_size = get_no_padding_size (desc s4 c);
                    s5 = release_vmm_lock v s4
                in kbind (for_pages (map_contiguous (paging_structure (vmm_of s5 v)) vaddr pa (page_flags OR 1)) 0 no_padding_size s5) (\<lambda>s6.
                   kbind (shootdown km vaddr no_padding_size s6) (\<lambda>s7.
                     Inr (\<lparr>vm_desc = Some c, handle_vmm = Some v\<rparr>, s7))))))))))"

definition forget_page :: "addr \<Rightarrow> u64 \<Rightarrow> kstate \<Rightarrow> kstate kres" where
  "forget_page vaddr i s = Inr (on_kernel (mach_update (delete_page_translation_cache (vaddr + i))) s)"

text \<open>
  A zero for \<open>page_flags\<close> asks to copy the flags, which is what the paging code does with a zero.
\<close>

definition copy_memory_mapping_from_paging_structure ::
  "kmalloc_op \<Rightarrow> vmm_ref \<Rightarrow> addr \<Rightarrow> addr \<Rightarrow> u64 \<Rightarrow> u16 \<Rightarrow> kstate \<Rightarrow> (VMemHandle \<times> kstate) kres" where
  "copy_memory_mapping_from_paging_structure km v src_ps vaddr size0 page_flags s =
     kassert (size0 mod PAGE_SIZE = 0)
      (kbind (acquire_vmm_lock v s) (\<lambda>s1.
       kassert (kernel_mode (vmm_of s1 v))
        (kbind (find_desc (\<lambda>d. start_vaddr d + size_bytes d \<le> vaddr) v s1) (\<lambda>d.
           if vaddr < start_vaddr (desc s1 d) \<or> vaddr + size0 > start_vaddr (desc s1 d) + size_bytes (desc s1 d)
           then Inr (invalid_handle, release_vmm_lock v s1)
           else if vm_type (desc s1 d) \<noteq> VM_TYPE_FREE
           then Inr (invalid_handle, release_vmm_lock v s1)
           else kbind (cut_descriptor km v d vaddr size0 s1) (\<lambda>(c, s2).
                kassert (start_vaddr (desc s2 c) mod PAGE_SIZE = 0)
                  (let s3 = release_vmm_lock v (upd_desc c (vm_type_update (\<lambda>_. VM_TYPE_MEMORY_MAPPING)) s2)
                   in kbind (on_machine (copy_paging_structure_mapping_no_page_invalidation src_ps
                               (paging_structure (vmm_of s3 v)) vaddr size0 page_flags) s3) (\<lambda>s4.
                      kbind (for_pages (forget_page vaddr) 0 size0 s4) (\<lambda>s5.
                      kbind (shootdown km vaddr size0 s5) (\<lambda>s6.
                      kbind (acquire_vmm_lock v s6) (\<lambda>s7.
                        Inr (\<lparr>vm_desc = Some c, handle_vmm = Some v\<rparr>, release_vmm_lock v s7)))))))))))"

text \<open>
  The body of the loops that map new frames: the address is kept next to the state and advances by a
  page. The test \<open>ok\<close> is the assertion of the loop.
\<close>

definition map_new_frame :: "(addr \<Rightarrow> bool) \<Rightarrow> addr \<Rightarrow> u64 \<Rightarrow> addr \<times> kstate \<Rightarrow> (addr \<times> kstate) kres" where
  "map_new_frame ok ps i = (\<lambda>(vaddr, s).
     kassert (ok vaddr)
       (kbind (new_frame s) (\<lambda>(frame, s1).
        kbind (on_machine (paging_map ps vaddr frame 3) s1) (\<lambda>s2. Inr (vaddr + PAGE_SIZE, s2)))))"

definition allocate_kernel_virtual_memory ::
  "kmalloc_op \<Rightarrow> vmm_ref \<Rightarrow> u64 \<Rightarrow> VirtualMemoryType \<Rightarrow> u64 \<Rightarrow> u64 \<Rightarrow> kstate \<Rightarrow> (VMemHandle \<times> kstate) kres" where
  "allocate_kernel_virtual_memory km v size1 type upper lower s =
     (let size0 = size1 + (lower + upper)
      in kassert (size0 mod PAGE_SIZE = 0)
       (if \<not> (type \<noteq> VM_TYPE_IDENTITY_MAP_FREE \<and> type \<noteq> VM_TYPE_IDENTITY_MAP \<and> type \<noteq> VM_TYPE_MEMORY_MAPPING)
        then kpanic VMM_ERROR
        else kbind (acquire_vmm_lock v s) (\<lambda>s1.
          kassert (kernel_mode (vmm_of s1 v))
           (kbind (find_desc (\<lambda>d. \<not> fits_free size0 d) v s1) (\<lambda>d.
            if vm_type (desc s1 d) \<noteq> VM_TYPE_FREE then kpanic VMM_ERROR
            else kbind (cut_descriptor_start km v d size0 s1) (\<lambda>(c, s2).
              let s3 = upd_desc c (vm_type_update (\<lambda>_. type)) s2
              in kassert (start_vaddr (desc s3 c) mod PAGE_SIZE = 0)
                (let s4 = upd_desc c (\<lambda>x. x\<lparr>lower_padding := lower, upper_padding := upper\<rparr>) s3;
                     vaddr = get_no_padding_start_addr (desc s4 c);
                     no_padding_size = get_no_padding_size (desc s4 c);
                     s5 = release_vmm_lock v s4
                 in kbind (for_pages (map_new_frame (\<lambda>_. True) (paging_structure (vmm_of s5 v))) 0 no_padding_size (vaddr, s5)) (\<lambda>(vaddr1, s6).
                    kbind (shootdown km vaddr1 no_padding_size s6) (\<lambda>s7.
                      Inr (\<lparr>vm_desc = Some c, handle_vmm = Some v\<rparr>, s7))))))))))"

section \<open>Deallocation\<close>

definition frees_frames :: "VirtualMemoryType \<Rightarrow> bool" where
  "frees_frames t \<longleftrightarrow> t = VM_TYPE_HEAP \<or> t = VM_TYPE_STACK \<or> t = VM_TYPE_GENERAL_USE"

definition unmap_page :: "addr \<Rightarrow> desc_ref \<Rightarrow> u64 \<Rightarrow> addr \<times> kstate \<Rightarrow> (addr \<times> kstate) kres" where
  "unmap_page ps d i = (\<lambda>(vaddr, s).
     let st = get_physical_address ps vaddr (mach (vmem s))
     in kbind (if frees_frames (vm_type (desc s d)) \<and> mmap_present st
               then on_machine (dealloc_frame (paddr st)) s else Inr s) (\<lambda>s1.
        kbind (on_machine (invalidate_paging_mapping ps vaddr) s1) (\<lambda>s2.
          Inr (vaddr + PAGE_SIZE, s2))))"

text \<open>
  The loop over the descriptors of the free type that follow. A descriptor that is deallocated is read
  before; reading it after is not needed.
\<close>

fun join_free ::
  "nat \<Rightarrow> VirtualMemoryType \<Rightarrow> u64 \<Rightarrow> desc_ref option \<Rightarrow> kstate \<Rightarrow> (u64 \<times> desc_ref option \<times> kstate) kres" where
  "join_free n free_type total_size last_range s =
     (case last_range of
        None \<Rightarrow> Inr (total_size, None, s)
      | Some d \<Rightarrow>
          if vm_type (desc s d) \<noteq> free_type then Inr (total_size, Some d, s)
          else (case n of 0 \<Rightarrow> Inl Hang | Suc m \<Rightarrow>
            let nxt = next_desc (desc s d); size1 = total_size + size_bytes (desc s d)
            in kbind (deallocate_vmm_descriptor d s) (join_free m free_type size1 nxt)))"

declare join_free.simps [simp del]

definition deallocate_kernel_virtual_memory :: "kmalloc_op \<Rightarrow> VMemHandle \<Rightarrow> kstate \<Rightarrow> (bool \<times> kstate) kres" where
  "deallocate_kernel_virtual_memory km handle s =
     kbind (the_ref (handle_vmm handle)) (\<lambda>v.
     kbind (acquire_vmm_lock v s) (\<lambda>s1.
     kassert (kernel_mode (vmm_of s1 v))
      (kbind (the_ref (vm_desc handle)) (\<lambda>d0.
       kassert (vm_type (desc s1 d0) \<noteq> VM_TYPE_FREE)
        (kassert (vm_type (desc s1 d0) \<noteq> VM_TYPE_IDENTITY_MAP_FREE)
          (let free_type = (if start_vaddr (desc s1 d0) < IDENTITY_MAP_VMEM_END then VM_TYPE_IDENTITY_MAP_FREE else VM_TYPE_FREE);
               vaddr0 = get_no_padding_start_addr (desc s1 d0);
               size0 = get_no_padding_size (desc s1 d0)
           in kbind (for_pages (unmap_page (paging_structure (vmm_of s1 v)) d0) 0 size0 (vaddr0, s1)) (\<lambda>(vaddr, s2).
              kbind (shootdown km vaddr size0 s2) (\<lambda>s3.
              let s4 = upd_desc d0 (\<lambda>x. x\<lparr>vm_type := free_type, lower_padding := 0, upper_padding := 0\<rparr>) s3;
                  d = (case prev_desc (desc s4 d0) of None \<Rightarrow> d0
                       | Some p \<Rightarrow> if vm_type (desc s4 p) = free_type then p else d0)
              in kbind (the_ref (next_desc (desc s4 d))) (\<lambda>n.
                 if vm_type (desc s4 n) = free_type
                 then kbind (join_free (2 ^ 64) free_type (size_bytes (desc s4 d)) (Some n) s4) (\<lambda>(total_size, last_range, s5).
                        let s6 = upd_desc d (\<lambda>x. x\<lparr>size_bytes := total_size, next_desc := last_range\<rparr>) s5;
                            s7 = upd_desc_opt last_range (prev_desc_update (\<lambda>_. Some d)) s6
                        in Inr (True, release_vmm_lock v s7))
                 else Inr (True, release_vmm_lock v s4))))))))))"

section \<open>Expansion\<close>

definition round_up_page :: "u64 \<Rightarrow> u64" where
  "round_up_page size0 = (if size0 mod PAGE_SIZE \<noteq> 0 then size0 + (PAGE_SIZE - size0 mod PAGE_SIZE) else size0)"

text \<open>
  The lock is released only on the path that expands; when the region cannot be expanded the function
  returns with the lock held.
\<close>

definition try_expand_vmem_top_with ::
  "kmalloc_op \<Rightarrow> VMemHandle \<Rightarrow> u64 \<Rightarrow> bool \<Rightarrow> kstate \<Rightarrow> (bool \<times> kstate) kres" where
  "try_expand_vmem_top_with km handle size1 use_spinlock s =
     kbind (the_ref (handle_vmm handle)) (\<lambda>v.
       let size0 = round_up_page size1
       in kbind (if use_spinlock then acquire_vmm_lock v s else Inr s) (\<lambda>s1.
          kbind (the_ref (vm_desc handle)) (\<lambda>d.
            let is_type_invalid = \<not> frees_frames (vm_type (desc s1 d));
                is_too_small = size0 > upper_padding (desc s1 d);
                vaddr = get_no_padding_start_addr (desc s1 d) + get_no_padding_size (desc s1 d);
                desc_end_vaddr = start_vaddr (desc s1 d) + size_bytes (desc s1 d)
            in if is_type_invalid \<or> is_too_small then Inr (False, s1)
               else let s2 = upd_desc d (\<lambda>x. x\<lparr>upper_padding := upper_padding x - size0\<rparr>) s1;
                        s3 = (if use_spinlock then release_vmm_lock v s2 else s2)
                    in kbind (for_pages (map_new_frame (\<lambda>a. a < desc_end_vaddr) (paging_structure (vmm_of s3 v))) 0 size0 (vaddr, s3)) (\<lambda>(vaddr1, s4).
                       kbind (shootdown km vaddr1 size0 s4) (\<lambda>s5. Inr (True, s5))))))"

definition try_expand_vmem_top :: "kmalloc_op \<Rightarrow> VMemHandle \<Rightarrow> u64 \<Rightarrow> kstate \<Rightarrow> (bool \<times> kstate) kres" where
  "try_expand_vmem_top km handle size0 s = try_expand_vmem_top_with km handle size0 True s"

definition try_expand_vmem_bottom_with ::
  "kmalloc_op \<Rightarrow> VMemHandle \<Rightarrow> u64 \<Rightarrow> bool \<Rightarrow> kstate \<Rightarrow> (bool \<times> kstate) kres" where
  "try_expand_vmem_bottom_with km handle size1 use_spinlock s =
     kbind (the_ref (handle_vmm handle)) (\<lambda>v.
       let size0 = round_up_page size1
       in kbind (if use_spinlock then acquire_vmm_lock v s else Inr s) (\<lambda>s1.
          kbind (the_ref (vm_desc handle)) (\<lambda>d.
            let is_type_invalid = \<not> frees_frames (vm_type (desc s1 d));
                is_too_small = size0 > lower_padding (desc s1 d);
                vaddr = get_no_padding_start_addr (desc s1 d) - size0;
                desc_start_vaddr = start_vaddr (desc s1 d)
            in if is_type_invalid \<or> is_too_small then Inr (False, s1)
               else let s2 = upd_desc d (\<lambda>x. x\<lparr>lower_padding := lower_padding x - size0\<rparr>) s1;
                        s3 = (if use_spinlock then release_vmm_lock v s2 else s2)
                    in kbind (for_pages (map_new_frame (\<lambda>a. a \<ge> desc_start_vaddr) (paging_structure (vmm_of s3 v))) 0 size0 (vaddr, s3)) (\<lambda>(vaddr1, s4).
                       kbind (shootdown km vaddr1 size0 s4) (\<lambda>s5. Inr (True, s5))))))"

definition try_expand_vmem_bottom :: "kmalloc_op \<Rightarrow> VMemHandle \<Rightarrow> u64 \<Rightarrow> kstate \<Rightarrow> (bool \<times> kstate) kres" where
  "try_expand_vmem_bottom km handle size0 s = try_expand_vmem_bottom_with km handle size0 True s"

section \<open>Composition with the heap\<close>

text \<open>
  The heap grows by \<open>try_expand_vmem_top\<close>, which runs while the heap lock is held. A \<open>kmalloc\<close> in it
  waits for that lock for ever, so that the way it would grow in turn does not matter.
\<close>

definition locked_kmalloc :: kmalloc_op where
  "locked_kmalloc = kmalloc (\<lambda>_ _ _. Inl Hang)"

definition kernel_kmalloc :: kmalloc_op where
  "kernel_kmalloc = kmalloc (try_expand_vmem_top locked_kmalloc)"

definition handle_addr :: "kernel \<Rightarrow> VMemHandle \<Rightarrow> addr" where
  "handle_addr k h = (case vm_desc h of None \<Rightarrow> NULL | Some d \<Rightarrow> get_no_padding_start_addr (descs k d))"

definition handle_size :: "kernel \<Rightarrow> VMemHandle \<Rightarrow> u64" where
  "handle_size k h = (case vm_desc h of None \<Rightarrow> 0 | Some d \<Rightarrow> get_no_padding_size (descs k d))"

text \<open>The heap of the kernel, on a region of the kernel's manager.\<close>

definition kernel_heap_init :: "kstate \<Rightarrow> kstate kres" where
  "kernel_heap_init s =
     kheap_init (\<lambda>size0 upper lower. allocate_kernel_virtual_memory kernel_kmalloc KernelVMM size0 VM_TYPE_HEAP upper lower)
       handle_addr handle_size s"

section \<open>Page faults\<close>

record PageFaultInfo =
  page_error :: u64
  fault_address :: addr
  fault_vmem :: VMemHandle
  page_not_present :: bool

fun get_vm_type_string :: "VirtualMemoryType \<Rightarrow> string" where
  "get_vm_type_string VM_TYPE_FREE = ''FREE''"
| "get_vm_type_string VM_TYPE_IDENTITY_MAP_FREE = ''IDENTITY MAP FREE''"
| "get_vm_type_string VM_TYPE_STACK = ''STACK''"
| "get_vm_type_string VM_TYPE_HEAP = ''HEAP''"
| "get_vm_type_string VM_TYPE_GENERAL_USE = ''GENERAL USE''"
| "get_vm_type_string VM_TYPE_MEMORY_MAPPING = ''MEMORY MAPPING''"
| "get_vm_type_string VM_TYPE_IDENTITY_MAP = ''IDENTITY MAP''"

text \<open>What is printed, as a sequence of operations of the console.\<close>

datatype out = Str string | Hex u64 | Dec u64

definition emit :: "out list \<Rightarrow> kstate \<Rightarrow> kstate kres" where
  "emit = kfold (\<lambda>x. on_kio (case x of Str t \<Rightarrow> print t | Hex n \<Rightarrow> print_uint64_hex n | Dec n \<Rightarrow> print_uint64_dec n))"

definition newline_str :: string where
  "newline_str = [CHR 0x0A]"

fun print_descs :: "nat \<Rightarrow> desc_ref option \<Rightarrow> kstate \<Rightarrow> kstate kres" where
  "print_descs n r s = (case r of None \<Rightarrow> Inr s
     | Some d \<Rightarrow> (case n of 0 \<Rightarrow> Inl Hang | Suc m \<Rightarrow>
         kbind (emit [Hex (start_vaddr (desc s d)), Str '' / '', Hex (start_vaddr (desc s d) + size_bytes (desc s d)), Str '' -> '',
           Str (get_vm_type_string (vm_type (desc s d))), Str '' ['', Dec (get_no_padding_size (desc s d) div MB), Str '' MiB]'',
           Str newline_str] s) (\<lambda>s1. print_descs m (next_desc (desc s1 d)) s1)))"

declare print_descs.simps [simp del]

definition debug_print_vmm :: "vmm_ref \<Rightarrow> kstate \<Rightarrow> kstate kres" where
  "debug_print_vmm v s =
     kbind (emit [Str (newline_str @ ''-----kernel VMM state start-----'' @ newline_str), Str ''kernel paging structure: '',
       Hex (paging_structure (vmm_of s v)), Str newline_str, Str (''virtual adresses:'' @ newline_str)] s) (\<lambda>s1.
     kbind (print_descs (2 ^ 64) (vm_list_head (vmm_of s1 v)) s1)
       (emit [Str (''-----kernel VMM state end-----'' @ newline_str)]))"

definition print_page_fault_error :: "PageFaultInfo \<Rightarrow> kstate \<Rightarrow> kstate kres" where
  "print_page_fault_error info s =
     (let error = page_error info; h = fault_vmem info
      in kbind (emit ([Str ''[PAGE FAULT] '', Str (if bit error 1 then ''(write) '' else ''(read) '')] @
           (if \<not> bit error 0 then [Str ''page not present '']
            else if bit error 3 then [Str ''reserved write ''] else []) @
           (if bit error 4 then [Str ''caused by instruction fetch ''] else []) @
           (if bit error 5 then [Str ''caused by Protection Key ''] else []) @
           (if bit error 6 then [Str ''caused by Shadow Stack Access ''] else []) @
           (if bit error 15 then [Str ''caused by SGX ''] else []) @
           [Str newline_str, Str ''[PAGE FAULT ADDRESS] '', Hex (fault_address info), Str newline_str] @
           (if fault_address info \<le> PAGE_SIZE then [Str (''[PAGE FAULT] NULL PAGE POINTER DEREFERENCE'' @ newline_str)] else []) @
           [Str ''[PAGE FAULT VMEM] '']) s) (\<lambda>s1.
         kbind (if is_vmemhandle_invalid h then emit [Str ''NULL vmem (not allocated virtual memory)''] s1
                else kbind (get_vmem_type h s1) (\<lambda>t.
                     kbind (get_vmem_addr h s1) (\<lambda>a.
                     kbind (get_vmem_size h s1) (\<lambda>n.
                       emit [Str (get_vm_type_string t), Str '' '', Hex a, Str '' -> '', Hex (a + n)] s1))))
           (emit [Str newline_str])))"

text \<open>
  The loading of identity mapped pages. The first page is the fault address minus 8, and the range for
  the shootdown is computed after the loop, when \<open>to_map\<close> has reached \<open>last_page\<close>.
\<close>

definition map_identity_step :: "addr \<Rightarrow> u64 \<Rightarrow> addr \<times> kstate \<Rightarrow> (addr \<times> kstate) kres" where
  "map_identity_step ps i = (\<lambda>(to_map, s). kbind (map_identity ps to_map s) (\<lambda>s1. Inr (to_map + PAGE_SIZE, s1)))"

definition page_fault_check_identity_map_load ::
  "kmalloc_op \<Rightarrow> vmm_ref \<Rightarrow> PageFaultInfo \<Rightarrow> kstate \<Rightarrow> (bool \<times> kstate) kres" where
  "page_fault_check_identity_map_load km v info s =
     (if is_vmemhandle_invalid (fault_vmem info) then Inr (False, s)
      else kbind (get_vmem_type (fault_vmem info) s) (\<lambda>t.
        if t = VM_TYPE_IDENTITY_MAP \<and> page_not_present info then
          let first = fault_address info - 8;
              last_page = first + 17 * PAGE_SIZE
          in kbind (for_pages (map_identity_step (paging_structure (vmm_of s v))) first last_page (first, s)) (\<lambda>(to_map, s1).
             let r = \<lparr>addr_start = to_map, size_in_pages = (last_page - to_map) div PAGE_SIZE\<rparr>
             in kbind (if is_vmmcache_shootdown_subsystem_initialized s1
                       then kbind (vmmcache_shootdown km r local_state s1) (wait_for_vmmcache_shootdown_completition local_state)
                       else Inr s1) (\<lambda>s2. Inr (True, s2)))
        else Inr (False, s)))"

text \<open>The remaining padding is compared as a signed number.\<close>

definition page_fault_check_stack_overflow ::
  "kmalloc_op \<Rightarrow> vmm_ref \<Rightarrow> PageFaultInfo \<Rightarrow> kstate \<Rightarrow> (bool \<times> kstate) kres" where
  "page_fault_check_stack_overflow km v info s =
     (if is_vmemhandle_invalid (fault_vmem info) then Inr (False, s)
      else kbind (get_vmem_type (fault_vmem info) s) (\<lambda>t.
           kbind (get_vmem_addr (fault_vmem info) s) (\<lambda>a.
           if t = VM_TYPE_STACK \<and> fault_address info < a \<and> page_not_present info then
             (if \<not> is_kio_initialized (kio (vmem s)) then kpanic UNRECOVERABLE_PAGE_FAULT
              else
                kbind (print_page_fault_error info s) (\<lambda>s1.
                kbind (emit [Str (''[PAGE FAULT] POSSIBLE STACK OVERFLOW'' @ newline_str)] s1) (\<lambda>s2.
                kbind (the_ref (vm_desc (fault_vmem info))) (\<lambda>d.
                let remaining_padding = lower_padding (desc s2 d) - 64 * KB
                in kbind (if sint remaining_padding \<ge> 4096
                          then try_expand_vmem_bottom_with km (fault_vmem info) (64 * KB) False s2
                          else Inr (False, s2)) (\<lambda>(ok, s3).
                   if ok then kbind (emit [Str (''[PAGE FAULT] STACK EXPANDED, TRYING TO CONTINUE'' @ newline_str @ newline_str)] s3)
                                (\<lambda>s4. Inr (True, s4))
                   else kbind (emit [Str (''[PAGE FAULT] FAILED TO EXPAND THE STACK'' @ newline_str @ newline_str)] s3)
                          (\<lambda>s4. Inr (False, s4)))))))
           else Inr (False, s))))"

definition page_fault :: "addr \<Rightarrow> u64 \<Rightarrow> kstate \<Rightarrow> kstate kres" where
  "page_fault cr2 error s =
     (if \<not> is_kernel_virtual_memory cr2 then kpanic UNRECOVERABLE_PAGE_FAULT
      else if page_fault_lock (vmem s) then Inl Hang
      else if servicing_page_fault (vmem s)
      then kbind (on_kio (printf ''[UNRECOVERABLE PAGE FAULT] fault addr=%h64'' [ArgU64 cr2]) s) (\<lambda>_. kpanic UNRECOVERABLE_PAGE_FAULT)
      else
        let s0 = on_kernel (servicing_page_fault_update (\<lambda>_. True)) s
        in kbind (acquire_vmm_lock KernelVMM s0) (\<lambda>s1.
           kbind (get_vmem_from_address KernelVMM cr2 s1) (\<lambda>h.
           let info = \<lparr>page_error = error, fault_address = cr2, fault_vmem = h, page_not_present = \<not> bit error 0\<rparr>
           in kbind (page_fault_check_identity_map_load kernel_kmalloc KernelVMM info s1) (\<lambda>(solved, s2).
              kbind (if \<not> solved then page_fault_check_stack_overflow kernel_kmalloc KernelVMM info s2 else Inr (solved, s2)) (\<lambda>(solved1, s3).
              if \<not> solved1
              then kbind (print_page_fault_error info s3) (\<lambda>s4.
                   kbind (on_kio (printf (''[PAGE FAULT] CANNOT RECOVER THE PAGE FAULT'' @ newline_str) []) s4) (\<lambda>_.
                     kpanic UNRECOVERABLE_PAGE_FAULT))
              else Inr (on_kernel (servicing_page_fault_update (\<lambda>_. False)) (release_vmm_lock KernelVMM s3)))))))"

end
