(* ===== verification/Vmm_List.thy ===== *)
theory Vmm_List
  imports Vmm
begin

text \<open>
  The descriptor list of a manager and its abstraction, the list of regions. Every region is a start, a
  size and a type; regions are page aligned, not empty, in the order of their addresses and do not
  overlap, and the identity mapped part of the address space holds exactly the identity types.
\<close>

section \<open>Regions\<close>

type_synonym region = "nat \<times> nat \<times> VirtualMemoryType"

definition identity_type :: "VirtualMemoryType \<Rightarrow> bool" where
  "identity_type t \<longleftrightarrow> t = VM_TYPE_IDENTITY_MAP_FREE \<or> t = VM_TYPE_IDENTITY_MAP"

fun vregion_ok :: "region \<Rightarrow> bool" where
  "vregion_ok (a, n, t) \<longleftrightarrow> 4096 dvd a \<and> 4096 dvd n \<and> 0 < n \<and> a + n < 18446744073709551616 \<and>
     (if identity_type t then a + n \<le> 549755813888 else 549755813888 \<le> a)"

fun regions_sorted :: "nat \<Rightarrow> region list \<Rightarrow> bool" where
  "regions_sorted b [] = True"
| "regions_sorted b ((a, n, t) # rs) = (b \<le> a \<and> regions_sorted (a + n) rs)"

definition regions_ok :: "region list \<Rightarrow> bool" where
  "regions_ok rs \<longleftrightarrow> regions_sorted 0 rs \<and> (\<forall>r \<in> set rs. vregion_ok r)"

lemma regions_sorted_mono: "regions_sorted b rs \<Longrightarrow> c \<le> b \<Longrightarrow> regions_sorted c rs"
  by (cases rs) auto

fun region_end :: "nat \<Rightarrow> region list \<Rightarrow> nat" where
  "region_end b [] = b"
| "region_end b ((a, n, t) # rs) = region_end (a + n) rs"

lemma regions_sorted_append:
  "regions_sorted b (xs @ ys) \<longleftrightarrow> regions_sorted b xs \<and> regions_sorted (region_end b xs) ys"
  by (induction b xs rule: region_end.induct) auto

lemma region_end_append [simp]: "region_end b (xs @ ys) = region_end (region_end b xs) ys"
  by (induction b xs rule: region_end.induct) auto

lemma region_end_pages:
  "regions_sorted b rs \<Longrightarrow> \<forall>r \<in> set rs. vregion_ok r \<Longrightarrow> b + 4096 * length rs \<le> region_end b rs"
proof (induction b rs rule: region_end.induct)
  case (2 b a n t rs)
  moreover have "4096 \<le> n" using 2(3) by (auto dest: dvd_imp_le)
  ultimately show ?case by auto
qed simp

lemma region_end_bound:
  "\<forall>r \<in> set rs. vregion_ok r \<Longrightarrow> b < 18446744073709551616 \<Longrightarrow> region_end b rs < 18446744073709551616"
  by (induction b rs rule: region_end.induct) auto

lemma regions_length: "regions_ok rs \<Longrightarrow> length rs \<le> 4503599627370496"
  using region_end_pages [of 0 rs] region_end_bound [of rs 0] by (auto simp: regions_ok_def)

section \<open>The list\<close>

abbreviation dstore :: "kstate \<Rightarrow> desc_ref \<Rightarrow> VirtualMemoryDescriptor" where
  "dstore s \<equiv> descs (vmem s)"

fun dlist :: "(desc_ref \<Rightarrow> VirtualMemoryDescriptor) \<Rightarrow> desc_ref option \<Rightarrow> desc_ref list \<Rightarrow> desc_ref option \<Rightarrow> bool" where
  "dlist D p [] n = True"
| "dlist D p [d] n = (prev_desc (D d) = p \<and> next_desc (D d) = n)"
| "dlist D p (d # e # ds) n = (prev_desc (D d) = p \<and> next_desc (D d) = Some e \<and> dlist D (Some d) (e # ds) n)"

definition first_ref :: "desc_ref list \<Rightarrow> desc_ref option \<Rightarrow> desc_ref option" where
  "first_ref ds n = (case ds of [] \<Rightarrow> n | d # _ \<Rightarrow> Some d)"

definition last_ref :: "desc_ref option \<Rightarrow> desc_ref list \<Rightarrow> desc_ref option" where
  "last_ref p ds = (if ds = [] then p else Some (last ds))"

lemma first_ref_simps [simp]: "first_ref [] n = n" "first_ref (d # ds) n = Some d"
  by (simp_all add: first_ref_def)

lemma last_ref_simps [simp]: "last_ref p [] = p" "last_ref p (ds @ [d]) = Some d"
  by (simp_all add: last_ref_def)

lemma last_ref_Cons [simp]: "last_ref p (d # ds) = last_ref (Some d) ds"
  by (simp add: last_ref_def)

lemma dlist_Cons:
  "dlist D p (d # ds) n \<longleftrightarrow> prev_desc (D d) = p \<and> next_desc (D d) = first_ref ds n \<and> dlist D (Some d) ds n"
  by (cases ds) auto

declare dlist.simps(2,3) [simp del]

lemma dlist_append:
  "dlist D p (xs @ ys) n \<longleftrightarrow> dlist D p xs (first_ref ys n) \<and> dlist D (last_ref p xs) ys n"
  by (induction xs arbitrary: p) (auto simp: dlist_Cons first_ref_def split: list.splits)

lemma dlist_cong:
  "\<forall>d \<in> set ds. next_desc (D' d) = next_desc (D d) \<and> prev_desc (D' d) = prev_desc (D d) \<Longrightarrow>
   dlist D' p ds n = dlist D p ds n"
  by (induction ds arbitrary: p) (auto simp: dlist_Cons)

text \<open>Changing what the last element of a list points to, and what the first one points back to.\<close>

lemma dlist_set_next:
  assumes "dlist D p xs n" and "distinct xs"
    and "\<forall>d \<in> set xs. prev_desc (D' d) = prev_desc (D d)"
    and "\<forall>d \<in> set xs. next_desc (D' d) = (if d = last xs then n' else next_desc (D d))"
  shows "dlist D' p xs n'"
  using assms
proof (induction xs arbitrary: p)
  case (Cons d ds)
  show ?case
  proof (cases ds)
    case Nil
    then show ?thesis using Cons.prems by (simp add: dlist_Cons)
  next
    case (Cons e es)
    then have ne: "d \<noteq> last (d # ds)" using Cons.prems(2) by (metis distinct.simps(2) last_ConsR last_in_set list.discI)
    moreover have "dlist D' (Some d) ds n'"
      using Cons Cons.prems by (intro Cons.IH) (auto simp: dlist_Cons)
    ultimately show ?thesis using Cons Cons.prems by (auto simp: dlist_Cons)
  qed
qed simp

lemma dlist_set_prev:
  assumes "dlist D p xs n" and "distinct xs"
    and "\<forall>d \<in> set xs. next_desc (D' d) = next_desc (D d)"
    and "\<forall>d \<in> set xs. prev_desc (D' d) = (if d = hd xs then p' else prev_desc (D d))"
  shows "dlist D' p' xs n"
proof (cases xs)
  case (Cons d ds)
  have "\<forall>e \<in> set ds. next_desc (D' e) = next_desc (D e) \<and> prev_desc (D' e) = prev_desc (D e)"
    using assms Cons by auto
  then have "dlist D' (Some d) ds n = dlist D (Some d) ds n" by (rule dlist_cong)
  then show ?thesis using assms Cons by (auto simp: dlist_Cons)
qed simp

definition vregion :: "VirtualMemoryDescriptor \<Rightarrow> region" where
  "vregion d = (unat (start_vaddr d), unat (size_bytes d), vm_type d)"

definition vm_list :: "vmm_ref \<Rightarrow> kstate \<Rightarrow> desc_ref list \<Rightarrow> bool" where
  "vm_list v s ds \<longleftrightarrow> ds \<noteq> [] \<and> distinct ds \<and> vm_list_head (vmm_of s v) = Some (hd ds) \<and>
     dlist (dstore s) None ds None \<and> regions_ok (map (\<lambda>d. vregion (desc s d)) ds)"

lemma vm_list_length: "vm_list v s ds \<Longrightarrow> length ds \<le> 4503599627370496"
  using regions_length [of "map (\<lambda>d. vregion (desc s d)) ds"] by (simp add: vm_list_def)

section \<open>Walks\<close>

lemma walk_to_head_start: "prev_desc (desc s d) = None \<Longrightarrow> walk_to_head n d s = Inr d"
  by (simp add: walk_to_head.simps)

lemma walk_to_head_step:
  "prev_desc (desc s d) = Some p \<Longrightarrow> prev_desc (desc s p) = None \<Longrightarrow> 0 < n \<Longrightarrow> walk_to_head n d s = Inr p"
  by (cases n) (simp_all add: walk_to_head.simps)

text \<open>A walk stops at the first descriptor that fails the test, or at the last one.\<close>

lemma walk_list_dlist:
  assumes "dlist (dstore s) p (d # ds) None" and "length ds \<le> n"
  shows "\<exists>l e r. walk_list n P d s = Inr e \<and> d # ds = l @ [e] @ r \<and> (\<forall>x \<in> set l. P (desc s x)) \<and>
    (P (desc s e) \<longrightarrow> r = [])"
  using assms
proof (induction ds arbitrary: p d n)
  case Nil
  then have "walk_list n P d s = Inr d" by (simp add: walk_list.simps dlist_Cons)
  then show ?case by (intro exI [of _ "[]"] exI [of _ d]) simp
next
  case (Cons e ds)
  have nx: "next_desc (desc s d) = Some e" and tail: "dlist (dstore s) (Some d) (e # ds) None"
    using Cons.prems(1) by (auto simp: dlist_Cons)
  show ?case
  proof (cases "P (desc s d)")
    case False
    then have "walk_list n P d s = Inr d" using nx by (simp add: walk_list.simps)
    then show ?thesis using False by (intro exI [of _ "[]"] exI [of _ d] exI [of _ "e # ds"]) simp
  next
    case True
    obtain m where m: "n = Suc m" "length ds \<le> m" using Cons.prems(2) by (cases n) auto
    obtain l x r where w: "walk_list m P e s = Inr x" "e # ds = l @ [x] @ r" "\<forall>y \<in> set l. P (desc s y)" "P (desc s x) \<longrightarrow> r = []"
      using Cons.IH [OF tail m(2)] by blast
    moreover have "walk_list n P d s = Inr x" using w(1) nx True m by (simp add: walk_list.simps [of "Suc m"])
    ultimately show ?thesis using True by (metis append_Cons set_ConsD)
  qed
qed

lemma find_desc_list:
  assumes "vm_list v s ds"
  obtains l e r where "find_desc P v s = Inr e" and "ds = l @ [e] @ r" and "\<forall>x \<in> set l. P (desc s x)"
    and "P (desc s e) \<Longrightarrow> r = []"
proof -
  obtain d ds' where ds: "ds = d # ds'" using assms by (cases ds) (auto simp: vm_list_def)
  have "length ds' \<le> 2 ^ 64" using vm_list_length [OF assms] ds by simp
  then obtain l e r where "walk_list (2 ^ 64) P d s = Inr e" "d # ds' = l @ [e] @ r" "\<forall>x \<in> set l. P (desc s x)"
    "P (desc s e) \<longrightarrow> r = []"
    using walk_list_dlist [of s None d ds' "2 ^ 64" P] assms ds by (auto simp: vm_list_def)
  moreover have "find_desc P v s = walk_list (2 ^ 64) P d s"
    using assms ds by (simp add: find_desc_def the_ref_def vm_list_def)
  ultimately show ?thesis using ds by (intro that [of e l r]) simp_all
qed

end
