(* ===== verification/Vmm_Cut.thy ===== *)
theory Vmm_Cut
  imports Vmm_List
begin

text \<open>
  Cutting a piece from a free descriptor. The contract \<open>descriptor_source\<close> says what the manager needs
  from the allocation of descriptors; the bump allocator and the heap both provide it.
\<close>

section \<open>The contract of descriptor allocation\<close>

text \<open>The kernel state without the descriptors, and a manager without its list.\<close>

definition kcore :: "kernel \<Rightarrow> kernel" where
  "kcore k = k\<lparr>descs := undefined, next_free_descriptor := 0, vmms := undefined\<rparr>"

lemma kcore_fields:
  assumes "kcore k = kcore k'"
  shows "mach k = mach k'" and "cache_shootdown_sys k = cache_shootdown_sys k'" and "handlers k = handlers k'"
    and "kio k = kio k'" and "lapic_gdata k = lapic_gdata k'"
  using arg_cong [OF assms, of mach] arg_cong [OF assms, of cache_shootdown_sys] arg_cong [OF assms, of handlers]
    arg_cong [OF assms, of kio] arg_cong [OF assms, of lapic_gdata]
  by (simp_all add: kcore_def)

definition vcore :: "VirtualMemoryManager \<Rightarrow> VirtualMemoryManager" where
  "vcore m = m\<lparr>vm_list_head := None\<rparr>"

text \<open>Only the descriptor \<open>n\<close>, the counter of the bump allocator and the heap have changed.\<close>

definition only_desc :: "desc_ref \<Rightarrow> kstate \<Rightarrow> kstate \<Rightarrow> bool" where
  "only_desc n s s' \<longleftrightarrow> (\<forall>e. e \<noteq> n \<longrightarrow> desc s' e = desc s e) \<and>
     kcore (vmem s') = kcore (vmem s) \<and> vmms (vmem s') = vmms (vmem s) \<and>
     lower_padding (desc s' n) = 0 \<and> upper_padding (desc s' n) = 0"

text \<open>\<open>avail k X s\<close>: \<open>k\<close> descriptors outside of \<open>X\<close> can be allocated.\<close>

locale descriptor_source =
  fixes km :: kmalloc_op and avail :: "nat \<Rightarrow> desc_ref set \<Rightarrow> kstate \<Rightarrow> bool"
  assumes alloc_desc: "avail (Suc k) X s \<Longrightarrow>
    \<exists>n s1. allocate_vmem_descriptor km s = Inr (n, s1) \<and> n \<notin> X \<and> only_desc n s s1 \<and> avail k (insert n X) s1"

section \<open>Lists after a cut\<close>

text \<open>The regions that replace a region \<open>(a, n, t)\<close> when \<open>size0\<close> bytes from \<open>start\<close> on are cut out.\<close>

definition cut_regions :: "region \<Rightarrow> nat \<Rightarrow> nat \<Rightarrow> region list" where
  "cut_regions r start size0 = (case r of (a, n, t) \<Rightarrow>
     (if start = a then [] else [(a, start - a, t)]) @ [(start, size0, t)] @
     (if start + size0 = a + n then [] else [(start + size0, a + n - (start + size0), t)]))"

definition piece_of :: "region \<Rightarrow> nat \<Rightarrow> nat \<Rightarrow> bool" where
  "piece_of r start size0 \<longleftrightarrow> (case r of (a, n, t) \<Rightarrow>
     a \<le> start \<and> start + size0 \<le> a + n \<and> 4096 dvd start \<and> 4096 dvd size0 \<and> 0 < size0)"

lemma cut_regions_ok:
  assumes "regions_ok (l @ [r] @ rs)" and "piece_of r start size0"
  shows "regions_ok (l @ cut_regions r start size0 @ rs)"
proof -
  obtain a n t where r: "r = (a, n, t)" by (cases r)
  have "regions_sorted 0 (l @ cut_regions r start size0 @ rs)"
    using assms by (auto simp: regions_ok_def regions_sorted_append r cut_regions_def piece_of_def)
  moreover have "\<forall>x \<in> set (cut_regions r start size0). vregion_ok x"
    using assms by (auto simp: regions_ok_def r cut_regions_def piece_of_def split: if_splits)
  ultimately show ?thesis using assms by (auto simp: regions_ok_def)
qed

text \<open>
  Replacing one descriptor of a list by several: the chain of the new list follows from the links of
  the new descriptors and of the two neighbours.
\<close>

lemma dlist_replace:
  assumes D: "dlist D None (L @ [d] @ R) None" and dist: "distinct (L @ [d] @ R)"
    and new: "dlist D' (last_ref None L) M (first_ref R None)" and ne: "M \<noteq> []"
    and out: "set M \<inter> (set L \<union> set R) = {}"
    and L: "\<forall>x \<in> set L. prev_desc (D' x) = prev_desc (D x) \<and>
      next_desc (D' x) = (if x = last L then Some (hd M) else next_desc (D x))"
    and R: "\<forall>x \<in> set R. next_desc (D' x) = next_desc (D x) \<and>
      prev_desc (D' x) = (if x = hd R then Some (last M) else prev_desc (D x))"
  shows "dlist D' None (L @ M @ R) None"
proof -
  have "dlist D None L (Some d)" "dlist D (Some d) R None" using D by (simp_all add: dlist_append dlist_Cons)
  then have "dlist D' None L (Some (hd M))" "dlist D' (Some (last M)) R None"
    using L R dist by (auto intro: dlist_set_next dlist_set_prev)
  moreover have "first_ref (M @ R) None = Some (hd M)" "last_ref (last_ref None L) M = Some (last M)"
    using ne by (cases M, simp_all add: last_ref_def)
  ultimately show ?thesis using new by (simp add: dlist_append)
qed

lemma upd_fields [simp]:
  "vmms (vmem (upd_desc d f s)) = vmms (vmem s)" "mach (vmem (upd_desc d f s)) = mach (vmem s)"
  "cache_shootdown_sys (vmem (upd_desc d f s)) = cache_shootdown_sys (vmem s)"
  "mach (vmem (upd_desc_opt r f s)) = mach (vmem s)"
  "cache_shootdown_sys (vmem (upd_desc_opt r f s)) = cache_shootdown_sys (vmem s)"
  "mach (vmem (upd_vmm v g s)) = mach (vmem s)"
  "cache_shootdown_sys (vmem (upd_vmm v g s)) = cache_shootdown_sys (vmem s)"
  by (auto simp: kstate_defs split: option.splits)

text \<open>What no operation on descriptors changes.\<close>

definition desc_frame :: "kstate \<Rightarrow> kstate \<Rightarrow> bool" where
  "desc_frame s s' \<longleftrightarrow> kcore (vmem s') = kcore (vmem s) \<and> (\<forall>v. vcore (vmm_of s' v) = vcore (vmm_of s v))"

lemma desc_frame_refl: "desc_frame s s"
  by (simp add: desc_frame_def)

lemma desc_frame_trans: "desc_frame s t \<Longrightarrow> desc_frame t u \<Longrightarrow> desc_frame s u"
  by (simp add: desc_frame_def)

lemma only_desc_frame: "only_desc n s s' \<Longrightarrow> desc_frame s s'"
  by (simp add: only_desc_def desc_frame_def)

lemma kcore_upd [simp]:
  "kcore (vmem (upd_desc d f s)) = kcore (vmem s)" "kcore (vmem (upd_desc_opt r f s)) = kcore (vmem s)"
  "kcore (vmem (upd_vmm v g s)) = kcore (vmem s)"
  by (auto simp: kcore_def kstate_defs split: option.splits)

lemma upd_desc_frame [intro]: "desc_frame s t \<Longrightarrow> desc_frame s (upd_desc d f t)"
  by (simp add: desc_frame_def)

lemma upd_desc_opt_frame [intro]: "desc_frame s t \<Longrightarrow> desc_frame s (upd_desc_opt d f t)"
  by (simp add: desc_frame_def)

lemma upd_head_frame [intro]: "desc_frame s t \<Longrightarrow> desc_frame s (upd_vmm v (vm_list_head_update f) t)"
  by (auto simp: desc_frame_def vcore_def)

lemma desc_frame_fields:
  assumes "desc_frame s s'"
  shows "mach (vmem s') = mach (vmem s)" and "cache_shootdown_sys (vmem s') = cache_shootdown_sys (vmem s)"
    and "paging_structure (vmm_of s' v) = paging_structure (vmm_of s v)" and "kernel_mode (vmm_of s' v) = kernel_mode (vmm_of s v)"
    and "vmm_lock (vmm_of s' v) = vmm_lock (vmm_of s v)"
proof -
  have k: "kcore (vmem s') = kcore (vmem s)" and m: "vcore (vmm_of s' v) = vcore (vmm_of s v)"
    using assms by (simp_all add: desc_frame_def)
  show "mach (vmem s') = mach (vmem s)" "cache_shootdown_sys (vmem s') = cache_shootdown_sys (vmem s)"
    using kcore_fields(1,2) [OF k] by simp_all
  show "paging_structure (vmm_of s' v) = paging_structure (vmm_of s v)" "kernel_mode (vmm_of s' v) = kernel_mode (vmm_of s v)"
    "vmm_lock (vmm_of s' v) = vmm_lock (vmm_of s v)"
    using arg_cong [OF m, of paging_structure] arg_cong [OF m, of kernel_mode] arg_cong [OF m, of vmm_lock]
    by (simp_all add: vcore_def)
qed

text \<open>
  What a cut gives: the descriptor \<open>d\<close> between \<open>L\<close> and \<open>R\<close> is replaced by the descriptors \<open>M\<close>, of which
  \<open>c\<close> is the piece; the other descriptors keep their regions and paddings.
\<close>

definition cut_post ::
  "vmm_ref \<Rightarrow> kstate \<Rightarrow> desc_ref list \<Rightarrow> desc_ref \<Rightarrow> desc_ref list \<Rightarrow> nat \<Rightarrow> nat \<Rightarrow> desc_ref \<Rightarrow> kstate \<Rightarrow> desc_ref list \<Rightarrow> bool" where
  "cut_post v s L d R start size0 c s' M \<longleftrightarrow> vm_list v s' (L @ M @ R) \<and> c \<in> set M \<and>
     map (\<lambda>x. vregion (desc s' x)) M = cut_regions (vregion (desc s d)) start size0 \<and>
     vregion (desc s' c) = (start, size0, vm_type (desc s d)) \<and>
     (\<forall>e \<in> set L \<union> set R. vregion (desc s' e) = vregion (desc s e) \<and>
        lower_padding (desc s' e) = lower_padding (desc s e) \<and> upper_padding (desc s' e) = upper_padding (desc s e)) \<and>
     desc_frame s s'"

lemma cut_postI:
  assumes vl: "vm_list v s (L @ [d] @ R)" and piece: "piece_of (vregion (desc s d)) start size0"
    and head: "vm_list_head (vmm_of s' v) = Some (hd (L @ M @ R))"
    and chain: "dlist (dstore s') None (L @ M @ R) None" and dist: "distinct (L @ M @ R)"
    and M: "map (\<lambda>x. vregion (desc s' x)) M = cut_regions (vregion (desc s d)) start size0"
    and c: "c \<in> set M" "vregion (desc s' c) = (start, size0, vm_type (desc s d))"
    and same: "\<And>e. e \<in> set L \<union> set R \<Longrightarrow> vregion (desc s' e) = vregion (desc s e) \<and>
        lower_padding (desc s' e) = lower_padding (desc s e) \<and> upper_padding (desc s' e) = upper_padding (desc s e)"
    and frame: "desc_frame s s'"
  shows "cut_post v s L d R start size0 c s' M"
proof -
  have eq: "map (\<lambda>x. vregion (desc s' x)) (L @ M @ R) =
    map (\<lambda>x. vregion (desc s x)) L @ cut_regions (vregion (desc s d)) start size0 @ map (\<lambda>x. vregion (desc s x)) R"
    using M same by (simp cong: map_cong)
  have "regions_ok (map (\<lambda>x. vregion (desc s x)) L @ cut_regions (vregion (desc s d)) start size0 @ map (\<lambda>x. vregion (desc s x)) R)"
    using vl piece by (intro cut_regions_ok) (simp_all add: vm_list_def)
  then have "regions_ok (map (\<lambda>x. vregion (desc s' x)) (L @ M @ R))" unfolding eq .
  moreover have "L @ M @ R \<noteq> []" using c by auto
  ultimately have "vm_list v s' (L @ M @ R)" using head chain dist unfolding vm_list_def by blast
  then show ?thesis using M c same frame by (simp add: cut_post_def)
qed


section \<open>Cutting\<close>

lemma piece_words:
  assumes "piece_of (vregion d) (unat start) (unat size0)" and "vregion_ok (vregion d)"
  shows "unat (start + size0) = unat start + unat size0" and "unat (start_vaddr d + size_bytes d) = unat (start_vaddr d) + unat (size_bytes d)"
    and "size0 mod 4096 = 0" and "size_bytes d mod 4096 = 0" and "start mod 4096 = 0" and "size0 \<le> size_bytes d"
    and "start_vaddr d \<le> start" and "unat (size_bytes d - size0) = unat (size_bytes d) - unat size0"
proof -
  have f: "unat (start_vaddr d) \<le> unat start" "unat start + unat size0 \<le> unat (start_vaddr d) + unat (size_bytes d)"
    "4096 dvd unat start" "4096 dvd unat size0" "4096 dvd unat (size_bytes d)"
    "unat (start_vaddr d) + unat (size_bytes d) < 18446744073709551616"
    using assms by (simp_all add: piece_of_def vregion_def)
  show "unat (start + size0) = unat start + unat size0"
    "unat (start_vaddr d + size_bytes d) = unat (start_vaddr d) + unat (size_bytes d)"
    using f by (auto intro!: unat_add_u64)
  show "size0 mod 4096 = 0" "size_bytes d mod 4096 = 0" "start mod 4096 = 0" using f by (simp_all add: mod_page_unat)
  show le: "size0 \<le> size_bytes d" "start_vaddr d \<le> start" using f by (simp_all add: word_le_nat_alt)
  show "unat (size_bytes d - size0) = unat (size_bytes d) - unat size0" using le(1) by (rule unat_sub)
qed

lemma last_ref_in: "last_ref None L = Some e \<longleftrightarrow> L \<noteq> [] \<and> e = last L"
  by (auto simp: last_ref_def)

lemma first_ref_in: "first_ref R None = Some e \<longleftrightarrow> R \<noteq> [] \<and> e = hd R"
  by (cases R) auto

lemma not_linked: "e \<notin> set L \<Longrightarrow> last_ref None L \<noteq> Some e" "e \<notin> set R \<Longrightarrow> first_ref R None \<noteq> Some e"
  by (auto simp: last_ref_in first_ref_in)

lemma vm_list_split:
  assumes "vm_list v s (L @ [d] @ R)"
  shows "prev_desc (desc s d) = last_ref None L" and "next_desc (desc s d) = first_ref R None"
    and "vregion_ok (vregion (desc s d))" and "d \<notin> set L" and "d \<notin> set R"
    and "\<forall>x \<in> set L. first_ref R None \<noteq> Some x" and "\<forall>x \<in> set R. last_ref None L \<noteq> Some x"
proof -
  show "prev_desc (desc s d) = last_ref None L" "next_desc (desc s d) = first_ref R None" "vregion_ok (vregion (desc s d))"
    "d \<notin> set L" "d \<notin> set R"
    using assms by (auto simp: vm_list_def dlist_append dlist_Cons regions_ok_def)
  have "set L \<inter> set R = {}" using assms by (auto simp: vm_list_def)
  then show "\<forall>x \<in> set L. first_ref R None \<noteq> Some x" "\<forall>x \<in> set R. last_ref None L \<noteq> Some x"
    using not_linked(1) [of _ L] not_linked(2) [of _ R] by blast+
qed

text \<open>The walk to the head starts at the old head, which is the first or the second descriptor.\<close>

lemma update_head_list:
  assumes "dlist (dstore t) None (e # ds) None" and "vm_list_head (vmm_of t v) = Some h"
    and "h = e \<or> (\<exists>ds'. ds = h # ds')"
  shows "update_head v t = Inr (upd_vmm v (vm_list_head_update (\<lambda>_. Some e)) t)"
  using assms by (auto simp: update_head_def the_ref_def dlist_Cons walk_to_head_start walk_to_head_step)

lemma cut_finish:
  assumes vl: "vm_list v s (L @ [d] @ R)" and piece: "piece_of (vregion (desc s d)) start size0"
    and new: "dlist (dstore t) (last_ref None L) M (first_ref R None)" "distinct M" "set M \<inter> (set L \<union> set R) = {}"
    and hd: "hd M = d \<or> (\<exists>x ms. M = x # d # ms)" "M \<noteq> []"
    and L: "\<forall>x \<in> set L. desc t x = (if last_ref None L = Some x then (desc s x)\<lparr>next_desc := Some (hd M)\<rparr> else desc s x)"
    and R: "\<forall>x \<in> set R. desc t x = (if first_ref R None = Some x then (desc s x)\<lparr>prev_desc := Some (last M)\<rparr> else desc s x)"
    and M: "map (\<lambda>x. vregion (desc t x)) M = cut_regions (vregion (desc s d)) start size0"
    and c: "c \<in> set M" "vregion (desc t c) = (start, size0, vm_type (desc s d))"
    and frame: "kcore (vmem t) = kcore (vmem s)" "vmms (vmem t) = vmms (vmem s)"
  shows "\<exists>s'. update_head v t = Inr s' \<and> cut_post v s L d R start size0 c s' M"
proof -
  have D: "dlist (dstore s) None (L @ [d] @ R) None" and dist: "distinct (L @ [d] @ R)"
    and head: "vm_list_head (vmm_of s v) = Some (List.hd (L @ [d] @ R))" using vl by (simp_all add: vm_list_def)
  have chain: "dlist (dstore t) None (L @ M @ R) None"
    using D dist new(1) hd(2) new(3)
    by (rule dlist_replace) (use L R in \<open>auto simp: last_ref_in first_ref_in split: if_splits\<close>)
  obtain e ds where e: "L @ M @ R = e # ds" using hd(2) by (cases "L @ M @ R") auto
  have "List.hd (L @ [d] @ R) = e \<or> (\<exists>ds'. ds = List.hd (L @ [d] @ R) # ds')" using hd e by (cases L; cases M) auto
  then have up: "update_head v t = Inr (upd_vmm v (vm_list_head_update (\<lambda>_. Some e)) t)"
    using chain e frame(2) head by (intro update_head_list) (simp_all add: e)
  have "cut_post v s L d R start size0 c (upd_vmm v (vm_list_head_update (\<lambda>_. Some e)) t) M"
  proof (rule cut_postI [OF vl piece])
    show "distinct (L @ M @ R)" using dist new by auto
    show "desc_frame s (upd_vmm v (vm_list_head_update (\<lambda>_. Some e)) t)"
      using frame by (intro upd_head_frame) (simp add: desc_frame_def)
  qed (use chain M c e L R in \<open>auto simp: vregion_def\<close>)
  then show ?thesis using up by blast
qed

context descriptor_source
begin

lemma new_desc:
  assumes "avail (Suc k) X s"
  obtains n s1 where "allocate_vmem_descriptor km s = Inr (n, s1)" and "n \<notin> X" and "avail k (insert n X) s1"
    and "\<And>e. e \<noteq> n \<Longrightarrow> desc s1 e = desc s e" and "kcore (vmem s1) = kcore (vmem s)" and "vmms (vmem s1) = vmms (vmem s)"
  using alloc_desc [OF assms] by (auto simp: only_desc_def)

lemma cut_start:
  assumes vl: "vm_list v s (L @ [d] @ R)" and av: "avail (Suc k) (set (L @ [d] @ R)) s"
    and free: "is_free_type (vm_type (desc s d))" and ne: "size_bytes (desc s d) \<noteq> size0"
    and piece: "piece_of (vregion (desc s d)) (unat (start_vaddr (desc s d))) (unat size0)"
  shows "\<exists>s' M. cut_descriptor_start km v d size0 s = Inr (d, s') \<and>
    cut_post v s L d R (unat (start_vaddr (desc s d))) (unat size0) d s' M"
proof -
  let ?D = "desc s d"
  note sp = vm_list_split [OF vl]
  note pw = piece_words [OF piece sp(3)]
  obtain n s1 where n: "allocate_vmem_descriptor km s = Inr (n, s1)" "n \<notin> set (L @ [d] @ R)"
    and s1: "\<And>e. e \<noteq> n \<Longrightarrow> desc s1 e = desc s e" "kcore (vmem s1) = kcore (vmem s)" "vmms (vmem s1) = vmms (vmem s)"
    using new_desc [OF av] by metis
  have nd: "n \<noteq> d" "d \<noteq> n" "n \<notin> set L" "n \<notin> set R" using n(2) by auto
  define t where "t = upd_desc_opt (first_ref R None) (prev_desc_update (\<lambda>_. Some n))
    (upd_desc n (\<lambda>x. x\<lparr>next_desc := first_ref R None, prev_desc := Some d\<rparr>)
    (upd_desc d (\<lambda>x. x\<lparr>prev_desc := last_ref None L, next_desc := Some n\<rparr>)
    (upd_desc_opt (last_ref None L) (next_desc_update (\<lambda>_. Some d))
    (upd_desc n (\<lambda>x. x\<lparr>size_bytes := size_bytes ?D - size0, vm_type := vm_type ?D, start_vaddr := start_vaddr ?D + size0\<rparr>)
    (upd_desc d (size_bytes_update (\<lambda>_. size0)) s1)))))"
  have td: "desc t d = ?D\<lparr>size_bytes := size0, prev_desc := last_ref None L, next_desc := Some n\<rparr>"
    and tn: "start_vaddr (desc t n) = start_vaddr ?D + size0" "size_bytes (desc t n) = size_bytes ?D - size0"
      "vm_type (desc t n) = vm_type ?D" "prev_desc (desc t n) = Some d" "next_desc (desc t n) = first_ref R None"
    using nd sp(4,5) s1 by (simp_all add: t_def not_linked)
  have "\<exists>s'. update_head v t = Inr s' \<and> cut_post v s L d R (unat (start_vaddr ?D)) (unat size0) d s' [d, n]"
  proof (rule cut_finish [OF vl piece])
    show "map (\<lambda>x. vregion (desc t x)) [d, n] = cut_regions (vregion ?D) (unat (start_vaddr ?D)) (unat size0)"
      using td tn pw ne by (auto simp: vregion_def cut_regions_def word_unat_eq_iff)
    show "\<forall>x \<in> set L. desc t x = (if last_ref None L = Some x then (desc s x)\<lparr>next_desc := Some (hd [d, n])\<rparr> else desc s x)"
      "\<forall>x \<in> set R. desc t x = (if first_ref R None = Some x then (desc s x)\<lparr>prev_desc := Some (last [d, n])\<rparr> else desc s x)"
      using nd sp(4-7) s1(1) by (auto simp: t_def)
    show "kcore (vmem t) = kcore (vmem s)" "vmms (vmem t) = vmms (vmem s)" using s1(2,3) by (simp_all add: t_def)
  qed (use td tn nd sp(4,5) in \<open>simp_all add: dlist_Cons vregion_def\<close>)
  then obtain s' where s': "update_head v t = Inr s'"
    "cut_post v s L d R (unat (start_vaddr ?D)) (unat size0) d s' [d, n]" by blast
  have "cut_descriptor_start km v d size0 s =
    kassert (start_vaddr (desc t d) + size_bytes (desc t d) = start_vaddr (desc t n)) (kbind (update_head v t) (\<lambda>s8. Inr (d, s8)))"
    using free pw(3,4,6) ne sp(1,2) by (simp add: cut_descriptor_start_def Let_def n(1) s1(1) nd sp(4,5) not_linked t_def)
  also have "\<dots> = Inr (d, s')" using td tn(1) s'(1) by simp
  finally show ?thesis using s'(2) by blast
qed

lemma cut_end:
  assumes vl: "vm_list v s (L @ [d] @ R)" and av: "avail (Suc k) (set (L @ [d] @ R)) s"
    and ne: "start_vaddr (desc s d) \<noteq> start" and last: "start_vaddr (desc s d) + size_bytes (desc s d) = start + size0"
    and piece: "piece_of (vregion (desc s d)) (unat start) (unat size0)"
  shows "\<exists>n s' M. cut_descriptor_end km v d start size0 (last_ref None L) (first_ref R None) s = Inr (n, s') \<and>
    cut_post v s L d R (unat start) (unat size0) n s' M"
proof -
  let ?D = "desc s d"
  note sp = vm_list_split [OF vl]
  note pw = piece_words [OF piece sp(3)]
  obtain n s1 where n: "allocate_vmem_descriptor km s = Inr (n, s1)" "n \<notin> set (L @ [d] @ R)"
    and s1: "\<And>e. e \<noteq> n \<Longrightarrow> desc s1 e = desc s e" "kcore (vmem s1) = kcore (vmem s)" "vmms (vmem s1) = vmms (vmem s)"
    using new_desc [OF av] by metis
  have nd: "n \<noteq> d" "d \<noteq> n" "n \<notin> set L" "n \<notin> set R" using n(2) by auto
  have start: "start_vaddr ?D + (size_bytes ?D - size0) = start" unfolding add_diff_eq last by simp
  define t where "t = upd_desc_opt (first_ref R None) (prev_desc_update (\<lambda>_. Some n))
    (upd_desc n (\<lambda>x. x\<lparr>next_desc := first_ref R None, prev_desc := Some d\<rparr>)
    (upd_desc d (\<lambda>x. x\<lparr>prev_desc := last_ref None L, next_desc := Some n\<rparr>)
    (upd_desc_opt (last_ref None L) (next_desc_update (\<lambda>_. Some d))
    (upd_desc n (\<lambda>x. x\<lparr>size_bytes := size0, start_vaddr := start, vm_type := vm_type ?D\<rparr>)
    (upd_desc d (size_bytes_update (\<lambda>_. size_bytes ?D - size0)) s1)))))"
  have td: "desc t d = ?D\<lparr>size_bytes := size_bytes ?D - size0, prev_desc := last_ref None L, next_desc := Some n\<rparr>"
    and tn: "start_vaddr (desc t n) = start" "size_bytes (desc t n) = size0"
      "vm_type (desc t n) = vm_type ?D" "prev_desc (desc t n) = Some d" "next_desc (desc t n) = first_ref R None"
    using nd sp(4,5) s1 by (simp_all add: t_def not_linked)
  have u: "unat start + unat size0 = unat (start_vaddr ?D) + unat (size_bytes ?D)" using arg_cong [OF last, of unat] unfolding pw(1,2) by simp
  then have part: "unat (size_bytes ?D) - unat size0 = unat start - unat (start_vaddr ?D)" by linarith
  have "\<exists>s'. update_head v t = Inr s' \<and> cut_post v s L d R (unat start) (unat size0) n s' [d, n]"
  proof (rule cut_finish [OF vl piece])
    show "map (\<lambda>x. vregion (desc t x)) [d, n] = cut_regions (vregion ?D) (unat start) (unat size0)"
      using ne by (simp add: td tn pw(8) u part vregion_def cut_regions_def word_unat_eq_iff)
    show "\<forall>x \<in> set L. desc t x = (if last_ref None L = Some x then (desc s x)\<lparr>next_desc := Some (hd [d, n])\<rparr> else desc s x)"
      "\<forall>x \<in> set R. desc t x = (if first_ref R None = Some x then (desc s x)\<lparr>prev_desc := Some (last [d, n])\<rparr> else desc s x)"
      using nd sp(4-7) s1(1) by (auto simp: t_def)
    show "kcore (vmem t) = kcore (vmem s)" "vmms (vmem t) = vmms (vmem s)" using s1(2,3) by (simp_all add: t_def)
  qed (use td tn nd sp(4,5) in \<open>simp_all add: dlist_Cons vregion_def\<close>)
  then obtain s' where s': "update_head v t = Inr s'"
    "cut_post v s L d R (unat start) (unat size0) n s' [d, n]" by blast
  have "cut_descriptor_end km v d start size0 (last_ref None L) (first_ref R None) s =
    kassert (start_vaddr (desc t d) + size_bytes (desc t d) = start_vaddr (desc t n)) (kbind (update_head v t) (\<lambda>s8. Inr (n, s8)))"
    using start by (simp add: cut_descriptor_end_def Let_def n(1) s1(1) nd sp(4,5) not_linked t_def)
  also have "\<dots> = Inr (n, s')" using td tn(1) s'(1) start by simp
  finally show ?thesis using s'(2) by blast
qed

lemma cut_middle:
  assumes vl: "vm_list v s (L @ [d] @ R)" and av: "avail (Suc (Suc k)) (set (L @ [d] @ R)) s"
    and ne: "start_vaddr (desc s d) \<noteq> start" "start_vaddr (desc s d) + size_bytes (desc s d) \<noteq> start + size0"
    and piece: "piece_of (vregion (desc s d)) (unat start) (unat size0)"
  shows "\<exists>s' M. cut_descriptor_middle km v d start size0 (last_ref None L) (first_ref R None) s = Inr (d, s') \<and>
    cut_post v s L d R (unat start) (unat size0) d s' M"
proof -
  let ?D = "desc s d"
  note sp = vm_list_split [OF vl]
  note pw = piece_words [OF piece sp(3)]
  obtain p s1 where p: "allocate_vmem_descriptor km s = Inr (p, s1)" "p \<notin> set (L @ [d] @ R)"
    and av1: "avail (Suc k) (insert p (set (L @ [d] @ R))) s1"
    and s1: "\<And>e. e \<noteq> p \<Longrightarrow> desc s1 e = desc s e" "kcore (vmem s1) = kcore (vmem s)" "vmms (vmem s1) = vmms (vmem s)"
    using new_desc [OF av] by metis
  obtain n s2 where n: "allocate_vmem_descriptor km s1 = Inr (n, s2)" "n \<notin> insert p (set (L @ [d] @ R))"
    and s2: "\<And>e. e \<noteq> n \<Longrightarrow> desc s2 e = desc s1 e" "kcore (vmem s2) = kcore (vmem s1)" "vmms (vmem s2) = vmms (vmem s1)"
    using new_desc [OF av1] by metis
  have nd: "n \<noteq> d" "d \<noteq> n" "n \<notin> set L" "n \<notin> set R" "p \<noteq> d" "d \<noteq> p" "p \<notin> set L" "p \<notin> set R" "n \<noteq> p" "p \<noteq> n"
    using n(2) p(2) by auto
  define t where "t = upd_desc n (\<lambda>x. x\<lparr>start_vaddr := start + size0,
      size_bytes := start_vaddr ?D + size_bytes ?D - (start + size0)\<rparr>)
    (upd_desc d (\<lambda>x. x\<lparr>start_vaddr := start, size_bytes := size0\<rparr>)
    (upd_desc p (\<lambda>x. x\<lparr>start_vaddr := start_vaddr ?D, size_bytes := start - start_vaddr ?D\<rparr>)
    (upd_desc_opt (first_ref R None) (prev_desc_update (\<lambda>_. Some n))
    (upd_desc n (\<lambda>x. x\<lparr>prev_desc := Some d, next_desc := first_ref R None\<rparr>)
    (upd_desc d (\<lambda>x. x\<lparr>prev_desc := Some p, next_desc := Some n\<rparr>)
    (upd_desc p (\<lambda>x. x\<lparr>prev_desc := last_ref None L, next_desc := Some d\<rparr>)
    (upd_desc_opt (last_ref None L) (next_desc_update (\<lambda>_. Some p))
    (upd_desc n (vm_type_update (\<lambda>_. vm_type ?D)) (upd_desc p (vm_type_update (\<lambda>_. vm_type ?D)) s2)))))))))"
  have td: "desc t d = ?D\<lparr>start_vaddr := start, size_bytes := size0, prev_desc := Some p, next_desc := Some n\<rparr>"
    and tn: "start_vaddr (desc t n) = start + size0" "size_bytes (desc t n) = start_vaddr ?D + size_bytes ?D - (start + size0)"
      "vm_type (desc t n) = vm_type ?D" "prev_desc (desc t n) = Some d" "next_desc (desc t n) = first_ref R None"
    and tp: "start_vaddr (desc t p) = start_vaddr ?D" "size_bytes (desc t p) = start - start_vaddr ?D"
      "vm_type (desc t p) = vm_type ?D" "prev_desc (desc t p) = last_ref None L" "next_desc (desc t p) = Some d"
    using nd sp(4,5) s1 s2 by (simp_all add: t_def not_linked)
  have end_le: "unat start + unat size0 \<le> unat (start_vaddr ?D) + unat (size_bytes ?D)" using piece by (simp add: piece_of_def vregion_def)
  have u: "unat (start - start_vaddr ?D) = unat start - unat (start_vaddr ?D)" using pw(7) by (rule unat_sub)
  have "start + size0 \<le> start_vaddr ?D + size_bytes ?D" using end_le pw(1,2) by (simp add: word_le_nat_alt)
  from unat_sub [OF this] have w: "unat (start_vaddr ?D + size_bytes ?D - (start + size0)) = unat (start_vaddr ?D) + unat (size_bytes ?D) - (unat start + unat size0)"
    unfolding pw(1,2) .
  have nu: "unat start + unat size0 \<noteq> unat (start_vaddr ?D) + unat (size_bytes ?D)" using ne(2) pw(1,2) by (metis word_unat_eq_iff)
  have "\<exists>s'. update_head v t = Inr s' \<and> cut_post v s L d R (unat start) (unat size0) d s' [p, d, n]"
  proof (rule cut_finish [OF vl piece])
    show "map (\<lambda>x. vregion (desc t x)) [p, d, n] = cut_regions (vregion ?D) (unat start) (unat size0)"
      using ne(1) nu by (simp add: td tn tp u w pw(1) vregion_def cut_regions_def word_unat_eq_iff)
    show "\<forall>x \<in> set L. desc t x = (if last_ref None L = Some x then (desc s x)\<lparr>next_desc := Some (hd [p, d, n])\<rparr> else desc s x)"
      "\<forall>x \<in> set R. desc t x = (if first_ref R None = Some x then (desc s x)\<lparr>prev_desc := Some (last [p, d, n])\<rparr> else desc s x)"
      using nd sp(4-7) s1(1) s2(1) by (auto simp: t_def)
    show "kcore (vmem t) = kcore (vmem s)" "vmms (vmem t) = vmms (vmem s)" using s1(2,3) s2(2,3) by (simp_all add: t_def)
  qed (use td tn tp nd sp(4,5) in \<open>simp_all add: dlist_Cons vregion_def\<close>)
  then obtain s' where s': "update_head v t = Inr s'"
    "cut_post v s L d R (unat start) (unat size0) d s' [p, d, n]" by blast
  have "start_vaddr ?D < start" using pw(7) ne(1) by simp
  then have "cut_descriptor_middle km v d start size0 (last_ref None L) (first_ref R None) s =
    kassert (start_vaddr (desc t p) + size_bytes (desc t p) = start)
      (kassert (start_vaddr ?D + size_bytes ?D = start_vaddr (desc t n) + size_bytes (desc t n))
        (kbind (update_head v t) (\<lambda>s12. Inr (d, s12))))"
    by (simp add: cut_descriptor_middle_def Let_def p(1) n(1) s1(1) s2(1) nd sp(4,5) not_linked t_def)
  also have "\<dots> = Inr (d, s')" using tp(1,2) tn(1,2) s'(1) by simp
  finally show ?thesis using s'(2) by blast
qed

text \<open>The three cases together, with the piece that is the whole descriptor.\<close>

lemma cut_whole:
  assumes "vm_list v s (L @ [d] @ R)" and "piece_of (vregion (desc s d)) (unat start) (unat size0)"
    and "start_vaddr (desc s d) = start" and "size_bytes (desc s d) = size0"
  shows "cut_post v s L d R (unat start) (unat size0) d s [d]"
  using assms by (intro cut_postI) (auto simp: vm_list_def cut_regions_def vregion_def desc_frame_refl)

lemma cut_start_any:
  assumes vl: "vm_list v s (L @ [d] @ R)" and av: "avail (Suc k) (set (L @ [d] @ R)) s"
    and free: "is_free_type (vm_type (desc s d))"
    and piece: "piece_of (vregion (desc s d)) (unat (start_vaddr (desc s d))) (unat size0)"
  shows "\<exists>s' M. cut_descriptor_start km v d size0 s = Inr (d, s') \<and>
    cut_post v s L d R (unat (start_vaddr (desc s d))) (unat size0) d s' M"
proof (cases "size_bytes (desc s d) = size0")
  case True
  have "cut_descriptor_start km v d size0 s = Inr (d, s)"
    using free True piece_words(4) [OF piece vm_list_split(3) [OF vl]] by (simp add: cut_descriptor_start_def)
  then show ?thesis using cut_whole [OF vl piece refl True] by blast
qed (rule cut_start [OF vl av free _ piece])

lemma cut_any:
  assumes vl: "vm_list v s (L @ [d] @ R)" and av: "avail (Suc (Suc k)) (set (L @ [d] @ R)) s"
    and free: "is_free_type (vm_type (desc s d))" and piece: "piece_of (vregion (desc s d)) (unat start) (unat size0)"
  shows "\<exists>c s' M. cut_descriptor km v d start size0 s = Inr (c, s') \<and> cut_post v s L d R (unat start) (unat size0) c s' M"
proof -
  note sp = vm_list_split [OF vl]
  have "cut_descriptor km v d start size0 s =
     (if start_vaddr (desc s d) = start \<and> size_bytes (desc s d) = size0 then Inr (d, s)
      else if start_vaddr (desc s d) = start then cut_descriptor_start km v d size0 s
      else if start_vaddr (desc s d) + size_bytes (desc s d) = start + size0
      then cut_descriptor_end km v d start size0 (last_ref None L) (first_ref R None) s
      else cut_descriptor_middle km v d start size0 (last_ref None L) (first_ref R None) s)"
    using free piece_words(3,4) [OF piece sp(3)] by (simp add: cut_descriptor_def sp(1,2))
  then show ?thesis
    using cut_whole [OF vl piece] cut_start_any [OF vl av free] piece cut_end [OF vl av _ _ piece] cut_middle [OF vl av _ _ piece]
    by (cases "start_vaddr (desc s d) = start"; cases "size_bytes (desc s d) = size0";
        cases "start_vaddr (desc s d) + size_bytes (desc s d) = start + size0") (simp; blast)+
qed

end

section \<open>The two sources of descriptors\<close>

text \<open>Before the heap exists: the static array, of which the first descriptors have been handed out.\<close>

definition bump_avail :: "nat \<Rightarrow> desc_ref set \<Rightarrow> kstate \<Rightarrow> bool" where
  "bump_avail k X s \<longleftrightarrow> \<not> kheap_initialized s \<and> unat (next_free_descriptor (vmem s)) + k \<le> 64 \<and>
     (\<forall>d \<in> X. \<exists>i. d = Bump i \<and> i < unat (next_free_descriptor (vmem s)))"

lemma bump_law:
  assumes "bump_avail (Suc k) X s"
  shows "\<exists>n s1. allocate_vmem_descriptor km s = Inr (n, s1) \<and> n \<notin> X \<and> only_desc n s s1 \<and> bump_avail k (insert n X) s1"
proof -
  let ?i = "next_free_descriptor (vmem s)"
  let ?n = "Bump (unat ?i)"
  let ?s1 = "upd_desc ?n (\<lambda>d. clear_padding (d\<lparr>is_from_heap := False\<rparr>)) (on_kernel (next_free_descriptor_update (\<lambda>n. n + 1)) s)"
  have le: "unat ?i + 1 \<le> 64" and nh: "\<not> kheap_initialized s" using assms by (simp_all add: bump_avail_def)
  have "\<not> 64 \<le> ?i" using le by (simp add: word_le_nat_alt)
  then have "allocate_vmem_descriptor km s = Inr (?n, ?s1)"
    using nh by (simp add: allocate_vmem_descriptor_def is_kheap_initialzed_def Let_def)
  moreover have "only_desc ?n s ?s1" by (simp add: only_desc_def kcore_def clear_padding_def upd_desc_def)
  moreover have "unat (?i + 1) = unat ?i + 1" using le unat_add_u64 [of ?i 1] by simp
  then have "bump_avail k (insert ?n X) ?s1"
    using assms by (auto simp: bump_avail_def upd_desc_def)
  moreover have "?n \<notin> X" using assms by (auto simp: bump_avail_def)
  ultimately show ?thesis by blast
qed

interpretation bump: descriptor_source km bump_avail for km
  by unfold_locales (rule bump_law)

text \<open>
  With the heap: a descriptor is a block of 64 bytes. The heap can serve one more block without
  growing, and the descriptors in use are blocks in use.
\<close>

definition heap_avail :: "nat \<Rightarrow> desc_ref set \<Rightarrow> kstate \<Rightarrow> bool" where
  "heap_avail k X s \<longleftrightarrow> k = 0 \<or> (k = 1 \<and> kheap_initialized s \<and> \<not> kheap_lock s \<and>
     (\<exists>cs. heap_inv s cs \<and> servable cs (rnd 64) \<and> rnd 64 + 32 \<le> csize (last cs) \<and>
        (\<forall>p. HeapDesc p \<in> X \<longrightarrow> (\<exists>j. (unat p, j) \<in> used cs))))"

lemma heap_avail_law:
  assumes "heap_avail (Suc k) X s"
  shows "\<exists>n s1. allocate_vmem_descriptor (kmalloc expand) s = Inr (n, s1) \<and> n \<notin> X \<and> only_desc n s s1 \<and>
    heap_avail k (insert n X) s1"
proof -
  obtain cs where cs: "heap_inv s cs" "servable cs (rnd 64)" "rnd 64 + 32 \<le> csize (last cs)"
      "\<forall>p. HeapDesc p \<in> X \<longrightarrow> (\<exists>j. (unat p, j) \<in> used cs)"
    and h: "kheap_initialized s" "\<not> kheap_lock s" and k: "k = 0" using assms by (auto simp: heap_avail_def)
  obtain p s1 where p: "kmalloc expand 64 s = Inr (p, s1)" "\<forall>j. (unat p, j) \<notin> used cs" "vmem s1 = vmem s"
    using kmalloc_law [of s cs 64 expand] cs(1,2,3) h(2) by auto
  let ?s2 = "upd_desc (HeapDesc p) (\<lambda>d. clear_padding (d\<lparr>is_from_heap := True\<rparr>)) s1"
  have "allocate_vmem_descriptor (kmalloc expand) s = Inr (HeapDesc p, ?s2)"
    using h p(1) by (simp add: allocate_vmem_descriptor_def is_kheap_initialzed_def)
  moreover have "HeapDesc p \<notin> X" using cs(4) p(2) by blast
  moreover have "only_desc (HeapDesc p) s ?s2" using p(3) by (simp add: only_desc_def clear_padding_def)
  ultimately show ?thesis using k by (auto simp: heap_avail_def)
qed

interpretation hd: descriptor_source "kmalloc expand" heap_avail for expand
  by unfold_locales (rule heap_avail_law)

end
