(* ===== verification/Paging_Frames.thy ===== *)
theory Paging_Frames
  imports Paging_Structures
begin

text \<open>
  The frames that hold data: allocated frames that are neither a page table nor the structure of an
  address space. Updates of the page tables keep them, and they can be given back to the frame
  allocator without harm to the page tables. The virtual memory manager relies on both.
\<close>

definition data_frame :: "addr set \<Rightarrow> machine \<Rightarrow> addr \<Rightarrow> bool" where
  "data_frame S m f \<longleftrightarrow> frame_ok m f \<and> f \<notin> S \<and> f \<notin> tables (pmem m) (pmem m ` S)"

lemma data_frame_tlb [simp]: "data_frame S (m\<lparr>tlb := c\<rparr>) f = data_frame S m f"
  by (simp add: data_frame_def frame_ok_def)

section \<open>Updates of the page tables\<close>

lemma entry_frames:
  assumes inv: "fa_inv U m" and pg: "pg_inv S m" and phys: "phys48 U" and ps: "ps \<in> S"
    and res: "unsync_get_page_table_entry (pmem m ps) v m = Inr (e, m1)"
  shows "free_set m1 \<subseteq> free_set m" and "data_frame S m f \<Longrightarrow> data_frame S m1 f"
proof -
  let ?R = "pmem m ` S"
  have pt: "pt_inv ?R m" and r: "pmem m ps \<in> ?R" using pg ps by (simp_all add: pg_inv_def)
  obtain pt1: "pt_inv ?R m1" and g: "tables_grow ?R 3 m m1" using entry_facts [OF inv pt phys r res] by metis
  show "free_set m1 \<subseteq> free_set m" using g by (simp add: tables_grow_def)
  have "pmem m1 ` S = ?R" using grow_mapping(2) [OF pg g pt1] by (auto simp: image_iff)
  then show "data_frame S m1 f" if "data_frame S m f"
    using g that by (simp add: data_frame_def tables_grow_def)
qed

lemma set_pte_frames:
  fixes x :: u64
  assumes inv: "fa_inv U m" and pg: "pg_inv S m" and ps: "ps \<in> S"
    and t: "table_at (pmem m) (pmem m ps) (walk_path v) = Some t"
  defines "m' \<equiv> m\<lparr>pmem := (pmem m)(t + 8 * PT_index v := x)\<rparr>"
  shows "data_frame S m' f = data_frame S m f"
proof -
  let ?R = "pmem m ` S"
  have pt: "pt_inv ?R m" using pg by (simp add: pg_inv_def)
  then have shape: "tree_shape (pmem m) ?R" and al: "\<forall>t \<in> tables (pmem m) ?R. page_aligned t"
    by (auto simp: pt_inv_def frame_ok_def)
  have r: "pmem m ps \<in> ?R" using ps by simp
  have okt: "frame_ok m t" using pt tablesI [OF r walk_path_valid(1) t] by (simp add: pt_inv_def)
  have mem: "pmem m' = (pmem m)(t + 8 * PT_index v := x)" by (simp add: m'_def)
  note lw = leaf_write [OF shape al r walk_path_valid t index_less(4) [of v], where x = x, folded mem]
  have tabs: "tables (pmem m') ?R = tables (pmem m) ?R"
    using lw(1) unfolding tables_def by (metis (no_types, lifting))
  have "pmem m' ` S = ?R"
    using set_pte_facts(5) [OF inv pg ps t, where x = x] by (auto simp: image_iff m'_def)
  then show ?thesis
    using tabs write_cell(3) [OF inv okt index_less(4) [of v], where v = x] by (simp add: data_frame_def m'_def)
qed

lemma update_entry_frames:
  assumes inv: "fa_inv U m" and pg: "pg_inv S m" and phys: "phys48 U" and ps: "ps \<in> S"
    and res: "unsync_get_page_table_entry (pmem m ps) v m = Inr (e, m1)"
  fixes x :: u64
  defines "m2 \<equiv> m1\<lparr>pmem := (pmem m1)(e := x)\<rparr>"
  shows "free_set m2 \<subseteq> free_set m" and "data_frame S m f \<Longrightarrow> data_frame S m2 f"
proof -
  obtain t where e: "e = t + 8 * PT_index v" and t: "table_at (pmem m1) (pmem m1 ps) (walk_path v) = Some t"
    and inv1: "fa_inv U m1" and pg1: "pg_inv S m1"
    using entry_state_facts [OF inv pg phys ps res] by metis
  note ef = entry_frames [OF inv pg phys ps res]
  show "free_set m2 \<subseteq> free_set m"
    using set_pte_facts(3) [OF inv1 pg1 ps t, where x = x] ef(1) by (simp add: m2_def e)
  show "data_frame S m2 f" if "data_frame S m f"
    using set_pte_frames [OF inv1 pg1 ps t, where x = x] ef(2) [OF that] by (simp add: m2_def e)
qed

lemma paging_map_frames:
  assumes inv: "fa_inv U m" and pg: "pg_inv S m" and phys: "phys48 U" and ps: "ps \<in> S"
    and res: "paging_map ps v pa flags m = Inr m'"
  shows "free_set m' \<subseteq> free_set m" and "data_frame S m f \<Longrightarrow> data_frame S m' f"
proof -
  obtain e m1 where e: "unsync_get_page_table_entry (pmem m ps) v m = Inr (e, m1)"
    and m': "m' = invalidate_TLB v (m1\<lparr>pmem := (pmem m1)(e := map_entry pa flags)\<rparr>)"
    using res by (auto simp: paging_map_def kbind_Inr_iff Let_def map_entry_def)
  show "free_set m' \<subseteq> free_set m" "data_frame S m f \<Longrightarrow> data_frame S m' f"
    using update_entry_frames [OF inv pg phys ps e] by (simp_all add: m' invalidate_TLB_def)
qed

lemma invalidate_frames:
  assumes inv: "fa_inv U m" and pg: "pg_inv S m" and phys: "phys48 U" and ps: "ps \<in> S"
    and res: "invalidate_paging_mapping ps v m = Inr m'"
  shows "free_set m' \<subseteq> free_set m" and "data_frame S m f \<Longrightarrow> data_frame S m' f"
proof -
  obtain e m1 where e: "unsync_get_page_table_entry (pmem m ps) v m = Inr (e, m1)"
    and m': "m' = invalidate_TLB v (m1\<lparr>pmem := (pmem m1)(e := pmem m1 e AND NOT 1)\<rparr>)"
    using res by (auto simp: invalidate_paging_mapping_def kbind_Inr_iff Let_def)
  show "free_set m' \<subseteq> free_set m" "data_frame S m f \<Longrightarrow> data_frame S m' f"
    using update_entry_frames [OF inv pg phys ps e] by (simp_all add: m' invalidate_TLB_def)
qed

section \<open>Allocation and deallocation of frames\<close>

lemma alloc_data_frame:
  assumes inv: "fa_inv U m" and pg: "pg_inv S m" and phys: "phys48 U" and res: "alloc_frame m = Inr (p, m1)"
  shows "pg_inv S m1" and "data_frame S m1 p" and "mapping m1 = mapping m"
    and "data_frame S m f \<Longrightarrow> data_frame S m1 f \<and> f \<noteq> p"
proof -
  note nf = new_frame_facts [OF inv phys res]
  have tabs: "\<forall>t \<in> tables (pmem m) (pmem m ` S). frame_ok m t" and S: "\<forall>ps \<in> S. frame_ok m ps"
    using pg by (auto simp: pg_inv_def pt_inv_def)
  show "pg_inv S m1" using pg nf(3,6) by (auto simp: pg_inv_def pt_inv_def)
  show "data_frame S m1 p" using tabs S nf(3,4,5) by (auto simp: data_frame_def)
  show "mapping m1 = mapping m" by (intro ext) (simp add: mapping_def nf(3))
  show "data_frame S m1 f \<and> f \<noteq> p" if "data_frame S m f" using that nf(3,5,6) by (auto simp: data_frame_def)
qed

lemma dealloc_outside:
  assumes inv: "fa_inv U m" and p: "unat p \<in> U" "unat p \<notin> free_set m" and res: "dealloc_frame p m = Inr m'"
    and f: "frame_ok m f" "f \<noteq> p"
  shows "frame_ok m' f" and "a - f < 4096 \<Longrightarrow> pmem m' a = pmem m a"
proof -
  let ?st = "frame_stack (frame_allocator m)" and ?st' = "frame_stack (frame_allocator m')"
  obtain fs: "free_set m' = insert (unat p) (free_set m)" and inv': "fa_inv U m'"
    and en: "stack_entries (pmem m') ?st' = stack_entries (pmem m) ?st @ [unat p]"
    using dealloc_frame_facts [OF inv p] res by (metis Inr_inject)
  have so: "stack_ok ?st" "stack_ok ?st'" using inv inv' by (simp_all add: fa_inv_def fa_ok_def)
  have m': "pmem m' = (pmem m)(top ?st := p)" "base ?st' = base ?st" "max_size_bytes ?st' = max_size_bytes ?st"
    using res by (auto simp: dealloc_frame_def frame_stack_push_def Let_def kbind_Inr_iff split: if_splits)
  show "frame_ok m' f"
    using f fs m'(2,3) by (auto simp: frame_ok_def outside_stack_def word_unat_eq_iff)
  have "8 * unat (frame_stack_count ?st') \<le> unat (max_size_bytes ?st)" using stack_okE [OF so(2)] m'(3) by metis
  moreover have "unat (frame_stack_count ?st') = Suc (unat (frame_stack_count ?st))"
    using arg_cong [OF en, of length] by (simp add: stack_entries_def)
  moreover have "unat (top ?st) = unat (base ?st) + 8 * unat (frame_stack_count ?st)" using stack_okE [OF so(1)] by metis
  ultimately have top: "unat (base ?st) \<le> unat (top ?st)" "unat (top ?st) + 8 \<le> unat (base ?st) + unat (max_size_bytes ?st)"
    by simp_all
  show "pmem m' a = pmem m a" if "a - f < 4096"
  proof -
    have "unat f \<le> unat a" "unat a < unat f + 4096" using that f(1) by (simp_all add: in_page_iff frame_ok_def)
    then have "a \<noteq> top ?st" using f(1) top by (auto simp: frame_ok_def outside_stack_def)
    then show ?thesis by (simp add: m'(1))
  qed
qed

text \<open>Giving back a frame of data: the page tables and the other frames of data stay as they are.\<close>

lemma dealloc_data_frame:
  assumes inv: "fa_inv U m" and pg: "pg_inv S m" and p: "unat p \<in> U" "data_frame S m p"
  obtains m' where "dealloc_frame p m = Inr m'" and "fa_inv U m'" and "pg_inv S m'"
    and "\<And>ps v. ps \<in> S \<Longrightarrow> mapping m' ps v = mapping m ps v" and "free_set m' = insert (unat p) (free_set m)"
    and "\<And>f. data_frame S m f \<Longrightarrow> f \<noteq> p \<Longrightarrow> data_frame S m' f"
    and "m' = m\<lparr>pmem := pmem m', frame_allocator := frame_allocator m'\<rparr>"
proof -
  let ?R = "pmem m ` S"
  have nf: "unat p \<notin> free_set m" and out: "p \<notin> S" "p \<notin> tables (pmem m) ?R"
    using p(2) by (simp_all add: data_frame_def frame_ok_def)
  obtain m' where m': "dealloc_frame p m = Inr m'" "fa_inv U m'" "free_set m' = insert (unat p) (free_set m)"
    "m' = m\<lparr>pmem := pmem m', frame_allocator := frame_allocator m'\<rparr>"
    using dealloc_frame_facts [OF inv p(1) nf] by metis
  note keep = dealloc_outside [OF inv p(1) nf m'(1)]
  have ok: "frame_ok m f \<and> f \<noteq> p" if "f \<in> S \<union> tables (pmem m) ?R" for f
    using pg that out by (auto simp: pg_inv_def pt_inv_def)
  have root: "pmem m' ps = pmem m ps" if "ps \<in> S" for ps using keep(2) [of ps ps] ok that by auto
  have cells: "pmem m' (t + 8 * i) = pmem m (t + 8 * i)" if "t \<in> tables (pmem m) ?R" "i < 512" for t i
    using keep(2) [of t "t + 8 * i"] ok [of t] that entry_in_page [of t t i] by (auto simp: frame_ok_def)
  note tc = tables_cong [of "pmem m" ?R "pmem m'", OF cells]
  have R: "pmem m' ` S = ?R" using root by (auto simp: image_iff)
  have "inj_on (pmem m') S" using pg root by (auto simp: pg_inv_def inj_on_def)
  then have "pg_inv S m'" using pg ok keep(1) tc(1,2) by (auto simp: pg_inv_def pt_inv_def R)
  moreover have "mapping m' ps v = mapping m ps v" if "ps \<in> S" for ps v
    using tc(3) [of "pmem m ps" "walk_path v" "PT_index v"] that root [OF that]
    by (simp add: mapping_def walk_path_valid index_less(4))
  moreover have "data_frame S m' f" if "data_frame S m f" "f \<noteq> p" for f
    using that keep(1) tc(1) by (auto simp: data_frame_def R)
  ultimately show thesis using that m' by blast
qed

end
