(* ===== verification/Vmm_Mapping.thy ===== *)
theory Vmm_Mapping
  imports Vmm_Cut Paging_Frames
begin

text \<open>
  The loops of the virtual memory manager that map new frames to the pages of a region and that unmap
  them. The frame allocator and the page tables keep their invariants; the pages of the region, and no
  others, change.
\<close>

section \<open>Numbers of consecutive pages\<close>

lemma unat_page_number: "unat (page_number v) = unat v div 4096 mod 68719476736"
proof -
  have "(0xFFFFFFFFF :: u64) = mask 36" by (simp add: mask_eq_exp_minus_1)
  then have "page_number v = take_bit 36 (drop_bit 12 v)" by (simp add: page_number_def take_bit_eq_mask)
  then show ?thesis by (simp add: take_bit_eq_mod drop_bit_eq_div unat_mod unat_div)
qed

lemma unat_page_number_add:
  "unat (page_number (v + 4096 * of_nat k)) = (unat (page_number v) + k) mod 68719476736"
proof -
  have "unat (v + 4096 * of_nat k) = (unat v + 4096 * k) mod 18446744073709551616"
    by (simp add: unat_word_ariths unat_of_nat mod_simps)
  then have "unat (v + 4096 * of_nat k) div 4096 = (unat v + 4096 * k) div 4096 mod 4503599627370496"
    using div_mult2_eq [of "unat v + 4096 * k"] by (simp add: mod_mult2_eq [of _ 4096 4503599627370496, simplified])
  also have "\<dots> mod 68719476736 = (unat v div 4096 + k) mod 68719476736"
    by (simp add: mod_mod_cancel add.commute)
  finally show ?thesis by (simp add: unat_page_number mod_simps)
qed

lemma page_number_inj:
  assumes "page_number (v + 4096 * of_nat i) = page_number (v + 4096 * of_nat j)" and "i < n" and "j < n"
    and "n \<le> 68719476736"
  shows "i = j"
proof -
  let ?p = "unat (page_number v)"
  have e: "(?p + i) mod 68719476736 = (?p + j) mod 68719476736"
    using arg_cong [OF assms(1), of unat] by (simp only: unat_page_number_add)
  have *: "a = b" if "(?p + a) mod 68719476736 = (?p + b) mod 68719476736" "a \<le> b" "b < 68719476736" for a b :: nat
  proof -
    have "68719476736 dvd b - a" using that mod_eq_dvd_iff_nat [of "?p + a" "?p + b" 68719476736] by simp
    then show ?thesis using that dvd_imp_le [of 68719476736 "b - a"] by (cases "b = a") auto
  qed
  show ?thesis using * [OF e] * [OF e [symmetric]] assms(2-4) by (cases "i \<le> j") auto
qed

lemma page_span_last: "page_span v (Suc n) = insert (page_number (v + 4096 * of_nat n)) (page_span v n)"
  by (auto simp: page_span_def less_Suc_eq)

lemma page_span_fresh: "n < 68719476736 \<Longrightarrow> page_number (v + 4096 * of_nat n) \<notin> page_span v n"
  using page_number_inj [of v n _ "Suc n"] by (fastforce simp: page_span_def)

lemma mapping_page: "page_number v = page_number v' \<Longrightarrow> mapping m ps v = mapping m ps v'"
  by (simp add: mapping_def page_number_eq_iff)

section \<open>Mapping new frames\<close>

text \<open>Frames are below \<open>2^47\<close>, where the reading of an entry does not extend the sign.\<close>

definition mach_ok :: "nat set \<Rightarrow> addr set \<Rightarrow> machine \<Rightarrow> bool" where
  "mach_ok U S m \<longleftrightarrow> fa_inv U m \<and> pg_inv S m \<and> hal_arch_initialized m \<and> (\<forall>u \<in> U. u < 2 ^ 47)"

lemma mach_ok_phys48: "mach_ok U S m \<Longrightarrow> phys48 U"
  by (fastforce simp: mach_ok_def phys48_def)

text \<open>
  The pages from \<open>v\<close> on are mapped to the frames \<open>fs\<close>, which were free before and hold data now; no other
  page of any address space has changed.
\<close>

definition frames_mapped :: "nat set \<Rightarrow> addr set \<Rightarrow> addr \<Rightarrow> addr \<Rightarrow> machine \<Rightarrow> addr list \<Rightarrow> machine \<Rightarrow> bool" where
  "frames_mapped U S ps v m fs m' \<longleftrightarrow> mach_ok U S m' \<and> distinct fs \<and>
     (\<forall>f \<in> set fs. unat f \<in> free_set m \<and> data_frame S m' f) \<and>
     (\<forall>i < length fs. mapping m' ps (v + 4096 * of_nat i) = map_entry (fs ! i) 3) \<and>
     (\<forall>ps' \<in> S. \<forall>v'. ps' \<noteq> ps \<or> page_number v' \<notin> page_span v (length fs) \<longrightarrow> mapping m' ps' v' = mapping m ps' v') \<and>
     free_set m' \<subseteq> free_set m - unat ` set fs \<and> card (free_set m) \<le> card (free_set m') + 4 * length fs \<and>
     (\<forall>f. data_frame S m f \<longrightarrow> data_frame S m' f \<and> f \<notin> set fs) \<and> (tlb_coherent m ps \<longrightarrow> tlb_coherent m' ps)"

lemma frames_mapped_Nil: "mach_ok U S m \<Longrightarrow> frames_mapped U S ps v m [] m"
  by (simp add: frames_mapped_def)

lemma map_frame_step:
  assumes ok: "mach_ok U S m" and ps: "ps \<in> S" and room: "4 \<le> card (free_set m)"
  obtains p m1 m2 where "alloc_frame m = Inr (p, m1)" and "paging_map ps v p 3 m1 = Inr m2"
    and "mach_ok U S m2" and "unat p \<in> free_set m" and "data_frame S m2 p"
    and "free_set m2 \<subseteq> free_set m - {unat p}" and "card (free_set m) \<le> card (free_set m2) + 4"
    and "\<And>ps' v'. ps' \<in> S \<Longrightarrow> mapping m2 ps' v' =
      (if ps' = ps \<and> page_number v' = page_number v then map_entry p 3 else mapping m ps' v')"
    and "\<And>f. data_frame S m f \<Longrightarrow> data_frame S m2 f \<and> f \<noteq> p" and "tlb_coherent m ps \<Longrightarrow> tlb_coherent m2 ps"
proof -
  have inv: "fa_inv U m" and pg: "pg_inv S m" and hal: "hal_arch_initialized m" and U: "\<forall>u \<in> U. u < 2 ^ 47"
    using ok by (simp_all add: mach_ok_def)
  note phys = mach_ok_phys48 [OF ok]
  obtain p m1 where a: "alloc_frame m = Inr (p, m1)"
    using alloc_frame_progress [OF inv hal] room by (metis card.empty not_numeral_le_zero)
  note nf = new_frame_facts [OF inv phys a] and ad = alloc_data_frame [OF inv pg phys a]
  have hal1: "hal_arch_initialized m1" and tlb1: "tlb m1 = tlb m" by (subst nf(8), simp add: hal)+
  have c1: "card (free_set m) = Suc (card (free_set m1))"
    using nf(7,9,10) by (metis card.remove)
  obtain m2 where m2: "paging_map ps v p 3 m1 = Inr m2"
    using paging_map_progress [OF nf(2) ad(1) phys ps hal1, of v p 3] room c1 by auto
  note pf = paging_map_facts [OF nf(2) ad(1) phys ps m2] and pr = paging_map_frames [OF nf(2) ad(1) phys ps m2]
  have "hal_arch_initialized m2" and tlb2: "tlb m2 = (tlb m1)(page_number v := None)" by (subst pf(5), simp add: hal1)+
  then have "mach_ok U S m2" using pf(1,2) U by (simp add: mach_ok_def)
  moreover have "tlb_coherent m2 ps" if "tlb_coherent m ps"
    using that pf(3) [OF ps] tlb2 tlb1 ad(3) by (auto simp: tlb_coherent_def)
  moreover have "free_set m2 \<subseteq> free_set m - {unat p}" "card (free_set m) \<le> card (free_set m2) + 4"
    using pr(1) pf(4) c1 nf(7) by auto
  moreover have "mapping m2 ps' v' = (if ps' = ps \<and> page_number v' = page_number v then map_entry p 3 else mapping m ps' v')"
    if "ps' \<in> S" for ps' v' using pf(3) [OF that] ad(3) by simp
  ultimately show thesis using that a m2 nf(10) pr(2) ad(2,4) by blast
qed

lemma frames_mapped_snoc:
  assumes old: "frames_mapped U S ps v m fs m'" and ps: "ps \<in> S" and n: "length fs < 68719476736"
    and new: "mach_ok U S m2" "unat p \<in> free_set m'" "data_frame S m2 p"
      "free_set m2 \<subseteq> free_set m' - {unat p}" "card (free_set m') \<le> card (free_set m2) + 4"
      "\<And>ps' v'. ps' \<in> S \<Longrightarrow> mapping m2 ps' v' =
        (if ps' = ps \<and> page_number v' = page_number (v + 4096 * of_nat (length fs)) then map_entry p 3 else mapping m' ps' v')"
      "\<And>f. data_frame S m' f \<Longrightarrow> data_frame S m2 f \<and> f \<noteq> p" "tlb_coherent m' ps \<Longrightarrow> tlb_coherent m2 ps"
  shows "frames_mapped U S ps v m (fs @ [p]) m2"
proof -
  have o: "distinct fs" "\<forall>f \<in> set fs. unat f \<in> free_set m \<and> data_frame S m' f"
    "\<forall>i < length fs. mapping m' ps (v + 4096 * of_nat i) = map_entry (fs ! i) 3"
    "\<forall>ps' \<in> S. \<forall>v'. ps' \<noteq> ps \<or> page_number v' \<notin> page_span v (length fs) \<longrightarrow> mapping m' ps' v' = mapping m ps' v'"
    "free_set m' \<subseteq> free_set m - unat ` set fs" "card (free_set m) \<le> card (free_set m') + 4 * length fs"
    "\<forall>f. data_frame S m f \<longrightarrow> data_frame S m' f \<and> f \<notin> set fs" "tlb_coherent m ps \<longrightarrow> tlb_coherent m' ps"
    using old by (simp_all add: frames_mapped_def)
  have "mapping m2 ps (v + 4096 * of_nat i) = map_entry ((fs @ [p]) ! i) 3" if "i < Suc (length fs)" for i
    using that o(3) new(6) [OF ps] page_number_inj [of v i "length fs" "Suc (length fs)"] n
    by (auto simp: nth_append less_Suc_eq)
  moreover have "mapping m2 ps' v' = mapping m ps' v'"
    if "ps' \<in> S" "ps' \<noteq> ps \<or> page_number v' \<notin> page_span v (Suc (length fs))" for ps' v'
    using that o(4) new(6) [OF that(1)] by (auto simp: page_span_last)
  moreover have "distinct (fs @ [p])" "free_set m2 \<subseteq> free_set m - unat ` set (fs @ [p])" "unat p \<in> free_set m"
    using o(1,5) new(2,4) by auto
  ultimately show ?thesis
    using o(2,6,7,8) new(1,3,5,7,8) unfolding frames_mapped_def by auto
qed

lemma map_frame_next:
  assumes old: "frames_mapped U S ps v m fs m'" and ps: "ps \<in> S" and n: "length fs < 68719476736"
    and room: "4 \<le> card (free_set m')"
  shows "\<exists>p m1 m2. alloc_frame m' = Inr (p, m1) \<and> paging_map ps (v + 4096 * of_nat (length fs)) p 3 m1 = Inr m2 \<and>
    frames_mapped U S ps v m (fs @ [p]) m2"
proof -
  have ok: "mach_ok U S m'" using old by (simp add: frames_mapped_def)
  show ?thesis
    by (rule map_frame_step [OF ok ps room, of "v + 4096 * of_nat (length fs)"])
      (intro exI conjI, assumption, assumption, rule frames_mapped_snoc [OF old ps n], assumption+)
qed

lemma map_new_frames:
  assumes ok: "mach_ok U S m" and ps: "ps \<in> S" and n: "n \<le> 68719476736" and room: "4 * n \<le> card (free_set m)"
    and s: "mach (vmem s) = m" and test: "\<And>i. i < n \<Longrightarrow> P (v + 4096 * of_nat i)"
  shows "\<exists>m' fs. kfold (\<lambda>k. map_new_frame P ps (of_nat k)) [0..<n] (v, s) =
      Inr (v + 4096 * of_nat n, on_kernel (mach_update (\<lambda>_. m')) s) \<and>
    frames_mapped U S ps v m fs m' \<and> length fs = n"
  using n room test
proof (induction n)
  case 0
  have "on_kernel (mach_update (\<lambda>_. m)) s = s" using s by (simp add: on_kernel_def)
  then show ?case using frames_mapped_Nil [OF ok] by (intro exI [of _ m] exI [of _ "[]"]) simp
next
  case (Suc n)
  obtain m' fs where IH: "kfold (\<lambda>k. map_new_frame P ps (of_nat k)) [0..<n] (v, s) =
      Inr (v + 4096 * of_nat n, on_kernel (mach_update (\<lambda>_. m')) s)"
    and fm: "frames_mapped U S ps v m fs m'" "length fs = n" using Suc by auto
  have room': "4 \<le> card (free_set m')"
    using fm Suc.prems(2) by (auto simp: frames_mapped_def)
  obtain p m1 m2 where st: "alloc_frame m' = Inr (p, m1)" "paging_map ps (v + 4096 * of_nat n) p 3 m1 = Inr m2"
    "frames_mapped U S ps v m (fs @ [p]) m2"
    using map_frame_next [OF fm(1) ps _ room'] fm(2) Suc.prems(1) by auto
  have "map_new_frame P ps (of_nat n) (v + 4096 * of_nat n, on_kernel (mach_update (\<lambda>_. m')) s) =
      Inr (v + 4096 * of_nat (Suc n), on_kernel (mach_update (\<lambda>_. m2)) s)"
    using st(1,2) Suc.prems(3) by (simp add: map_new_frame_def new_frame_def on_machine_def on_kernel_def add.assoc distrib_left)
  then show ?case using IH st(3) fm(2) by (auto simp: kfold_append intro!: exI [of _ m2] exI [of _ "fs @ [p]"])
qed

section \<open>Unmapping\<close>

text \<open>The walk to the entry of a page that has one allocates no table.\<close>

lemma existing_entry:
  assumes "mapping m ps v \<noteq> 0"
  obtains t where "table_at (pmem m) (pmem m ps) (walk_path v) = Some t"
    and "unsync_get_page_table_entry (pmem m ps) v m = Inr (t + 8 * PT_index v, m)"
proof -
  obtain t where t: "table_at (pmem m) (pmem m ps) (walk_path v) = Some t"
    using assms by (auto simp: mapping_def pte_def split: option.splits)
  then have "unsync_get_page_table_entry (pmem m ps) v m = Inr (t + 8 * PT_index v, m)"
    by (auto simp: walk_path_def table_at.simps(2) unsync_get_page_table_entry_def walk_level_def split: if_splits)
  with t show thesis by (rule that)
qed

lemma invalidate_existing:
  assumes ok: "mach_ok U S m" and ps: "ps \<in> S" and e: "mapping m ps v \<noteq> 0"
  obtains m' where "invalidate_paging_mapping ps v m = Inr m'" and "mach_ok U S m'" and "free_set m' = free_set m"
    and "\<And>ps' v'. ps' \<in> S \<Longrightarrow> mapping m' ps' v' =
      (if ps' = ps \<and> page_number v' = page_number v then mapping m ps v AND NOT 1 else mapping m ps' v')"
    and "\<And>f. data_frame S m f \<Longrightarrow> data_frame S m' f" and "tlb_coherent m ps \<Longrightarrow> tlb_coherent m' ps"
proof -
  have inv: "fa_inv U m" and pg: "pg_inv S m" and hal: "hal_arch_initialized m" and U: "\<forall>u \<in> U. u < 2 ^ 47"
    using ok by (simp_all add: mach_ok_def)
  note phys = mach_ok_phys48 [OF ok]
  obtain t where t: "table_at (pmem m) (pmem m ps) (walk_path v) = Some t"
    "unsync_get_page_table_entry (pmem m ps) v m = Inr (t + 8 * PT_index v, m)" by (rule existing_entry [OF e])
  define m' where "m' = invalidate_TLB v (m\<lparr>pmem := (pmem m)(t + 8 * PT_index v := pmem m (t + 8 * PT_index v) AND NOT 1)\<rparr>)"
  have r: "invalidate_paging_mapping ps v m = Inr m'" using t(2) by (simp add: invalidate_paging_mapping_def m'_def Let_def)
  note f = invalidate_facts [OF inv pg phys ps r] and g = invalidate_frames [OF inv pg phys ps r]
  have "free_set m' = free_set m" using set_pte_facts(3) [OF inv pg ps t(1)] by (simp add: m'_def invalidate_TLB_def)
  moreover have "mach_ok U S m'" using f(1,2) hal U by (simp add: mach_ok_def m'_def invalidate_TLB_def)
  moreover have "tlb_coherent m' ps" if "tlb_coherent m ps"
    using that f(3) [OF ps] by (auto simp: tlb_coherent_def m'_def invalidate_TLB_def)
  ultimately show thesis using that r f(3) g(2) by blast
qed

definition frames_unmapped :: "nat set \<Rightarrow> addr set \<Rightarrow> addr \<Rightarrow> addr \<Rightarrow> machine \<Rightarrow> addr list \<Rightarrow> machine \<Rightarrow> bool" where
  "frames_unmapped U S ps v m fs m' \<longleftrightarrow> mach_ok U S m' \<and>
     (\<forall>i < length fs. mapping m' ps (v + 4096 * of_nat i) = map_entry (fs ! i) 3 AND NOT 1) \<and>
     (\<forall>ps' \<in> S. \<forall>v'. ps' \<noteq> ps \<or> page_number v' \<notin> page_span v (length fs) \<longrightarrow> mapping m' ps' v' = mapping m ps' v') \<and>
     free_set m' = free_set m \<union> unat ` set fs \<and>
     (\<forall>f. data_frame S m f \<and> f \<notin> set fs \<longrightarrow> data_frame S m' f) \<and> (tlb_coherent m ps \<longrightarrow> tlb_coherent m' ps)"

lemma unmap_step:
  assumes ok: "mach_ok U S m" and ps: "ps \<in> S" and f: "unat f \<in> U" "data_frame S m f" and e: "mapping m ps v = map_entry f 3"
  obtains m1 m2 where "get_physical_address ps v m = \<lparr>paddr = f, map_flags = 3, mmap_present = True\<rparr>"
    and "dealloc_frame f m = Inr m1" and "invalidate_paging_mapping ps v m1 = Inr m2"
    and "mach_ok U S m2" and "free_set m2 = insert (unat f) (free_set m)"
    and "\<And>ps' v'. ps' \<in> S \<Longrightarrow> mapping m2 ps' v' =
      (if ps' = ps \<and> page_number v' = page_number v then map_entry f 3 AND NOT 1 else mapping m ps' v')"
    and "\<And>g. data_frame S m g \<Longrightarrow> g \<noteq> f \<Longrightarrow> data_frame S m2 g" and "tlb_coherent m ps \<Longrightarrow> tlb_coherent m2 ps"
proof -
  have inv: "fa_inv U m" and pg: "pg_inv S m" and hal: "hal_arch_initialized m" and U: "\<forall>u \<in> U. u < 2 ^ 47"
    using ok by (simp_all add: mach_ok_def)
  have "page_aligned f" "unat f < 2 ^ 47" using f U by (auto simp: data_frame_def frame_ok_def)
  then have g: "get_physical_address ps v m = \<lparr>paddr = f, map_flags = 3, mmap_present = True\<rparr>"
    using e decode_map_entry [of f 3] by (simp add: get_physical_address_decode)
  obtain m1 where m1: "dealloc_frame f m = Inr m1" "fa_inv U m1" "pg_inv S m1"
    "\<And>ps v. ps \<in> S \<Longrightarrow> mapping m1 ps v = mapping m ps v" "free_set m1 = insert (unat f) (free_set m)"
    "\<And>g. data_frame S m g \<Longrightarrow> g \<noteq> f \<Longrightarrow> data_frame S m1 g"
    "m1 = m\<lparr>pmem := pmem m1, frame_allocator := frame_allocator m1\<rparr>"
    using dealloc_data_frame [OF inv pg f] by metis
  have h1: "hal_arch_initialized m1" "tlb m1 = tlb m" by (subst m1(7), simp add: hal)+
  have ok1: "mach_ok U S m1" using m1(2,3) h1(1) U by (simp add: mach_ok_def)
  have "map_entry f 3 \<noteq> 0" using map_entry_present [of f 3] by (auto simp del: map_entry_present)
  then have "mapping m1 ps v \<noteq> 0" using m1(4) [OF ps] e by simp
  from invalidate_existing [OF ok1 ps this]
  obtain m2 where m2: "invalidate_paging_mapping ps v m1 = Inr m2" "mach_ok U S m2" "free_set m2 = free_set m1"
    "\<And>ps' v'. ps' \<in> S \<Longrightarrow> mapping m2 ps' v' =
      (if ps' = ps \<and> page_number v' = page_number v then mapping m1 ps v AND NOT 1 else mapping m1 ps' v')"
    "\<And>g. data_frame S m1 g \<Longrightarrow> data_frame S m2 g" "tlb_coherent m1 ps \<Longrightarrow> tlb_coherent m2 ps" by metis
  have "mapping m2 ps' v' = (if ps' = ps \<and> page_number v' = page_number v then map_entry f 3 AND NOT 1 else mapping m ps' v')"
    if "ps' \<in> S" for ps' v' using m2(4) [OF that] m1(4) ps that e by simp
  moreover have "tlb_coherent m1 ps" if "tlb_coherent m ps" using that m1(4) [OF ps] h1(2) by (simp add: tlb_coherent_def)
  ultimately show thesis using that g m1(1,5,6) m2(1,2,3,5,6) by (simp add: m1(5))
qed

lemma frames_unmapped_snoc:
  assumes old: "frames_unmapped U S ps v m fs m'" and ps: "ps \<in> S" and n: "length fs < 68719476736"
    and new: "mach_ok U S m2" "free_set m2 = insert (unat f) (free_set m')"
      "\<And>ps' v'. ps' \<in> S \<Longrightarrow> mapping m2 ps' v' =
        (if ps' = ps \<and> page_number v' = page_number (v + 4096 * of_nat (length fs)) then map_entry f 3 AND NOT 1 else mapping m' ps' v')"
      "\<And>g. data_frame S m' g \<Longrightarrow> g \<noteq> f \<Longrightarrow> data_frame S m2 g" "tlb_coherent m' ps \<Longrightarrow> tlb_coherent m2 ps"
  shows "frames_unmapped U S ps v m (fs @ [f]) m2"
proof -
  have o: "\<forall>i < length fs. mapping m' ps (v + 4096 * of_nat i) = map_entry (fs ! i) 3 AND NOT 1"
    "\<forall>ps' \<in> S. \<forall>v'. ps' \<noteq> ps \<or> page_number v' \<notin> page_span v (length fs) \<longrightarrow> mapping m' ps' v' = mapping m ps' v'"
    "free_set m' = free_set m \<union> unat ` set fs" "\<forall>f. data_frame S m f \<and> f \<notin> set fs \<longrightarrow> data_frame S m' f"
    "tlb_coherent m ps \<longrightarrow> tlb_coherent m' ps"
    using old by (simp_all add: frames_unmapped_def)
  have "mapping m2 ps (v + 4096 * of_nat i) = map_entry ((fs @ [f]) ! i) 3 AND NOT 1" if "i < Suc (length fs)" for i
    using that o(1) new(3) [OF ps] page_number_inj [of v i "length fs" "Suc (length fs)"] n
    by (auto simp: nth_append less_Suc_eq)
  moreover have "mapping m2 ps' v' = mapping m ps' v'"
    if "ps' \<in> S" "ps' \<noteq> ps \<or> page_number v' \<notin> page_span v (Suc (length fs))" for ps' v'
    using that o(2) new(3) [OF that(1)] by (auto simp: page_span_last)
  ultimately show ?thesis
    using o(3,4,5) new(1,2,4,5) unfolding frames_unmapped_def by auto
qed

text \<open>A region whose pages are mapped to frames of data.\<close>

definition backed :: "nat set \<Rightarrow> addr set \<Rightarrow> addr \<Rightarrow> addr \<Rightarrow> addr list \<Rightarrow> machine \<Rightarrow> bool" where
  "backed U S ps v fs m \<longleftrightarrow> distinct fs \<and> length fs \<le> 68719476736 \<and> (\<forall>f \<in> set fs. unat f \<in> U \<and> data_frame S m f) \<and>
     (\<forall>i < length fs. mapping m ps (v + 4096 * of_nat i) = map_entry (fs ! i) 3)"

lemma mapped_backed: "frames_mapped U S ps v m fs m' \<Longrightarrow> fa_inv U m \<Longrightarrow> length fs \<le> 68719476736 \<Longrightarrow> backed U S ps v fs m'"
  by (auto simp: frames_mapped_def backed_def fa_inv_def fa_ok_def free_set_def)

lemma unmap_next:
  assumes old: "frames_unmapped U S ps v m (take k fs) m'" and ps: "ps \<in> S" and b: "backed U S ps v fs m" and k: "k < length fs"
  shows "\<exists>m1 m2. get_physical_address ps (v + 4096 * of_nat k) m' = \<lparr>paddr = fs ! k, map_flags = 3, mmap_present = True\<rparr> \<and>
    dealloc_frame (fs ! k) m' = Inr m1 \<and> invalidate_paging_mapping ps (v + 4096 * of_nat k) m1 = Inr m2 \<and>
    frames_unmapped U S ps v m (take (Suc k) fs) m2"
proof -
  have len: "length (take k fs) = k" "length fs \<le> 68719476736" using k b by (simp_all add: backed_def)
  have ok: "mach_ok U S m'" using old by (simp add: frames_unmapped_def)
  have f: "unat (fs ! k) \<in> U" "data_frame S m (fs ! k)" "fs ! k \<notin> set (take k fs)"
    using b k nth_mem [OF k] by (auto simp: backed_def in_set_conv_nth nth_eq_iff_index_eq)
  then have d: "data_frame S m' (fs ! k)" using old by (simp add: frames_unmapped_def)
  have "page_number (v + 4096 * of_nat k) \<notin> page_span v k" using k len(2) by (intro page_span_fresh) simp
  then have e: "mapping m' ps (v + 4096 * of_nat k) = map_entry (fs ! k) 3"
    using old ps b k len(1) by (simp add: frames_unmapped_def backed_def)
  have n: "length (take k fs) < 68719476736" using k len by simp
  note snoc = frames_unmapped_snoc [OF old ps n, of _ "fs ! k", unfolded len(1)]
  show ?thesis
    unfolding take_Suc_conv_app_nth [OF k]
    by (rule unmap_step [OF ok ps f(1) d e]) (intro exI conjI, assumption, assumption, assumption, rule snoc, assumption+)
qed

lemma unmap_frames:
  assumes ok: "mach_ok U S m" and ps: "ps \<in> S" and b: "backed U S ps v fs m" and s: "mach (vmem s) = m"
    and ty: "frees_frames (vm_type (desc s d))" and k: "k \<le> length fs"
  shows "\<exists>m'. kfold (\<lambda>k. unmap_page ps d (of_nat k)) [0..<k] (v, s) =
      Inr (v + 4096 * of_nat k, on_kernel (mach_update (\<lambda>_. m')) s) \<and> frames_unmapped U S ps v m (take k fs) m'"
  using k
proof (induction k)
  case 0
  have "on_kernel (mach_update (\<lambda>_. m)) s = s" using s by (simp add: on_kernel_def)
  then show ?case using ok by (intro exI [of _ m]) (simp add: frames_unmapped_def)
next
  case (Suc k)
  obtain m' where IH: "kfold (\<lambda>k. unmap_page ps d (of_nat k)) [0..<k] (v, s) =
      Inr (v + 4096 * of_nat k, on_kernel (mach_update (\<lambda>_. m')) s)" "frames_unmapped U S ps v m (take k fs) m'"
    using Suc by auto
  obtain m1 m2 where st: "get_physical_address ps (v + 4096 * of_nat k) m' = \<lparr>paddr = fs ! k, map_flags = 3, mmap_present = True\<rparr>"
    "dealloc_frame (fs ! k) m' = Inr m1" "invalidate_paging_mapping ps (v + 4096 * of_nat k) m1 = Inr m2"
    "frames_unmapped U S ps v m (take (Suc k) fs) m2"
    using unmap_next [OF IH(2) ps b] Suc.prems by auto
  have "unmap_page ps d (of_nat k) (v + 4096 * of_nat k, on_kernel (mach_update (\<lambda>_. m')) s) =
      Inr (v + 4096 * of_nat (Suc k), on_kernel (mach_update (\<lambda>_. m2)) s)"
    using st(1-3) ty by (simp add: unmap_page_def Let_def on_machine_def on_kernel_def add.assoc distrib_left)
  then show ?case using IH(1) st(4) by (auto simp: kfold_append)
qed

end
