(* ===== verification/Vmm_Spec.thy ===== *)
theory Vmm_Spec
  imports Vmm_Mapping
begin

text \<open>
  What the virtual memory manager promises: its address space is a list of regions, an allocation takes
  the first free region that is large enough, a deallocation gives the region back and joins it with its
  free neighbours, and the pages of a region are mapped to frames of their own.
\<close>

section \<open>Specification\<close>

definition vm_regions :: "kstate \<Rightarrow> desc_ref list \<Rightarrow> region list" where
  "vm_regions s ds = map (\<lambda>d. vregion (desc s d)) ds"

lemma vm_regions_simps [simp]:
  "vm_regions s [] = []" "vm_regions s (d # ds) = vregion (desc s d) # vm_regions s ds"
  "vm_regions s (xs @ ys) = vm_regions s xs @ vm_regions s ys"
  by (simp_all add: vm_regions_def)

text \<open>First fit: the start of the new region and the regions after the allocation.\<close>

fun alloc_first_fit :: "nat \<Rightarrow> VirtualMemoryType \<Rightarrow> region list \<Rightarrow> (nat \<times> region list) option" where
  "alloc_first_fit n t [] = None"
| "alloc_first_fit n t ((a, k, u) # rs) =
     (if n \<le> k \<and> u = VM_TYPE_FREE
      then Some (a, (a, n, t) # (if n = k then [] else [(a + n, k - n, VM_TYPE_FREE)]) @ rs)
      else map_option (\<lambda>(b, rs'). (b, (a, k, u) # rs')) (alloc_first_fit n t rs))"

definition fits :: "nat \<Rightarrow> region \<Rightarrow> bool" where
  "fits n r \<longleftrightarrow> (case r of (a, k, u) \<Rightarrow> n \<le> k \<and> u = VM_TYPE_FREE)"

lemma alloc_first_fit_skip:
  "\<forall>r \<in> set xs. \<not> fits n r \<Longrightarrow>
   alloc_first_fit n t (xs @ ys) = map_option (\<lambda>(b, rs). (b, xs @ rs)) (alloc_first_fit n t ys)"
proof (induction xs)
  case Nil
  then show ?case by (cases "alloc_first_fit n t ys") auto
next
  case (Cons r xs)
  obtain a k u where r: "r = (a, k, u)" by (cases r)
  have "\<not> (n \<le> k \<and> u = VM_TYPE_FREE)" using Cons.prems by (auto simp: fits_def r)
  then show ?case using Cons by (cases "alloc_first_fit n t ys") (auto simp: r)
qed

lemma alloc_first_fit_None: "alloc_first_fit n t rs = None \<longleftrightarrow> (\<forall>r \<in> set rs. \<not> fits n r)"
  by (induction n t rs rule: alloc_first_fit.induct) (auto simp: fits_def split: if_splits)

lemma fits_free_region: "fits_free size0 d \<longleftrightarrow> fits (unat size0) (vregion d)"
  by (auto simp: fits_free_def fits_def vregion_def word_le_nat_alt)

section \<open>Descriptors from either source\<close>

definition desc_avail :: "kmalloc_op \<Rightarrow> nat \<Rightarrow> desc_ref set \<Rightarrow> kstate \<Rightarrow> bool" where
  "desc_avail km k X s \<longleftrightarrow> bump_avail k X s \<or> (\<exists>expand. km = kmalloc expand) \<and> heap_avail k X s"

interpretation src: descriptor_source km "desc_avail km" for km
proof
  fix k X s assume "desc_avail km (Suc k) X s"
  then show "\<exists>n s1. allocate_vmem_descriptor km s = Inr (n, s1) \<and> n \<notin> X \<and> only_desc n s s1 \<and> desc_avail km k (insert n X) s1"
    using bump_law [of k X s km] heap_avail_law [of k X s] unfolding desc_avail_def by metis
qed

text \<open>The locks, the machine and the fields of a manager other than its list are not looked at.\<close>

lemma desc_avail_upd_vmm [simp]: "desc_avail km k X (upd_vmm v f s) = desc_avail km k X s"
  by (simp add: desc_avail_def bump_avail_def heap_avail_def heap_inv_def upd_vmm_def)

lemma vm_list_cong:
  assumes "descs (vmem s') = descs (vmem s)" and "vm_list_head (vmm_of s' v) = vm_list_head (vmm_of s v)"
  shows "vm_list v s' ds = vm_list v s ds" and "vm_regions s' ds = vm_regions s ds"
  using assms by (simp_all add: vm_list_def vm_regions_def)

lemma vm_list_retype:
  assumes vl: "vm_list v s (L @ [c] @ R)" and it: "identity_type t = identity_type (vm_type (desc s c))"
    and c: "desc s' c = (desc s c)\<lparr>vm_type := t, lower_padding := lo, upper_padding := up\<rparr>"
    and other: "\<And>e. e \<noteq> c \<Longrightarrow> desc s' e = desc s e" and head: "vm_list_head (vmm_of s' v) = vm_list_head (vmm_of s v)"
  shows "vm_list v s' (L @ [c] @ R)" and "vm_regions s' (L @ [c] @ R) =
    vm_regions s L @ [(unat (start_vaddr (desc s c)), unat (size_bytes (desc s c)), t)] @ vm_regions s R"
proof -
  have same: "\<forall>x \<in> set L \<union> set R. desc s' x = desc s x" using vl other by (auto simp: vm_list_def intro!: other)
  then show r: "vm_regions s' (L @ [c] @ R) =
    vm_regions s L @ [(unat (start_vaddr (desc s c)), unat (size_bytes (desc s c)), t)] @ vm_regions s R"
    by (simp add: vm_regions_def vregion_def c)
  have "regions_ok (vm_regions s L @ [vregion (desc s c)] @ vm_regions s R)"
    using vl by (simp add: vm_list_def vm_regions_def)
  then have "regions_ok (vm_regions s' (L @ [c] @ R))"
    unfolding r using it by (auto simp: regions_ok_def regions_sorted_append vregion_def)
  moreover have "dlist (dstore s') None (L @ [c] @ R) None"
    using vl dlist_cong [of "L @ [c] @ R" "dstore s'" "dstore s"] same c by (auto simp: vm_list_def)
  ultimately show "vm_list v s' (L @ [c] @ R)" using vl head unfolding vm_list_def vm_regions_def by auto
qed

section \<open>Initialisation\<close>

lemma vmm_init:
  assumes av: "bump_avail (Suc (Suc k)) {} s" and h: "\<not> handlers_lock (vmem s)"
  shows "\<exists>s' ds. initialize_kernel_VMM km v ps s = Inr s' \<and> vm_list v s' ds \<and>
    vm_regions s' ds = [(4096, 549755809792, VM_TYPE_IDENTITY_MAP_FREE), (18446603336221196288, 140737488351232, VM_TYPE_FREE)] \<and>
    bump_avail k (set ds) s' \<and> mach (vmem s') = mach (vmem s) \<and> shoot_sys s' = shoot_sys s \<and>
    vmm_of s' v = \<lparr>vm_list_head = Some (hd ds), paging_structure = ps, kernel_mode = True, vmm_lock = False\<rparr> \<and>
    handlers (vmem s') = (handlers (vmem s))[14 := Some page_fault_handler]"
proof -
  define s0 where "s0 = s\<lparr>vmem := (vmem s)\<lparr>handlers := (handlers (vmem s))[14 := Some page_fault_handler], handlers_lock := False\<rparr>\<rparr>"
  have i: "install_interrupt_handler 0xe page_fault_handler s = Inr s0"
    using h by (simp add: install_interrupt_handler_def with_handlers_lock_def s0_def)
  have "bump_avail (Suc (Suc k)) {} s0" using av by (simp add: bump_avail_def s0_def)
  then obtain p s1 where p: "allocate_vmem_descriptor km s0 = Inr (p, s1)" "only_desc p s0 s1" "bump_avail (Suc k) {p} s1"
    using bump_law [of "Suc k" "{}" s0 km] by auto
  then obtain q s2 where q: "allocate_vmem_descriptor km s1 = Inr (q, s2)" "only_desc q s1 s2" "q \<noteq> p" "bump_avail k {q, p} s2"
    using bump_law [of k "{p}" s1 km] by auto
  obtain s' where s': "initialize_kernel_VMM km v ps s = Inr s'"
    and d: "desc s' p = (desc s2 p)\<lparr>start_vaddr := 4096, size_bytes := 549755809792, vm_type := VM_TYPE_IDENTITY_MAP_FREE, prev_desc := None, next_desc := Some q\<rparr>"
      "desc s' q = (desc s2 q)\<lparr>start_vaddr := 18446603336221196288, size_bytes := 140737488351232, vm_type := VM_TYPE_FREE, prev_desc := Some p, next_desc := None\<rparr>"
    and v: "vmm_of s' v = \<lparr>vm_list_head = Some p, paging_structure = ps, kernel_mode = True, vmm_lock = False\<rparr>"
    and fr: "kcore (vmem s') = kcore (vmem s2)" "next_free_descriptor (vmem s') = next_free_descriptor (vmem s2)"
      "kheap_initialized s' = kheap_initialized s2"
    using i p(1) q(1,3) by (auto simp: initialize_kernel_VMM_def Let_def kstate_defs kcore_def)
  have "kcore (vmem s') = kcore (vmem s0)" using fr(1) p(2) q(2) by (simp add: only_desc_def)
  from kcore_fields [OF this] have "mach (vmem s') = mach (vmem s)" "shoot_sys s' = shoot_sys s" "handlers (vmem s') = handlers (vmem s0)"
    by (simp_all add: s0_def)
  moreover have "vm_list v s' [p, q]" using d v q(3) by (simp add: vm_list_def dlist_Cons regions_ok_def vregion_def identity_type_def)
  moreover have "bump_avail k (set [p, q]) s'" using q(4) fr by (auto simp: bump_avail_def)
  ultimately show ?thesis using s' d v by (intro exI [of _ s'] exI [of _ "[p, q]"]) (simp add: vregion_def s0_def)
qed

section \<open>Allocation\<close>

text \<open>
  A manager that can serve a request: its lock is free, its paging structure is one of \<open>S\<close>, and no
  other CPU takes part yet.
\<close>

definition vmm_ready :: "nat set \<Rightarrow> addr set \<Rightarrow> vmm_ref \<Rightarrow> kstate \<Rightarrow> bool" where
  "vmm_ready U S v s \<longleftrightarrow> \<not> vmm_lock (vmm_of s v) \<and> kernel_mode (vmm_of s v) \<and> paging_structure (vmm_of s v) \<in> S \<and>
     mach_ok U S (mach (vmem s)) \<and> queue_array (shoot_sys s) = NULL"

lemma map_new_frame_index: "map_new_frame P ps i = map_new_frame P ps j"
  by (simp add: map_new_frame_def)

lemma unmap_page_index: "unmap_page ps d i = unmap_page ps d j"
  by (simp add: unmap_page_def)

lemma shootdown_single: "queue_array (shoot_sys s) = NULL \<Longrightarrow> size0 mod 4096 = 0 \<Longrightarrow> shootdown km a size0 s = Inr s"
  by (simp add: shootdown_def is_vmmcache_shootdown_subsystem_initialized_def Let_def)

lemma map_region:
  assumes ready: "mach_ok U S (mach (vmem s))" "ps \<in> S" and n: "unat size0 = 4096 * n" "n \<le> 68719476736"
    and room: "4 * n \<le> card (free_set (mach (vmem s)))" and P: "\<And>i. i < n \<Longrightarrow> P (v + 4096 * of_nat i)"
  shows "\<exists>m' fs. for_pages (map_new_frame P ps) 0 size0 (v, s) = Inr (v + size0, on_kernel (mach_update (\<lambda>_. m')) s) \<and>
    frames_mapped U S ps v (mach (vmem s)) fs m' \<and> length fs = n"
proof -
  have "for_pages (map_new_frame P ps) 0 size0 (v, s) = kfold (\<lambda>k. map_new_frame P ps (0 + 4096 * of_nat k)) [0..<n] (v, s)"
    by (rule for_pages_fold) (simp add: n)
  also have "\<dots> = kfold (\<lambda>k. map_new_frame P ps (of_nat k)) [0..<n] (v, s)" by (simp add: map_new_frame_def)
  finally have f: "for_pages (map_new_frame P ps) 0 size0 (v, s) = kfold (\<lambda>k. map_new_frame P ps (of_nat k)) [0..<n] (v, s)" .
  have "4096 * of_nat n = size0" using n(1) by (metis of_nat_mult of_nat_numeral of_nat_unat ucast_id)
  then show ?thesis using map_new_frames [OF ready n(2) room refl, where P = P and v = v] P unfolding f by auto
qed

text \<open>The cut of a free region at its start, with the type and the paddings of the new region.\<close>

lemma cut_retyped:
  fixes lo up :: u64
  assumes cp: "cut_post v s L d R (unat (start_vaddr (desc s d))) n c s2 M" and free: "vm_type (desc s d) = VM_TYPE_FREE"
    and n: "0 < n" and t: "\<not> identity_type t"
  defines "s4 \<equiv> upd_desc c (\<lambda>x. x\<lparr>lower_padding := lo, upper_padding := up\<rparr>) (upd_desc c (vm_type_update (\<lambda>_. t)) s2)"
  shows "vm_list v s4 (L @ M @ R)" and "vm_regions s4 (L @ M @ R) = vm_regions s L @
      ((unat (start_vaddr (desc s d)), n, t) #
       (if n = unat (size_bytes (desc s d)) then []
        else [(unat (start_vaddr (desc s d)) + n, unat (size_bytes (desc s d)) - n, VM_TYPE_FREE)])) @ vm_regions s R"
proof -
  let ?a = "unat (start_vaddr (desc s d))"
  have p: "vm_list v s2 (L @ M @ R)" "c \<in> set M" "vregion (desc s2 c) = (?a, n, VM_TYPE_FREE)"
    "vm_regions s2 M = (?a, n, VM_TYPE_FREE) #
      (if n = unat (size_bytes (desc s d)) then [] else [(?a + n, unat (size_bytes (desc s d)) - n, VM_TYPE_FREE)])"
    and same: "\<forall>e \<in> set L \<union> set R. vregion (desc s2 e) = vregion (desc s e)"
    using cp free by (auto simp: cut_post_def cut_regions_def vregion_def vm_regions_def)
  obtain M' where M: "M = c # M'"
    using p(2-4) n by (cases M; cases "tl M") (auto simp: vm_regions_def split: if_splits)
  have d: "desc s4 c = (desc s2 c)\<lparr>vm_type := t, lower_padding := lo, upper_padding := up\<rparr>"
    "\<And>e. e \<noteq> c \<Longrightarrow> desc s4 e = desc s2 e" "vm_list_head (vmm_of s4 v) = vm_list_head (vmm_of s2 v)"
    by (simp_all add: s4_def)
  have it: "identity_type t = identity_type (vm_type (desc s2 c))" using p(3) t by (simp add: vregion_def identity_type_def)
  note rt = vm_list_retype [of v s2 L c "M' @ R", OF _ it d]
  show "vm_list v s4 (L @ M @ R)" using rt(1) p(1) by (simp add: M)
  have "vm_regions s2 L = vm_regions s L" "vm_regions s2 R = vm_regions s R" using same by (simp_all add: vm_regions_def)
  then show "vm_regions s4 (L @ M @ R) = vm_regions s L @ ((?a, n, t) # (if n = unat (size_bytes (desc s d)) then []
        else [(?a + n, unat (size_bytes (desc s d)) - n, VM_TYPE_FREE)])) @ vm_regions s R"
    using rt(2) p(1,3,4) by (simp add: M vregion_def)
qed

text \<open>The search of an allocation, in the state with the lock held.\<close>

lemma first_fit_search:
  assumes vl: "vm_list v s ds" and fit: "alloc_first_fit (unat size0) t (vm_regions s ds) = Some (a, rs)"
  obtains l e r where "find_desc (\<lambda>d. \<not> fits_free size0 d) v s = Inr e" and "ds = l @ [e] @ r"
    and "vm_type (desc s e) = VM_TYPE_FREE" and "unat size0 \<le> unat (size_bytes (desc s e))"
    and "a = unat (start_vaddr (desc s e))"
    and "rs = vm_regions s l @ ((a, unat size0, t) # (if unat size0 = unat (size_bytes (desc s e)) then []
      else [(a + unat size0, unat (size_bytes (desc s e)) - unat size0, VM_TYPE_FREE)])) @ vm_regions s r"
proof -
  obtain l e r where f: "find_desc (\<lambda>d. \<not> fits_free size0 d) v s = Inr e" "ds = l @ [e] @ r"
    "\<forall>x \<in> set l. \<not> fits_free size0 (desc s x)" "\<not> fits_free size0 (desc s e) \<Longrightarrow> r = []"
    by (rule find_desc_list [OF vl, of "\<lambda>d. \<not> fits_free size0 d"]) blast
  have skip: "\<forall>x \<in> set (vm_regions s l). \<not> fits (unat size0) x" using f(3) by (auto simp: vm_regions_def fits_free_region)
  have "alloc_first_fit (unat size0) t (vm_regions s ds) \<noteq> None" using fit by simp
  then have e: "fits_free size0 (desc s e)"
    using f(4) skip by (cases "fits_free size0 (desc s e)") (auto simp: alloc_first_fit_None f(2) vm_regions_def fits_free_region)
  then have "vm_type (desc s e) = VM_TYPE_FREE" "unat size0 \<le> unat (size_bytes (desc s e))"
    by (simp_all add: fits_free_def word_le_nat_alt)
  then show thesis
    using that [OF f(1,2)] fit alloc_first_fit_skip [OF skip, of t "vm_regions s ([e] @ r)"]
    by (simp add: f(2) vm_regions_def vregion_def split: if_splits)
qed

text \<open>
  The part of an allocation that runs with the lock held: the search, the cut, and the type and
  paddings of the new region.
\<close>

definition retyped :: "desc_ref \<Rightarrow> VirtualMemoryType \<Rightarrow> u64 \<Rightarrow> u64 \<Rightarrow> kstate \<Rightarrow> kstate" where
  "retyped c t lo up s = upd_desc c (\<lambda>x. x\<lparr>lower_padding := lo, upper_padding := up\<rparr>) (upd_desc c (vm_type_update (\<lambda>_. t)) s)"

lemma alloc_region:
  assumes vl: "vm_list v s ds" and av: "desc_avail km (Suc 0) (set ds) s" and t: "\<not> identity_type t"
    and size: "0 < unat size0" "4096 dvd unat size0"
    and fit: "alloc_first_fit (unat size0) t (vm_regions s ds) = Some (a, rs)"
  obtains d s2 ds' where "find_desc (\<lambda>d. \<not> fits_free size0 d) v s = Inr d" and "vm_type (desc s d) = VM_TYPE_FREE"
    and "cut_descriptor_start km v d size0 s = Inr (d, s2)" and "vregion (desc s2 d) = (a, unat size0, VM_TYPE_FREE)"
    and "start_vaddr (desc s2 d) mod 4096 = 0" and "desc_frame s s2" and "d \<in> set ds'"
    and "\<And>lo up. vm_list v (retyped d t lo up s2) ds' \<and> vm_regions (retyped d t lo up s2) ds' = rs"
proof -
  obtain l d r where f: "find_desc (\<lambda>d. \<not> fits_free size0 d) v s = Inr d" and ds: "ds = l @ [d] @ r"
    and d: "vm_type (desc s d) = VM_TYPE_FREE" "unat size0 \<le> unat (size_bytes (desc s d))" "a = unat (start_vaddr (desc s d))"
    and rs: "rs = vm_regions s l @ ((a, unat size0, t) # (if unat size0 = unat (size_bytes (desc s d)) then []
      else [(a + unat size0, unat (size_bytes (desc s d)) - unat size0, VM_TYPE_FREE)])) @ vm_regions s r"
    by (rule first_fit_search [OF vl fit])
  have al: "4096 dvd unat (start_vaddr (desc s d))" using vm_list_split(3) [of v s l d r] vl ds by (simp add: vregion_def)
  then have piece: "piece_of (vregion (desc s d)) (unat (start_vaddr (desc s d))) (unat size0)"
    using d(2) size by (simp add: piece_of_def vregion_def)
  obtain s2 M where cut: "cut_descriptor_start km v d size0 s = Inr (d, s2)"
    and cp: "cut_post v s l d r (unat (start_vaddr (desc s d))) (unat size0) d s2 M"
    using src.cut_start_any [of v s l d r km 0 size0] vl av ds d(1) piece by (auto simp: is_free_type_def)
  have g: "vregion (desc s2 d) = (a, unat size0, VM_TYPE_FREE)" "desc_frame s s2" "d \<in> set (l @ M @ r)"
    using cp d(1,3) by (simp_all add: cut_post_def)
  have "start_vaddr (desc s2 d) mod 4096 = 0" using al d(3) g(1) by (simp add: vregion_def mod_page_unat)
  moreover have "vm_list v (retyped d t lo up s2) (l @ M @ r) \<and> vm_regions (retyped d t lo up s2) (l @ M @ r) = rs" for lo up
    using cut_retyped [OF cp d(1) size(1) t, where lo = lo and up = up] rs d(3) by (simp add: retyped_def)
  ultimately show thesis by (rule that [OF f d(1) cut g(1) _ g(2,3)])
qed

lemma alloc_refines:
  assumes ready: "vmm_ready U S v s" and vl: "vm_list v s ds" and av: "desc_avail km 1 (set ds) s"
    and type: "\<not> identity_type type" "type \<noteq> VM_TYPE_MEMORY_MAPPING"
    and pages: "unat size1 = 4096 * n" "4096 dvd unat lower" "4096 dvd unat upper"
    and size: "0 < unat size1 + unat lower + unat upper" "unat size1 + unat lower + unat upper < 2 ^ 64"
    and room: "n \<le> 68719476736" "4 * n \<le> card (free_set (mach (vmem s)))"
    and fit: "alloc_first_fit (unat size1 + unat lower + unat upper) type (vm_regions s ds) = Some (a, rs)"
  shows "\<exists>c s' ds' fs. allocate_kernel_virtual_memory km v size1 type upper lower s =
      Inr (\<lparr>vm_desc = Some c, handle_vmm = Some v\<rparr>, s') \<and>
    vmm_ready U S v s' \<and> vm_list v s' ds' \<and> vm_regions s' ds' = rs \<and> c \<in> set ds' \<and>
    vregion (desc s' c) = (a, unat size1 + unat lower + unat upper, type) \<and>
    get_vmem_addr \<lparr>vm_desc = Some c, handle_vmm = Some v\<rparr> s' = Inr (of_nat a + lower) \<and>
    get_vmem_size \<lparr>vm_desc = Some c, handle_vmm = Some v\<rparr> s' = Inr size1 \<and>
    length fs = n \<and> frames_mapped U S (paging_structure (vmm_of s v)) (of_nat a + lower) (mach (vmem s)) fs (mach (vmem s'))"
proof -
  let ?size0 = "size1 + (lower + upper)" and ?ps = "paging_structure (vmm_of s v)"
  define s1 where "s1 = upd_vmm v (vmm_lock_update (\<lambda>_. True)) s"
  have sz: "unat ?size0 = unat size1 + unat lower + unat upper" using size(2) by (simp add: unat_add_u64)
  have dvd: "4096 dvd unat ?size0" unfolding sz using pages by (intro dvd_add) simp_all
  then have mod0: "?size0 mod 4096 = 0" "size1 mod 4096 = 0" using pages(1) by (simp_all add: mod_page_unat)
  have lists: "vm_list v s1 ds" "vm_regions s1 ds = vm_regions s ds" and av1: "desc_avail km (Suc 0) (set ds) s1"
    using vl vm_list_cong [of s1 s v] av by (simp_all add: s1_def)
  obtain d s2 ds' where f: "find_desc (\<lambda>d. \<not> fits_free ?size0 d) v s1 = Inr d" "vm_type (desc s1 d) = VM_TYPE_FREE"
    and cut: "cut_descriptor_start km v d ?size0 s1 = Inr (d, s2)"
    and d: "vregion (desc s2 d) = (a, unat ?size0, VM_TYPE_FREE)" "start_vaddr (desc s2 d) mod 4096 = 0" "d \<in> set ds'"
    and fr: "desc_frame s1 s2" and lists': "\<And>lo up. vm_list v (retyped d type lo up s2) ds' \<and> vm_regions (retyped d type lo up s2) ds' = rs"
    by (rule alloc_region [OF lists(1) av1 type(1), of ?size0 a rs]) (use size(1) sz dvd fit lists(2) in auto)
  have d2: "size_bytes (desc s2 d) = ?size0" "start_vaddr (desc s2 d) = of_nat a" "kernel_mode (vmm_of s1 v)"
    using d(1) ready by (auto simp: vregion_def word_unat_eq_iff s1_def vmm_ready_def)
  define s5 where "s5 = release_vmm_lock v (retyped d type lower upper s2)"
  have d5: "size_bytes (desc s5 d) = ?size0" "start_vaddr (desc s5 d) = of_nat a" "vm_type (desc s5 d) = type"
    "lower_padding (desc s5 d) = lower" "upper_padding (desc s5 d) = upper"
    using d2 by (simp_all add: s5_def retyped_def release_vmm_lock_def)
  have m5: "mach (vmem s5) = mach (vmem s)" "shoot_sys s5 = shoot_sys s" "paging_structure (vmm_of s5 v) = ?ps"
    "kernel_mode (vmm_of s5 v)" "\<not> vmm_lock (vmm_of s5 v)"
    using desc_frame_fields [OF fr] ready by (simp_all add: s5_def retyped_def release_vmm_lock_def s1_def vmm_ready_def)
  obtain m' fs where map: "for_pages (map_new_frame (\<lambda>_. True) ?ps) 0 size1 (of_nat a + lower, s5) =
      Inr (of_nat a + lower + size1, on_kernel (mach_update (\<lambda>_. m')) s5)"
    and fs: "frames_mapped U S ?ps (of_nat a + lower) (mach (vmem s5)) fs m'" "length fs = n"
    using map_region [of U S s5 ?ps size1 n "\<lambda>_. True" "of_nat a + lower"] ready pages(1) room m5(1) by (auto simp: vmm_ready_def)
  let ?s' = "on_kernel (mach_update (\<lambda>_. m')) s5"
  have "allocate_kernel_virtual_memory km v size1 type upper lower s = Inr (\<lparr>vm_desc = Some d, handle_vmm = Some v\<rparr>, ?s')"
    using mod0 type ready f cut d(2) d2 map m5 shootdown_single [of ?s' size1 km]
    by (simp add: allocate_kernel_virtual_memory_def Let_def identity_type_def acquire_vmm_lock_def s1_def [symmetric] vmm_ready_def
        s5_def [symmetric] retyped_def [symmetric] get_no_padding_start_addr_def get_no_padding_size_def)
  moreover have "vmm_ready U S v ?s'" using ready m5 fs(1) by (simp add: vmm_ready_def frames_mapped_def)
  moreover have "vm_list v ?s' ds'" "vm_regions ?s' ds' = rs"
    using lists' [of lower upper] vm_list_cong [of ?s' "retyped d type lower upper s2" v ds'] by (simp_all add: s5_def release_vmm_lock_def)
  moreover have "vregion (desc ?s' d) = (a, unat size1 + unat lower + unat upper, type)"
    using d(1) d5 by (simp add: vregion_def sz d2(2) [symmetric])
  ultimately show ?thesis
    using d(3) d5 fs m5(1) by (intro exI [of _ d] exI [of _ ?s'] exI [of _ ds'] exI [of _ fs])
      (simp add: get_vmem_addr_def get_vmem_size_def the_ref_def get_no_padding_start_addr_def get_no_padding_size_def)
qed

section \<open>An example\<close>

text \<open>A kernel at its start: the static data are zero, the machine is \<open>m\<close>.\<close>

definition start_kernel :: "machine \<Rightarrow> kernel" where
  "start_kernel m = \<lparr>mach = m,
     descs = (\<lambda>_. \<lparr>start_vaddr = 0, size_bytes = 0, upper_padding = 0, lower_padding = 0, vm_type = VM_TYPE_FREE,
       next_desc = None, prev_desc = None, is_from_heap = False\<rparr>),
     next_free_descriptor = 0,
     vmms = (\<lambda>_. \<lparr>vm_list_head = None, paging_structure = 0, kernel_mode = False, vmm_lock = False\<rparr>),
     servicing_page_fault = False, page_fault_lock = False, handlers = replicate 256 None,
     extra_data_array = replicate 256 NoExtraData, default_handler = None, handlers_lock = False,
     kernel_data = \<lparr>local_data_list = 0, kd_lock = False, cpuid_to_allocate = 0,
       pit = \<lparr>hardware_lock = False, tick_counter = 0, interrupt_frequency = 0, interrupt_vector = 0, interrupt_receiver_apic_id = 0,
         channel_0_initialized = False, channel_2_initialized = False\<rparr>, pit_initialized = 0\<rparr>,
     lkd_nodes = (\<lambda>_. \<lparr>lk_cpu_id = 0, local_data = \<lparr>kernel_stack = invalid_handle, apic_id = 0\<rparr>, lk_next = 0\<rparr>),
     lapic_gdata = \<lparr>lapic_array = 0, lapic_array_size = 0, lapics = [], lapic_base_address = 0, register_space_mapping = invalid_handle\<rparr>,
     lapic_regs = (\<lambda>_. 0), ipi_log = [], this_cpu = 0, online_cpus = [0],
     cpus = (\<lambda>_. \<lparr>cpu_cr3 = 0, cpu_tlb = (\<lambda>_. None), cpu_lapic = (\<lambda>_. 0)\<rparr>), number_of_logical_cores = 1,
     cache_shootdown_sys = \<lparr>queue_array = 0, queues_count = 0, queues = []\<rparr>,
     csq_nodes = (\<lambda>_. \<lparr>node_range = null_range, node_state = 0, node_next = 0\<rparr>),
     shootdown_states = (\<lambda>_. \<lparr>queues_to_wait_count = 0, emptied_queues_count = 0\<rparr>), kio = ex_kio,
     ioapic_gdata = \<lparr>ioapic_array = 0, ioapic_array_size = 0, ioapics = [], source_override_array = 0, source_override_array_size = 0,
       source_overrides = []\<rparr>,
     ioapic_lock = False, ioapic_devices = (\<lambda>_. \<lparr>ioregsel = 0, ioregs = (\<lambda>_. 0)\<rparr>), pic_present = False, pic_lock = False,
     io_trace = [], io_in = (\<lambda>_. 0), acpi_mem = (\<lambda>_. 0), cached_rsdp = 0, cached_xsdp = 0, cached_madt = 0, interrupts_enabled = False\<rparr>"

definition start_state :: "machine \<Rightarrow> kstate" where
  "start_state m = \<lparr>hmem = (\<lambda>_. 0),
     kheap = \<lparr>heap_vmem = invalid_handle, enable_growth = False, heap_start = 0, heap_size = 0, number_of_chunks = 0,
       wilderness_chunk = 0, free_buckets = []\<rparr>,
     kheap_lock = False, kheap_initialized = False, vmem = start_kernel m\<rparr>"

lemma start_state_avail: "bump_avail (Suc (Suc 62)) {} (start_state m)" "\<not> handlers_lock (vmem (start_state m))"
  by (simp_all add: bump_avail_def start_state_def start_kernel_def)

text \<open>A manager that is ready, as the start of the kernel leaves it.\<close>

lemma pc_phys47: "\<forall>u \<in> free_set pc_booted. u < 2 ^ 47"
  by (auto simp: free_set_def fa_free_def stack_entries_def frame_stack_count_def
      frame_stack_size_bytes_def range_pages_def pages_def pc_booted_def pc_machine_def)

lemma pc_vmm:
  obtains ps s ds where "vmm_ready (free_set pc_booted) {ps} KernelVMM s" and "vm_list KernelVMM s ds"
    and "vm_regions s ds = [(4096, 549755809792, VM_TYPE_IDENTITY_MAP_FREE), (18446603336221196288, 140737488351232, VM_TYPE_FREE)]"
    and "bump_avail 62 (set ds) s" and "31000 \<le> card (free_set (mach (vmem s)))" and "paging_structure (vmm_of s KernelVMM) = ps"
proof -
  obtain ps m where c: "fa_inv (free_set pc_booted) m" "pg_inv {ps} m" "hal_arch_initialized m" "31000 \<le> card (free_set m)"
    by (rule pc_create)
  have m: "mach (vmem (start_state m)) = m" "queue_array (shoot_sys (start_state m)) = NULL"
    by (simp_all add: start_state_def start_kernel_def)
  obtain s ds where "vm_list KernelVMM s ds"
    "vm_regions s ds = [(4096, 549755809792, VM_TYPE_IDENTITY_MAP_FREE), (18446603336221196288, 140737488351232, VM_TYPE_FREE)]"
    "bump_avail 62 (set ds) s" "mach (vmem s) = m" "shoot_sys s = shoot_sys (start_state m)"
    "vmm_of s KernelVMM = \<lparr>vm_list_head = Some (hd ds), paging_structure = ps, kernel_mode = True, vmm_lock = False\<rparr>"
    using vmm_init [OF start_state_avail, of locked_kmalloc KernelVMM ps m] m by auto
  then show thesis using c m pc_phys47 by (intro that [of ps s ds]) (simp_all add: vmm_ready_def mach_ok_def)
qed

section \<open>Properties\<close>

text \<open>
  C16. \<open>initialize_kernel_VMM\<close> establishes the invariant of the descriptor list: the address space of the
  kernel is the free identity mapped region from the second page on and the free region of the upper
  half, the manager has the given paging structure and a free lock, and the page fault handler is
  installed.
\<close>

theorem initialize_kernel_VMM_correct:
  assumes av: "bump_avail (Suc (Suc k)) {} s" and h: "\<not> handlers_lock (vmem s)"
  shows "\<exists>s' ds. initialize_kernel_VMM km v ps s = Inr s' \<and> vm_list v s' ds \<and>
    vm_regions s' ds = [(4096, 549755809792, VM_TYPE_IDENTITY_MAP_FREE), (18446603336221196288, 140737488351232, VM_TYPE_FREE)] \<and>
    bump_avail k (set ds) s' \<and> mach (vmem s') = mach (vmem s) \<and> shoot_sys s' = shoot_sys s \<and>
    vmm_of s' v = \<lparr>vm_list_head = Some (hd ds), paging_structure = ps, kernel_mode = True, vmm_lock = False\<rparr> \<and>
    handlers (vmem s') = (handlers (vmem s))[14 := Some page_fault_handler]"
  using assms by (rule vmm_init)

theorem initialize_kernel_VMM_correct_witness:
  "\<exists>s' ds. initialize_kernel_VMM locked_kmalloc KernelVMM 0x1000 (start_state pc_booted) = Inr s' \<and> vm_list KernelVMM s' ds \<and>
     handlers (vmem s') ! 14 = Some page_fault_handler"
  using initialize_kernel_VMM_correct [OF start_state_avail, of locked_kmalloc KernelVMM "0x1000" pc_booted]
  by (auto simp: start_state_def start_kernel_def)

text \<open>
  C14. An allocation refines first fit: when a free region is large enough for the request and its
  paddings, \<open>allocate_kernel_virtual_memory\<close> returns a handle whose region is cut from the first such
  region, the descriptor list stays well formed and describes exactly the regions of the specification,
  every page between the paddings is mapped writable to a frame of its own that was free before, no
  other page of any address space changes, and the manager is ready again. (Four frames per page are
  enough, three for page tables; one descriptor is needed; other CPUs are not yet started.)
\<close>

theorem allocate_kernel_virtual_memory_refines:
  assumes ready: "vmm_ready U S v s" and vl: "vm_list v s ds" and av: "desc_avail km 1 (set ds) s"
    and type: "\<not> identity_type type" "type \<noteq> VM_TYPE_MEMORY_MAPPING"
    and pages: "unat size1 = 4096 * n" "4096 dvd unat lower" "4096 dvd unat upper"
    and size: "0 < unat size1 + unat lower + unat upper" "unat size1 + unat lower + unat upper < 2 ^ 64"
    and room: "n \<le> 68719476736" "4 * n \<le> card (free_set (mach (vmem s)))"
    and fit: "alloc_first_fit (unat size1 + unat lower + unat upper) type (vm_regions s ds) = Some (a, rs)"
  shows "\<exists>c s' ds' fs. allocate_kernel_virtual_memory km v size1 type upper lower s =
      Inr (\<lparr>vm_desc = Some c, handle_vmm = Some v\<rparr>, s') \<and>
    vmm_ready U S v s' \<and> vm_list v s' ds' \<and> vm_regions s' ds' = rs \<and> c \<in> set ds' \<and>
    vregion (desc s' c) = (a, unat size1 + unat lower + unat upper, type) \<and>
    get_vmem_addr \<lparr>vm_desc = Some c, handle_vmm = Some v\<rparr> s' = Inr (of_nat a + lower) \<and>
    get_vmem_size \<lparr>vm_desc = Some c, handle_vmm = Some v\<rparr> s' = Inr size1 \<and>
    length fs = n \<and> frames_mapped U S (paging_structure (vmm_of s v)) (of_nat a + lower) (mach (vmem s)) fs (mach (vmem s'))"
  by (rule alloc_refines [OF assms])

theorem allocate_kernel_virtual_memory_refines_witness:
  "\<exists>s ps c s'. allocate_kernel_virtual_memory locked_kmalloc KernelVMM 0x2000 VM_TYPE_HEAP 0x1000 0x1000 s =
      Inr (\<lparr>vm_desc = Some c, handle_vmm = Some KernelVMM\<rparr>, s') \<and>
    vregion (desc s' c) = (18446603336221196288, 16384, VM_TYPE_HEAP) \<and> \<not> vmm_lock (vmm_of s' KernelVMM) \<and>
    (\<exists>f. mapping (mach (vmem s')) ps 0xffff800000001000 = map_entry f 3)"
proof -
  obtain ps s ds where i: "vmm_ready (free_set pc_booted) {ps} KernelVMM s" "vm_list KernelVMM s ds" and
    r: "vm_regions s ds = [(4096, 549755809792, VM_TYPE_IDENTITY_MAP_FREE), (18446603336221196288, 140737488351232, VM_TYPE_FREE)]"
    and b: "bump_avail 62 (set ds) s" "31000 \<le> card (free_set (mach (vmem s)))" by (rule pc_vmm)
  have av: "desc_avail locked_kmalloc 1 (set ds) s" using b(1) by (simp add: desc_avail_def bump_avail_def)
  have fit: "\<exists>rs. alloc_first_fit 16384 VM_TYPE_HEAP (vm_regions s ds) = Some (18446603336221196288, rs)" by (simp add: r)
  then obtain rs where "alloc_first_fit (unat (0x2000 :: u64) + unat (0x1000 :: u64) + unat (0x1000 :: u64)) VM_TYPE_HEAP (vm_regions s ds) =
    Some (18446603336221196288, rs)" by auto
  from allocate_kernel_virtual_memory_refines [OF i av _ _ _ _ _ _ _ _ _ this, of 2] b(2)
  obtain c s' fs where w: "allocate_kernel_virtual_memory locked_kmalloc KernelVMM 0x2000 VM_TYPE_HEAP 0x1000 0x1000 s =
      Inr (\<lparr>vm_desc = Some c, handle_vmm = Some KernelVMM\<rparr>, s')" "vregion (desc s' c) = (18446603336221196288, 16384, VM_TYPE_HEAP)"
    "vmm_ready (free_set pc_booted) {ps} KernelVMM s'"
    "length fs = 2" "frames_mapped (free_set pc_booted) {ps} (paging_structure (vmm_of s KernelVMM)) (18446603336221196288 + 0x1000) (mach (vmem s)) fs (mach (vmem s'))"
    by (auto simp: identity_type_def)
  have "mapping (mach (vmem s')) (paging_structure (vmm_of s KernelVMM)) 0xffff800000001000 = map_entry (fs ! 0) 3"
    using w(4,5) by (auto simp: frames_mapped_def dest!: spec [where x = 0 and P = "\<lambda>i. i < 2 \<longrightarrow> _ i"])
  then show ?thesis using w(1-3) unfolding vmm_ready_def by blast
qed

end
