(* ===== verification/Vmm_Free.thy ===== *)
theory Vmm_Free
  imports Vmm_Spec
begin

text \<open>
  Deallocation of virtual memory, and the other operations of the manager on existing regions: the
  search by address and the growth of a region into its padding.
\<close>

section \<open>The contract of descriptor deallocation\<close>

text \<open>The descriptors \<open>X\<close> can be given back, one after the other.\<close>

locale descriptor_sink =
  fixes owned :: "desc_ref set \<Rightarrow> kstate \<Rightarrow> bool"
  assumes free_desc: "owned X s \<Longrightarrow> d \<in> X \<Longrightarrow>
    \<exists>s'. deallocate_vmm_descriptor d s = Inr s' \<and> vmem s' = vmem s \<and> owned (X - {d}) s'"
begin

text \<open>The loop over the free descriptors at the front of a list.\<close>

lemma join_loop:
  assumes "dlist (dstore s) p R None" and "owned X s" and "set R \<subseteq> X" and "distinct R" and "length R \<le> n"
  shows "\<exists>s'. join_free n ft acc (first_ref R None) s =
      Inr (acc + (\<Sum>d \<leftarrow> takeWhile (\<lambda>d. vm_type (desc s d) = ft) R. size_bytes (desc s d)),
        first_ref (dropWhile (\<lambda>d. vm_type (desc s d) = ft) R) None, s') \<and> vmem s' = vmem s"
  using assms
proof (induction R arbitrary: p X s n acc)
  case Nil
  then show ?case by (simp add: join_free.simps)
next
  case (Cons d R)
  obtain m where n: "n = Suc m" "length R \<le> m" using Cons.prems(5) by (cases n) auto
  show ?case
  proof (cases "vm_type (desc s d) = ft")
    case False
    then show ?thesis by (simp add: join_free.simps)
  next
    case True
    obtain s1 where s1: "deallocate_vmm_descriptor d s = Inr s1" "vmem s1 = vmem s" "owned (X - {d}) s1"
      using free_desc Cons.prems(2,3) by (metis list.set_intros(1) subsetD)
    have "dlist (dstore s1) (Some d) R None" "set R \<subseteq> X - {d}" "distinct R"
      using Cons.prems(1,3,4) s1(2) by (auto simp: dlist_Cons)
    from Cons.IH [OF this(1) s1(3) this(2,3) n(2), of "acc + size_bytes (desc s d)"] s1(2)
    obtain s' where "join_free m ft (acc + size_bytes (desc s d)) (first_ref R None) s1 =
        Inr (acc + size_bytes (desc s d) + (\<Sum>d \<leftarrow> takeWhile (\<lambda>d. vm_type (desc s d) = ft) R. size_bytes (desc s d)),
          first_ref (dropWhile (\<lambda>d. vm_type (desc s d) = ft) R) None, s')" "vmem s' = vmem s" by auto
    moreover have "next_desc (desc s d) = first_ref R None" using Cons.prems(1) by (simp add: dlist_Cons)
    ultimately show ?thesis using True s1(1) by (simp add: join_free.simps [of "Suc m"] n(1) Let_def add.assoc)
  qed
qed

end

text \<open>Descriptors of the array need nothing; the others are blocks in use of the heap.\<close>

definition desc_owned :: "desc_ref set \<Rightarrow> kstate \<Rightarrow> bool" where
  "desc_owned X s \<longleftrightarrow> (\<forall>d \<in> X. \<not> is_from_heap (desc s d)) \<or>
     \<not> kheap_lock s \<and> (\<exists>cs. heap_inv s cs \<and>
       (\<forall>d \<in> X. is_from_heap (desc s d) \<longrightarrow> (\<exists>p j. d = HeapDesc p \<and> (unat p, j) \<in> used cs)))"

lemma desc_owned_law:
  assumes o: "desc_owned X s" and d: "d \<in> X"
  shows "\<exists>s'. deallocate_vmm_descriptor d s = Inr s' \<and> vmem s' = vmem s \<and> desc_owned (X - {d}) s'"
proof (cases "is_from_heap (desc s d)")
  case False
  then show ?thesis using o by (auto simp: deallocate_vmm_descriptor_def desc_owned_def)
next
  case True
  then obtain cs p j where cs: "heap_inv s cs" "\<not> kheap_lock s" "d = HeapDesc p" "(unat p, j) \<in> used cs"
    "\<forall>d \<in> X. is_from_heap (desc s d) \<longrightarrow> (\<exists>p j. d = HeapDesc p \<and> (unat p, j) \<in> used cs)"
    using o d unfolding desc_owned_def by blast
  obtain s' cs' where k: "kfree p s = Inr s'" "heap_inv s' cs'" "\<not> kheap_lock s'" "vmem s' = vmem s" "used cs' = used cs - {(unat p, j)}"
    using kfree_law [OF cs(1,2,4)] by blast
  have "\<exists>q i. e = HeapDesc q \<and> (unat q, i) \<in> used cs'" if e: "e \<in> X - {d}" "is_from_heap (desc s' e)" for e
  proof -
    obtain q i where "e = HeapDesc q" "(unat q, i) \<in> used cs" using e k(4) cs(5) by auto
    moreover from this have "q \<noteq> p" using e(1) cs(3) by auto
    ultimately show ?thesis using k(5) by (auto simp: word_unat_eq_iff)
  qed
  then show ?thesis using True k cs(3) by (auto simp: deallocate_vmm_descriptor_def desc_owned_def)
qed

interpretation sink: descriptor_sink desc_owned
  by unfold_locales (rule desc_owned_law)

section \<open>Specification\<close>

fun join_regions :: "region \<Rightarrow> region list \<Rightarrow> region list" where
  "join_regions (a, n, t) [] = [(a, n, t)]"
| "join_regions (a, n, t) ((b, k, u) # rs) =
     (if u = t then join_regions (a, n + k, t) rs else (a, n, t) # (b, k, u) # rs)"

text \<open>A region becomes free; it joins the free region before it and the free regions after it.\<close>

definition free_region :: "region list \<Rightarrow> region \<Rightarrow> region list \<Rightarrow> region list" where
  "free_region l r rs = (case r of (a, n, t) \<Rightarrow>
     if l \<noteq> [] \<and> snd (snd (last l)) = VM_TYPE_FREE then butlast l @ join_regions (last l) ((a, n, VM_TYPE_FREE) # rs)
     else l @ join_regions (a, n, VM_TYPE_FREE) rs)"

lemma join_regions_run:
  "join_regions (a, n, t) rs = (a, n + (\<Sum>r \<leftarrow> takeWhile (\<lambda>r. snd (snd r) = t) rs. fst (snd r)), t) #
     dropWhile (\<lambda>r. snd (snd r) = t) rs"
  by (induction "(a, n, t)" rs arbitrary: n rule: join_regions.induct) auto

section \<open>Joining\<close>

lemma unat_sum_list: "(\<Sum>x \<leftarrow> xs. unat (f x :: u64)) < 18446744073709551616 \<Longrightarrow> unat (\<Sum>x \<leftarrow> xs. f x) = (\<Sum>x \<leftarrow> xs. unat (f x))"
  by (induction xs) (auto simp: unat_add_u64)

lemma sorted_sum: "regions_sorted b rs \<Longrightarrow> b + (\<Sum>r \<leftarrow> rs. fst (snd r)) \<le> region_end b rs"
  by (induction b rs rule: region_end.induct) auto

lemma join_regions_ok:
  assumes ok: "regions_ok (l @ [(a, n, t)] @ j @ k)" and j: "\<forall>r \<in> set j. snd (snd r) = t"
  shows "regions_ok (l @ [(a, n + (\<Sum>r \<leftarrow> j. fst (snd r)), t)] @ k)" and "a + (n + (\<Sum>r \<leftarrow> j. fst (snd r))) < 18446744073709551616"
proof -
  let ?z = "\<Sum>r \<leftarrow> j. fst (snd r)"
  have st: "regions_sorted (a + n) j" "regions_sorted (region_end (a + n) j) k" "region_end 0 l \<le> a" "regions_sorted 0 l"
    and each: "\<forall>r \<in> set l \<union> {(a, n, t)} \<union> set j \<union> set k. vregion_ok r"
    using ok by (auto simp: regions_ok_def regions_sorted_append)
  have le: "a + n + ?z \<le> region_end (a + n) j" by (rule sorted_sum [OF st(1)])
  moreover have "region_end (a + n) j < 18446744073709551616" using each by (intro region_end_bound) auto
  ultimately show b: "a + (n + ?z) < 18446744073709551616" by simp
  have "regions_sorted (a + (n + ?z)) k" using regions_sorted_mono [OF st(2)] le by simp
  moreover have "4096 dvd ?z" using each by (induction j) auto
  moreover have "identity_type t \<longrightarrow> a + (n + ?z) \<le> 549755813888"
  proof
    assume it: "identity_type t"
    have "region_end (a + n) j \<le> 549755813888"
      using st(1) each j it by (induction "a + n" j arbitrary: a n rule: region_end.induct) auto
    then show "a + (n + ?z) \<le> 549755813888" using le by simp
  qed
  ultimately show "regions_ok (l @ [(a, n + ?z, t)] @ k)"
    using st(3,4) each b by (auto simp: regions_ok_def regions_sorted_append)
qed

abbreviation is_free :: "kstate \<Rightarrow> desc_ref \<Rightarrow> bool" where
  "is_free s d \<equiv> vm_type (desc s d) = VM_TYPE_FREE"

lemma joined_list:
  assumes vl: "vm_list v s (L @ [d] @ R)" and free: "is_free s d"
    and K: "K = dropWhile (is_free s) R" and J: "J = takeWhile (is_free s) R"
    and d: "start_vaddr (desc s' d) = start_vaddr (desc s d)" "vm_type (desc s' d) = VM_TYPE_FREE"
      "size_bytes (desc s' d) = size_bytes (desc s d) + (\<Sum>e \<leftarrow> J. size_bytes (desc s e))"
      "prev_desc (desc s' d) = prev_desc (desc s d)" "next_desc (desc s' d) = first_ref K None"
    and L: "\<forall>x \<in> set L. desc s' x = desc s x"
    and K': "\<forall>x \<in> set K. vregion (desc s' x) = vregion (desc s x) \<and> next_desc (desc s' x) = next_desc (desc s x) \<and>
      prev_desc (desc s' x) = (if x = hd K then Some d else prev_desc (desc s x))"
    and head: "vm_list_head (vmm_of s' v) = vm_list_head (vmm_of s v)"
  shows "vm_list v s' (L @ [d] @ K)"
    and "vm_regions s' (L @ [d] @ K) = vm_regions s L @ join_regions (vregion (desc s d)) (vm_regions s R)"
proof -
  have R: "R = J @ K" by (simp add: J K)
  let ?a = "unat (start_vaddr (desc s d))" and ?n = "unat (size_bytes (desc s d))"
  let ?z = "\<Sum>e \<leftarrow> J. unat (size_bytes (desc s e))"
  have z: "(\<Sum>r \<leftarrow> vm_regions s J. fst (snd r)) = ?z" by (simp add: vm_regions_def vregion_def comp_def)
  have "regions_ok (vm_regions s L @ [(?a, ?n, VM_TYPE_FREE)] @ vm_regions s J @ vm_regions s K)"
    using vl free by (simp add: vm_list_def vm_regions_def vregion_def R)
  moreover have "\<forall>r \<in> set (vm_regions s J). snd (snd r) = VM_TYPE_FREE"
    by (auto simp: vm_regions_def vregion_def J dest: set_takeWhileD)
  ultimately have ok: "regions_ok (vm_regions s L @ [(?a, ?n + ?z, VM_TYPE_FREE)] @ vm_regions s K)" "?a + (?n + ?z) < 18446744073709551616"
    using join_regions_ok [of "vm_regions s L" ?a ?n VM_TYPE_FREE "vm_regions s J" "vm_regions s K"] z by simp_all
  have "unat (\<Sum>e \<leftarrow> J. size_bytes (desc s e)) = ?z" using ok(2) by (intro unat_sum_list) simp
  then have dr: "vregion (desc s' d) = (?a, ?n + ?z, VM_TYPE_FREE)"
    using ok(2) d(1-3) by (simp add: vregion_def unat_add_u64)
  have regs: "vm_regions s' (L @ [d] @ K) = vm_regions s L @ [(?a, ?n + ?z, VM_TYPE_FREE)] @ vm_regions s K"
    using L K' by (simp add: vm_regions_def dr)
  have tw: "takeWhile (\<lambda>r. snd (snd r) = VM_TYPE_FREE) (vm_regions s R) = vm_regions s J"
    "dropWhile (\<lambda>r. snd (snd r) = VM_TYPE_FREE) (vm_regions s R) = vm_regions s K"
    by (simp_all add: vm_regions_def takeWhile_map dropWhile_map J K comp_def vregion_def)
  show "vm_regions s' (L @ [d] @ K) = vm_regions s L @ join_regions (vregion (desc s d)) (vm_regions s R)"
    unfolding regs using free by (simp add: join_regions_run tw z vregion_def)
  have dl: "dlist (dstore s) None L (Some d)" "prev_desc (desc s d) = last_ref None L" "dlist (dstore s) (last_ref (Some d) J) K None"
    using vl by (simp_all add: vm_list_def R dlist_append dlist_Cons)
  have "dlist (dstore s') None L (Some d)" using dl(1) dlist_cong [of L "dstore s'" "dstore s"] L by simp
  moreover have "distinct K" using vl by (simp add: vm_list_def R)
  then have "dlist (dstore s') (Some d) K None"
    using K' by (intro dlist_set_prev [OF dl(3)]) simp_all
  ultimately have "dlist (dstore s') None (L @ [d] @ K) None" using d(4,5) dl(2) by (simp add: dlist_append dlist_Cons)
  moreover have "distinct (L @ [d] @ K)" using vl by (auto simp: vm_list_def R)
  moreover have "hd (L @ [d] @ K) = hd (L @ [d] @ R)" by (cases L) simp_all
  moreover have "regions_ok (vm_regions s' (L @ [d] @ K))" unfolding regs by (rule ok(1))
  moreover have "vm_list_head (vmm_of s v) = Some (hd (L @ [d] @ R))" using vl by (simp add: vm_list_def)
  ultimately show "vm_list v s' (L @ [d] @ K)" unfolding vm_list_def vm_regions_def head by simp
qed

text \<open>The end of a deallocation: the descriptor \<open>d\<close> takes over the free descriptors that follow.\<close>

definition free_tail :: "vmm_ref \<Rightarrow> VirtualMemoryType \<Rightarrow> desc_ref \<Rightarrow> kstate \<Rightarrow> (bool \<times> kstate) kres" where
  "free_tail v free_type d s = kbind (the_ref (next_desc (desc s d))) (\<lambda>n.
     if vm_type (desc s n) = free_type
     then kbind (join_free (2 ^ 64) free_type (size_bytes (desc s d)) (Some n) s) (\<lambda>(total_size, last_range, s5).
            let s6 = upd_desc d (\<lambda>x. x\<lparr>size_bytes := total_size, next_desc := last_range\<rparr>) s5;
                s7 = upd_desc_opt last_range (prev_desc_update (\<lambda>_. Some d)) s6
            in Inr (True, release_vmm_lock v s7))
     else Inr (True, release_vmm_lock v s))"

lemma free_tail_list:
  assumes vl: "vm_list v s (L @ [d] @ R)" and free: "is_free s d" and R: "R \<noteq> []" and o: "desc_owned (set R) s"
  shows "\<exists>s' K. free_tail v VM_TYPE_FREE d s = Inr (True, s') \<and> vm_list v s' (L @ [d] @ K) \<and>
    vm_regions s' (L @ [d] @ K) = vm_regions s L @ join_regions (vregion (desc s d)) (vm_regions s R) \<and>
    mach (vmem s') = mach (vmem s) \<and> shoot_sys s' = shoot_sys s \<and> vmm_of s' v = (vmm_of s v)\<lparr>vmm_lock := False\<rparr>"
proof -
  have nd: "next_desc (desc s d) = Some (hd R)" and dl: "dlist (dstore s) (Some d) R None"
    and dist: "distinct R" "d \<notin> set R" "set L \<inter> set R = {}" "d \<notin> set L" and len: "length R \<le> 2 ^ 64"
    using vl R vm_list_length [OF vl] by (auto simp: vm_list_def dlist_append dlist_Cons neq_Nil_conv)
  show ?thesis
  proof (cases "is_free s (hd R)")
    case False
    let ?s = "release_vmm_lock v s"
    have "free_tail v VM_TYPE_FREE d s = Inr (True, ?s)" using False nd by (simp add: free_tail_def the_ref_def)
    moreover have "vm_list v ?s (L @ [d] @ R)" "vm_regions ?s (L @ [d] @ R) = vm_regions s (L @ [d] @ R)"
      using vl vm_list_cong [of ?s s v] by (simp_all add: release_vmm_lock_def)
    moreover have "vm_regions s (L @ [d] @ R) = vm_regions s L @ join_regions (vregion (desc s d)) (vm_regions s R)"
      using False free R by (cases R) (simp_all add: vm_regions_def vregion_def)
    ultimately show ?thesis by (intro exI [of _ ?s] exI [of _ R]) (simp add: release_vmm_lock_def)
  next
    case True
    define J K where "J = takeWhile (is_free s) R" and "K = dropWhile (is_free s) R"
    obtain s5 where j: "join_free (2 ^ 64) VM_TYPE_FREE (size_bytes (desc s d)) (Some (hd R)) s =
        Inr (size_bytes (desc s d) + (\<Sum>e \<leftarrow> J. size_bytes (desc s e)), first_ref K None, s5)" "vmem s5 = vmem s"
      using sink.join_loop [OF dl o subset_refl dist(1) len, of VM_TYPE_FREE "size_bytes (desc s d)"] R
      by (cases R) (auto simp: J_def K_def)
    let ?t = "size_bytes (desc s d) + (\<Sum>e \<leftarrow> J. size_bytes (desc s e))"
    define s' where "s' = release_vmm_lock v (upd_desc_opt (first_ref K None) (prev_desc_update (\<lambda>_. Some d))
      (upd_desc d (\<lambda>x. x\<lparr>size_bytes := ?t, next_desc := first_ref K None\<rparr>) s5))"
    have run: "free_tail v VM_TYPE_FREE d s = Inr (True, s')" using True nd j(1) by (simp add: free_tail_def the_ref_def s'_def Let_def)
    have KR: "set K \<subseteq> set R" by (auto simp: K_def dest: set_dropWhileD)
    have e: "desc s' e = (if first_ref K None = Some e then prev_desc_update (\<lambda>_. Some d) else id)
        (if e = d then (desc s d)\<lparr>size_bytes := ?t, next_desc := first_ref K None\<rparr> else desc s e)" for e
      using j(2) by (simp add: s'_def release_vmm_lock_def)
    have fk: "first_ref K None = Some x \<longleftrightarrow> K \<noteq> [] \<and> x = hd K" for x by (rule first_ref_in)
    have nK: "first_ref K None \<noteq> Some d" "\<forall>x \<in> set L. first_ref K None \<noteq> Some x"
      using dist KR not_linked(2) [of _ K] by blast+
    have d': "desc s' d = (desc s d)\<lparr>size_bytes := ?t, next_desc := first_ref K None\<rparr>" using nK(1) by (simp add: e)
    have "\<forall>x \<in> set L. desc s' x = desc s x" using nK(2) dist(4) by (auto simp: e)
    moreover have "\<forall>x \<in> set K. vregion (desc s' x) = vregion (desc s x) \<and> next_desc (desc s' x) = next_desc (desc s x) \<and>
      prev_desc (desc s' x) = (if x = hd K then Some d else prev_desc (desc s x))"
      using KR dist(2) by (auto simp: e fk vregion_def)
    moreover have w: "mach (vmem s') = mach (vmem s)" "shoot_sys s' = shoot_sys s" "vmm_of s' v = (vmm_of s v)\<lparr>vmm_lock := False\<rparr>"
      using j(2) by (simp_all add: s'_def release_vmm_lock_def)
    ultimately have "vm_list v s' (L @ [d] @ K)"
      "vm_regions s' (L @ [d] @ K) = vm_regions s L @ join_regions (vregion (desc s d)) (vm_regions s R)"
      using joined_list [OF vl free K_def J_def, of s'] free by (simp_all add: d')
    then show ?thesis using run w by blast
  qed
qed

section \<open>Deallocation\<close>

lemma desc_owned_cong:
  assumes "desc_owned Y s" and "X \<subseteq> Y" and "hmem s' = hmem s" and "kheap s' = kheap s" and "kheap_lock s' = kheap_lock s"
    and "\<And>d. is_from_heap (desc s' d) = is_from_heap (desc s d)"
  shows "desc_owned X s'"
  using assms unfolding desc_owned_def heap_inv_def by (auto 0 4)

text \<open>The descriptor that takes over: the one before when it is free.\<close>

lemma merge_target:
  assumes vl: "vm_list v s (L @ [d] @ R)" and d: "vregion (desc s d) = (a, n, VM_TYPE_FREE)"
    and nxt: "R \<noteq> [] \<or> L \<noteq> [] \<and> is_free s (last L)"
  obtains L' e R' where "L' @ [e] @ R' = L @ [d] @ R" and "R' \<noteq> []" and "set R' \<subseteq> set (d # R)" and "is_free s e"
    and "(case prev_desc (desc s d) of None \<Rightarrow> d | Some p \<Rightarrow> if vm_type (desc s p) = VM_TYPE_FREE then p else d) = e"
    and "vm_regions s L' @ join_regions (vregion (desc s e)) (vm_regions s R') = free_region (vm_regions s L) (a, n, t) (vm_regions s R)"
proof -
  have pd: "prev_desc (desc s d) = (if L = [] then None else Some (last L))"
    using vm_list_split(1) [OF vl] by (cases L rule: rev_cases) simp_all
  show thesis
  proof (cases "L \<noteq> [] \<and> is_free s (last L)")
    case True
    then have L: "L = butlast L @ [last L]" by simp
    have "vm_regions s L = vm_regions s (butlast L) @ [vregion (desc s (last L))]" by (subst L) (simp add: vm_regions_def)
    then show thesis using True L d pd
      by (intro that [of "butlast L" "last L" "d # R"]) (auto simp: free_region_def vm_regions_def vregion_def)
  next
    case False
    then have "\<not> (vm_regions s L \<noteq> [] \<and> snd (snd (last (vm_regions s L))) = VM_TYPE_FREE)"
      by (auto simp: vm_regions_def vregion_def last_map)
    then show thesis using False nxt d pd by (intro that [of L d R]) (auto simp: free_region_def vregion_def)
  qed
qed

lemma unmap_region:
  assumes "mach_ok U S (mach (vmem s))" "ps \<in> S" and "backed U S ps v fs (mach (vmem s))"
    and ty: "frees_frames (vm_type (desc s d))" and n: "unat size0 = 4096 * length fs"
  shows "\<exists>m'. for_pages (unmap_page ps d) 0 size0 (v, s) = Inr (v + size0, on_kernel (mach_update (\<lambda>_. m')) s) \<and>
    frames_unmapped U S ps v (mach (vmem s)) fs m'"
proof -
  have "for_pages (unmap_page ps d) 0 size0 (v, s) = kfold (\<lambda>k. unmap_page ps d (0 + 4096 * of_nat k)) [0..<length fs] (v, s)"
    by (rule for_pages_fold) (simp add: n)
  also have "\<dots> = kfold (\<lambda>k. unmap_page ps d (of_nat k)) [0..<length fs] (v, s)" by (simp add: unmap_page_def)
  finally have f: "for_pages (unmap_page ps d) 0 size0 (v, s) = kfold (\<lambda>k. unmap_page ps d (of_nat k)) [0..<length fs] (v, s)" .
  have "4096 * of_nat (length fs) = size0" using n by (metis of_nat_mult of_nat_numeral of_nat_unat ucast_id)
  then show ?thesis using unmap_frames [OF assms(1-3) refl ty order_refl] unfolding f by auto
qed

lemma free_refines:
  fixes d v defines "handle \<equiv> \<lparr>vm_desc = Some d, handle_vmm = Some v\<rparr>"
  assumes ready: "vmm_ready U S v s" and vl: "vm_list v s (L @ [d] @ R)" and ty: "frees_frames (vm_type (desc s d))"
    and addr: "get_vmem_addr handle s = Inr a" and size: "get_vmem_size handle s = Inr n" "unat n = 4096 * length fs"
    and bk: "backed U S (paging_structure (vmm_of s v)) a fs (mach (vmem s))"
    and own: "desc_owned (set (d # R)) s" and nxt: "R \<noteq> [] \<or> L \<noteq> [] \<and> is_free s (last L)"
  shows "\<exists>s' ds. deallocate_kernel_virtual_memory km handle s = Inr (True, s') \<and> vmm_ready U S v s' \<and> vm_list v s' ds \<and>
    vm_regions s' ds = free_region (vm_regions s L) (vregion (desc s d)) (vm_regions s R) \<and>
    frames_unmapped U S (paging_structure (vmm_of s v)) a (mach (vmem s)) fs (mach (vmem s'))"
proof -
  let ?ps = "paging_structure (vmm_of s v)"
  have it: "\<not> identity_type (vm_type (desc s d))" using ty by (auto simp: frees_frames_def identity_type_def)
  then have high: "\<not> start_vaddr (desc s d) < 549755813888"
    using vm_list_split(3) [OF vl] by (simp add: vregion_def word_less_nat_alt)
  define s1 where "s1 = upd_vmm v (vmm_lock_update (\<lambda>_. True)) s"
  obtain m where u: "for_pages (unmap_page ?ps d) 0 n (a, s1) = Inr (a + n, on_kernel (mach_update (\<lambda>_. m)) s1)"
    "frames_unmapped U S ?ps a (mach (vmem s)) fs m"
    using unmap_region [of U S s1 ?ps a fs d n] ready bk ty size(2) by (auto simp: vmm_ready_def s1_def)
  let ?s3 = "on_kernel (mach_update (\<lambda>_. m)) s1"
  define s4 where "s4 = upd_desc d (\<lambda>x. x\<lparr>vm_type := VM_TYPE_FREE, lower_padding := 0, upper_padding := 0\<rparr>) ?s3"
  have d4: "desc s4 d = (desc s d)\<lparr>vm_type := VM_TYPE_FREE, lower_padding := 0, upper_padding := 0\<rparr>"
    "\<And>e. e \<noteq> d \<Longrightarrow> desc s4 e = desc s e" "vm_list_head (vmm_of s4 v) = vm_list_head (vmm_of s v)"
    and f4: "mach (vmem s4) = m" "shoot_sys s4 = shoot_sys s" "vmm_of s4 v = (vmm_of s v)\<lparr>vmm_lock := True\<rparr>"
      "hmem s4 = hmem s" "kheap s4 = kheap s" "kheap_lock s4 = kheap_lock s"
    by (simp_all add: s4_def s1_def kstate_defs)
  have l4: "vm_list v s4 (L @ [d] @ R)" using vm_list_retype(1) [OF vl _ d4] it by (simp add: identity_type_def)
  have same: "\<forall>x \<in> set L \<union> set R. desc s4 x = desc s x" using vl by (auto simp: vm_list_def intro!: d4(2))
  then have reg: "vm_regions s4 L = vm_regions s L" "vm_regions s4 R = vm_regions s R" by (simp_all add: vm_regions_def)
  let ?a = "unat (start_vaddr (desc s d))" and ?n = "unat (size_bytes (desc s d))" and ?t = "vm_type (desc s d)"
  have "vregion (desc s4 d) = (?a, ?n, VM_TYPE_FREE)" "R \<noteq> [] \<or> L \<noteq> [] \<and> is_free s4 (last L)"
    using nxt same d4(1) by (auto simp: vregion_def)
  then obtain L' e R' where e: "L' @ [e] @ R' = L @ [d] @ R" "R' \<noteq> []" "set R' \<subseteq> set (d # R)" "is_free s4 e"
      "(case prev_desc (desc s4 d) of None \<Rightarrow> d | Some p \<Rightarrow> if vm_type (desc s4 p) = VM_TYPE_FREE then p else d) = e"
      "vm_regions s4 L' @ join_regions (vregion (desc s4 e)) (vm_regions s4 R') = free_region (vm_regions s4 L) (?a, ?n, ?t) (vm_regions s4 R)"
    by (rule merge_target [OF l4, where t = ?t])
  have "is_from_heap (desc s4 x) = is_from_heap (desc s x)" for x using d4(1,2) by (cases "x = d") simp_all
  then have "desc_owned (set R') s4" by (rule desc_owned_cong [OF own e(3) f4(4-6)])
  then obtain s' K where t: "free_tail v VM_TYPE_FREE e s4 = Inr (True, s')" "vm_list v s' (L' @ [e] @ K)"
      "vm_regions s' (L' @ [e] @ K) = vm_regions s4 L' @ join_regions (vregion (desc s4 e)) (vm_regions s4 R')"
      "mach (vmem s') = m" "shoot_sys s' = shoot_sys s" "vmm_of s' v = (vmm_of s v)\<lparr>vmm_lock := False\<rparr>"
    using free_tail_list [of v s4 L' e R'] l4 e(1,2,4) f4(1-3) by auto
  have f1: "desc s1 d = desc s d" "kernel_mode (vmm_of s1 v)" "paging_structure (vmm_of s1 v) = ?ps" "acquire_vmm_lock v s = Inr s1"
    using ready by (simp_all add: s1_def vmm_ready_def acquire_vmm_lock_def)
  have sd: "shootdown km (a + n) n ?s3 = Inr ?s3"
    using ready size(2) by (intro shootdown_single) (simp_all add: s1_def vmm_ready_def mod_page_unat)
  have z: "get_no_padding_start_addr (desc s d) = a" "get_no_padding_size (desc s d) = n"
    using addr size(1) by (simp_all add: handle_def get_vmem_addr_def get_vmem_size_def the_ref_def)
  have "deallocate_kernel_virtual_memory km handle s = free_tail v VM_TYPE_FREE e s4"
    using it high ty by (simp add: deallocate_kernel_virtual_memory_def free_tail_def handle_def the_ref_def f1 identity_type_def
        u(1) sd z Let_def del: desc_upd_desc, unfold s4_def [symmetric] e(5), auto simp: frees_frames_def)
  moreover have "vmm_ready U S v s'" using ready t(4-6) u(2) by (simp add: vmm_ready_def frames_unmapped_def)
  ultimately show ?thesis using t u(2) e(6) reg by (auto simp: vregion_def)
qed

section \<open>An example\<close>

text \<open>
  A manager with a heap region of two pages between paddings of a page, and the free regions around it.
\<close>

definition ex_desc :: "addr \<Rightarrow> u64 \<Rightarrow> u64 \<Rightarrow> VirtualMemoryType \<Rightarrow> desc_ref option \<Rightarrow> desc_ref option \<Rightarrow> VirtualMemoryDescriptor" where
  "ex_desc a n pad t prv nxt = \<lparr>start_vaddr = a, size_bytes = n, upper_padding = pad, lower_padding = pad, vm_type = t,
     next_desc = nxt, prev_desc = prv, is_from_heap = False\<rparr>"

definition ex_descs :: "desc_ref \<Rightarrow> VirtualMemoryDescriptor" where
  "ex_descs = (\<lambda>_. ex_desc 0 0 0 VM_TYPE_FREE None None)
    (Bump 0 := ex_desc 0x1000 0x7FFFFFF000 0 VM_TYPE_IDENTITY_MAP_FREE None (Some (Bump 1)),
     Bump 1 := ex_desc 0xFFFF800000000000 0x4000 0x1000 VM_TYPE_HEAP (Some (Bump 0)) (Some (Bump 2)),
     Bump 2 := ex_desc 0xFFFF800000004000 0x7FFFFFFFB000 0 VM_TYPE_FREE (Some (Bump 1)) None)"

definition ex_vmm :: "addr \<Rightarrow> machine \<Rightarrow> kstate" where
  "ex_vmm ps m = (start_state m)\<lparr>vmem := (start_kernel m)\<lparr>descs := ex_descs,
     vmms := (\<lambda>_. \<lparr>vm_list_head = Some (Bump 0), paging_structure = ps, kernel_mode = True, vmm_lock = False\<rparr>)\<rparr>\<rparr>"

lemma ex_vmm_fields [simp]:
  "mach (vmem (ex_vmm ps m)) = m" "descs (vmem (ex_vmm ps m)) = ex_descs" "queue_array (shoot_sys (ex_vmm ps m)) = NULL"
  "vmm_of (ex_vmm ps m) v = \<lparr>vm_list_head = Some (Bump 0), paging_structure = ps, kernel_mode = True, vmm_lock = False\<rparr>"
  "on_kernel (mach_update (\<lambda>_. m')) (ex_vmm ps m) = ex_vmm ps m'"
  by (simp_all add: ex_vmm_def start_state_def start_kernel_def on_kernel_def)

lemma ex_descs_fields [simp]:
  "ex_descs (Bump 0) = ex_desc 0x1000 0x7FFFFFF000 0 VM_TYPE_IDENTITY_MAP_FREE None (Some (Bump 1))"
  "ex_descs (Bump 1) = ex_desc 0xFFFF800000000000 0x4000 0x1000 VM_TYPE_HEAP (Some (Bump 0)) (Some (Bump 2))"
  "ex_descs (Bump (Suc 0)) = ex_desc 0xFFFF800000000000 0x4000 0x1000 VM_TYPE_HEAP (Some (Bump 0)) (Some (Bump 2))"
  "ex_descs (Bump 2) = ex_desc 0xFFFF800000004000 0x7FFFFFFFB000 0 VM_TYPE_FREE (Some (Bump 1)) None"
  by (simp_all add: ex_descs_def)

lemma ex_vmm_list: "vm_list v (ex_vmm ps m) ([Bump 0] @ [Bump 1] @ [Bump 2])"
  by (simp add: vm_list_def dlist_Cons ex_desc_def regions_ok_def vregion_def identity_type_def)

lemma ex_vmm_backed:
  obtains ps m fs where "vmm_ready (free_set pc_booted) {ps} v (ex_vmm ps m)" and "length fs = 2"
    and "backed (free_set pc_booted) {ps} ps 0xFFFF800000001000 fs m" and "30000 \<le> card (free_set m)"
proof -
  obtain ps m where c: "fa_inv (free_set pc_booted) m" "pg_inv {ps} m" "hal_arch_initialized m" "31000 \<le> card (free_set m)"
    by (rule pc_create)
  have ok: "mach_ok (free_set pc_booted) {ps} m" using c pc_phys47 by (simp add: mach_ok_def)
  from map_region [of "free_set pc_booted" "{ps}" "ex_vmm ps m" ps "0x2000" 2 "\<lambda>_. True" "0xFFFF800000001000"] this c(4)
  obtain m' fs where f: "frames_mapped (free_set pc_booted) {ps} ps 0xFFFF800000001000 m fs m'" "length fs = 2" by auto
  moreover have "card (free_set m) \<le> card (free_set m') + 8" using f by (simp add: frames_mapped_def)
  ultimately show thesis using that [of ps m' fs] mapped_backed [OF f(1) c(1)] c(4) by (simp add: vmm_ready_def frames_mapped_def)
qed

section \<open>Properties\<close>

text \<open>
  C15. A deallocation refines the release of a region: for a region of frames that the manager owns,
  \<open>deallocate_kernel_virtual_memory\<close> returns true, the region joins the free region before it and the free
  regions after it, the descriptor list stays well formed and describes exactly the regions of the
  specification, every page between the paddings is no longer present and its frame is free again, no
  other page of any address space changes, and the manager is ready again. (The region is not the last
  one of the list unless the one before it is free: the code reads the descriptor after it without a test.)
\<close>

theorem deallocate_kernel_virtual_memory_refines:
  assumes "vmm_ready U S v s" and "vm_list v s (L @ [d] @ R)" and "frees_frames (vm_type (desc s d))"
    and "get_vmem_addr \<lparr>vm_desc = Some d, handle_vmm = Some v\<rparr> s = Inr a"
    and "get_vmem_size \<lparr>vm_desc = Some d, handle_vmm = Some v\<rparr> s = Inr n" and "unat n = 4096 * length fs"
    and "backed U S (paging_structure (vmm_of s v)) a fs (mach (vmem s))"
    and "desc_owned (set (d # R)) s" and "R \<noteq> [] \<or> L \<noteq> [] \<and> is_free s (last L)"
  shows "\<exists>s' ds. deallocate_kernel_virtual_memory km \<lparr>vm_desc = Some d, handle_vmm = Some v\<rparr> s = Inr (True, s') \<and>
    vmm_ready U S v s' \<and> vm_list v s' ds \<and>
    vm_regions s' ds = free_region (vm_regions s L) (vregion (desc s d)) (vm_regions s R) \<and>
    frames_unmapped U S (paging_structure (vmm_of s v)) a (mach (vmem s)) fs (mach (vmem s'))"
  by (rule free_refines [OF assms])

theorem deallocate_kernel_virtual_memory_refines_witness:
  "\<exists>ps m s' ds fs. deallocate_kernel_virtual_memory locked_kmalloc \<lparr>vm_desc = Some (Bump 1), handle_vmm = Some KernelVMM\<rparr> (ex_vmm ps m) =
      Inr (True, s') \<and> vm_list KernelVMM s' ds \<and>
    vm_regions s' ds = [(4096, 549755809792, VM_TYPE_IDENTITY_MAP_FREE), (18446603336221196288, 140737488351232, VM_TYPE_FREE)] \<and>
    length fs = 2 \<and> free_set (mach (vmem s')) = free_set m \<union> unat ` set (fs :: addr list)"
proof -
  obtain ps m fs where e: "vmm_ready (free_set pc_booted) {ps} KernelVMM (ex_vmm ps m)" "length fs = 2"
    "backed (free_set pc_booted) {ps} ps 0xFFFF800000001000 fs m" by (rule ex_vmm_backed)
  have "\<exists>s' ds. deallocate_kernel_virtual_memory locked_kmalloc \<lparr>vm_desc = Some (Bump 1), handle_vmm = Some KernelVMM\<rparr> (ex_vmm ps m) = Inr (True, s') \<and>
    vmm_ready (free_set pc_booted) {ps} KernelVMM s' \<and> vm_list KernelVMM s' ds \<and>
    vm_regions s' ds = free_region (vm_regions (ex_vmm ps m) [Bump 0]) (vregion (desc (ex_vmm ps m) (Bump 1))) (vm_regions (ex_vmm ps m) [Bump 2]) \<and>
    frames_unmapped (free_set pc_booted) {ps} (paging_structure (vmm_of (ex_vmm ps m) KernelVMM)) 0xFFFF800000001000 (mach (vmem (ex_vmm ps m))) fs (mach (vmem s'))"
    by (rule deallocate_kernel_virtual_memory_refines [OF e(1) ex_vmm_list, where n = "0x2000"])
      (use e in \<open>simp_all add: ex_desc_def frees_frames_def get_vmem_addr_def get_vmem_size_def the_ref_def
         get_no_padding_start_addr_def get_no_padding_size_def desc_owned_def\<close>)
  then show ?thesis using e(2)
    by (auto simp: frames_unmapped_def free_region_def vregion_def ex_desc_def intro!: exI [of _ ps] exI [of _ m] exI [of _ fs])
qed

end
