(* ===== verification/Vmm_Search.thy ===== *)
theory Vmm_Search
  imports Vmm_Free
begin

text \<open>
  The other operations of the manager on regions: the search by address, the growth of a region into its
  padding, and the error path of an allocation that finds no region.
\<close>

section \<open>Search by address\<close>

definition in_region :: "addr \<Rightarrow> VirtualMemoryDescriptor \<Rightarrow> bool" where
  "in_region a d \<longleftrightarrow> unat (start_vaddr d) \<le> unat a \<and> unat a < unat (start_vaddr d) + unat (size_bytes d)"

lemma in_region_word:
  "vregion_ok (vregion d) \<Longrightarrow> in_region a d \<longleftrightarrow> a \<ge> start_vaddr d \<and> a < start_vaddr d + size_bytes d"
  by (simp add: in_region_def vregion_def word_le_nat_alt word_less_nat_alt unat_add_u64)

lemma sorted_disjoint: "regions_sorted b rs \<Longrightarrow> (x, n, t) \<in> set rs \<Longrightarrow> b \<le> x"
  by (induction b rs rule: regions_sorted.induct) fastforce+

lemma in_region_unique:
  assumes vl: "vm_list v s ds" and "d \<in> set ds" "e \<in> set ds" "in_region a (desc s d)" "in_region a (desc s e)"
  shows "d = e"
proof (rule ccontr)
  have later: "\<not> in_region a (desc s y)" if ds: "ds = xs @ [x] @ ys" "y \<in> set ys" "in_region a (desc s x)" for x y xs ys
  proof -
    have "regions_sorted (unat (start_vaddr (desc s x)) + unat (size_bytes (desc s x))) (map (\<lambda>d. vregion (desc s d)) ys)"
      using vl ds(1) by (auto simp: vm_list_def regions_ok_def regions_sorted_append vregion_def)
    from sorted_disjoint [OF this] show ?thesis using ds(2,3) by (fastforce simp: in_region_def vregion_def)
  qed
  assume "d \<noteq> e"
  then obtain xs ys zs where "ds = xs @ [d] @ ys @ [e] @ zs \<or> ds = xs @ [e] @ ys @ [d] @ zs"
    using assms(2,3) by (metis append.assoc append_Cons append_Nil in_set_conv_decomp set_ConsD in_set_conv_decomp_first Un_iff set_append)
  then show False using later [of xs d "ys @ [e] @ zs" e] later [of xs e "ys @ [d] @ zs" d] assms(4,5) by auto
qed

lemma get_vmem_search:
  assumes vl: "vm_list v s ds"
  shows "(\<forall>d \<in> set ds. get_vmem_from_address v a s = Inr \<lparr>vm_desc = Some d, handle_vmm = Some v\<rparr> \<longleftrightarrow> in_region a (desc s d)) \<and>
    (get_vmem_from_address v a s = Inr invalid_handle \<longleftrightarrow> (\<forall>d \<in> set ds. \<not> in_region a (desc s d)))"
proof -
  have w: "\<And>d. d \<in> set ds \<Longrightarrow> in_region a (desc s d) \<longleftrightarrow> a \<ge> start_vaddr (desc s d) \<and> a < start_vaddr (desc s d) + size_bytes (desc s d)"
    using vl by (intro in_region_word) (auto simp: vm_list_def regions_ok_def)
  obtain l e r where f: "find_desc (\<lambda>d. \<not> (a \<ge> start_vaddr d \<and> a < start_vaddr d + size_bytes d)) v s = Inr e" "ds = l @ [e] @ r"
    "\<forall>x \<in> set l. \<not> (a \<ge> start_vaddr (desc s x) \<and> a < start_vaddr (desc s x) + size_bytes (desc s x))"
    "\<not> (a \<ge> start_vaddr (desc s e) \<and> a < start_vaddr (desc s e) + size_bytes (desc s e)) \<Longrightarrow> r = []"
    by (rule find_desc_list [OF vl, of "\<lambda>d. \<not> (a \<ge> start_vaddr d \<and> a < start_vaddr d + size_bytes d)"]) blast
  have e: "get_vmem_from_address v a s = Inr (if in_region a (desc s e) then \<lparr>vm_desc = Some e, handle_vmm = Some v\<rparr> else invalid_handle)"
    using w [of e] f(1,2) by (auto simp: get_vmem_from_address_def)
  show ?thesis
  proof (cases "in_region a (desc s e)")
    case True
    then show ?thesis using e in_region_unique [OF vl, of e _ a] f(2) by (auto simp: invalid_handle_def)
  next
    case False
    then have "\<forall>d \<in> set ds. \<not> in_region a (desc s d)" using w f(2-4) by auto
    then show ?thesis using e False by (simp add: invalid_handle_def)
  qed
qed

section \<open>Growth into the padding\<close>


text \<open>When it cannot grow, the lock stays held.\<close>

lemma expand_top_held:
  fixes d v defines "handle \<equiv> \<lparr>vm_desc = Some d, handle_vmm = Some v\<rparr>"
  assumes "\<not> vmm_lock (vmm_of s v)" and "\<not> frees_frames (vm_type (desc s d)) \<or> upper_padding (desc s d) < round_up_page n"
  shows "\<exists>s'. try_expand_vmem_top km handle n s = Inr (False, s') \<and> acquire_vmm_lock v s' = Inl Hang"
  using assms by (simp add: try_expand_vmem_top_def try_expand_vmem_top_with_def the_ref_def acquire_vmm_lock_def)

section \<open>Exhaustion\<close>

lemma alloc_exhausted:
  assumes vl: "vm_list v s ds" and ready: "\<not> vmm_lock (vmm_of s v)" "kernel_mode (vmm_of s v)"
    and type: "\<not> identity_type type" "type \<noteq> VM_TYPE_MEMORY_MAPPING"
    and pages: "4096 dvd unat (size1 + (lower + upper))"
    and no: "alloc_first_fit (unat (size1 + (lower + upper))) type (vm_regions s ds) = None"
  shows "\<exists>e. allocate_kernel_virtual_memory km v size1 type upper lower s = Inl (Panic e)"
proof -
  let ?size0 = "size1 + (lower + upper)"
  define s1 where "s1 = upd_vmm v (vmm_lock_update (\<lambda>_. True)) s"
  have lists: "vm_list v s1 ds" "vm_regions s1 ds = vm_regions s ds" using vl vm_list_cong [of s1 s v] by (simp_all add: s1_def)
  obtain l d r where f: "find_desc (\<lambda>d. \<not> fits_free ?size0 d) v s1 = Inr d" "ds = l @ [d] @ r"
    by (rule find_desc_list [OF lists(1), of "\<lambda>d. \<not> fits_free ?size0 d"]) blast
  have "\<not> fits_free ?size0 (desc s1 d)"
    using no f(2) lists(2) unfolding alloc_first_fit_None by (auto simp: fits_free_region vm_regions_def s1_def)
  then have "vm_type (desc s1 d) \<noteq> VM_TYPE_FREE \<or> size_bytes (desc s1 d) < ?size0" by (auto simp: fits_free_def)
  then show ?thesis
    using ready type pages f(1) by (auto simp: allocate_kernel_virtual_memory_def Let_def acquire_vmm_lock_def s1_def [symmetric]
      mod_page_unat identity_type_def cut_descriptor_start_def is_free_type_def kassert_def kpanic_def)
qed

section \<open>Properties\<close>

text \<open>
  C17. The search by address finds the region: on a well formed descriptor list \<open>get_vmem_from_address\<close>
  returns the handle of a descriptor exactly when its region contains the address, and the invalid
  handle exactly when no region does.
\<close>

theorem get_vmem_from_address_correct:
  assumes vl: "vm_list v s ds"
  shows "(\<forall>d \<in> set ds. get_vmem_from_address v a s = Inr \<lparr>vm_desc = Some d, handle_vmm = Some v\<rparr> \<longleftrightarrow> in_region a (desc s d)) \<and>
    (get_vmem_from_address v a s = Inr invalid_handle \<longleftrightarrow> (\<forall>d \<in> set ds. \<not> in_region a (desc s d)))"
  using assms by (rule get_vmem_search)

theorem get_vmem_from_address_correct_witness:
  "get_vmem_from_address KernelVMM 0xFFFF800000001234 (ex_vmm 0x1000 pc_booted) =
     Inr \<lparr>vm_desc = Some (Bump 1), handle_vmm = Some KernelVMM\<rparr> \<and>
   get_vmem_from_address KernelVMM 0x8000000000 (ex_vmm 0x1000 pc_booted) = Inr invalid_handle"
  using get_vmem_from_address_correct [OF ex_vmm_list, of KernelVMM "0xFFFF800000001234" "0x1000" pc_booted]
    get_vmem_from_address_correct [OF ex_vmm_list, of KernelVMM "0x8000000000" "0x1000" pc_booted]
  by (simp add: in_region_def ex_desc_def)



text \<open>
  C32. A refused growth leaves the manager locked: when the region has another type or its upper padding is
  too small, \<open>try_expand_vmem_top\<close> returns false with the lock of the manager held, so every later
  operation that takes the lock never returns.
\<close>

theorem try_expand_vmem_top_keeps_lock:
  assumes "\<not> vmm_lock (vmm_of s v)" and "\<not> frees_frames (vm_type (desc s d)) \<or> upper_padding (desc s d) < round_up_page n"
  shows "\<exists>s'. try_expand_vmem_top km \<lparr>vm_desc = Some d, handle_vmm = Some v\<rparr> n s = Inr (False, s') \<and>
    deallocate_kernel_virtual_memory km \<lparr>vm_desc = Some d, handle_vmm = Some v\<rparr> s' = Inl Hang \<and>
    try_expand_vmem_top km \<lparr>vm_desc = Some d, handle_vmm = Some v\<rparr> n s' = Inl Hang"
  using expand_top_held [OF assms, of km]
  by (auto simp: deallocate_kernel_virtual_memory_def try_expand_vmem_top_def [of km _ n] try_expand_vmem_top_with_def the_ref_def)

theorem try_expand_vmem_top_keeps_lock_witness:
  "\<exists>s'. try_expand_vmem_top locked_kmalloc \<lparr>vm_desc = Some (Bump 1), handle_vmm = Some KernelVMM\<rparr> 0x2000 (ex_vmm 0x1000 pc_booted) = Inr (False, s') \<and>
     deallocate_kernel_virtual_memory locked_kmalloc \<lparr>vm_desc = Some (Bump 1), handle_vmm = Some KernelVMM\<rparr> s' = Inl Hang"
  using try_expand_vmem_top_keeps_lock [of "ex_vmm 0x1000 pc_booted" KernelVMM "Bump 1" "0x2000" locked_kmalloc]
  by (auto simp: ex_desc_def round_up_page_def)

text \<open>
  C31. An allocation for which no free region is large enough panics: it neither returns a handle nor
  hangs.
\<close>

theorem allocate_kernel_virtual_memory_exhausted:
  assumes "vm_list v s ds" and "\<not> vmm_lock (vmm_of s v)" and "kernel_mode (vmm_of s v)"
    and "\<not> identity_type type" and "type \<noteq> VM_TYPE_MEMORY_MAPPING"
    and "4096 dvd unat (size1 + (lower + upper))"
    and "alloc_first_fit (unat (size1 + (lower + upper))) type (vm_regions s ds) = None"
  shows "\<exists>e. allocate_kernel_virtual_memory km v size1 type upper lower s = Inl (Panic e)"
  by (rule alloc_exhausted [OF assms])

theorem allocate_kernel_virtual_memory_exhausted_witness:
  "\<exists>e. allocate_kernel_virtual_memory locked_kmalloc KernelVMM 0x7FFFFFFFC000 VM_TYPE_HEAP 0 0 (ex_vmm 0x1000 pc_booted) = Inl (Panic e)"
  by (rule allocate_kernel_virtual_memory_exhausted [OF ex_vmm_list])
    (simp_all add: identity_type_def vm_regions_def vregion_def ex_desc_def dvd_eq_mod_eq_0)

end
