(* ===== verification/Spinlock.thy ===== *)
theory Spinlock
  imports Kernel_Prelude
begin

text \<open>
  The spinlocks, with and without disabling interrupts (kernel/util/sync_types.c, with the interrupt state of
  kernel/HAL/x86-64/cpu_instructions.c), for any number of CPUs. A step is one atomic action of one CPU; the
  steps of different CPUs interleave in any order. The other theories run one CPU and represent a lock by
  whether it is held; this theory shows what the lock gives them.
\<close>

section \<open>Interrupts of a CPU\<close>

text \<open>
  Where a CPU is: outside, before the atomic test of \<open>acquire_spinlock_hard\<close>, in its pause, inside the
  critical section, or after the store of \<open>release_spinlock_hard\<close>.
\<close>

datatype lock_pc = Outside | Testing | Pausing | Critical | Restoring

text \<open>
  The interrupt flag of the CPU and the variable \<open>istate\<close> of the macros; \<open>entry_state\<close> is the flag
  when the CPU last called \<open>acquire_spinlock_hard\<close>, which the code does not store.
\<close>

record lock_cpu =
  lpc :: lock_pc
  int_flag :: bool
  istate :: bool
  entry_state :: bool

definition are_interrupts_enabled :: "lock_cpu \<Rightarrow> bool" where
  "are_interrupts_enabled c = int_flag c"

definition disable_interrupts :: "lock_cpu \<Rightarrow> lock_cpu" where
  "disable_interrupts c = c\<lparr>int_flag := False\<rparr>"

definition enable_interrupts :: "lock_cpu \<Rightarrow> lock_cpu" where
  "enable_interrupts c = c\<lparr>int_flag := True\<rparr>"

definition disable_and_save_interrupts :: "lock_cpu \<Rightarrow> lock_cpu" where
  "disable_and_save_interrupts c = (disable_interrupts c)\<lparr>istate := are_interrupts_enabled c\<rparr>"

definition restore_interrupt_state :: "lock_cpu \<Rightarrow> lock_cpu" where
  "restore_interrupt_state c = (if istate c then enable_interrupts c else c)"

section \<open>The lock\<close>

text \<open>The flag after an atomic test and set, and its old value.\<close>

definition test_and_set :: "bool \<Rightarrow> bool \<times> bool" where
  "test_and_set flag = (flag, True)"

text \<open>The next action of a CPU that has called \<open>acquire_spinlock_hard\<close>.\<close>

definition acquire_spinlock_hard :: "bool \<Rightarrow> lock_cpu \<Rightarrow> bool \<times> lock_cpu" where
  "acquire_spinlock_hard flag c =
     (case lpc c of
        Testing \<Rightarrow> (let (old, flag1) = test_and_set flag
          in if old then (flag1, (restore_interrupt_state c)\<lparr>lpc := Pausing\<rparr>) else (flag1, c\<lparr>lpc := Critical\<rparr>))
      | Pausing \<Rightarrow> (flag, (disable_and_save_interrupts c)\<lparr>lpc := Testing\<rparr>)
      | _ \<Rightarrow> (flag, (disable_and_save_interrupts c)\<lparr>lpc := Testing, entry_state := are_interrupts_enabled c\<rparr>))"

definition release_spinlock_hard :: "bool \<Rightarrow> lock_cpu \<Rightarrow> bool \<times> lock_cpu" where
  "release_spinlock_hard flag c =
     (case lpc c of
        Restoring \<Rightarrow> (flag, (restore_interrupt_state c)\<lparr>lpc := Outside\<rparr>)
      | _ \<Rightarrow> (False, c\<lparr>lpc := Restoring\<rparr>))"

text \<open>
  Every CPU runs acquisitions and releases in turn. Outside of them its interrupt flag may change.
\<close>

inductive lock_step :: "bool \<times> (nat \<Rightarrow> lock_cpu) \<Rightarrow> bool \<times> (nat \<Rightarrow> lock_cpu) \<Rightarrow> bool" where
  acquire: "lpc (cs i) \<in> {Outside, Testing, Pausing} \<Longrightarrow> acquire_spinlock_hard flag (cs i) = (flag', c) \<Longrightarrow>
    lock_step (flag, cs) (flag', cs(i := c))"
| release: "lpc (cs i) \<in> {Critical, Restoring} \<Longrightarrow> release_spinlock_hard flag (cs i) = (flag', c) \<Longrightarrow>
    lock_step (flag, cs) (flag', cs(i := c))"
| outside: "lpc (cs i) = Outside \<Longrightarrow> lock_step (flag, cs) (flag, cs(i := (cs i)\<lparr>int_flag := b, entry_state := b\<rparr>))"

inductive_cases lock_stepE: "lock_step (flag, cs) s'"

text \<open>The states that can be reached after \<open>init_spinlock\<close>, when no CPU uses the lock.\<close>

inductive lock_reachable :: "bool \<times> (nat \<Rightarrow> lock_cpu) \<Rightarrow> bool" where
  init: "(\<And>i. lpc (cs i) = Outside \<and> entry_state (cs i) = int_flag (cs i)) \<Longrightarrow> lock_reachable (False, cs)"
| step: "lock_reachable s \<Longrightarrow> lock_step s s' \<Longrightarrow> lock_reachable s'"

section \<open>Invariant\<close>

fun cpu_inv :: "lock_cpu \<Rightarrow> bool" where
  "cpu_inv c \<longleftrightarrow>
     (case lpc c of
        Outside \<Rightarrow> int_flag c = entry_state c
      | Pausing \<Rightarrow> int_flag c = entry_state c
      | _ \<Rightarrow> \<not> int_flag c \<and> istate c = entry_state c)"

declare cpu_inv.simps [simp del]

definition lock_inv :: "bool \<times> (nat \<Rightarrow> lock_cpu) \<Rightarrow> bool" where
  "lock_inv s \<longleftrightarrow> (case s of (flag, cs) \<Rightarrow>
     (\<forall>i. cpu_inv (cs i)) \<and> (\<forall>i. lpc (cs i) = Critical \<longrightarrow> flag) \<and>
     (\<forall>i j. lpc (cs i) = Critical \<and> lpc (cs j) = Critical \<longrightarrow> i = j))"

lemmas lock_defs = acquire_spinlock_hard_def release_spinlock_hard_def disable_and_save_interrupts_def
  restore_interrupt_state_def disable_interrupts_def enable_interrupts_def are_interrupts_enabled_def test_and_set_def

lemma cpu_inv_step:
  "cpu_inv c \<Longrightarrow> lpc c \<in> {Outside, Testing, Pausing} \<Longrightarrow> acquire_spinlock_hard flag c = (flag', c') \<Longrightarrow>
     cpu_inv c' \<and> (lpc c' = Critical \<longrightarrow> \<not> flag \<and> flag') \<and> (flag \<longrightarrow> flag')"
  "cpu_inv c \<Longrightarrow> lpc c \<in> {Critical, Restoring} \<Longrightarrow> release_spinlock_hard flag c = (flag', c') \<Longrightarrow>
     cpu_inv c' \<and> lpc c' \<noteq> Critical \<and> (lpc c = Restoring \<longrightarrow> flag' = flag)"
  by (auto simp: lock_defs cpu_inv.simps split: if_splits)

lemma lock_inv_step:
  assumes "lock_inv s" and "lock_step s s'"
  shows "lock_inv s'"
  using assms(2,1)
proof (cases rule: lock_step.cases)
  case (acquire cs i flag flag' c)
  have inv: "\<And>j. cpu_inv (cs j)" "\<And>j. lpc (cs j) = Critical \<Longrightarrow> flag" "\<And>j k. lpc (cs j) = Critical \<Longrightarrow> lpc (cs k) = Critical \<Longrightarrow> j = k"
    using assms(1) acquire(1) by (auto simp: lock_inv_def)
  note c = cpu_inv_step(1) [OF inv(1) acquire(3,4)]
  show ?thesis unfolding acquire(2) lock_inv_def using c inv by (auto split: if_splits)
next
  case (release cs i flag flag' c)
  have inv: "\<And>j. cpu_inv (cs j)" "\<And>j. lpc (cs j) = Critical \<Longrightarrow> flag" "\<And>j k. lpc (cs j) = Critical \<Longrightarrow> lpc (cs k) = Critical \<Longrightarrow> j = k"
    using assms(1) release(1) by (auto simp: lock_inv_def)
  note c = cpu_inv_step(2) [OF inv(1) release(3,4)]
  show ?thesis unfolding release(2) lock_inv_def using c inv release(3) by (auto split: if_splits)
next
  case (outside cs i flag b)
  then show ?thesis using assms(1) by (auto simp: lock_inv_def cpu_inv.simps split: lock_pc.splits)
qed

lemma lock_reachable_inv: "lock_reachable s \<Longrightarrow> lock_inv s"
proof (induction rule: lock_reachable.induct)
  case (init cs)
  then show ?case by (simp add: lock_inv_def cpu_inv.simps)
next
  case (step s s')
  then show ?case by (auto intro: lock_inv_step)
qed

section \<open>The lock that keeps the interrupts\<close>

text \<open>
  \<open>acquire_spinlock\<close> and \<open>release_spinlock\<close>, which the page fault handler and the start of the processors use: one
  round of the loop, and the store.
\<close>

definition init_spinlock :: bool where
  "init_spinlock = False"

definition acquire_spinlock :: "bool \<Rightarrow> lock_cpu \<Rightarrow> bool \<times> lock_cpu" where
  "acquire_spinlock flag c = (let (old, flag1) = test_and_set flag in (flag1, c\<lparr>lpc := if old then Pausing else Critical\<rparr>))"

definition release_spinlock :: "bool \<Rightarrow> lock_cpu \<Rightarrow> bool \<times> lock_cpu" where
  "release_spinlock flag c = (False, c\<lparr>lpc := Outside\<rparr>)"

inductive soft_reachable :: "bool \<times> (nat \<Rightarrow> lock_cpu) \<Rightarrow> bool" where
  soft_init: "(\<And>i. lpc (cs i) = Outside) \<Longrightarrow> soft_reachable (init_spinlock, cs)"
| soft_acquire: "soft_reachable (flag, cs) \<Longrightarrow> lpc (cs i) \<in> {Outside, Pausing} \<Longrightarrow> acquire_spinlock flag (cs i) = (flag', c) \<Longrightarrow>
    soft_reachable (flag', cs(i := c))"
| soft_release: "soft_reachable (flag, cs) \<Longrightarrow> lpc (cs i) = Critical \<Longrightarrow> release_spinlock flag (cs i) = (flag', c) \<Longrightarrow>
    soft_reachable (flag', cs(i := c))"

text \<open>The flag is set exactly while a CPU is in the critical section, and at most one CPU is.\<close>

lemma soft_mutual_exclusion:
  "soft_reachable s \<Longrightarrow> (case s of (flag, cs) \<Rightarrow>
     (flag \<longleftrightarrow> (\<exists>i. lpc (cs i) = Critical)) \<and> (\<forall>i j. lpc (cs i) = Critical \<and> lpc (cs j) = Critical \<longrightarrow> i = j))"
proof (induction rule: soft_reachable.induct)
  case (soft_acquire flag cs i flag' c)
  then have one: "flag \<longleftrightarrow> (\<exists>j. lpc (cs j) = Critical)" "\<And>j k. lpc (cs j) = Critical \<Longrightarrow> lpc (cs k) = Critical \<Longrightarrow> j = k"
    and c: "flag'" "c = (cs i)\<lparr>lpc := if flag then Pausing else Critical\<rparr>" "lpc (cs i) \<noteq> Critical"
    by (auto simp: acquire_spinlock_def test_and_set_def)
  show ?case
  proof (cases flag)
    case True
    with one(1) obtain j where "lpc (cs j) = Critical" by blast
    moreover from this c(3) have "j \<noteq> i" by auto
    ultimately show ?thesis using True c one(2) by (auto split: if_splits)
  next
    case False
    then show ?thesis using c one(1) by (auto split: if_splits)
  qed
next
  case (soft_release flag cs i flag' c)
  then show ?case by (auto simp: release_spinlock_def)
qed (simp add: init_spinlock_def)

section \<open>Properties\<close>

text \<open>
  C18. The lock works on any number of CPUs: in every state that can be reached by interleaving their steps,
  at most one CPU is in the critical section, its interrupts are disabled there and the flag is set, and a
  CPU that has left the lock has the interrupt flag it had when it called \<open>acquire_spinlock_hard\<close>.
\<close>

theorem spinlock_mutual_exclusion:
  assumes "lock_reachable (flag, cs)"
  shows "(lpc (cs i) = Critical \<and> lpc (cs j) = Critical \<longrightarrow> i = j) \<and>
    (lpc (cs i) = Critical \<longrightarrow> flag \<and> \<not> int_flag (cs i)) \<and>
    (lpc (cs i) = Outside \<longrightarrow> int_flag (cs i) = entry_state (cs i))"
proof -
  have "cpu_inv (cs i)" "lpc (cs i) = Critical \<longrightarrow> flag" "lpc (cs i) = Critical \<and> lpc (cs j) = Critical \<longrightarrow> i = j"
    using lock_reachable_inv [OF assms] by (auto simp: lock_inv_def)
  then show ?thesis by (auto simp: cpu_inv.simps)
qed

theorem spinlock_mutual_exclusion_witness:
  "\<exists>flag cs. lock_reachable (flag, cs) \<and> lpc (cs 0) = Critical \<and> lpc (cs 1) \<noteq> Critical \<and> \<not> int_flag (cs 0)"
proof -
  define c where "c = \<lparr>lpc = Outside, int_flag = True, istate = False, entry_state = True\<rparr>"
  define c1 where "c1 = \<lparr>lpc = Testing, int_flag = False, istate = True, entry_state = True\<rparr>"
  define c2 where "c2 = \<lparr>lpc = Critical, int_flag = False, istate = True, entry_state = True\<rparr>"
  have 0: "lock_reachable (False, \<lambda>_. c)" by (rule lock_reachable.init) (simp add: c_def)
  have "lock_step (False, \<lambda>_. c) (False, (\<lambda>_. c)(0 := c1))"
    by (rule lock_step.acquire) (simp_all add: c_def c1_def lock_defs)
  moreover have "lock_step (False, (\<lambda>_. c)(0 := c1)) (True, ((\<lambda>_. c)(0 := c1))(0 := c2))"
    by (rule lock_step.acquire) (simp_all add: c1_def c2_def lock_defs)
  ultimately have r: "lock_reachable (True, ((\<lambda>_. c)(0 := c1))(0 := c2))" using 0 by (blast intro: lock_reachable.step)
  have "lpc ((((\<lambda>_. c)(0 := c1))(0 := c2)) 0) = Critical" by (simp add: c2_def)
  then show ?thesis using r spinlock_mutual_exclusion [OF r, of 0 1] by (metis zero_neq_one)
qed

end
