(* ===== verification/Memory_Ops.thy ===== *)
theory Memory_Ops
  imports Psf
begin

text \<open>
  The block operations of kernel/HAL/x86-64/cpu_instructions.c on a memory of bytes, and the frequencies that the
  processor reports. An access to a word of eight bytes reads or writes its bytes, the first one lowest.
\<close>

fun memset_loop :: "addr \<Rightarrow> u8 \<Rightarrow> nat \<Rightarrow> bytes \<Rightarrow> bytes" where
  "memset_loop dst d 0 mem = mem"
| "memset_loop dst d (Suc n) mem = memset_loop (dst + 1) d n (mem(dst := d))"

definition memset :: "addr \<Rightarrow> u8 \<Rightarrow> u64 \<Rightarrow> bytes \<Rightarrow> bytes" where
  "memset dst d n mem = memset_loop dst d (unat n) mem"

text \<open>The assignment of one word.\<close>

definition copy_word :: "addr \<Rightarrow> addr \<Rightarrow> bytes \<Rightarrow> bytes" where
  "copy_word dst src mem =
     (let w = map (\<lambda>i. mem (src + of_nat i)) [0..<8] in fold (\<lambda>i m. m(dst + of_nat i := w ! i)) [0..<8] mem)"

text \<open>The eight assignments of the first loop.\<close>

definition copy_line :: "addr \<Rightarrow> addr \<Rightarrow> u64 \<Rightarrow> bytes \<Rightarrow> bytes" where
  "copy_line dst src byte_index mem =
     fold (\<lambda>k. copy_word (dst + 8 * (of_nat k + byte_index div 8)) (src + 8 * (of_nat k + byte_index div 8))) [0..<8] mem"

fun copy_lines :: "addr \<Rightarrow> addr \<Rightarrow> u64 \<Rightarrow> nat \<Rightarrow> bytes \<Rightarrow> u64 \<times> bytes" where
  "copy_lines dst src byte_index 0 mem = (byte_index, mem)"
| "copy_lines dst src byte_index (Suc n) mem = copy_lines dst src (byte_index + 64) n (copy_line dst src byte_index mem)"

fun copy_bytes :: "addr \<Rightarrow> addr \<Rightarrow> u64 \<Rightarrow> nat \<Rightarrow> bytes \<Rightarrow> bytes" where
  "copy_bytes dst src byte_index 0 mem = mem"
| "copy_bytes dst src byte_index (Suc n) mem =
     copy_bytes dst src (byte_index + 1) n (mem(dst + byte_index := mem (src + byte_index)))"

text \<open>
  The first loop runs while its counter is below the largest multiple of 64, the second one copies the
  rest.
\<close>

definition memcpy :: "addr \<Rightarrow> addr \<Rightarrow> u64 \<Rightarrow> bytes \<Rightarrow> bytes" where
  "memcpy dst src n mem =
     (let aligned_size = n - n mod 64;
          (byte_index, mem1) = copy_lines dst src 0 (unat aligned_size div 64) mem
      in copy_bytes dst src byte_index (unat n - unat byte_index) mem1)"

section \<open>Specification\<close>

definition copied :: "addr \<Rightarrow> addr \<Rightarrow> nat \<Rightarrow> bytes \<Rightarrow> bytes" where
  "copied dst src n mem = (\<lambda>a. if unat (a - dst) < n then mem (src + (a - dst)) else mem a)"

definition disjoint_blocks :: "addr \<Rightarrow> addr \<Rightarrow> nat \<Rightarrow> bool" where
  "disjoint_blocks dst src n \<longleftrightarrow> n < 18446744073709551616 \<and> (\<forall>i < n. \<forall>j < n. src + of_nat i \<noteq> dst + of_nat j)"

lemma copied_0 [simp]: "copied dst src 0 mem = mem"
  by (simp add: copied_def)

lemma unat_sub_of_nat:
  assumes "k < 18446744073709551616"
  shows "unat (w - of_nat k :: u64) = (if k \<le> unat w then unat w - k else unat w + 18446744073709551616 - k)"
proof (cases "k \<le> unat w")
  case True
  then show ?thesis using unat_sub [of "of_nat k" w] assms by (simp add: unat_of_nat_u64 word_le_nat_alt)
next
  case False
  then show ?thesis using assms by (simp add: unat_sub_if' unat_of_nat_u64 word_le_nat_alt)
qed

lemma copied_join:
  assumes d: "disjoint_blocks dst src N" and k: "k + m \<le> N"
  shows "copied (dst + of_nat k) (src + of_nat k) m (copied dst src k mem) = copied dst src (k + m) mem"
proof
  fix a
  let ?d = "unat (a - dst)"
  have k64: "k < 18446744073709551616" "k + m < 18446744073709551616" using d k by (simp_all add: disjoint_blocks_def)
  have off: "unat (a - (dst + of_nat k)) = (if k \<le> ?d then ?d - k else ?d + 18446744073709551616 - k)"
    using unat_sub_of_nat [OF k64(1), of "a - dst"] by (simp add: diff_diff_eq)
  have src: "src + of_nat k + (a - (dst + of_nat k)) = src + (a - dst)" by simp
  have read: "copied dst src k mem (src + (a - dst)) = mem (src + (a - dst))" if "?d < N"
  proof -
    have "\<not> unat (src + (a - dst) - dst) < k"
    proof
      assume "unat (src + (a - dst) - dst) < k"
      moreover have "src + of_nat ?d = dst + of_nat (unat (src + (a - dst) - dst))" by simp
      ultimately show False using d k that unfolding disjoint_blocks_def by (metis add_leD1 order_less_le_trans)
    qed
    then show ?thesis by (simp add: copied_def)
  qed
  show "copied (dst + of_nat k) (src + of_nat k) m (copied dst src k mem) a = copied dst src (k + m) mem a"
  proof (cases "k \<le> ?d \<and> ?d < k + m")
    case True
    then have "unat (a - (dst + of_nat k)) < m" unfolding off by (simp; linarith)
    then show ?thesis using True read k by (subst copied_def) (simp add: copied_def [of dst src "k + m"] src)
  next
    case False
    then have "\<not> unat (a - (dst + of_nat k)) < m" using off k64 by (auto split: if_splits)
    then show ?thesis using False by (subst copied_def) (auto simp: copied_def)
  qed
qed

section \<open>The loops copy\<close>

text \<open>A part of a copy from the offset \<open>k\<close> on, \<open>m\<close> bytes long, done on its own.\<close>

lemma copied_fold:
  assumes d: "disjoint_blocks dst src N" and k: "k + c * n \<le> N"
    and f: "\<And>i mem. i < n \<Longrightarrow> f i mem = copied (dst + of_nat (k + c * i)) (src + of_nat (k + c * i)) c mem"
  shows "fold f [0..<n] (copied dst src k mem) = copied dst src (k + c * n) mem"
  using k f
proof (induction n)
  case (Suc n)
  have "fold f [0..<n] (copied dst src k mem) = copied dst src (k + c * n) mem" using Suc by simp
  then have "fold f [0..<Suc n] (copied dst src k mem) = copied (dst + of_nat (k + c * n)) (src + of_nat (k + c * n)) c (copied dst src (k + c * n) mem)"
    using Suc.prems(2) [of n] by simp
  also have "\<dots> = copied dst src (k + c * n + c) mem" using Suc.prems(1) by (intro copied_join [OF d]) simp
  finally show ?case by (simp add: ac_simps)
qed simp

lemma copied_Suc: "copied dst src 1 mem = mem(dst := mem src)"
  by (auto simp: copied_def unat_eq_zero)

lemma copy_word_copied: "copy_word dst src mem = copied dst src 8 mem"
proof
  fix a
  have set: "(fold (\<lambda>i m. m(dst + of_nat i := w ! i)) [0..<n] mem) a = (if unat (a - dst) < n then w ! unat (a - dst) else mem a)"
    if "n \<le> 8" for n and w :: "u8 list"
    using that
  proof (induction n)
    case (Suc n)
    have "a = dst + of_nat n \<longleftrightarrow> a - dst = of_nat n" by (auto simp: algebra_simps)
    then have "a = dst + of_nat n \<longleftrightarrow> unat (a - dst) = n"
      using Suc.prems unat_of_nat_u64 [of n] by (simp add: word_unat_eq_iff)
    then show ?case using Suc by (auto simp: less_Suc_eq)
  qed simp
  show "copy_word dst src mem a = copied dst src 8 mem a" unfolding copy_word_def Let_def set [OF order_refl] by (simp add: copied_def)
qed

lemma line_offset: "64 * q < 18446744073709551616 \<Longrightarrow> 8 * (of_nat k + of_nat (64 * q) div 8) = (of_nat (64 * q + 8 * k) :: u64)"
proof -
  assume q: "64 * q < 18446744073709551616"
  then have "unat (of_nat (64 * q) div 8 :: u64) = unat (of_nat (8 * q) :: u64)"
    by (simp add: unat_div unat_of_nat_u64 del: of_nat_mult)
  then have "(of_nat (64 * q) div 8 :: u64) = of_nat (8 * q)" by (simp only: word_unat_eq_iff)
  then show ?thesis by (simp add: algebra_simps)
qed

lemma copy_line_copied:
  assumes d: "disjoint_blocks dst src N" and q: "64 * q + 64 \<le> N"
  shows "copy_line dst src (of_nat (64 * q)) (copied dst src (64 * q) mem) = copied dst src (64 * q + 64) mem"
proof -
  have "64 * q < 18446744073709551616" using d q by (simp add: disjoint_blocks_def)
  then show ?thesis
    using copied_fold [OF d, of "64 * q" 8 8 "\<lambda>k. copy_word (dst + 8 * (of_nat k + of_nat (64 * q) div 8)) (src + 8 * (of_nat k + of_nat (64 * q) div 8))" mem] q
    unfolding copy_line_def by (simp only: line_offset copy_word_copied) simp
qed

lemma copy_lines_copied:
  assumes d: "disjoint_blocks dst src N"
  shows "64 * (q + n) \<le> N \<Longrightarrow> copy_lines dst src (of_nat (64 * q)) n (copied dst src (64 * q) mem) =
    (of_nat (64 * (q + n)), copied dst src (64 * (q + n)) mem)"
proof (induction n arbitrary: q)
  case (Suc n)
  have "of_nat (64 * q) + 64 = (of_nat (64 * Suc q) :: u64)" by simp
  moreover have "copy_line dst src (of_nat (64 * q)) (copied dst src (64 * q) mem) = copied dst src (64 * Suc q) mem"
    using copy_line_copied [OF d, of q mem] Suc.prems by (simp add: add.commute)
  ultimately show ?case using Suc.IH [of "Suc q"] Suc.prems by (simp add: add.commute del: of_nat_mult)
qed simp

lemma copy_bytes_copied:
  assumes d: "disjoint_blocks dst src N"
  shows "k + n \<le> N \<Longrightarrow> copy_bytes dst src (of_nat k) n (copied dst src k mem) = copied dst src (k + n) mem"
proof (induction n arbitrary: k)
  case (Suc n)
  let ?m = "copied dst src k mem"
  have "?m(dst + of_nat k := ?m (src + of_nat k)) = copied dst src (k + 1) mem"
    using copied_join [OF d, of k 1 mem] Suc.prems by (simp add: copied_Suc [unfolded One_nat_def])
  then show ?case using Suc.IH [of "Suc k"] Suc.prems by (simp add: add.commute)
qed simp

lemma memcpy_copied:
  assumes d: "disjoint_blocks dst src (unat n)"
  shows "memcpy dst src n mem = copied dst src (unat n) mem"
proof -
  let ?q = "unat n div 64"
  have "n mod 64 \<le> n" by (simp add: word_le_nat_alt unat_mod)
  then have a: "unat (n - n mod 64) = 64 * ?q" by (simp only: unat_sub) (simp add: unat_mod minus_mod_eq_mult_div)
  have le: "64 * ?q \<le> unat n" by simp
  then have u: "unat (of_nat (64 * ?q) :: u64) = 64 * ?q" using u64_bound [of n] by (intro unat_of_nat_u64) linarith
  have "copy_lines dst src 0 ?q mem = (of_nat (64 * ?q), copied dst src (64 * ?q) mem)"
    using copy_lines_copied [OF d, of 0 ?q mem] by simp
  then have "memcpy dst src n mem = copy_bytes dst src (of_nat (64 * ?q)) (unat n - 64 * ?q) (copied dst src (64 * ?q) mem)"
    by (simp add: memcpy_def Let_def a u del: of_nat_mult)
  then show ?thesis using copy_bytes_copied [OF d, of "64 * ?q" "unat n - 64 * ?q" mem] le by simp
qed

lemma memset_set: "n < 18446744073709551616 \<Longrightarrow> memset_loop dst d n mem = (\<lambda>a. if unat (a - dst) < n then d else mem a)"
proof (induction n arbitrary: dst mem)
  case (Suc n)
  have "unat (a - dst) < Suc n \<longleftrightarrow> a = dst \<or> unat (a - (dst + 1)) < n" for a
    using unat_sub_of_nat [of 1 "a - dst"] Suc.prems unat_eq_zero [of "a - dst"] by (cases "a = dst") (auto simp: diff_diff_eq)
  then show ?case using Suc by (auto simp: fun_eq_iff)
qed simp

section \<open>Frequencies\<close>

record CPUFrequencies =
  core_base_freq :: u64
  core_maximum_freq :: u64
  core_crystal_clock_freq :: u64
  bus_freq :: u64

text \<open>
  The registers \<open>eax\<close>, \<open>ebx\<close>, \<open>ecx\<close> and \<open>edx\<close> that the instruction \<open>cpuid\<close> returns for a leaf are a parameter;
  a leaf that the processor does not have leaves the variables as they are.
\<close>

definition get_cpu_frequencies :: "(u32 \<Rightarrow> (u32 \<times> u32 \<times> u32 \<times> u32) option) \<Rightarrow> CPUFrequencies" where
  "get_cpu_frequencies cpuid =
     (let (eax, ebx, ecx, edx) = (case cpuid 0x16 of None \<Rightarrow> (0, 0, 0, 0) | Some r \<Rightarrow> r);
          (eax', ebx', ecx', edx') = (case cpuid 0x15 of None \<Rightarrow> (eax, ebx, ecx, edx) | Some r \<Rightarrow> r)
      in \<lparr>core_base_freq = ucast (eax AND 0x00FF), core_maximum_freq = ucast (ebx AND 0x00FF),
          core_crystal_clock_freq = ucast ecx', bus_freq = ucast (ecx AND 0x00FF)\<rparr>)"

text \<open>Only the low eight bits of the frequency in MHz are kept: no processor reports 256 MHz or more.\<close>

lemma get_cpu_frequencies_truncates: "core_base_freq (get_cpu_frequencies cpuid) < 256" "bus_freq (get_cpu_frequencies cpuid) < 256"
proof -
  have "(ucast (w AND 0xFF :: u32) :: u64) < 256" for w
  proof -
    have "w AND 0xFF = take_bit 8 w" by (simp add: take_bit_eq_mask mask_eq_exp_minus_1)
    moreover have "unat (take_bit 8 w) < 256" by (simp add: take_bit_eq_mod unat_mod)
    ultimately show ?thesis by (simp add: word_less_nat_alt unsigned_ucast_eq take_bit_nat_eq_self)
  qed
  then show "core_base_freq (get_cpu_frequencies cpuid) < 256" "bus_freq (get_cpu_frequencies cpuid) < 256"
    by (simp_all add: get_cpu_frequencies_def Let_def split: prod.splits)
qed

section \<open>Properties\<close>

text \<open>
  C23. \<open>memcpy\<close>, which copies 64 bytes at a time and then single bytes, does what a copy byte by byte does:
  for blocks that do not overlap, every byte of the destination gets the byte of the source at its offset,
  and no other byte changes.
\<close>

theorem memcpy_correct:
  assumes "disjoint_blocks dst src (unat n)"
  shows "memcpy dst src n mem = (\<lambda>a. if unat (a - dst) < unat n then mem (src + (a - dst)) else mem a)"
  using memcpy_copied [OF assms] by (simp add: copied_def)

theorem memcpy_correct_witness:
  "\<forall>mem. memcpy 0x1000 0x2000 100 mem 0x1063 = mem 0x2063 \<and> memcpy 0x1000 0x2000 100 mem 0x1064 = mem 0x1064"
proof -
  have "(0x2000 :: u64) + of_nat i \<noteq> 0x1000 + of_nat j" if "i < 100" "j < 100" for i j
    using that by (simp add: word_unat_eq_iff unat_add_u64 unat_of_nat_u64)
  then have "disjoint_blocks 0x1000 0x2000 (unat (100 :: u64))" by (simp add: disjoint_blocks_def)
  from memcpy_correct [OF this] show ?thesis by simp
qed

end
