(* ===== verification/Linked_List.thy ===== *)
theory Linked_List
  imports Heap_Spec
begin

text \<open>
  The singly linked list (kernel/util/linked_list.c). The nodes are blocks of the heap; a store maps the
  address of a node to its fields. The operations that the list calls, \<open>kmalloc\<close> and \<open>kfree\<close>, are an
  interface with the laws that the list relies on, and the heap provides them.
\<close>

section \<open>Operations\<close>

record LinkedListNode =
  node_data :: addr
  ll_next :: addr

record LinkedList =
  ll_head :: addr
  ll_size :: u64

type_synonym 's ll_state = "LinkedList \<times> (addr \<Rightarrow> LinkedListNode) \<times> 's"

definition create_linked_list :: LinkedList where
  "create_linked_list = \<lparr>ll_head = NULL, ll_size = 0\<rparr>"

definition linked_list_push_front :: "(u64 \<Rightarrow> 's \<Rightarrow> (addr \<times> 's) kres) \<Rightarrow> addr \<Rightarrow> 's ll_state \<Rightarrow> 's ll_state kres" where
  "linked_list_push_front km d = (\<lambda>(ll, ns, s).
     kbind (km 16 s) (\<lambda>(p, s1).
       Inr (ll\<lparr>ll_head := p, ll_size := ll_size ll + 1\<rparr>, ns(p := \<lparr>node_data = d, ll_next = ll_head ll\<rparr>), s1)))"

definition linked_list_pop_front :: "(addr \<Rightarrow> 's \<Rightarrow> 's kres) \<Rightarrow> 's ll_state \<Rightarrow> 's ll_state kres" where
  "linked_list_pop_front kf = (\<lambda>(ll, ns, s).
     kassert (ll_head ll \<noteq> NULL \<and> ll_size ll \<noteq> 0)
       (kbind (kf (ll_head ll) s) (\<lambda>s1.
          Inr (ll\<lparr>ll_head := ll_next (ns (ll_head ll)), ll_size := ll_size ll - 1\<rparr>, ns, s1))))"

definition linked_list_insert_after :: "(u64 \<Rightarrow> 's \<Rightarrow> (addr \<times> 's) kres) \<Rightarrow> addr \<Rightarrow> addr \<Rightarrow> 's ll_state \<Rightarrow> 's ll_state kres" where
  "linked_list_insert_after km node d = (\<lambda>(ll, ns, s).
     kassert (ll_head ll \<noteq> NULL \<and> ll_size ll \<noteq> 0 \<and> node \<noteq> NULL)
       (kbind (km 16 s) (\<lambda>(p, s1).
          let ns1 = ns(p := \<lparr>node_data = d, ll_next = ll_next (ns node)\<rparr>)
          in Inr (ll\<lparr>ll_size := ll_size ll + 1\<rparr>, ns1(node := (ns1 node)\<lparr>ll_next := p\<rparr>), s1))))"

definition linked_list_remove_after :: "(addr \<Rightarrow> 's \<Rightarrow> 's kres) \<Rightarrow> addr \<Rightarrow> 's ll_state \<Rightarrow> 's ll_state kres" where
  "linked_list_remove_after kf node = (\<lambda>(ll, ns, s).
     kassert (ll_head ll \<noteq> NULL \<and> ll_size ll \<noteq> 0 \<and> node \<noteq> NULL)
      (kassert (ll_next (ns node) \<noteq> NULL)
        (let new_next = ll_next (ns (ll_next (ns node)))
         in kbind (kf (ll_next (ns node)) s) (\<lambda>s1.
              Inr (ll\<lparr>ll_size := ll_size ll - 1\<rparr>, ns(node := (ns node)\<lparr>ll_next := new_next\<rparr>), s1)))))"

text \<open>The loop that follows \<open>n\<close> pointers.\<close>

fun ll_walk :: "(addr \<Rightarrow> LinkedListNode) \<Rightarrow> addr \<Rightarrow> nat \<Rightarrow> addr kres" where
  "ll_walk ns p 0 = Inr p"
| "ll_walk ns p (Suc n) = kassert (p \<noteq> NULL) (ll_walk ns (ll_next (ns p)) n)"

definition linked_list_insert_at :: "(u64 \<Rightarrow> 's \<Rightarrow> (addr \<times> 's) kres) \<Rightarrow> u64 \<Rightarrow> addr \<Rightarrow> 's ll_state \<Rightarrow> 's ll_state kres" where
  "linked_list_insert_at km index d = (\<lambda>(ll, ns, s).
     if index = 0 then linked_list_push_front km d (ll, ns, s)
     else kbind (ll_walk ns (ll_head ll) (unat (index - 1))) (\<lambda>prev. linked_list_insert_after km prev d (ll, ns, s)))"

definition linked_list_remove_at :: "(addr \<Rightarrow> 's \<Rightarrow> 's kres) \<Rightarrow> u64 \<Rightarrow> 's ll_state \<Rightarrow> 's ll_state kres" where
  "linked_list_remove_at kf index = (\<lambda>(ll, ns, s).
     kassert (ll_head ll \<noteq> NULL \<and> ll_size ll \<noteq> 0)
       (if index = 0 then linked_list_pop_front kf (ll, ns, s)
        else kbind (ll_walk ns (ll_head ll) (unat (index - 1))) (\<lambda>prev. linked_list_remove_after kf prev (ll, ns, s))))"

definition linked_list_get_at :: "u64 \<Rightarrow> LinkedList \<Rightarrow> (addr \<Rightarrow> LinkedListNode) \<Rightarrow> addr kres" where
  "linked_list_get_at index ll ns = ll_walk ns (ll_head ll) (unat (index - 1))"

text \<open>The loop that frees the nodes; more than \<open>2^61\<close> nodes do not fit in memory.\<close>

fun free_nodes :: "nat \<Rightarrow> (addr \<Rightarrow> 's \<Rightarrow> 's kres) \<Rightarrow> (addr \<Rightarrow> LinkedListNode) \<Rightarrow> addr \<Rightarrow> 's \<Rightarrow> 's kres" where
  "free_nodes n kf ns node s =
     (if node = NULL then Inr s
      else (case n of 0 \<Rightarrow> Inl Hang | Suc m \<Rightarrow> kbind (kf node s) (free_nodes m kf ns (ll_next (ns node)))))"

declare free_nodes.simps [simp del]

definition linked_list_destroy :: "(addr \<Rightarrow> 's \<Rightarrow> 's kres) \<Rightarrow> 's ll_state \<Rightarrow> 's ll_state kres" where
  "linked_list_destroy kf = (\<lambda>(ll, ns, s).
     kbind (free_nodes (2 ^ 61) kf ns (ll_head ll) s) (\<lambda>s1. Inr (\<lparr>ll_head = NULL, ll_size = 0\<rparr>, ns, s1)))"

section \<open>The list that a chain of nodes represents\<close>

fun chain :: "(addr \<Rightarrow> LinkedListNode) \<Rightarrow> addr \<Rightarrow> addr list \<Rightarrow> addr \<Rightarrow> bool" where
  "chain ns h [] e \<longleftrightarrow> h = e"
| "chain ns h (p # ps) e \<longleftrightarrow> h = p \<and> p \<noteq> NULL \<and> chain ns (ll_next (ns p)) ps e"

lemma chain_append: "chain ns h (ps @ qs) e \<longleftrightarrow> (\<exists>m. chain ns h ps m \<and> chain ns m qs e)"
  by (induction ps arbitrary: h) auto

lemma chain_upd [simp]: "p \<notin> set ps \<Longrightarrow> chain (ns(p := x)) h ps e = chain ns h ps e"
  by (induction ps arbitrary: h) auto

lemma ll_walk_chain: "chain ns h ps e \<Longrightarrow> n < length ps \<Longrightarrow> ll_walk ns h n = Inr (ps ! n)"
proof (induction ps arbitrary: h n)
  case (Cons p ps)
  then show ?case by (cases n) auto
qed simp

text \<open>The nodes are \<open>ps\<close> in order, their number is stored, and they are owned by the list.\<close>

definition ll_ok :: "(addr set \<Rightarrow> 's \<Rightarrow> bool) \<Rightarrow> addr list \<Rightarrow> 's ll_state \<Rightarrow> bool" where
  "ll_ok owned ps st \<longleftrightarrow> (case st of (ll, ns, s) \<Rightarrow>
     chain ns (ll_head ll) ps NULL \<and> distinct ps \<and> unat (ll_size ll) = length ps \<and> owned (set ps) s)"

definition ll_data :: "addr list \<Rightarrow> 's ll_state \<Rightarrow> addr list" where
  "ll_data ps st = map (\<lambda>p. node_data (fst (snd st) p)) ps"

section \<open>The allocator\<close>

locale node_allocator =
  fixes km :: "u64 \<Rightarrow> 's \<Rightarrow> (addr \<times> 's) kres" and kf :: "addr \<Rightarrow> 's \<Rightarrow> 's kres"
    and owned :: "addr set \<Rightarrow> 's \<Rightarrow> bool" and room :: "'s \<Rightarrow> bool"
  assumes alloc: "owned X s \<Longrightarrow> room s \<Longrightarrow> \<exists>p s'. km 16 s = Inr (p, s') \<and> p \<noteq> NULL \<and> p \<notin> X \<and> owned (insert p X) s'"
    and free: "owned X s \<Longrightarrow> p \<in> X \<Longrightarrow> \<exists>s'. kf p s = Inr s' \<and> owned (X - {p}) s'"
begin

lemma push_front:
  assumes ok: "ll_ok owned ps (ll, ns, s)" and room: "room s" and len: "length ps + 1 < 2 ^ 64"
  shows "\<exists>p st'. linked_list_push_front km d (ll, ns, s) = Inr st' \<and> ll_ok owned (p # ps) st' \<and>
    ll_data (p # ps) st' = d # ll_data ps (ll, ns, s)"
proof -
  have c: "chain ns (ll_head ll) ps NULL" "distinct ps" "unat (ll_size ll) = length ps" "owned (set ps) s"
    using ok by (simp_all add: ll_ok_def)
  obtain p s1 where p: "km 16 s = Inr (p, s1)" "p \<noteq> NULL" "p \<notin> set ps" "owned (insert p (set ps)) s1" using alloc [OF c(4) room] by blast
  have "unat (ll_size ll + 1) = length ps + 1" using c(3) len by (simp add: unat_add_u64)
  then show ?thesis using c p
    by (intro exI [of _ p]) (auto simp: linked_list_push_front_def ll_ok_def ll_data_def)
qed

lemma insert_after:
  assumes ok: "ll_ok owned (a @ [q] @ b) (ll, ns, s)" and room: "room s" and len: "length (a @ [q] @ b) + 1 < 2 ^ 64"
  shows "\<exists>p st'. linked_list_insert_after km q d (ll, ns, s) = Inr st' \<and> ll_ok owned (a @ [q, p] @ b) st' \<and>
    ll_data (a @ [q, p] @ b) st' = ll_data (a @ [q]) (ll, ns, s) @ [d] @ ll_data b (ll, ns, s)"
proof -
  have c: "chain ns (ll_head ll) a q" "q \<noteq> NULL" "chain ns (ll_next (ns q)) b NULL" "distinct (a @ [q] @ b)"
    "unat (ll_size ll) = length (a @ [q] @ b)" "owned (set (a @ [q] @ b)) s"
    using ok by (auto simp: ll_ok_def chain_append)
  obtain p s1 where p: "km 16 s = Inr (p, s1)" "p \<noteq> NULL" "p \<notin> set (a @ [q] @ b)" "owned (insert p (set (a @ [q] @ b))) s1"
    using alloc [OF c(6) room] by blast
  have h: "ll_head ll \<noteq> NULL" "ll_size ll \<noteq> 0" using c(1,2,5) by (cases a; auto)+
  have "unat (ll_size ll + 1) = length (a @ [q] @ b) + 1" using c(5) len by (simp add: unat_add_u64)
  moreover have "insert p (set (a @ [q] @ b)) = set (a @ [q, p] @ b)" by auto
  ultimately show ?thesis using c p h
    by (intro exI [of _ p]) (auto simp: linked_list_insert_after_def ll_ok_def ll_data_def chain_append intro!: exI [of _ q])
qed

lemma pop_front:
  assumes ok: "ll_ok owned (q # b) (ll, ns, s)"
  shows "\<exists>st'. linked_list_pop_front kf (ll, ns, s) = Inr st' \<and> ll_ok owned b st' \<and> ll_data b st' = ll_data b (ll, ns, s)"
proof -
  have c: "ll_head ll = q" "q \<noteq> NULL" "chain ns (ll_next (ns q)) b NULL" "distinct (q # b)" "unat (ll_size ll) = length (q # b)"
    "owned (set (q # b)) s" using ok by (auto simp: ll_ok_def)
  obtain s1 where s1: "kf q s = Inr s1" "owned (set (q # b) - {q}) s1" using free [OF c(6), of q] by auto
  have "ll_size ll \<noteq> 0" using c(5) by auto
  moreover have "unat (ll_size ll - 1) = length b" using c(5) calculation by (simp add: unat_minus_one)
  moreover have "set (q # b) - {q} = set b" using c(4) by auto
  ultimately show ?thesis using c s1 by (simp add: linked_list_pop_front_def ll_ok_def ll_data_def)
qed

lemma remove_after:
  assumes ok: "ll_ok owned (a @ [q, r] @ b) (ll, ns, s)"
  shows "\<exists>st'. linked_list_remove_after kf q (ll, ns, s) = Inr st' \<and> ll_ok owned (a @ [q] @ b) st' \<and>
    ll_data (a @ [q] @ b) st' = ll_data (a @ [q] @ b) (ll, ns, s)"
proof -
  have c: "chain ns (ll_head ll) a q" "q \<noteq> NULL" "ll_next (ns q) = r" "r \<noteq> NULL" "chain ns (ll_next (ns r)) b NULL"
    "distinct (a @ [q, r] @ b)" "unat (ll_size ll) = length (a @ [q, r] @ b)" "owned (set (a @ [q, r] @ b)) s"
    using ok by (auto simp: ll_ok_def chain_append)
  obtain s1 where s1: "kf r s = Inr s1" "owned (set (a @ [q, r] @ b) - {r}) s1" using free [OF c(8), of r] by auto
  have h: "ll_head ll \<noteq> NULL" "ll_size ll \<noteq> 0" using c(1,2,7) by (cases a; auto)+
  have "unat (ll_size ll - 1) = length (a @ [q] @ b)" using c(7) h(2) by (simp add: unat_minus_one)
  moreover have "set (a @ [q, r] @ b) - {r} = set (a @ [q] @ b)" using c(6) by auto
  ultimately show ?thesis using c s1 h
    by (auto simp: linked_list_remove_after_def ll_ok_def ll_data_def chain_append Let_def intro!: exI [of _ q])
qed

lemma insert_at:
  assumes ok: "ll_ok owned ps (ll, ns, s)" and room: "room s" and i: "unat index \<le> length ps" and len: "length ps + 1 < 2 ^ 64"
  shows "\<exists>ps' st'. linked_list_insert_at km index d (ll, ns, s) = Inr st' \<and> ll_ok owned ps' st' \<and>
    ll_data ps' st' = take (unat index) (ll_data ps (ll, ns, s)) @ [d] @ drop (unat index) (ll_data ps (ll, ns, s))"
proof (cases "index = 0")
  case True
  then show ?thesis using push_front [OF ok room len, of d] by (auto simp: linked_list_insert_at_def)
next
  case False
  then have j: "unat (index - 1) = unat index - 1" "0 < unat index" by (simp_all add: unat_minus_one unat_gt_0)
  have lt: "unat index - 1 < length ps" using i j(2) by linarith
  obtain a q b where ps: "ps = a @ [q] @ b" "length a = unat index - 1" using id_take_nth_drop [OF lt] lt by (metis append_Cons append_Nil length_take min.absorb4)
  have "ll_walk ns (ll_head ll) (unat index - 1) = Inr q"
    using ll_walk_chain [OF _ lt] ok ps by (auto simp: ll_ok_def nth_append)
  moreover have "take (unat index) (ll_data ps x) = ll_data (a @ [q]) x" "drop (unat index) (ll_data ps x) = ll_data b x" for x :: "'s ll_state"
    using ps j(2) by (simp_all add: ll_data_def take_Cons' drop_Cons')
  ultimately show ?thesis using False j(1) insert_after [of a q b ll ns s d] ok room len ps(1)
    by (fastforce simp: linked_list_insert_at_def)
qed

lemma remove_at:
  assumes ok: "ll_ok owned ps (ll, ns, s)" and i: "unat index < length ps"
  shows "\<exists>ps' st'. linked_list_remove_at kf index (ll, ns, s) = Inr st' \<and> ll_ok owned ps' st' \<and>
    ll_data ps' st' = take (unat index) (ll_data ps (ll, ns, s)) @ drop (Suc (unat index)) (ll_data ps (ll, ns, s))"
proof -
  have h: "ll_head ll \<noteq> NULL" "ll_size ll \<noteq> 0" using ok i by (cases ps; auto simp: ll_ok_def)+
  show ?thesis
  proof (cases "index = 0")
    case True
    obtain q b where ps: "ps = q # b" using i by (cases ps) auto
    then obtain st' where "linked_list_pop_front kf (ll, ns, s) = Inr st'" "ll_ok owned b st'" "ll_data b st' = ll_data b (ll, ns, s)"
      using pop_front [of q b ll ns s] ok by blast
    then show ?thesis using True h by (intro exI [of _ b] exI [of _ st']) (simp add: linked_list_remove_at_def ps ll_data_def)
  next
    case False
    then have j: "unat (index - 1) = unat index - 1" "0 < unat index" by (simp_all add: unat_minus_one unat_gt_0)
    have lt: "unat index - 1 < length ps" using i by linarith
    obtain a q c where ps: "ps = a @ [q] @ c" "length a = unat index - 1" using id_take_nth_drop [OF lt] lt by (metis append_Cons append_Nil length_take min.absorb4)
    obtain r b where c: "c = r # b" using i ps j(2) by (cases c) auto
    have "ll_walk ns (ll_head ll) (unat index - 1) = Inr q"
      using ll_walk_chain [OF _ lt] ok ps by (auto simp: ll_ok_def nth_append)
    moreover have "take (unat index) (ll_data ps x) @ drop (Suc (unat index)) (ll_data ps x) = ll_data (a @ [q] @ b) x" for x :: "'s ll_state"
      using ps c j(2) by (simp add: ll_data_def take_Cons' drop_Cons')
    ultimately show ?thesis using False j(1) h remove_after [of a q r b ll ns s] ok ps(1) c
      by (fastforce simp: linked_list_remove_at_def)
  qed
qed

end

text \<open>The heap provides the nodes: those of the list are blocks in use.\<close>

definition blocks_owned :: "addr set \<Rightarrow> ('h, 'v) heap_state \<Rightarrow> bool" where
  "blocks_owned X s \<longleftrightarrow> \<not> kheap_lock s \<and> (\<exists>cs. heap_inv s cs \<and> (\<forall>p \<in> X. \<exists>j. (unat p, j) \<in> used cs))"

definition heap_room :: "nat \<Rightarrow> ('h, 'v) heap_state \<Rightarrow> bool" where
  "heap_room n s \<longleftrightarrow> (\<forall>cs. heap_inv s cs \<longrightarrow> servable cs (rnd n) \<and> rnd n + 32 \<le> csize (last cs))"

lemma used_not_null: "heap_inv s cs \<Longrightarrow> (unat p, j) \<in> used cs \<Longrightarrow> p \<noteq> NULL"
  by (erule used_addr, assumption) auto

interpretation heap_nodes: node_allocator "kmalloc expand" kfree blocks_owned "heap_room 16" for expand :: "('h, 'v) expand_op"
proof unfold_locales
  fix X and s :: "('h, 'v) heap_state"
  assume o: "blocks_owned X s" and r: "heap_room 16 s"
  obtain cs where cs: "\<not> kheap_lock s" "heap_inv s cs" "\<forall>p \<in> X. \<exists>j. (unat p, j) \<in> used cs" using o by (auto simp: blocks_owned_def)
  have "servable cs (rnd 16)" "rnd 16 + 32 \<le> csize (last cs)" using r cs(2) by (simp_all add: heap_room_def)
  then obtain p s' cs' where p: "kmalloc expand 16 s = Inr (p, s')" "heap_inv s' cs'" "\<not> kheap_lock s'"
      "used cs' = insert (unat p, rnd (unat (16 :: u64))) (used cs)" "\<forall>j. (unat p, j) \<notin> used cs"
    using kmalloc_law [OF cs(2,1), of 16 expand] by auto
  have "p \<noteq> NULL" using used_not_null [OF p(2), of p] p(4) by blast
  moreover have "p \<notin> X" using cs(3) p(5) by blast
  moreover have "blocks_owned (insert p X) s'" using p(2-4) cs(3) unfolding blocks_owned_def by (intro conjI exI [of _ cs'] ballI) (blast | simp)+
  ultimately show "\<exists>p s'. kmalloc expand 16 s = Inr (p, s') \<and> p \<noteq> NULL \<and> p \<notin> X \<and> blocks_owned (insert p X) s'" using p(1) by blast
next
  fix X p and s :: "('h, 'v) heap_state"
  assume o: "blocks_owned X s" and p: "p \<in> X"
  obtain cs where cs: "\<not> kheap_lock s" "heap_inv s cs" "\<forall>p \<in> X. \<exists>j. (unat p, j) \<in> used cs" using o by (auto simp: blocks_owned_def)
  obtain j where j: "(unat p, j) \<in> used cs" using cs(3) p by blast
  obtain s' cs' where s': "kfree p s = Inr s'" "heap_inv s' cs'" "\<not> kheap_lock s'" "used cs' = used cs - {(unat p, j)}"
    using kfree_law [OF cs(2,1) j] by blast
  have "\<forall>q \<in> X - {p}. \<exists>j. (unat q, j) \<in> used cs'" using cs(3) s'(4) by (auto simp: word_unat_eq_iff)
  then show "\<exists>s'. kfree p s = Inr s' \<and> blocks_owned (X - {p}) s'" using s'(1-3) unfolding blocks_owned_def by blast
qed

section \<open>The list on the kernel's heap\<close>

text \<open>Insertion and removal at an index count from 0; \<open>linked_list_get_at\<close> counts from 1.\<close>

lemma linked_list_insert_at_heap:
  "ll_ok blocks_owned ps (ll, ns, s) \<Longrightarrow> heap_room 16 s \<Longrightarrow> unat index \<le> length ps \<Longrightarrow> length ps + 1 < 2 ^ 64 \<Longrightarrow>
   \<exists>ps' st'. linked_list_insert_at (kmalloc expand) index d (ll, ns, s) = Inr st' \<and> ll_ok blocks_owned ps' st' \<and>
     ll_data ps' st' = take (unat index) (ll_data ps (ll, ns, s)) @ [d] @ drop (unat index) (ll_data ps (ll, ns, s))"
  by (rule heap_nodes.insert_at)

lemma linked_list_remove_at_heap:
  "ll_ok blocks_owned ps (ll, ns, s) \<Longrightarrow> unat index < length ps \<Longrightarrow>
   \<exists>ps' st'. linked_list_remove_at kfree index (ll, ns, s) = Inr st' \<and> ll_ok blocks_owned ps' st' \<and>
     ll_data ps' st' = take (unat index) (ll_data ps (ll, ns, s)) @ drop (Suc (unat index)) (ll_data ps (ll, ns, s))"
  by (rule heap_nodes.remove_at)

lemma linked_list_get_at_counts_from_1:
  assumes "ll_ok owned ps (ll, ns, s)" and "0 < unat index" and "unat index \<le> length ps"
  shows "linked_list_get_at index ll ns = Inr (ps ! (unat index - 1))"
proof -
  have "unat (index - 1) = unat index - 1" using assms(2) by (simp add: unat_minus_one unat_gt_0)
  then show ?thesis using assms ll_walk_chain [of ns "ll_head ll" ps NULL "unat index - 1"]
    by (simp add: linked_list_get_at_def ll_ok_def)
qed

end
