(* ===== verification/Acpi.thy ===== *)
theory Acpi
  imports Vmm
begin

text \<open>
  The ACPI tables: the search for the root pointer (kernel/HAL/bios/acpi.c), the checks and the search
  of a table (kernel/acpi/acpi.c) and the interrupt controller structures of the MADT
  (kernel/acpi/madt.c). The tables are bytes of the firmware's memory, which the kernel reads through its
  identity mapping; the field of a packed structure is read at its offset. The cached pointers are fields
  of the kernel's state.
\<close>

section \<open>Structures in memory\<close>

definition read_u16 :: "bytes \<Rightarrow> addr \<Rightarrow> u16" where
  "read_u16 mem a = ucast (mem a) OR push_bit 8 (ucast (mem (a + 1)))"

definition read_u64 :: "bytes \<Rightarrow> addr \<Rightarrow> u64" where
  "read_u64 mem a = ucast (read_u32 mem a) OR push_bit 32 (ucast (read_u32 mem (a + 4)))"

record RSDP =
  rsdp_signature :: u64
  rsdp_revision :: u8
  rsdp_rsdt :: u32

definition read_RSDP :: "bytes \<Rightarrow> addr \<Rightarrow> RSDP" where
  "read_RSDP mem p = \<lparr>rsdp_signature = read_u64 mem p, rsdp_revision = mem (p + 15), rsdp_rsdt = read_u32 mem (p + 16)\<rparr>"

definition xsdp_xsdt :: "bytes \<Rightarrow> addr \<Rightarrow> u64" where
  "xsdp_xsdt mem p = read_u64 mem (p + 24)"

record ACPI_description_header =
  acpi_signature :: u32
  acpi_lenght :: u32

definition read_ACPI_header :: "bytes \<Rightarrow> addr \<Rightarrow> ACPI_description_header" where
  "read_ACPI_header mem p = \<lparr>acpi_signature = read_u32 mem p, acpi_lenght = read_u32 mem (p + 4)\<rparr>"

abbreviation (input) sizeof_ACPI_description_header :: u64 where
  "sizeof_ACPI_description_header \<equiv> 36"

abbreviation (input) sizeof_MADT :: u64 where
  "sizeof_MADT \<equiv> 44"

text \<open>The characters \<open>RSD PTR\<close> and a blank, the first one in the lowest byte.\<close>

definition rsdp_magic :: u64 where
  "rsdp_magic = 0x2052545020445352"

section \<open>The root pointer\<close>

text \<open>The loops over 16-byte boundaries, \<open>n\<close> boundaries from \<open>a\<close> on.\<close>

fun scan_rsdp :: "bytes \<Rightarrow> addr \<Rightarrow> nat \<Rightarrow> addr" where
  "scan_rsdp mem a 0 = NULL"
| "scan_rsdp mem a (Suc n) = (if read_u64 mem a = rsdp_magic \<and> a \<noteq> NULL then a else scan_rsdp mem (a + 16) n)"

definition align_16 :: "addr \<Rightarrow> addr" where
  "align_16 a = (if a mod 16 \<noteq> 0 then a + (16 - a mod 16) else a)"

text \<open>
  The segment of the extended BIOS data area is at the physical address 0x40E, which is read through a
  mapping of the first page.
\<close>

definition acpi_RSDP :: "kmalloc_op \<Rightarrow> kstate \<Rightarrow> (addr \<times> kstate) kres" where
  "acpi_RSDP km s =
     kbind (memory_map km KernelVMM 0 PAGE_SIZE 1 s) (\<lambda>(first_page, s1).
     kbind (get_vmem_addr first_page s1) (\<lambda>_.
       let mem = acpi_mem (vmem s1);
           EBDA_segment = read_u16 mem 0x40E
       in kbind (deallocate_kernel_virtual_memory km first_page s1) (\<lambda>(_, s2).
            let EBDA_addr = align_16 ((ucast EBDA_segment * 0x10) AND 0xFFFFF);
                first = scan_rsdp mem EBDA_addr 64
            in Inr (if first \<noteq> NULL then first else scan_rsdp mem 0xE0000 8192, s2))))"

section \<open>Checks\<close>

text \<open>The sum of \<open>n\<close> bytes in a byte.\<close>

fun checksum :: "bytes \<Rightarrow> addr \<Rightarrow> nat \<Rightarrow> u8 \<Rightarrow> u8" where
  "checksum mem a 0 c = c"
| "checksum mem a (Suc n) c = checksum mem (a + 1) n (c + mem a)"

definition check_rsdp :: "bytes \<Rightarrow> addr \<Rightarrow> bool" where
  "check_rsdp mem rsdp \<longleftrightarrow> rsdp_signature (read_RSDP mem rsdp) = rsdp_magic \<and> checksum mem rsdp 20 0 = 0"

definition check_xsdp :: "bytes \<Rightarrow> addr \<Rightarrow> bool" where
  "check_xsdp mem xsdp = check_rsdp mem xsdp"

definition check_ACPI_table :: "bytes \<Rightarrow> addr \<Rightarrow> bool" where
  "check_ACPI_table mem header \<longleftrightarrow> checksum mem header (unat (acpi_lenght (read_ACPI_header mem header))) 0 = 0"

definition get_rsdt :: "bytes \<Rightarrow> addr \<Rightarrow> addr" where
  "get_rsdt mem rsdp = ucast (rsdp_rsdt (read_RSDP mem rsdp))"

definition get_xsdt :: "bytes \<Rightarrow> addr \<Rightarrow> addr" where
  "get_xsdt mem xsdp = xsdp_xsdt mem xsdp"

definition get_acpi_table_headerless_lenght :: "bytes \<Rightarrow> addr \<Rightarrow> u64" where
  "get_acpi_table_headerless_lenght mem table =
     ucast (acpi_lenght (read_ACPI_header mem table)) - sizeof_ACPI_description_header"

section \<open>Tables\<close>

text \<open>The entries of a root table from the index \<open>i\<close> on, \<open>n\<close> of them, tried in order.\<close>

fun find_table :: "bytes \<Rightarrow> (u64 \<Rightarrow> addr) \<Rightarrow> u32 \<Rightarrow> u64 \<Rightarrow> nat \<Rightarrow> addr" where
  "find_table mem entry signature i 0 = NULL"
| "find_table mem entry signature i (Suc n) =
     (if acpi_signature (read_ACPI_header mem (entry i)) = signature then entry i
      else find_table mem entry signature (i + 1) n)"

definition rsdt_entry :: "bytes \<Rightarrow> addr \<Rightarrow> u64 \<Rightarrow> addr" where
  "rsdt_entry mem rsdt i = ucast (read_u32 mem (rsdt + sizeof_ACPI_description_header + 4 * i))"

definition xsdt_entry :: "bytes \<Rightarrow> addr \<Rightarrow> u64 \<Rightarrow> addr" where
  "xsdt_entry mem xsdt i = read_u64 mem (xsdt + sizeof_ACPI_description_header + 8 * i)"

definition get_table_header :: "u32 \<Rightarrow> kernel \<Rightarrow> addr kres" where
  "get_table_header signature k =
     kassert (cached_rsdp k \<noteq> NULL \<or> cached_xsdp k \<noteq> NULL)
       (let mem = acpi_mem k
        in if cached_xsdp k \<noteq> NULL then
             let xsdt = get_xsdt mem (cached_xsdp k)
             in Inr (find_table mem (xsdt_entry mem xsdt) signature 0 (unat (get_acpi_table_headerless_lenght mem xsdt div 8)))
           else
             let rsdt = get_rsdt mem (cached_rsdp k)
             in Inr (find_table mem (rsdt_entry mem rsdt) signature 0 (unat (get_acpi_table_headerless_lenght mem rsdt div 4))))"

text \<open>The four characters of a signature and a newline, up to the first null.\<close>

definition signature_line :: "bytes \<Rightarrow> addr \<Rightarrow> string" where
  "signature_line mem header =
     takeWhile (\<lambda>c. c \<noteq> CHR 0x00) (map (\<lambda>i. char_of (unat (mem (header + i)))) [0, 1, 2, 3] @ [CHR 0x0A])"

fun print_signatures :: "bytes \<Rightarrow> addr \<Rightarrow> u64 \<Rightarrow> nat \<Rightarrow> kstate \<Rightarrow> kstate kres" where
  "print_signatures mem rsdt i 0 s = Inr s"
| "print_signatures mem rsdt i (Suc n) s =
     kbind (on_kio (print (signature_line mem (rsdt_entry mem rsdt i))) s) (print_signatures mem rsdt (i + 1) n)"

definition print_acpi_rsdt :: "kstate \<Rightarrow> (bool \<times> kstate) kres" where
  "print_acpi_rsdt s =
     kassert (cached_rsdp (vmem s) \<noteq> NULL)
       (let mem = acpi_mem (vmem s);
            rsdt = get_rsdt mem (cached_rsdp (vmem s));
            number_of_entries = get_acpi_table_headerless_lenght mem rsdt div 4
        in kbind (on_kio (print (''ACPI table signatures: '' @ [CHR 0x0A, CHR 0x0A])) s) (\<lambda>s1.
           kbind (print_signatures mem rsdt 0 (unat number_of_entries) s1) (\<lambda>s2. Inr (True, s2))))"

text \<open>The revision is read before the pointer is compared with null.\<close>

definition acpi_init :: "kmalloc_op \<Rightarrow> kstate \<Rightarrow> (bool \<times> kstate) kres" where
  "acpi_init km s =
     kbind (acpi_RSDP km s) (\<lambda>(rsdp, s1).
       if rsdp = NULL then Inl Undefined
       else
         let mem = acpi_mem (vmem s1);
             is_acpi2 = rsdp_revision (read_RSDP mem rsdp) = 2;
             s2 = on_kernel (\<lambda>k. k\<lparr>cached_rsdp := rsdp, cached_xsdp := (if is_acpi2 then rsdp else cached_xsdp k)\<rparr>) s1
         in if (if is_acpi2 then check_xsdp mem rsdp else check_rsdp mem rsdp) then Inr (True, s2)
            else Inr (False, on_kernel (\<lambda>k. k\<lparr>cached_xsdp := NULL, cached_rsdp := NULL\<rparr>) s2))"

section \<open>The MADT\<close>

text \<open>The characters \<open>APIC\<close>.\<close>

definition madt_signature :: u32 where
  "madt_signature = 0x43495041"

definition get_MADT :: "kstate \<Rightarrow> (addr \<times> kstate) kres" where
  "get_MADT s =
     (if cached_madt (vmem s) \<noteq> NULL then Inr (cached_madt (vmem s), s)
      else kbind (get_table_header madt_signature (vmem s)) (\<lambda>header.
        if header = NULL then Inr (NULL, s)
        else if \<not> check_ACPI_table (acpi_mem (vmem s)) header then Inr (NULL, s)
        else Inr (header, on_kernel (cached_madt_update (\<lambda>_. header)) s)))"

definition madt_lenght :: "bytes \<Rightarrow> addr \<Rightarrow> u64" where
  "madt_lenght mem madt = ucast (acpi_lenght (read_ACPI_header mem madt))"

definition madt_flags :: "bytes \<Rightarrow> addr \<Rightarrow> u32" where
  "madt_flags mem madt = read_u32 mem (madt + 40)"

record ICS_header =
  ics_type :: u8
  ics_lenght :: u8

definition read_ICS_header :: "bytes \<Rightarrow> addr \<Rightarrow> ICS_header" where
  "read_ICS_header mem p = \<lparr>ics_type = mem p, ics_lenght = mem (p + 1)\<rparr>"

text \<open>
  The fields of the structures: the processor and the identifier of a local APIC, its flags, and the
  same for the other structures that the kernel reads.
\<close>

definition ics_lapic_uid :: "bytes \<Rightarrow> addr \<Rightarrow> u8" where
  "ics_lapic_uid mem p = mem (p + 2)"

definition ics_lapic_apic_id :: "bytes \<Rightarrow> addr \<Rightarrow> u8" where
  "ics_lapic_apic_id mem p = mem (p + 3)"

definition ics_lapic_flags :: "bytes \<Rightarrow> addr \<Rightarrow> u32" where
  "ics_lapic_flags mem p = read_u32 mem (p + 4)"

definition ics_nmi_uid :: "bytes \<Rightarrow> addr \<Rightarrow> u8" where
  "ics_nmi_uid mem p = mem (p + 2)"

definition ics_nmi_flags :: "bytes \<Rightarrow> addr \<Rightarrow> u16" where
  "ics_nmi_flags mem p = read_u16 mem (p + 3)"

definition ics_nmi_lint :: "bytes \<Rightarrow> addr \<Rightarrow> u8" where
  "ics_nmi_lint mem p = mem (p + 5)"

definition ics_override_address :: "bytes \<Rightarrow> addr \<Rightarrow> u64" where
  "ics_override_address mem p = read_u64 mem (p + 4)"

definition get_first_ICS_header :: "bytes \<Rightarrow> addr \<Rightarrow> addr kres" where
  "get_first_ICS_header mem madt =
     kassert (madt \<noteq> NULL)
       (let header = madt + sizeof_MADT
        in Inr (if header - madt \<ge> madt_lenght mem madt then NULL else header))"

definition get_next_ICS_header :: "bytes \<Rightarrow> addr \<Rightarrow> addr \<Rightarrow> addr kres" where
  "get_next_ICS_header mem madt header =
     kassert (madt \<noteq> NULL)
       (let nxt = header + ucast (ics_lenght (read_ICS_header mem header))
        in Inr (if nxt - madt \<ge> madt_lenght mem madt then NULL else nxt))"

text \<open>
  The loop \<open>for(header = first; header != NULL; header = next)\<close>. The headers lie within the \<open>2^32\<close> bytes
  that the length of the table can describe: a loop that visits more of them meets one twice and does
  not end.
\<close>

fun for_ics :: "nat \<Rightarrow> bytes \<Rightarrow> addr \<Rightarrow> (addr \<Rightarrow> 's \<Rightarrow> 's kres) \<Rightarrow> addr \<Rightarrow> 's \<Rightarrow> 's kres" where
  "for_ics n mem madt f header x =
     (if header = NULL then Inr x
      else (case n of 0 \<Rightarrow> Inl Hang
            | Suc m \<Rightarrow> kbind (f header x) (\<lambda>y. kbind (get_next_ICS_header mem madt header) (\<lambda>h. for_ics m mem madt f h y))))"

declare for_ics.simps [simp del]

definition each_ICS_header :: "bytes \<Rightarrow> addr \<Rightarrow> (addr \<Rightarrow> 's \<Rightarrow> 's kres) \<Rightarrow> 's \<Rightarrow> 's kres" where
  "each_ICS_header mem madt f x = kbind (get_first_ICS_header mem madt) (\<lambda>h. for_ics (2 ^ 32) mem madt f h x)"

text \<open>The local APICs that are enabled or can be.\<close>

definition usable_lapic :: "bytes \<Rightarrow> addr \<Rightarrow> bool" where
  "usable_lapic mem header \<longleftrightarrow> ics_lapic_flags mem header AND 3 \<noteq> 0"

definition count_number_of_local_apic :: "bytes \<Rightarrow> addr \<Rightarrow> u64 kres" where
  "count_number_of_local_apic mem madt =
     kassert (madt \<noteq> NULL)
       (each_ICS_header mem madt (\<lambda>header count.
          Inr (if ics_type (read_ICS_header mem header) = 0 \<and> usable_lapic mem header then count + 1 else count)) 0)"

definition count_ICS_header_instances :: "bytes \<Rightarrow> addr \<Rightarrow> u8 \<Rightarrow> u64 kres" where
  "count_ICS_header_instances mem madt ty =
     kassert (madt \<noteq> NULL)
       (each_ICS_header mem madt (\<lambda>header count.
          Inr (if ics_type (read_ICS_header mem header) = ty then count + 1 else count)) 0)"

definition madt_has_pic :: "bytes \<Rightarrow> addr \<Rightarrow> bool kres" where
  "madt_has_pic mem madt = kassert (madt \<noteq> NULL) (Inr (madt_flags mem madt AND 1 \<noteq> 0))"

section \<open>The headers of a table\<close>

text \<open>
  The offsets of the headers: the first one is after the table's own fields, each following one is after
  the length of the one before. A header of length 0 has no successor: the code meets it forever.
\<close>

function ics_offsets :: "(nat \<Rightarrow> nat) \<Rightarrow> nat \<Rightarrow> nat \<Rightarrow> nat list" where
  "ics_offsets len total_size off =
     (if off \<ge> total_size then [] else off # (if len off = 0 then [] else ics_offsets len total_size (off + len off)))"
  by pat_completeness auto
termination by (relation "measure (\<lambda>(_, n, off). n - off)") auto

declare ics_offsets.simps [simp del]

definition ics_len :: "bytes \<Rightarrow> addr \<Rightarrow> nat \<Rightarrow> nat" where
  "ics_len mem madt off = unat (ics_lenght (read_ICS_header mem (madt + of_nat off)))"

definition madt_offsets :: "bytes \<Rightarrow> addr \<Rightarrow> nat list" where
  "madt_offsets mem madt = ics_offsets (ics_len mem madt) (unat (madt_lenght mem madt)) 44"

definition madt_headers :: "bytes \<Rightarrow> addr \<Rightarrow> addr list" where
  "madt_headers mem madt = map (\<lambda>off. madt + of_nat off) (madt_offsets mem madt)"

text \<open>The table is in memory and every header has a length.\<close>

definition madt_wf :: "bytes \<Rightarrow> addr \<Rightarrow> bool" where
  "madt_wf mem madt \<longleftrightarrow> (\<forall>off \<in> set (madt_offsets mem madt). ics_len mem madt off \<noteq> 0)"

definition madt_in_memory :: "bytes \<Rightarrow> addr \<Rightarrow> bool" where
  "madt_in_memory mem madt \<longleftrightarrow> madt \<noteq> NULL \<and> unat madt + unat (madt_lenght mem madt) + 256 < 2 ^ 64"

lemma madt_lenght_bound: "unat (madt_lenght mem madt) < 4294967296"
  using unsigned_less [of "acpi_lenght (read_ACPI_header mem madt)", where 'a = nat] by (simp add: madt_lenght_def)

lemma ics_offsets_length: "length (ics_offsets len total_size off) \<le> total_size - off"
proof (induction len total_size off rule: ics_offsets.induct)
  case (1 len total_size off)
  then show ?case
    by (subst ics_offsets.simps) (cases "off \<ge> total_size"; cases "len off = 0"; simp; linarith)
qed

lemma ics_offsets_bound: "o' \<in> set (ics_offsets len total_size off) \<Longrightarrow> o' < total_size"
proof (induction len total_size off rule: ics_offsets.induct)
  case (1 len total_size off)
  then show ?case by (auto simp: ics_offsets.simps [of _ _ off] split: if_splits)
qed

lemma header_offset:
  assumes m: "madt_in_memory mem madt" and off: "off \<le> unat (madt_lenght mem madt) + 255"
  shows "madt + of_nat off \<noteq> NULL" and "unat ((madt + of_nat off) - madt) = off"
proof -
  have b: "off < 18446744073709551616" "unat madt + off < 18446744073709551616"
    using m off by (simp_all add: madt_in_memory_def)
  then show "unat ((madt + of_nat off) - madt) = off" by (simp add: unat_of_nat_u64)
  have "unat (madt + of_nat off) = unat madt + off" using b by (simp add: unat_add_u64 unat_of_nat_u64)
  moreover have "0 < unat madt" using m by (simp add: madt_in_memory_def unat_gt_0)
  ultimately show "madt + of_nat off \<noteq> NULL" by (metis add_gr_0 less_irrefl unat_0)
qed

text \<open>Where the code is after \<open>off\<close> bytes of the table.\<close>

definition header_at :: "bytes \<Rightarrow> addr \<Rightarrow> nat \<Rightarrow> addr" where
  "header_at mem madt off = (if off \<ge> unat (madt_lenght mem madt) then NULL else madt + of_nat off)"

lemma header_at_steps:
  assumes m: "madt_in_memory mem madt"
  shows "get_first_ICS_header mem madt = Inr (header_at mem madt 44)"
    and "off < unat (madt_lenght mem madt) \<Longrightarrow>
      get_next_ICS_header mem madt (madt + of_nat off) = Inr (header_at mem madt (off + ics_len mem madt off))"
proof -
  have n: "madt \<noteq> NULL" using m by (simp add: madt_in_memory_def)
  show "get_first_ICS_header mem madt = Inr (header_at mem madt 44)"
    using n by (simp add: get_first_ICS_header_def header_at_def word_le_nat_alt)
  assume off: "off < unat (madt_lenght mem madt)"
  have l: "ics_len mem madt off \<le> 255"
    using unsigned_less [of "ics_lenght (read_ICS_header mem (madt + of_nat off))", where 'a = nat] by (simp add: ics_len_def)
  have "madt + of_nat off + ucast (ics_lenght (read_ICS_header mem (madt + of_nat off))) = madt + of_nat (off + ics_len mem madt off)"
    by (simp add: ics_len_def)
  moreover have "unat ((madt + of_nat (off + ics_len mem madt off)) - madt) = off + ics_len mem madt off"
    using off l by (intro header_offset(2) [OF m]) simp
  ultimately show "get_next_ICS_header mem madt (madt + of_nat off) = Inr (header_at mem madt (off + ics_len mem madt off))"
    using n by (simp add: get_next_ICS_header_def header_at_def word_le_nat_alt Let_def)
qed

lemma for_ics_offsets:
  assumes m: "madt_in_memory mem madt"
  shows "unat (madt_lenght mem madt) - off \<le> n \<Longrightarrow>
    \<forall>o' \<in> set (ics_offsets (ics_len mem madt) (unat (madt_lenght mem madt)) off). ics_len mem madt o' \<noteq> 0 \<Longrightarrow>
    for_ics n mem madt f (header_at mem madt off) x =
      kfold f (map (\<lambda>off. madt + of_nat off) (ics_offsets (ics_len mem madt) (unat (madt_lenght mem madt)) off)) x"
proof (induction n arbitrary: off x)
  case 0
  then show ?case by (simp add: header_at_def for_ics.simps ics_offsets.simps)
next
  case (Suc n)
  let ?len = "ics_len mem madt" and ?size = "unat (madt_lenght mem madt)"
  show ?case
  proof (cases "off \<ge> ?size")
    case True
    then show ?thesis by (simp add: header_at_def for_ics.simps ics_offsets.simps)
  next
    case False
    have unf: "ics_offsets ?len ?size off = off # ics_offsets ?len ?size (off + ?len off)" and l: "?len off \<noteq> 0"
      using Suc.prems(2) False by (auto simp: ics_offsets.simps [of ?len ?size off] split: if_splits)
    have "?size - (off + ?len off) \<le> n" "\<forall>o' \<in> set (ics_offsets ?len ?size (off + ?len off)). ?len o' \<noteq> 0"
      using Suc.prems l unf by simp_all
    note IH = Suc.IH [OF this]
    have "header_at mem madt off = madt + of_nat off" "madt + of_nat off \<noteq> NULL"
      using False header_offset(1) [OF m, of off] by (simp_all add: header_at_def)
    then show ?thesis using False header_at_steps(2) [OF m, of off] IH
      by (simp add: for_ics.simps [of "Suc n"] unf)
  qed
qed

lemma for_ics_hangs:
  assumes m: "madt_in_memory mem madt" and f: "\<And>h x. \<exists>y. f h x = Inr y"
  shows "\<exists>o' \<in> set (ics_offsets (ics_len mem madt) (unat (madt_lenght mem madt)) off). ics_len mem madt o' = 0 \<Longrightarrow>
    for_ics n mem madt f (header_at mem madt off) x = Inl Hang"
proof (induction n arbitrary: off x)
  case 0
  then have "off < unat (madt_lenght mem madt)" by (auto simp: ics_offsets.simps [of _ _ off] split: if_splits)
  then show ?case using header_offset(1) [OF m, of off] by (simp add: header_at_def for_ics.simps)
next
  case (Suc n)
  let ?len = "ics_len mem madt" and ?size = "unat (madt_lenght mem madt)"
  have off: "off < ?size" using Suc.prems by (auto simp: ics_offsets.simps [of _ _ off] split: if_splits)
  then have h: "header_at mem madt off = madt + of_nat off" "madt + of_nat off \<noteq> NULL"
    using header_offset(1) [OF m, of off] by (simp_all add: header_at_def)
  have "\<exists>o' \<in> set (ics_offsets ?len ?size (off + ?len off)). ?len o' = 0"
    using Suc.prems off by (cases "?len off = 0") (auto simp: ics_offsets.simps [of ?len ?size off] split: if_splits)
  from Suc.IH [OF this] show ?case using h header_at_steps(2) [OF m off] f [of "madt + of_nat off" x]
    by (auto simp: for_ics.simps [of "Suc n"])
qed

lemma each_ICS_header_fold:
  assumes m: "madt_in_memory mem madt" and wf: "madt_wf mem madt"
  shows "each_ICS_header mem madt f x = kfold f (madt_headers mem madt) x"
proof -
  have "unat (madt_lenght mem madt) - 44 \<le> 2 ^ 32" using madt_lenght_bound [of mem madt] by simp
  then show ?thesis using header_at_steps(1) [OF m] for_ics_offsets [OF m, of 44 "2 ^ 32" f x] wf
    by (simp add: each_ICS_header_def madt_headers_def madt_wf_def madt_offsets_def)
qed

lemma each_ICS_header_hangs:
  assumes m: "madt_in_memory mem madt" and wf: "\<not> madt_wf mem madt" and f: "\<And>h x. \<exists>y. f h x = Inr y"
  shows "each_ICS_header mem madt f x = Inl Hang"
  using header_at_steps(1) [OF m] for_ics_hangs [OF m f, where off = 44 and n = "2 ^ 32" and x = x] wf
  by (auto simp: each_ICS_header_def madt_wf_def madt_offsets_def)

lemma count_fold: "kfold (\<lambda>h c. Inr (if P h then c + 1 else c)) hs (c :: u64) = Inr (c + of_nat (length (filter P hs)))"
  by (induction hs arbitrary: c) (simp_all add: ac_simps)

section \<open>An example\<close>

text \<open>
  A table at 0x1000 with two local APICs, the second one with the flags \<open>fl\<close>, and an NMI structure for all
  processors.
\<close>

definition ex_madt :: "u8 \<Rightarrow> bytes" where
  "ex_madt fl = (\<lambda>_. 0)(0x1004 := 66, 0x102D := 8, 0x1030 := 1,
     0x1035 := 8, 0x1036 := 1, 0x1037 := 1, 0x1038 := fl, 0x103C := 4, 0x103D := 6, 0x103E := 0xff, 0x1041 := 1)"

lemma ex_madt_at: "ex_madt fl a = ((\<lambda>_. 0)(0x1004 := 66, 0x102D := 8, 0x1030 := 1,
     0x1035 := 8, 0x1036 := 1, 0x1037 := 1, 0x1038 := fl, 0x103C := 4, 0x103D := 6, 0x103E := 0xff, 0x1041 := 1)) a"
  by (simp add: ex_madt_def)

lemma ex_madt_lenght: "madt_lenght (ex_madt fl) 0x1000 = 66"
  by (simp add: madt_lenght_def read_ACPI_header_def read_u32_def ex_madt_at)

lemma ex_madt_offsets: "madt_offsets (ex_madt fl) 0x1000 = [44, 52, 60]"
  by (simp add: madt_offsets_def ex_madt_lenght ics_offsets.simps ics_len_def read_ICS_header_def ex_madt_at)

lemma ex_madt_ok: "madt_in_memory (ex_madt fl) 0x1000" "madt_wf (ex_madt fl) 0x1000"
  by (simp_all add: madt_in_memory_def madt_wf_def ex_madt_lenght ex_madt_offsets ics_len_def read_ICS_header_def ex_madt_at)

lemma ex_madt_headers: "madt_headers (ex_madt fl) 0x1000 = [0x102C, 0x1034, 0x103C]"
  by (simp add: madt_headers_def ex_madt_offsets)

section \<open>Properties\<close>

text \<open>
  C21. Counting the structures of the MADT ends exactly on the tables in which every structure has a
  length, and gives the number of structures of the type asked for; when the walk meets a structure of
  length 0 the kernel hangs.
\<close>

theorem count_ICS_header_instances_correct:
  assumes m: "madt_in_memory mem madt"
  shows "count_ICS_header_instances mem madt ty =
    (if madt_wf mem madt then Inr (of_nat (length (filter (\<lambda>h. mem h = ty) (madt_headers mem madt)))) else Inl Hang)"
proof -
  have n: "madt \<noteq> NULL" using m by (simp add: madt_in_memory_def)
  show ?thesis
  proof (cases "madt_wf mem madt")
    case True
    then show ?thesis using n by (simp add: count_ICS_header_instances_def each_ICS_header_fold [OF m] count_fold read_ICS_header_def)
  next
    case False
    then show ?thesis using n by (simp add: count_ICS_header_instances_def each_ICS_header_hangs [OF m])
  qed
qed

theorem count_ICS_header_instances_correct_witness:
  "count_ICS_header_instances (ex_madt 1) 0x1000 0 = Inr 2"
  using count_ICS_header_instances_correct [OF ex_madt_ok(1), of 1 0] ex_madt_ok(2) [of 1]
  by (simp add: ex_madt_headers ex_madt_at)

end
