(* ===== verification/Apic.thy ===== *)
theory Apic
  imports Acpi
begin

text \<open>
  The local APICs (kernel/interrupt/apic.c): the array of the local APICs that the MADT describes, the
  initialisation of the subsystem and of the local APIC of a CPU, and the tests of its registers. The
  result of the instruction \<open>cpuid\<close> (register \<open>edx\<close> of leaf 1) and the model specific registers are
  parameters.
\<close>

section \<open>The array of local APICs\<close>

definition find_lapic :: "(LocalAPIC \<Rightarrow> bool) \<Rightarrow> LAPICSubsystemData \<Rightarrow> nat option" where
  "find_lapic P g = find (\<lambda>i. P (lapics g ! i)) [0..<unat (lapic_array_size g)]"

definition get_lapic_from_id :: "u32 \<Rightarrow> LAPICSubsystemData \<Rightarrow> nat option kres" where
  "get_lapic_from_id lapic_id g = kassert (lapic_array g \<noteq> NULL) (Inr (find_lapic (\<lambda>l. APIC_ID l = lapic_id) g))"

text \<open>The loop asserts that every element it passes has its structure.\<close>

fun find_processor :: "bytes \<Rightarrow> u32 \<Rightarrow> LAPICSubsystemData \<Rightarrow> nat \<Rightarrow> nat \<Rightarrow> nat option kres" where
  "find_processor mem uid g i 0 = Inr None"
| "find_processor mem uid g i (Suc n) =
     kassert (ics_lapic (lapics g ! i) \<noteq> NULL)
       (if ucast (ics_lapic_uid mem (ics_lapic (lapics g ! i))) = uid then Inr (Some i)
        else find_processor mem uid g (Suc i) n)"

definition get_lapic_from_processor_uid :: "bytes \<Rightarrow> u32 \<Rightarrow> LAPICSubsystemData \<Rightarrow> nat option kres" where
  "get_lapic_from_processor_uid mem uid g =
     kassert (lapic_array g \<noteq> NULL) (find_processor mem uid g 0 (unat (lapic_array_size g)))"

definition upd_lapic :: "nat \<Rightarrow> (LocalAPIC \<Rightarrow> LocalAPIC) \<Rightarrow> LAPICSubsystemData \<Rightarrow> LAPICSubsystemData" where
  "upd_lapic i f g = g\<lparr>lapics := (lapics g)[i := f (lapics g ! i)]\<rparr>"

definition fill_lapic :: "bytes \<Rightarrow> addr \<Rightarrow> u64 \<times> LAPICSubsystemData \<Rightarrow> (u64 \<times> LAPICSubsystemData) kres" where
  "fill_lapic mem header = (\<lambda>(lapic_array_index, g).
     if ics_type (read_ICS_header mem header) = 0 then
       kassert (lapic_array_index < lapic_array_size g)
         (Inr (lapic_array_index + 1, upd_lapic (unat lapic_array_index)
            (\<lambda>l. l\<lparr>APIC_ID := ucast (ics_lapic_apic_id mem header), ics_lapic := header\<rparr>) g))
     else Inr (lapic_array_index, g))"

text \<open>The second loop, which is left at a structure for all processors.\<close>

fun fill_nmi :: "nat \<Rightarrow> bytes \<Rightarrow> addr \<Rightarrow> addr \<Rightarrow> LAPICSubsystemData \<Rightarrow> LAPICSubsystemData kres" where
  "fill_nmi n mem madt header g =
     (if header = NULL then Inr g
      else (case n of 0 \<Rightarrow> Inl Hang
        | Suc m \<Rightarrow>
            if ics_type (read_ICS_header mem header) = 4 then
              if ics_nmi_uid mem header = 0xff
              then Inr (g\<lparr>lapics := map (\<lambda>l. l\<lparr>ics_lapic_nmi := header\<rparr>) (lapics g)\<rparr>)
              else kbind (get_lapic_from_processor_uid mem (ucast (ics_nmi_uid mem header)) g) (\<lambda>r.
                   case r of None \<Rightarrow> kpanic FAILED_ASSERT
                   | Some i \<Rightarrow> kbind (get_next_ICS_header mem madt header) (\<lambda>h.
                       fill_nmi m mem madt h (upd_lapic i (\<lambda>l. l\<lparr>ics_lapic_nmi := header\<rparr>) g)))
            else kbind (get_next_ICS_header mem madt header) (\<lambda>h. fill_nmi m mem madt h g)))"

declare fill_nmi.simps [simp del]

definition fill_apic_array :: "bytes \<Rightarrow> addr \<Rightarrow> LAPICSubsystemData \<Rightarrow> LAPICSubsystemData kres" where
  "fill_apic_array mem madt g =
     kassert (madt \<noteq> NULL)
       (kbind (each_ICS_header mem madt (fill_lapic mem) (0, g)) (\<lambda>(lapic_array_index, g1).
        kassert (lapic_array_index = lapic_array_size g1)
          (kbind (get_first_ICS_header mem madt) (\<lambda>h. fill_nmi (2 ^ 32) mem madt h g1))))"

definition get_lapic_base_address_from_madt :: "bytes \<Rightarrow> addr \<Rightarrow> addr kres" where
  "get_lapic_base_address_from_madt mem madt =
     each_ICS_header mem madt (\<lambda>header base_address.
       Inr (if ics_type (read_ICS_header mem header) = 5 then ics_override_address mem header else base_address))
       (ucast (read_u32 mem (madt + 36)))"

section \<open>Initialisation\<close>

definition apic_present :: "u32 \<Rightarrow> bool" where
  "apic_present edx \<longleftrightarrow> edx AND push_bit 9 1 \<noteq> 0"

definition cpu_has_msr :: "u32 \<Rightarrow> bool" where
  "cpu_has_msr edx \<longleftrightarrow> edx AND push_bit 5 1 \<noteq> 0"

definition is_apic_enabled :: "u32 \<Rightarrow> (u32 \<Rightarrow> u64) \<Rightarrow> bool" where
  "is_apic_enabled edx msr \<longleftrightarrow> cpu_has_msr edx \<and> msr 0x1B AND push_bit 11 1 \<noteq> 0"

definition on_lapics :: "(LAPICSubsystemData \<Rightarrow> LAPICSubsystemData) \<Rightarrow> kstate \<Rightarrow> kstate" where
  "on_lapics f s = on_kernel (lapic_gdata_update f) s"

definition zero_lapic :: LocalAPIC where
  "zero_lapic = \<lparr>APIC_ID = 0, ics_lapic = NULL, ics_lapic_nmi = NULL, lapic_enabled = False\<rparr>"

definition init_apic_subsystem :: "kmalloc_op \<Rightarrow> u32 \<Rightarrow> (u32 \<Rightarrow> u64) \<Rightarrow> kstate \<Rightarrow> (bool \<times> kstate) kres" where
  "init_apic_subsystem km edx msr s =
     (if \<not> apic_present edx then Inr (False, s)
      else if \<not> is_apic_enabled edx msr then Inr (False, s)
      else kbind (get_MADT s) (\<lambda>(madt, s1).
        if madt = NULL then Inr (False, s1)
        else
          let mem = acpi_mem (vmem s1)
          in kbind (count_number_of_local_apic mem madt) (\<lambda>lapic_count.
             kbind (get_lapic_base_address_from_madt mem madt) (\<lambda>base.
             kbind (km (32 * lapic_count) (on_lapics (\<lambda>g. g\<lparr>lapic_base_address := base, lapic_array_size := lapic_count\<rparr>) s1)) (\<lambda>(p, s2).
               let g = (lapic_gdata (vmem s2))\<lparr>lapic_array := p, lapics := replicate (unat lapic_count) zero_lapic\<rparr>
               in kbind (fill_apic_array mem madt g) (\<lambda>g1.
                  kassert (base mod PAGE_SIZE = 0)
                    (kbind (memory_map km KernelVMM base 4096 0x12 (on_lapics (\<lambda>_. g1) s2)) (\<lambda>(h, s3).
                     kbind (install_interrupt_handler 0xf0 apic_error_handler
                              (on_lapics (\<lambda>g. g\<lparr>register_space_mapping := h\<rparr>) s3)) (\<lambda>s4.
                       Inr (True, s4))))))))))"

definition is_local_apic_initialized :: "kstate \<Rightarrow> bool kres" where
  "is_local_apic_initialized s =
     (if \<not> lapic_mapped s then Inr False
      else kbind (get_logical_core_lapic_id s) (\<lambda>lapic_id.
           kbind (get_lapic_from_id lapic_id (lapic_gdata (vmem s))) (\<lambda>r.
             case r of None \<Rightarrow> kpanic FAILED_ASSERT
             | Some i \<Rightarrow> Inr (lapic_enabled (lapics (lapic_gdata (vmem s)) ! i)))))"

definition can_suppress_EOI_broadcast :: "kstate \<Rightarrow> bool kres" where
  "can_suppress_EOI_broadcast s =
     kbind (read_32_lapic_register 0x30 s) (\<lambda>v. Inr (v AND push_bit 23 1 \<noteq> 0))"

definition read_apic_error :: "kstate \<Rightarrow> (u32 \<times> kstate) kres" where
  "read_apic_error s =
     kbind (write_32_lapic_register 0x280 0 s) (\<lambda>s1.
     kbind (read_32_lapic_register 0x280 s1) (\<lambda>e. Inr (e, s1)))"

text \<open>A boolean as the number 0 or 1.\<close>

abbreviation bit_of :: "bool \<Rightarrow> u32" where
  "bit_of b \<equiv> (if b then 1 else 0)"

definition make_lvt_entry :: "u8 \<Rightarrow> APICDeliveryMode \<Rightarrow> bool \<Rightarrow> bool \<Rightarrow> bool \<Rightarrow> bool \<Rightarrow> u32" where
  "make_lvt_entry vector del_mode interrupt_pin_polarity remote_irr_flag trigger_mode mask0 =
     ucast vector OR push_bit 8 (ucast (del_mode_code del_mode AND 7)) OR push_bit 13 (bit_of interrupt_pin_polarity) OR
     push_bit 14 (bit_of remote_irr_flag) OR push_bit 15 (bit_of trigger_mode) OR push_bit 16 (bit_of mask0)"

text \<open>
  The polarity and the trigger mode of a non-maskable interrupt. The second test of the source compares
  the polarity flag, not the trigger mode flag, with the value for the bus default.
\<close>

definition nmi_polarity :: "u16 \<Rightarrow> bool" where
  "nmi_polarity flags =
     (let polarity_flag = flags AND 3 in if polarity_flag \<noteq> 0 then polarity_flag = 3 else False)"

definition nmi_trigger_mode :: "u16 \<Rightarrow> bool" where
  "nmi_trigger_mode flags =
     (let polarity_flag = flags AND 3; trigger_mode_flag = flags AND 12
      in if polarity_flag \<noteq> 0 then trigger_mode_flag = 12 else False)"

definition setup_lapic_nmi_lint :: "kstate \<Rightarrow> kstate kres" where
  "setup_lapic_nmi_lint s =
     kbind (get_logical_core_lapic_id s) (\<lambda>lapic_id.
     kbind (get_lapic_from_id lapic_id (lapic_gdata (vmem s))) (\<lambda>r.
       case r of None \<Rightarrow> kpanic FAILED_ASSERT
       | Some i \<Rightarrow>
           let nmi = ics_lapic_nmi (lapics (lapic_gdata (vmem s)) ! i); mem = acpi_mem (vmem s)
           in if nmi = NULL then Inr s
              else kbind (if ics_nmi_lint mem nmi = 0 then Inr 0x350
                          else if ics_nmi_lint mem nmi = 1 then Inr 0x360 else kpanic APIC_ERROR) (\<lambda>lint_reg.
                   let flags = ics_nmi_flags mem nmi
                   in write_32_lapic_register lint_reg
                        (make_lvt_entry 0xff APIC_DEL_MODE_NMI (nmi_polarity flags) False (nmi_trigger_mode flags) False) s)))"

definition init_local_apic :: "kstate \<Rightarrow> (bool \<times> kstate) kres" where
  "init_local_apic s =
     kbind (write_32_lapic_register 0xF0 (0xff OR 0x100) s) (\<lambda>s1.
     kbind (write_32_lapic_register 0x80 0 s1) (\<lambda>s2.
     kbind (write_32_lapic_register 0x370 (make_lvt_entry 0xf0 APIC_DEL_MODE_FIXED False False False False) s2) (\<lambda>s3.
     kbind (read_apic_error s3) (\<lambda>(e, s4).
       if e \<noteq> 0 then Inr (False, s4)
       else kbind (setup_lapic_nmi_lint s4) (\<lambda>s5.
            kbind (get_logical_core_lapic_id s5) (\<lambda>lapic_id.
            kbind (get_lapic_from_id lapic_id (lapic_gdata (vmem s5))) (\<lambda>r.
              case r of None \<Rightarrow> kpanic FAILED_ASSERT
              | Some i \<Rightarrow> Inr (True, on_lapics (upd_lapic i (\<lambda>l. l\<lparr>lapic_enabled := True\<rparr>)) s5))))))))"

section \<open>Queries\<close>

definition is_interrupt_lapic_generated :: "u8 \<Rightarrow> kstate \<Rightarrow> bool kres" where
  "is_interrupt_lapic_generated vec s =
     kassert (lapic_mapped s)
       (let register_number = ucast (vec div 32) :: u64;
            register_value_bit_number = unat (vec mod 32)
        in kbind (read_32_lapic_register (0x100 + register_number * 0x10) s) (\<lambda>ISR_dword.
             Inr (ISR_dword AND push_bit register_value_bit_number 1 \<noteq> 0)))"

definition is_lapic_discrete_82489DX :: "kstate \<Rightarrow> bool kres" where
  "is_lapic_discrete_82489DX s = kbind (read_32_lapic_register 0x30 s) (\<lambda>v. Inr (v AND 0xff < 0x10))"

text \<open>The identifiers written to the buffer, or the error -1 when the buffer is too small.\<close>

definition get_lapic_id_array :: "u64 \<Rightarrow> kernel \<Rightarrow> int \<times> u32 list" where
  "get_lapic_id_array n k =
     (let g = lapic_gdata k
      in if n < lapic_array_size g then (-1, [])
         else (sint (lapic_array_size g), map (\<lambda>i. APIC_ID (lapics g ! i)) [0..<unat (lapic_array_size g)]))"

definition print_lapic_register :: "string \<Rightarrow> u64 \<Rightarrow> kstate \<Rightarrow> kstate kres" where
  "print_lapic_register name reg s =
     kbind (on_kio (print name) s) (\<lambda>s1.
     kbind (read_32_lapic_register reg s1) (\<lambda>v.
     kbind (on_kio (print_uint64_hex (ucast v)) s1) (on_kio (print [CHR 0x0A]))))"

definition print_lapic_state :: "kstate \<Rightarrow> kstate kres" where
  "print_lapic_state s =
     kbind (on_kio (print (''LOCAL APIC REGISTERS:'' @ [CHR 0x0A])) s)
       (kfold (\<lambda>(name, reg). print_lapic_register name reg)
         [(''ID = '', 0x20), (''VERSION = '', 0x30), (''ERROR STATUS = '', 0x280), (''LVT CMCI = '', 0x2F0),
          (''LVT TIMER = '', 0x320), (''LVT THERMAL SENSOR = '', 0x330),
          (''LVT PERFORMANCE MONITORING COUNTERS = '', 0x340), (''LVT LINT0 = '', 0x350), (''LVT LINT1 = '', 0x360),
          (''LVT ERROR = '', 0x370)])"

definition apic_error_interrupt_handler :: "kstate \<Rightarrow> kstate kres" where
  "apic_error_interrupt_handler s =
     kbind (on_kio (print ''APIC ERROR: '') s) (\<lambda>s1.
     kbind (read_apic_error s1) (\<lambda>(e, s2).
     kbind (on_kio (print_uint64_hex (ucast e)) s2) (\<lambda>s3.
     kbind (on_kio (print [CHR 0x0A]) s3) (\<lambda>_. kpanic APIC_ERROR))))"

section \<open>The array and the table\<close>

abbreviation is_lapic_header :: "bytes \<Rightarrow> addr \<Rightarrow> bool" where
  "is_lapic_header mem h \<equiv> mem h = 0"

definition lapic_of :: "bytes \<Rightarrow> addr \<Rightarrow> LocalAPIC" where
  "lapic_of mem h = zero_lapic\<lparr>APIC_ID := ucast (ics_lapic_apic_id mem h), ics_lapic := h\<rparr>"

lemma fill_lapic_fold:
  assumes "unat (lapic_array_size g) = length xs + length (filter (is_lapic_header mem) hs) + k"
    and "lapics g = xs @ replicate (length (filter (is_lapic_header mem) hs) + k) zero_lapic"
  shows "kfold (fill_lapic mem) hs (of_nat (length xs), g) =
    Inr (of_nat (length xs + length (filter (is_lapic_header mem) hs)),
      g\<lparr>lapics := xs @ map (lapic_of mem) (filter (is_lapic_header mem) hs) @ replicate k zero_lapic\<rparr>)"
  using assms
proof (induction hs arbitrary: xs g)
  case (Cons h hs)
  show ?case
  proof (cases "is_lapic_header mem h")
    case True
    have lt: "of_nat (length xs) < lapic_array_size g" "unat (of_nat (length xs) :: u64) = length xs"
      using Cons.prems(1) True u64_bound [of "lapic_array_size g"] by (simp_all add: word_less_nat_alt unat_of_nat_u64)
    define g1 where "g1 = upd_lapic (length xs) (\<lambda>l. l\<lparr>APIC_ID := ucast (ics_lapic_apic_id mem h), ics_lapic := h\<rparr>) g"
    have g1: "lapics g1 = (xs @ [lapic_of mem h]) @ replicate (length (filter (is_lapic_header mem) hs) + k) zero_lapic"
      "lapic_array_size g1 = lapic_array_size g" "g1\<lparr>lapics := ys\<rparr> = g\<lparr>lapics := ys\<rparr>" for ys
      using Cons.prems(2) True by (simp_all add: g1_def upd_lapic_def lapic_of_def nth_append list_update_append)
    have "fill_lapic mem h (of_nat (length xs), g) = Inr (of_nat (length (xs @ [lapic_of mem h])), g1)"
      using True lt by (simp add: fill_lapic_def read_ICS_header_def g1_def add.commute)
    then show ?thesis
      using Cons.IH [of g1 "xs @ [lapic_of mem h]"] Cons.prems(1) True g1 by (simp add: ac_simps)
  next
    case False
    then show ?thesis using Cons by (simp add: fill_lapic_def read_ICS_header_def)
  qed
qed simp

lemma fill_lapic_panics:
  assumes "unat (lapic_array_size g) < unat i + length (filter (is_lapic_header mem) hs)" and "unat i \<le> unat (lapic_array_size g)"
  shows "kfold (fill_lapic mem) hs (i, g) = Inl (Panic FAILED_ASSERT)"
  using assms
proof (induction hs arbitrary: i g)
  case (Cons h hs)
  show ?case
  proof (cases "is_lapic_header mem h \<and> i < lapic_array_size g")
    case True
    then have "unat i < 18446744073709551615"
      using u64_bound [of "lapic_array_size g"] unfolding word_less_nat_alt by linarith
    then have "unat (i + 1) = unat i + 1" using unat_add_u64 [of i 1] by simp
    moreover have "lapic_array_size (upd_lapic n f g) = lapic_array_size g" for n f by (simp add: upd_lapic_def)
    ultimately show ?thesis
      using Cons.IH [of _ "i + 1"] Cons.prems True by (simp add: fill_lapic_def read_ICS_header_def word_less_nat_alt)
  next
    case False
    then show ?thesis using Cons by (auto simp: fill_lapic_def read_ICS_header_def kassert_def kpanic_def)
  qed
qed simp

text \<open>
  Which local APIC an NMI structure is for: the processor it names has one.
\<close>

definition nmi_known :: "bytes \<Rightarrow> addr list \<Rightarrow> addr \<Rightarrow> bool" where
  "nmi_known mem ls h \<longleftrightarrow> mem h = 4 \<longrightarrow> ics_nmi_uid mem h = 0xff \<or> (\<exists>l \<in> set ls. ics_lapic_uid mem l = ics_nmi_uid mem h)"

lemma ucast_uid: "(ucast (a :: u8) :: u32) = ucast b \<longleftrightarrow> a = b"
  by (simp add: word_unat_eq_iff unsigned_ucast_eq take_bit_nat_eq_self less_trans [OF unsigned_less])

lemma find_processor_total:
  assumes "\<forall>l \<in> set (lapics g). ics_lapic l \<noteq> NULL" and "i + n = length (lapics g)"
    and "\<exists>j \<ge> i. j < length (lapics g) \<and> ucast (ics_lapic_uid mem (ics_lapic (lapics g ! j))) = uid"
  shows "\<exists>j < length (lapics g). find_processor mem uid g i n = Inr (Some j) \<and> i \<le> j \<and>
    ucast (ics_lapic_uid mem (ics_lapic (lapics g ! j))) = uid \<and>
    (\<forall>k. i \<le> k \<and> k < j \<longrightarrow> ucast (ics_lapic_uid mem (ics_lapic (lapics g ! k))) \<noteq> uid)"
  using assms(2,3)
proof (induction n arbitrary: i)
  case (Suc n)
  then have nn: "ics_lapic (lapics g ! i) \<noteq> NULL" using assms(1) by simp
  show ?case
  proof (cases "ucast (ics_lapic_uid mem (ics_lapic (lapics g ! i))) = uid")
    case True
    then show ?thesis using nn Suc.prems(1) by (intro exI [of _ i]) auto
  next
    case False
    then have "\<exists>j \<ge> Suc i. j < length (lapics g) \<and> ucast (ics_lapic_uid mem (ics_lapic (lapics g ! j))) = uid"
      using Suc.prems(2) by (metis Suc_leI le_neq_implies_less)
    then obtain j where j: "j < length (lapics g)" "find_processor mem uid g (Suc i) n = Inr (Some j)" "Suc i \<le> j"
      "ucast (ics_lapic_uid mem (ics_lapic (lapics g ! j))) = uid"
      "\<forall>k. Suc i \<le> k \<and> k < j \<longrightarrow> ucast (ics_lapic_uid mem (ics_lapic (lapics g ! k))) \<noteq> uid"
      using Suc.IH [of "Suc i"] Suc.prems(1) by auto
    have "ucast (ics_lapic_uid mem (ics_lapic (lapics g ! k))) \<noteq> uid" if "i \<le> k" "k < j" for k
      using that False j(5) by (cases "k = i") auto
    then show ?thesis using False nn j by (intro exI [of _ j]) simp
  qed
qed auto

text \<open>
  Which NMI structure belongs to the \<open>i\<close>-th local APIC, for the structures \<open>ls\<close> of the local APICs and the headers \<open>hs\<close> of
  the table: the first one for all processors if there is one, otherwise the last one that names its processor. A
  processor that several local APICs have stands for the first of them. Without such a structure the pointer
  stays as it is.
\<close>

definition nmi_for_all :: "bytes \<Rightarrow> addr \<Rightarrow> bool" where
  "nmi_for_all mem h \<longleftrightarrow> mem h = 4 \<and> ics_nmi_uid mem h = 0xff"

definition nmi_names :: "bytes \<Rightarrow> addr list \<Rightarrow> nat \<Rightarrow> addr \<Rightarrow> bool" where
  "nmi_names mem ls i h \<longleftrightarrow> mem h = 4 \<and> ics_lapic_uid mem (ls ! i) = ics_nmi_uid mem h \<and>
     (\<forall>j<i. ics_lapic_uid mem (ls ! j) \<noteq> ics_nmi_uid mem h)"

definition nmi_of :: "bytes \<Rightarrow> addr list \<Rightarrow> addr list \<Rightarrow> nat \<Rightarrow> addr \<Rightarrow> addr" where
  "nmi_of mem ls hs i p =
     (case find (nmi_for_all mem) hs of Some h \<Rightarrow> h
      | None \<Rightarrow> (case find (nmi_names mem ls i) (rev hs) of Some h \<Rightarrow> h | None \<Rightarrow> p))"

lemma nmi_of_Cons:
  "nmi_of mem ls (h # hs) i p =
     (if nmi_for_all mem h then h else nmi_of mem ls hs i (if nmi_names mem ls i h then h else p))"
proof -
  have "find P (xs @ [y]) = (case find P xs of Some z \<Rightarrow> Some z | None \<Rightarrow> if P y then Some y else None)" for P :: "addr \<Rightarrow> bool" and xs y
    by (induction xs) simp_all
  then show ?thesis by (simp add: nmi_of_def split: option.splits)
qed

definition with_nmi :: "bytes \<Rightarrow> addr list \<Rightarrow> LocalAPIC list \<Rightarrow> LocalAPIC list" where
  "with_nmi mem hs ls =
     map (\<lambda>i. (ls ! i)\<lparr>ics_lapic_nmi := nmi_of mem (map ics_lapic ls) hs i (ics_lapic_nmi (ls ! i))\<rparr>) [0..<length ls]"

lemma with_nmi_Nil: "with_nmi mem [] ls = ls"
  by (intro nth_equalityI) (simp_all add: with_nmi_def nmi_of_def)

lemma with_nmi_all: "nmi_for_all mem h \<Longrightarrow> with_nmi mem (h # hs) ls = map (\<lambda>l. l\<lparr>ics_lapic_nmi := h\<rparr>) ls"
  by (intro nth_equalityI) (simp_all add: with_nmi_def nmi_of_Cons)

lemma with_nmi_other: "mem h \<noteq> 4 \<Longrightarrow> with_nmi mem (h # hs) ls = with_nmi mem hs ls"
  by (simp add: with_nmi_def nmi_of_Cons nmi_for_all_def nmi_names_def)

lemma with_nmi_one:
  assumes "mem h = 4" and "ics_nmi_uid mem h \<noteq> 0xff" and j: "j < length ls" "ics_lapic_uid mem (ics_lapic (ls ! j)) = ics_nmi_uid mem h"
    and first: "\<forall>k<j. ics_lapic_uid mem (ics_lapic (ls ! k)) \<noteq> ics_nmi_uid mem h"
  shows "with_nmi mem (h # hs) ls = with_nmi mem hs (ls[j := (ls ! j)\<lparr>ics_lapic_nmi := h\<rparr>])"
proof -
  have same: "map ics_lapic (ls[j := (ls ! j)\<lparr>ics_lapic_nmi := h\<rparr>]) = map ics_lapic ls"
    using j(1) by (simp add: map_update list_update_same_conv)
  have names: "nmi_names mem (map ics_lapic ls) i h \<longleftrightarrow> i = j" if "i < length ls" for i
    using assms(1) j first that by (auto simp: nmi_names_def) (metis less_trans linorder_neqE_nat)
  show ?thesis
    using assms(1,2) j(1) unfolding with_nmi_def same
    by (intro nth_equalityI) (auto simp: nmi_of_Cons nmi_for_all_def names nth_list_update)
qed

lemma fill_nmi_total:
  assumes m: "madt_in_memory mem madt"
  shows "unat (madt_lenght mem madt) - off \<le> n \<Longrightarrow>
    \<forall>o' \<in> set (ics_offsets (ics_len mem madt) (unat (madt_lenght mem madt)) off).
      ics_len mem madt o' \<noteq> 0 \<and> nmi_known mem (map ics_lapic (lapics g)) (madt + of_nat o') \<Longrightarrow>
    lapic_array g \<noteq> NULL \<Longrightarrow> unat (lapic_array_size g) = length (lapics g) \<Longrightarrow> \<forall>l \<in> set (lapics g). ics_lapic l \<noteq> NULL \<Longrightarrow>
    fill_nmi n mem madt (header_at mem madt off) g = Inr (g\<lparr>lapics := with_nmi mem
      (map (\<lambda>off. madt + of_nat off) (ics_offsets (ics_len mem madt) (unat (madt_lenght mem madt)) off)) (lapics g)\<rparr>)"
proof (induction n arbitrary: off g)
  case 0
  then show ?case by (simp add: header_at_def fill_nmi.simps ics_offsets.simps with_nmi_Nil)
next
  case (Suc n)
  let ?len = "ics_len mem madt" and ?size = "unat (madt_lenght mem madt)" and ?h = "madt + of_nat off"
  show ?case
  proof (cases "off \<ge> ?size")
    case True
    then show ?thesis by (simp add: header_at_def fill_nmi.simps ics_offsets.simps with_nmi_Nil)
  next
    case False
    let ?hs = "map (\<lambda>off. madt + of_nat off) (ics_offsets ?len ?size (off + ?len off))"
    have unf: "ics_offsets ?len ?size off = off # ics_offsets ?len ?size (off + ?len off)" and l: "?len off \<noteq> 0"
      using Suc.prems(2) False by (auto simp: ics_offsets.simps [of ?len ?size off] split: if_splits)
    have IH: "fill_nmi n mem madt (header_at mem madt (off + ?len off)) (g\<lparr>lapics := xs\<rparr>) = Inr (g\<lparr>lapics := with_nmi mem ?hs xs\<rparr>)"
      if e: "map ics_lapic xs = map ics_lapic (lapics g)" for xs
    proof -
      have "\<forall>l \<in> set xs. ics_lapic l \<noteq> NULL" using e Suc.prems(5) by (metis imageE imageI list.set_map)
      moreover have "length xs = length (lapics g)" using map_eq_imp_length_eq [OF e] .
      ultimately show ?thesis using Suc.IH [of "off + ?len off" "g\<lparr>lapics := xs\<rparr>"] Suc.prems l unf e by simp
    qed
    have h: "header_at mem madt off = ?h" "?h \<noteq> NULL" using False header_offset(1) [OF m, of off] by (simp_all add: header_at_def)
    have nx: "get_next_ICS_header mem madt ?h = Inr (header_at mem madt (off + ?len off))" using header_at_steps(2) [OF m] False by simp
    consider (other) "mem ?h \<noteq> 4" | (all) "nmi_for_all mem ?h" | (one) "mem ?h = 4" "ics_nmi_uid mem ?h \<noteq> 0xff"
      by (auto simp: nmi_for_all_def)
    then show ?thesis
    proof cases
      case other
      then show ?thesis using h nx IH [of "lapics g"]
        by (simp add: fill_nmi.simps [of "Suc n"] read_ICS_header_def unf with_nmi_other)
    next
      case all
      then show ?thesis using h
        by (simp add: fill_nmi.simps [of "Suc n"] read_ICS_header_def unf with_nmi_all) (simp add: nmi_for_all_def)
    next
      case one
      then have "\<exists>l \<in> set (map ics_lapic (lapics g)). ics_lapic_uid mem l = ics_nmi_uid mem ?h"
        using Suc.prems(2) unf by (simp add: nmi_known_def)
      then have "\<exists>j \<ge> 0. j < length (lapics g) \<and> ucast (ics_lapic_uid mem (ics_lapic (lapics g ! j))) = (ucast (ics_nmi_uid mem ?h) :: u32)"
        by (auto simp: in_set_conv_nth) metis
      from find_processor_total [OF Suc.prems(5) _ this, of "length (lapics g)"]
      obtain j where j: "j < length (lapics g)" "get_lapic_from_processor_uid mem (ucast (ics_nmi_uid mem ?h)) g = Inr (Some j)"
        "ics_lapic_uid mem (ics_lapic (lapics g ! j)) = ics_nmi_uid mem ?h"
        "\<forall>k<j. ics_lapic_uid mem (ics_lapic (lapics g ! k)) \<noteq> ics_nmi_uid mem ?h"
        using Suc.prems(3,4) by (auto simp: get_lapic_from_processor_uid_def ucast_uid)
      let ?xs = "(lapics g)[j := (lapics g ! j)\<lparr>ics_lapic_nmi := ?h\<rparr>]"
      have "map ics_lapic ?xs = map ics_lapic (lapics g)" using j(1) by (simp add: map_update list_update_same_conv)
      from IH [OF this] show ?thesis using one h nx j(2) with_nmi_one [OF one j(1,3,4)]
        by (simp add: fill_nmi.simps [of "Suc n"] read_ICS_header_def upd_lapic_def unf)
    qed
  qed
qed

text \<open>The local APICs of the table, and the state before the array is filled.\<close>

definition lapic_headers :: "bytes \<Rightarrow> addr \<Rightarrow> addr list" where
  "lapic_headers mem madt = filter (is_lapic_header mem) (madt_headers mem madt)"

definition fresh_array :: "u64 \<Rightarrow> LAPICSubsystemData \<Rightarrow> bool" where
  "fresh_array n g \<longleftrightarrow> lapic_array g \<noteq> NULL \<and> lapic_array_size g = n \<and> lapics g = replicate (unat n) zero_lapic"

lemma madt_headers_length: "length (madt_headers mem madt) < 4294967296"
  using ics_offsets_length [of "ics_len mem madt" "unat (madt_lenght mem madt)" 44] madt_lenght_bound [of mem madt]
  by (simp add: madt_headers_def madt_offsets_def)

lemma count_lapics:
  assumes m: "madt_in_memory mem madt" and wf: "madt_wf mem madt"
  shows "count_number_of_local_apic mem madt = Inr (of_nat (length (filter (usable_lapic mem) (lapic_headers mem madt))))"
  using m by (simp add: count_number_of_local_apic_def each_ICS_header_fold [OF m wf] madt_in_memory_def count_fold
      read_ICS_header_def lapic_headers_def conj_commute)

lemma count_lapics_unat:
  "unat (of_nat (length (filter P (filter Q (madt_headers mem madt)))) :: u64) = length (filter P (filter Q (madt_headers mem madt)))"
  using madt_headers_length [of mem madt] length_filter_le [of P "filter Q (madt_headers mem madt)"]
    length_filter_le [of Q "madt_headers mem madt"] by (intro unat_of_nat_u64) linarith

lemma fill_apic_array_filled:
  assumes m: "madt_in_memory mem madt" and wf: "madt_wf mem madt"
    and count: "count_number_of_local_apic mem madt = Inr n" and g: "fresh_array n g"
    and all: "\<forall>h \<in> set (lapic_headers mem madt). usable_lapic mem h"
    and nmi: "\<forall>h \<in> set (madt_headers mem madt). nmi_known mem (lapic_headers mem madt) h"
  shows "fill_apic_array mem madt g = Inr (g\<lparr>lapics :=
    map (\<lambda>i. (lapic_of mem (lapic_headers mem madt ! i))
           \<lparr>ics_lapic_nmi := nmi_of mem (lapic_headers mem madt) (madt_headers mem madt) i NULL\<rparr>)
      [0..<length (lapic_headers mem madt)]\<rparr>)"
proof -
  let ?hs = "lapic_headers mem madt"
  have "filter (usable_lapic mem) ?hs = ?hs" using all by (simp add: filter_id_conv)
  then have n: "unat n = length ?hs" "n = of_nat (length ?hs)"
    using count count_lapics [OF m wf] count_lapics_unat [of "usable_lapic mem" "is_lapic_header mem" mem madt, folded lapic_headers_def]
    by auto
  define g1 where "g1 = g\<lparr>lapics := map (lapic_of mem) ?hs\<rparr>"
  have f: "kfold (fill_lapic mem) (madt_headers mem madt) (0, g) = Inr (n, g1)"
    using fill_lapic_fold [of g "[]" mem "madt_headers mem madt" 0] g n by (simp add: fresh_array_def lapic_headers_def g1_def)
  have lm: "map ics_lapic (lapics g1) = ?hs" by (simp add: g1_def lapic_of_def comp_def)
  have "madt + of_nat off \<noteq> NULL" if "off \<in> set (madt_offsets mem madt)" for off
    using that ics_offsets_bound [of off] header_offset(1) [OF m, of off] by (fastforce simp: madt_offsets_def)
  then have nn: "\<forall>l \<in> set (lapics g1). ics_lapic l \<noteq> NULL"
    by (auto simp: g1_def lapic_of_def lapic_headers_def madt_headers_def)
  have "fill_nmi (2 ^ 32) mem madt (header_at mem madt 44) g1 = Inr (g1\<lparr>lapics := with_nmi mem (madt_headers mem madt) (lapics g1)\<rparr>)"
    unfolding madt_headers_def madt_offsets_def
    by (rule fill_nmi_total [OF m]) (use madt_lenght_bound [of mem madt] wf nmi lm nn n g in
      \<open>auto simp: madt_wf_def madt_headers_def madt_offsets_def g1_def fresh_array_def\<close>)
  moreover have "with_nmi mem (madt_headers mem madt) (lapics g1) =
      map (\<lambda>i. (lapic_of mem (?hs ! i))\<lparr>ics_lapic_nmi := nmi_of mem ?hs (madt_headers mem madt) i NULL\<rparr>) [0..<length ?hs]"
    unfolding with_nmi_def lm by (simp add: g1_def lapic_of_def zero_lapic_def)
  ultimately show ?thesis
    using m f g header_at_steps(1) [OF m]
    by (simp add: fill_apic_array_def each_ICS_header_fold [OF m wf] madt_in_memory_def g1_def fresh_array_def)
qed

lemma fill_apic_array_disabled:
  assumes m: "madt_in_memory mem madt" and wf: "madt_wf mem madt"
    and count: "count_number_of_local_apic mem madt = Inr n" and g: "fresh_array n g"
    and dis: "h \<in> set (lapic_headers mem madt)" "\<not> usable_lapic mem h"
  shows "fill_apic_array mem madt g = Inl (Panic FAILED_ASSERT)"
proof -
  have "length (filter (usable_lapic mem) (lapic_headers mem madt)) < length (lapic_headers mem madt)"
    using dis by (metis length_filter_less)
  moreover have "unat n = length (filter (usable_lapic mem) (lapic_headers mem madt))"
    using count count_lapics [OF m wf] count_lapics_unat [of "usable_lapic mem" "is_lapic_header mem" mem madt]
    by (simp add: lapic_headers_def)
  ultimately have "kfold (fill_lapic mem) (madt_headers mem madt) (0, g) = Inl (Panic FAILED_ASSERT)"
    using g by (intro fill_lapic_panics) (simp_all add: fresh_array_def lapic_headers_def)
  then show ?thesis using m by (simp add: fill_apic_array_def each_ICS_header_fold [OF m wf] madt_in_memory_def)
qed

section \<open>Properties\<close>

text \<open>
  C22. \<open>fill_apic_array\<close> builds the array of the local APICs from the table: when every local APIC of the
  MADT is enabled or can be, and every NMI structure names a known processor, it returns with one element
  per local APIC, in the order of the table, with its identifier, a pointer to its structure and a pointer to
  its NMI structure: the first one for all processors, or else the last one that names its processor, or else
  none.
\<close>

theorem fill_apic_array_correct:
  assumes "madt_in_memory mem madt" and "madt_wf mem madt"
    and "count_number_of_local_apic mem madt = Inr n" and "fresh_array n g"
    and "\<forall>h \<in> set (lapic_headers mem madt). usable_lapic mem h"
    and "\<forall>h \<in> set (madt_headers mem madt). nmi_known mem (lapic_headers mem madt) h"
  shows "fill_apic_array mem madt g = Inr (g\<lparr>lapics :=
    map (\<lambda>i. (lapic_of mem (lapic_headers mem madt ! i))
           \<lparr>ics_lapic_nmi := nmi_of mem (lapic_headers mem madt) (madt_headers mem madt) i NULL\<rparr>)
      [0..<length (lapic_headers mem madt)]\<rparr>)"
  by (rule fill_apic_array_filled [OF assms])

theorem fill_apic_array_correct_witness:
  "\<exists>g g'. fill_apic_array (ex_madt 1) 0x1000 g = Inr g' \<and> map APIC_ID (lapics g') = [0, 1] \<and>
     map ics_lapic_nmi (lapics g') = [0x103C, 0x103C]"
proof -
  let ?g = "\<lparr>lapic_array = 0x5000, lapic_array_size = 2, lapics = replicate 2 zero_lapic, lapic_base_address = 0,
    register_space_mapping = invalid_handle\<rparr>"
  have h: "lapic_headers (ex_madt 1) 0x1000 = [0x102C, 0x1034]" by (simp add: lapic_headers_def ex_madt_headers ex_madt_at)
  have u: "\<forall>h \<in> set (lapic_headers (ex_madt 1) 0x1000). usable_lapic (ex_madt 1) h"
    by (simp add: h usable_lapic_def ics_lapic_flags_def read_u32_def ex_madt_at)
  have k: "\<forall>h \<in> set (madt_headers (ex_madt 1) 0x1000). nmi_known (ex_madt 1) (lapic_headers (ex_madt 1) 0x1000) h"
    by (simp add: ex_madt_headers nmi_known_def ics_nmi_uid_def ex_madt_at)
  have c: "count_number_of_local_apic (ex_madt 1) 0x1000 = Inr 2"
    using u by (simp add: count_lapics [OF ex_madt_ok] h)
  have "fresh_array 2 ?g" by (simp add: fresh_array_def)
  from fill_apic_array_correct [OF ex_madt_ok c this u k] show ?thesis
    by (intro exI [of _ ?g] exI, intro conjI, assumption)
      (simp_all add: h ex_madt_headers nmi_of_def nmi_for_all_def ics_nmi_uid_def ex_madt_at lapic_of_def ics_lapic_apic_id_def upt_rec)
qed

text \<open>
  A table with a local APIC that is neither enabled nor can be enabled stops the kernel: the count that
  sizes the array leaves it out, the loop that fills the array does not, and its assertion fails.
\<close>

theorem fill_apic_array_panics:
  assumes "madt_in_memory mem madt" and "madt_wf mem madt"
    and "count_number_of_local_apic mem madt = Inr n" and "fresh_array n g"
    and "h \<in> set (lapic_headers mem madt)" and "\<not> usable_lapic mem h"
  shows "fill_apic_array mem madt g = Inl (Panic FAILED_ASSERT)"
  by (rule fill_apic_array_disabled [OF assms])

theorem fill_apic_array_panics_witness:
  "\<exists>n g. count_number_of_local_apic (ex_madt 0) 0x1000 = Inr n \<and> fresh_array n g \<and>
     fill_apic_array (ex_madt 0) 0x1000 g = Inl (Panic FAILED_ASSERT)"
proof -
  let ?g = "\<lparr>lapic_array = 0x5000, lapic_array_size = 1, lapics = replicate 1 zero_lapic, lapic_base_address = 0,
    register_space_mapping = invalid_handle\<rparr>"
  have h: "lapic_headers (ex_madt 0) 0x1000 = [0x102C, 0x1034]" by (simp add: lapic_headers_def ex_madt_headers ex_madt_at)
  have u: "usable_lapic (ex_madt 0) 0x102C" "\<not> usable_lapic (ex_madt 0) 0x1034"
    by (simp_all add: usable_lapic_def ics_lapic_flags_def read_u32_def ex_madt_at)
  have c: "count_number_of_local_apic (ex_madt 0) 0x1000 = Inr 1" using u by (simp add: count_lapics [OF ex_madt_ok] h)
  have f: "fresh_array 1 ?g" by (simp add: fresh_array_def)
  show ?thesis using fill_apic_array_panics [OF ex_madt_ok c f _ u(2)] c f by (auto simp: h)
qed

end
