(* ===== verification/Ioapic.thy ===== *)
theory Ioapic
  imports Apic
begin

text \<open>
  The I/O APICs (kernel/interrupt/ioapic.c): the arrays of I/O APICs and of interrupt source overrides that
  the MADT describes, the access to the registers of a device through its select and window registers, and
  the redirection of an interrupt line. A device is found by its physical base address.
\<close>

section \<open>Structures\<close>

record IOAPICInterruptRedirection =
  reidirect_to_lowest_priority :: bool
  apic_id_to_redirect :: u8
  redir_trigger_mode :: u8
  redir_polarity :: u8
  redir_mask :: bool
  redir_vector :: u8

record ISA_irq_fix =
  irq_override :: bool
  polarity_override :: bool
  trigger_override :: bool
  fix_irq :: u64
  fix_polarity :: u8
  fix_trigger_mode :: u8

text \<open>The fields of an I/O APIC structure and of a source override.\<close>

definition ics_ioapic_id :: "bytes \<Rightarrow> addr \<Rightarrow> u8" where
  "ics_ioapic_id mem p = mem (p + 2)"

definition ics_ioapic_address :: "bytes \<Rightarrow> addr \<Rightarrow> u32" where
  "ics_ioapic_address mem p = read_u32 mem (p + 4)"

definition ics_ioapic_base :: "bytes \<Rightarrow> addr \<Rightarrow> u32" where
  "ics_ioapic_base mem p = read_u32 mem (p + 8)"

definition ics_iso_bus :: "bytes \<Rightarrow> addr \<Rightarrow> u8" where
  "ics_iso_bus mem p = mem (p + 2)"

definition ics_iso_source :: "bytes \<Rightarrow> addr \<Rightarrow> u8" where
  "ics_iso_source mem p = mem (p + 3)"

definition ics_iso_gsi :: "bytes \<Rightarrow> addr \<Rightarrow> u32" where
  "ics_iso_gsi mem p = read_u32 mem (p + 4)"

definition ics_iso_flags :: "bytes \<Rightarrow> addr \<Rightarrow> u16" where
  "ics_iso_flags mem p = read_u16 mem (p + 8)"

definition on_ioapics :: "(IOAPICSubsystemData \<Rightarrow> IOAPICSubsystemData) \<Rightarrow> kstate \<Rightarrow> kstate" where
  "on_ioapics f s = on_kernel (ioapic_gdata_update f) s"

section \<open>Registers\<close>

definition get_ioapic_virtual_base_address :: "IOAPIC \<Rightarrow> kstate \<Rightarrow> addr kres" where
  "get_ioapic_virtual_base_address ioapic s = get_vmem_addr (ioapic_mmap ioapic) s"

definition upd_ioapic_device :: "addr \<Rightarrow> (ioapic_device \<Rightarrow> ioapic_device) \<Rightarrow> kstate \<Rightarrow> kstate" where
  "upd_ioapic_device p f s = on_kernel (ioapic_devices_update (\<lambda>ds. ds(p := f (ds p)))) s"

text \<open>A store to the select register, then an access to the window register.\<close>

definition write_32_ioapic_register :: "IOAPIC \<Rightarrow> u8 \<Rightarrow> u32 \<Rightarrow> kstate \<Rightarrow> kstate kres" where
  "write_32_ioapic_register ioapic offset value s =
     kbind (get_ioapic_virtual_base_address ioapic s) (\<lambda>_.
       Inr (upd_ioapic_device (physical_base_address ioapic)
         (\<lambda>d. d\<lparr>ioregsel := offset, ioregs := (ioregs d)(offset := value)\<rparr>) s))"

definition read_32_ioapic_register :: "IOAPIC \<Rightarrow> u8 \<Rightarrow> kstate \<Rightarrow> (u32 \<times> kstate) kres" where
  "read_32_ioapic_register ioapic offset s =
     kbind (get_ioapic_virtual_base_address ioapic s) (\<lambda>_.
       let s1 = upd_ioapic_device (physical_base_address ioapic) (\<lambda>d. d\<lparr>ioregsel := offset\<rparr>) s
       in Inr (ioregs (ioapic_devices (vmem s1) (physical_base_address ioapic)) offset, s1))"

definition write_64_ioapic_register :: "IOAPIC \<Rightarrow> u8 \<Rightarrow> u64 \<Rightarrow> kstate \<Rightarrow> kstate kres" where
  "write_64_ioapic_register ioapic offset value s =
     kbind (write_32_ioapic_register ioapic offset (ucast value) s)
       (write_32_ioapic_register ioapic (offset + 1) (ucast (drop_bit 32 value)))"

definition read_64_ioapic_register :: "IOAPIC \<Rightarrow> u8 \<Rightarrow> kstate \<Rightarrow> (u64 \<times> kstate) kres" where
  "read_64_ioapic_register ioapic offset s =
     kbind (read_32_ioapic_register ioapic offset s) (\<lambda>(low, s1).
     kbind (read_32_ioapic_register ioapic (offset + 1) s1) (\<lambda>(high, s2).
       Inr (ucast low OR push_bit 32 (ucast high), s2)))"

section \<open>Initialisation\<close>

definition zero_ioapic :: IOAPIC where
  "zero_ioapic = \<lparr>ics_ioapic = NULL, physical_base_address = NULL, ioapic_mmap = invalid_handle, ioapic_id = 0,
     ioapic_version = 0, maximum_redirection_entry = 0\<rparr>"

definition fill_ioapic :: "bytes \<Rightarrow> addr \<Rightarrow> u64 \<times> IOAPICSubsystemData \<Rightarrow> (u64 \<times> IOAPICSubsystemData) kres" where
  "fill_ioapic mem header = (\<lambda>(ioapic_array_index, g).
     if ics_type (read_ICS_header mem header) = 1 then
       kassert (ioapic_array_index < ioapic_array_size g)
         (Inr (ioapic_array_index + 1, g\<lparr>ioapics := (ioapics g)[unat ioapic_array_index :=
            zero_ioapic\<lparr>ics_ioapic := header, physical_base_address := ucast (ics_ioapic_address mem header)\<rparr>]\<rparr>))
     else Inr (ioapic_array_index, g))"

definition fill_ioapic_array :: "bytes \<Rightarrow> addr \<Rightarrow> IOAPICSubsystemData \<Rightarrow> IOAPICSubsystemData kres" where
  "fill_ioapic_array mem madt g =
     kassert (madt \<noteq> NULL)
      (kassert (ioapic_array g \<noteq> NULL)
        (kbind (each_ICS_header mem madt (fill_ioapic mem) (0, g)) (\<lambda>(ioapic_array_index, g1).
           kassert (ioapic_array_index = ioapic_array_size g1) (Inr g1))))"

definition fill_source_override :: "bytes \<Rightarrow> addr \<Rightarrow> u64 \<times> IOAPICSubsystemData \<Rightarrow> (u64 \<times> IOAPICSubsystemData) kres" where
  "fill_source_override mem header = (\<lambda>(soverride_array_index, g).
     if ics_type (read_ICS_header mem header) = 2 then
       kassert (soverride_array_index < source_override_array_size g)
        (kassert (ics_iso_bus mem header = 0)
         (Inr (soverride_array_index + 1, g\<lparr>source_overrides := (source_overrides g)[unat soverride_array_index := header]\<rparr>)))
     else Inr (soverride_array_index, g))"

definition fill_source_override_array :: "bytes \<Rightarrow> addr \<Rightarrow> IOAPICSubsystemData \<Rightarrow> IOAPICSubsystemData kres" where
  "fill_source_override_array mem madt g =
     kassert (madt \<noteq> NULL)
       (if source_override_array_size g = 0 then Inr g
        else kassert (source_override_array g \<noteq> NULL)
          (kbind (each_ICS_header mem madt (fill_source_override mem) (0, g)) (\<lambda>(soverride_array_index, g1).
             kassert (soverride_array_index = source_override_array_size g1) (Inr g1))))"

definition upd_ioapic :: "nat \<Rightarrow> (IOAPIC \<Rightarrow> IOAPIC) \<Rightarrow> kstate \<Rightarrow> kstate" where
  "upd_ioapic i f s = on_ioapics (\<lambda>g. g\<lparr>ioapics := (ioapics g)[i := f (ioapics g ! i)]\<rparr>) s"

definition init_single_ioapic :: "kmalloc_op \<Rightarrow> nat \<Rightarrow> kstate \<Rightarrow> (bool \<times> kstate) kres" where
  "init_single_ioapic km i s =
     kbind (memory_map km KernelVMM (physical_base_address (ioapics (ioapic_gdata (vmem s)) ! i)) PAGE_SIZE 0x12 s) (\<lambda>(h, s1).
       let s2 = upd_ioapic i (\<lambda>a. a\<lparr>ioapic_mmap := h\<rparr>) s1
       in if is_vmemhandle_invalid h then Inr (False, s2)
          else kbind (read_32_ioapic_register (ioapics (ioapic_gdata (vmem s2)) ! i) 0 s2) (\<lambda>(id_reg, s3).
               let s4 = upd_ioapic i (\<lambda>a. a\<lparr>ioapic_id := ucast (drop_bit 24 id_reg AND 0x0f)\<rparr>) s3
               in kbind (read_32_ioapic_register (ioapics (ioapic_gdata (vmem s4)) ! i) 1 s4) (\<lambda>(version_reg_data, s5).
                  Inr (True, upd_ioapic i (\<lambda>a. a\<lparr>ioapic_version := ucast (version_reg_data AND 0xff),
                    maximum_redirection_entry := ucast ((drop_bit 16 version_reg_data AND 0xff) + 1)\<rparr>) s5))))"

fun init_each_ioapic :: "kmalloc_op \<Rightarrow> nat list \<Rightarrow> kstate \<Rightarrow> (bool \<times> kstate) kres" where
  "init_each_ioapic km [] s = Inr (True, s)"
| "init_each_ioapic km (i # is) s =
     kbind (init_single_ioapic km i s) (\<lambda>(ok, s1). if \<not> ok then Inr (False, s1) else init_each_ioapic km is s1)"

text \<open>An I/O APIC takes 40 bytes of the heap.\<close>

definition init_ioapics :: "kmalloc_op \<Rightarrow> kstate \<Rightarrow> (bool \<times> kstate) kres" where
  "init_ioapics km s =
     kbind (get_MADT s) (\<lambda>(madt, s1).
       if madt = NULL then Inr (False, s1)
       else
         let mem = acpi_mem (vmem s1)
         in kbind (count_ICS_header_instances mem madt 1) (\<lambda>count_of_ioapic.
            if count_of_ioapic = 0 then Inr (False, s1)
            else kbind (km (count_of_ioapic * 40) (on_kernel (\<lambda>k. k\<lparr>ioapic_lock := False\<rparr>) s1)) (\<lambda>(p, s2).
              let s3 = on_ioapics (\<lambda>g. g\<lparr>ioapic_array := p, ioapic_array_size := count_of_ioapic,
                         ioapics := replicate (unat count_of_ioapic) zero_ioapic\<rparr>) s2
              in kbind (count_ICS_header_instances mem madt 2) (\<lambda>count_of_source_overrides.
                 kbind (if count_of_source_overrides \<noteq> 0 then
                          kbind (km (count_of_source_overrides * 8) s3) (\<lambda>(q, s4).
                            Inr (on_ioapics (\<lambda>g. g\<lparr>source_override_array := q,
                              source_overrides := replicate (unat count_of_source_overrides) NULL\<rparr>) s4))
                        else Inr s3) (\<lambda>s5.
                   let s6 = on_ioapics (\<lambda>g. g\<lparr>source_override_array_size := count_of_source_overrides\<rparr>) s5
                   in kbind (fill_ioapic_array mem madt (ioapic_gdata (vmem s6))) (\<lambda>g1.
                      kbind (fill_source_override_array mem madt g1) (\<lambda>g2.
                        init_each_ioapic km [0..<unat (ioapic_array_size g2)] (on_ioapics (\<lambda>_. g2) s6))))))))"

section \<open>Redirection\<close>

definition no_fix :: ISA_irq_fix where
  "no_fix = \<lparr>irq_override = False, polarity_override = False, trigger_override = False, fix_irq = 0,
     fix_polarity = 0, fix_trigger_mode = 0\<rparr>"

text \<open>
  The fix of a source override. The flags that ask for another polarity or trigger mode are never set.
\<close>

definition iso_fix :: "bytes \<Rightarrow> addr \<Rightarrow> ISA_irq_fix kres" where
  "iso_fix mem ics_iso =
     (let fix = no_fix\<lparr>irq_override := True, fix_irq := ucast (ics_iso_gsi mem ics_iso)\<rparr>;
          polarity_flag = ics_iso_flags mem ics_iso AND 3;
          trigger_mode_flag = ics_iso_flags mem ics_iso AND 12
      in kbind (if polarity_flag \<noteq> 0
                then kassert (polarity_flag \<noteq> 2) (Inr (fix\<lparr>fix_polarity := (if polarity_flag = 3 then 1 else 0)\<rparr>))
                else Inr fix) (\<lambda>fix1.
           if trigger_mode_flag \<noteq> 0
           then kassert (trigger_mode_flag \<noteq> 8) (Inr (fix1\<lparr>fix_trigger_mode := (if trigger_mode_flag = 12 then 1 else 0)\<rparr>))
           else Inr fix1))"

definition get_isa_fix :: "u64 \<Rightarrow> kstate \<Rightarrow> (ISA_irq_fix \<times> kstate) kres" where
  "get_isa_fix irq s =
     (let g = ioapic_gdata (vmem s); mem = acpi_mem (vmem s)
      in kassert (source_override_array g \<noteq> NULL)
        (case find (\<lambda>p. ucast (ics_iso_source mem p) = irq) (take (unat (source_override_array_size g)) (source_overrides g)) of
           None \<Rightarrow> Inr (no_fix, s)
         | Some ics_iso \<Rightarrow>
             kbind (on_kio (print (''ioapic isa fix!'' @ [CHR 0x0A])) s) (\<lambda>s1.
             kbind (iso_fix mem ics_iso) (\<lambda>fix. Inr (fix, s1)))))"

definition apply_fix :: "ISA_irq_fix \<Rightarrow> u64 \<Rightarrow> IOAPICInterruptRedirection \<Rightarrow> u64 \<times> IOAPICInterruptRedirection" where
  "apply_fix fix irq r =
     (let r1 = (if trigger_override fix then r\<lparr>redir_trigger_mode := fix_trigger_mode fix\<rparr> else r);
          r2 = (if polarity_override fix then r1\<lparr>redir_polarity := fix_polarity fix\<rparr> else r1)
      in (if irq_override fix then fix_irq fix else irq, r2))"

definition redirection_entry :: "IOAPICInterruptRedirection \<Rightarrow> u64 kres" where
  "redirection_entry r =
     kbind (if reidirect_to_lowest_priority r then Inr (ucast (redir_vector r) OR push_bit 8 1)
            else kassert (apic_id_to_redirect r AND 0x0f = apic_id_to_redirect r)
              (Inr (ucast (redir_vector r) OR push_bit 56 (ucast (apic_id_to_redirect r))))) (\<lambda>e :: u64.
       Inr (e OR push_bit 13 (ucast (redir_polarity r)) OR push_bit 15 (ucast (redir_trigger_mode r)) OR
         push_bit 16 (if redir_mask r then 1 else 0)))"

text \<open>The I/O APIC whose lines contain the interrupt.\<close>

definition serves_irq :: "bytes \<Rightarrow> u64 \<Rightarrow> IOAPIC \<Rightarrow> bool" where
  "serves_irq mem irq a \<longleftrightarrow>
     (let starting_irq = ucast (ics_ioapic_base mem (ics_ioapic a)) :: u64
      in irq \<ge> starting_irq \<and> irq < starting_irq + ucast (maximum_redirection_entry a))"

definition setIOAPICInterruptRedirection :: "IOAPICInterruptRedirection \<Rightarrow> u64 \<Rightarrow> kstate \<Rightarrow> kstate kres" where
  "setIOAPICInterruptRedirection redirection irq0 s =
     (if ioapic_lock (vmem s) then Inl Hang
      else kbind (get_isa_fix irq0 (on_kernel (\<lambda>k. k\<lparr>ioapic_lock := True\<rparr>) s)) (\<lambda>(fix, s1).
        let (irq, r) = apply_fix fix irq0 redirection; g = ioapic_gdata (vmem s1); mem = acpi_mem (vmem s1)
        in kbind (redirection_entry r) (\<lambda>ioredirection_entry.
           case find (serves_irq mem irq) (take (unat (ioapic_array_size g)) (ioapics g)) of
             None \<Rightarrow> kpanic FAILED_ASSERT
           | Some ioapic \<Rightarrow>
               let interrupt_line = irq - ucast (ics_ioapic_base mem (ics_ioapic ioapic))
               in kbind (write_64_ioapic_register ioapic (ucast (0x10 + interrupt_line * 2)) ioredirection_entry s1) (\<lambda>s2.
                    Inr (on_kernel (\<lambda>k. k\<lparr>ioapic_lock := False\<rparr>) s2)))))"

section \<open>Printing\<close>

definition print_line :: "string \<Rightarrow> (KioState \<Rightarrow> KioState kres) \<Rightarrow> kstate \<Rightarrow> kstate kres" where
  "print_line name value s =
     kbind (on_kio (print name) s) (\<lambda>s1. kbind (on_kio value s1) (on_kio (print [CHR 0x0A])))"

definition print_ioapic :: "bytes \<Rightarrow> IOAPIC \<Rightarrow> kstate \<Rightarrow> kstate kres" where
  "print_ioapic mem a s =
     kbind (on_kio (print (''---------------------------------'' @ [CHR 0x0A])) s)
       (kfold (\<lambda>(name, value). print_line name value)
         [(''IOAPIC madt ID: '', print_uint64_dec (ucast (ics_ioapic_id mem (ics_ioapic a)))),
          (''IOAPIC read ID: '', print_uint64_dec (ucast (ioapic_id a))),
          (''IOAPIC physical address: '', print_uint64_hex (physical_base_address a)),
          (''IOAPIC version: '', print_uint64_dec (ucast (ioapic_version a))),
          (''IOAPIC maximum redirection entry: '', print_uint64_dec (ucast (maximum_redirection_entry a)))])"

definition print_ioapic_states :: "kstate \<Rightarrow> kstate kres" where
  "print_ioapic_states s =
     (let g = ioapic_gdata (vmem s)
      in if ioapic_array g = NULL then on_kio (print (''NO IOAPIC DATA AVAILABLE'' @ [CHR 0x0A])) s
         else if ioapic_lock (vmem s) then Inl Hang
         else kbind (print_line ''Number of ioapics: '' (print_uint64_dec (ioapic_array_size g))
                      (on_kernel (\<lambda>k. k\<lparr>ioapic_lock := True\<rparr>) s)) (\<lambda>s1.
              kbind (on_kio (print (''IOAPICS states: '' @ [CHR 0x0A])) s1) (\<lambda>s2.
              kbind (kfold (print_ioapic (acpi_mem (vmem s))) (take (unat (ioapic_array_size g)) (ioapics g)) s2) (\<lambda>s3.
                Inr (on_kernel (\<lambda>k. k\<lparr>ioapic_lock := False\<rparr>) s3)))))"

end
