(* ===== verification/Pic.thy ===== *)
theory Pic
  imports Cpu_Data
begin

text \<open>
  The legacy interrupt controllers (kernel/interrupt/pic.c). The writes to the ports are recorded in
  order; a read of a port returns the value that the device has there.
\<close>

definition outb :: "u16 \<Rightarrow> u8 \<Rightarrow> kstate \<Rightarrow> kstate" where
  "outb port v s = on_kernel (\<lambda>k. k\<lparr>io_trace := io_trace k @ [Outb port v]\<rparr>) s"

definition outw :: "u16 \<Rightarrow> u16 \<Rightarrow> kstate \<Rightarrow> kstate" where
  "outw port v s = on_kernel (\<lambda>k. k\<lparr>io_trace := io_trace k @ [Outw port v]\<rparr>) s"

definition inb :: "u16 \<Rightarrow> kstate \<Rightarrow> u8" where
  "inb port s = io_in (vmem s) port"

definition io_wait :: "kstate \<Rightarrow> kstate" where
  "io_wait s = outb 0x80 0 s"

abbreviation (input) MASTER_COMMAND_PORT :: u16 where "MASTER_COMMAND_PORT \<equiv> 0x20"
abbreviation (input) MASTER_DATA_PORT :: u16 where "MASTER_DATA_PORT \<equiv> 0x21"
abbreviation (input) SLAVE_COMMAND_PORT :: u16 where "SLAVE_COMMAND_PORT \<equiv> 0xA0"
abbreviation (input) SLAVE_DATA_PORT :: u16 where "SLAVE_DATA_PORT \<equiv> 0xA1"
abbreviation (input) PIC_IDT_START :: "'a :: len word" where "PIC_IDT_START \<equiv> 0x20"
abbreviation (input) PIC_EOI :: u8 where "PIC_EOI \<equiv> 0x20"

definition with_pic_lock :: "(kstate \<Rightarrow> 'a \<times> kstate) \<Rightarrow> kstate \<Rightarrow> ('a \<times> kstate) kres" where
  "with_pic_lock f s =
     (if pic_lock (vmem s) then Inl Hang
      else let (r, s1) = f (on_kernel (\<lambda>k. k\<lparr>pic_lock := True\<rparr>) s)
           in Inr (r, on_kernel (\<lambda>k. k\<lparr>pic_lock := False\<rparr>) s1))"

definition pic_ack_interrupt :: "u64 \<Rightarrow> bool \<Rightarrow> kstate \<Rightarrow> kstate kres" where
  "pic_ack_interrupt interrupt_number spurious s =
     map_sum id snd (with_pic_lock (\<lambda>s1.
       ((), if spurious
            then (if interrupt_number - PIC_IDT_START = 15 then outb MASTER_COMMAND_PORT PIC_EOI s1 else s1)
            else outb MASTER_COMMAND_PORT PIC_EOI
                   (if interrupt_number - PIC_IDT_START \<ge> 8 then outb SLAVE_COMMAND_PORT PIC_EOI s1 else s1))) s)"

definition init_pic :: "kstate \<Rightarrow> kstate" where
  "init_pic s =
     (let s0 = on_kernel (\<lambda>k. k\<lparr>pic_lock := False\<rparr>) s;
          s1 = io_wait (outb MASTER_COMMAND_PORT 0x11 s0);
          s2 = io_wait (outb SLAVE_COMMAND_PORT 0x11 s1);
          s3 = io_wait (outb MASTER_DATA_PORT 0x20 s2);
          s4 = io_wait (outb SLAVE_DATA_PORT 0x28 s3);
          s5 = io_wait (outb MASTER_DATA_PORT 4 (io_wait s4));
          s6 = io_wait (outb SLAVE_DATA_PORT 2 s5);
          s7 = io_wait (outb MASTER_DATA_PORT 1 s6);
          s8 = io_wait (outb SLAVE_DATA_PORT 1 s7)
      in outb MASTER_DATA_PORT 0xFF (outb SLAVE_DATA_PORT 0xFF s8))"

text \<open>The data port and the line of an interrupt; a vector below 0x20 wraps around.\<close>

definition pic_line :: "u8 \<Rightarrow> u16 \<times> u8" where
  "pic_line irq_line =
     (let l = irq_line - PIC_IDT_START in if l < 8 then (MASTER_DATA_PORT, l) else (SLAVE_DATA_PORT, l - 8))"

definition set_pic_irq_mask :: "u8 \<Rightarrow> kstate \<Rightarrow> kstate kres" where
  "set_pic_irq_mask irq_line s =
     (let (port, l) = pic_line irq_line
      in map_sum id snd (with_pic_lock (\<lambda>s1. ((), outb port (inb port s1 OR push_bit (unat l) 1) s1)) s))"

definition clear_pic_irq_mask :: "u8 \<Rightarrow> kstate \<Rightarrow> kstate kres" where
  "clear_pic_irq_mask irq_line s =
     (let (port, l) = pic_line irq_line
      in map_sum id snd (with_pic_lock (\<lambda>s1. ((), outb port (inb port s1 AND NOT (push_bit (unat l) 1)) s1)) s))"

text \<open>Both halves are read from the slave.\<close>

definition get_pic_isr :: "kstate \<Rightarrow> (u16 \<times> kstate) kres" where
  "get_pic_isr = with_pic_lock (\<lambda>s.
     let s1 = outb SLAVE_COMMAND_PORT 0x0B (outb MASTER_COMMAND_PORT 0x0B s)
     in (push_bit 8 (ucast (inb SLAVE_COMMAND_PORT s1)) OR ucast (inb SLAVE_COMMAND_PORT s1), s1))"

definition is_pic_interrupt_spurious :: "u8 \<Rightarrow> kstate \<Rightarrow> (bool \<times> kstate) kres" where
  "is_pic_interrupt_spurious interrupt_number s =
     (let irq = interrupt_number - PIC_IDT_START
      in if irq = 7 then kbind (get_pic_isr s) (\<lambda>(isr, s1). Inr (isr AND push_bit 7 1 = 0, s1))
         else Inr (False, s))"

definition disable_pic :: "kstate \<Rightarrow> kstate kres" where
  "disable_pic s =
     map_sum id snd (with_pic_lock (\<lambda>s1. ((), outb MASTER_DATA_PORT 0xFF (outb SLAVE_DATA_PORT 0xFF s1))) s)"

end
