(* ===== verification/Pit.thy ===== *)
theory Pit
  imports Ioapic Pic
begin

text \<open>
  The programmable interval timer (kernel/timer/pit.c). The timer is the one of the kernel data. A wait
  sleeps until the next interrupt; what happens then is the parameter \<open>wake\<close>.
\<close>

section \<open>Programming\<close>

datatype ReadWriteMode =
    READ_WRITE_COUNTER_LATCH
  | READ_WRITE_LSB_ONLY
  | READ_WRITE_MSB_ONLY
  | READ_WRITE_LSB_FIRST_MSB_THEN

fun rw_code :: "ReadWriteMode \<Rightarrow> u8" where
  "rw_code READ_WRITE_COUNTER_LATCH = 0"
| "rw_code READ_WRITE_LSB_ONLY = 1"
| "rw_code READ_WRITE_MSB_ONLY = 2"
| "rw_code READ_WRITE_LSB_FIRST_MSB_THEN = 3"

abbreviation (input) PIT_FREQ_HZ :: u64 where "PIT_FREQ_HZ \<equiv> 1193182"
abbreviation (input) PIT_CHANNEL_0_DATA_PORT :: u16 where "PIT_CHANNEL_0_DATA_PORT \<equiv> 0x40"
abbreviation (input) PIT_MODE_COMMAND_PORT :: u16 where "PIT_MODE_COMMAND_PORT \<equiv> 0x42"

text \<open>Each assignment replaces the one before.\<close>

definition make_control_word :: "u8 \<Rightarrow> ReadWriteMode \<Rightarrow> u8 \<Rightarrow> u8 kres" where
  "make_control_word select_counter read_write mode =
     kassert (mode \<le> 5)
      (kassert (select_counter \<le> 4)
        (let control_word1 = push_bit 1 (mode AND 7);
             control_word2 = push_bit 4 (rw_code read_write AND 3);
             control_word3 = push_bit 6 (select_counter AND 3)
         in Inr control_word3))"

definition on_pit :: "(PIT \<Rightarrow> PIT) \<Rightarrow> kstate \<Rightarrow> kstate" where
  "on_pit f s = on_kdata (pit_update f) s"

abbreviation the_pit :: "kstate \<Rightarrow> PIT" where
  "the_pit s \<equiv> pit (kernel_data (vmem s))"

definition with_pit_lock :: "(kstate \<Rightarrow> kstate) \<Rightarrow> kstate \<Rightarrow> kstate kres" where
  "with_pit_lock f s =
     (if hardware_lock (the_pit s) then Inl Hang
      else Inr (on_pit (hardware_lock_update (\<lambda>_. False)) (f (on_pit (hardware_lock_update (\<lambda>_. True)) s))))"

definition set_mode0_on_channel0 :: "u16 \<Rightarrow> kstate \<Rightarrow> kstate kres" where
  "set_mode0_on_channel0 counter_value s =
     kbind (make_control_word 0 READ_WRITE_LSB_FIRST_MSB_THEN 0) (\<lambda>control_word.
       with_pit_lock (\<lambda>s1. outw PIT_CHANNEL_0_DATA_PORT counter_value (outb PIT_MODE_COMMAND_PORT control_word s1)) s)"

definition set_mode2_on_channel0 :: "u16 \<Rightarrow> kstate \<Rightarrow> kstate kres" where
  "set_mode2_on_channel0 counter_value s =
     kbind (make_control_word 0 READ_WRITE_LSB_FIRST_MSB_THEN 2) (\<lambda>control_word.
       let counter_value_low = ucast counter_value :: u8;
           counter_value_high = ucast (drop_bit 8 counter_value) :: u8
       in with_pit_lock (\<lambda>s1.
            outb PIT_CHANNEL_0_DATA_PORT counter_value_high
              (outb PIT_CHANNEL_0_DATA_PORT counter_value_low (outb PIT_MODE_COMMAND_PORT control_word s1))) s)"

text \<open>A division by zero is not defined.\<close>

definition get_counter_value_from_frequency :: "u64 \<Rightarrow> u16 kres" where
  "get_counter_value_from_frequency target_frequency_hz =
     (if target_frequency_hz = 0 then Inl Undefined
      else
        let q = PIT_FREQ_HZ div target_frequency_hz;
            remainder = PIT_FREQ_HZ mod target_frequency_hz;
            counter_value = (if remainder > PIT_FREQ_HZ div 2 then q + 1 else q)
        in Inr (ucast (if counter_value > 0xffff then 0xffff else counter_value)))"

definition get_frequency_hz_from_counter_value :: "u16 \<Rightarrow> u64 kres" where
  "get_frequency_hz_from_counter_value counter_value =
     (if counter_value = 0 then Inl Undefined
      else
        let freq = PIT_FREQ_HZ div ucast counter_value;
            remainder = PIT_FREQ_HZ mod ucast counter_value
        in Inr (if remainder > PIT_FREQ_HZ div 2 then freq + 1 else freq))"

definition enable_PIT_irq :: "kstate \<Rightarrow> kstate kres" where
  "enable_PIT_irq s =
     kbind (get_logical_core_lapic_id s) (\<lambda>lapic_id.
       setIOAPICInterruptRedirection
         \<lparr>reidirect_to_lowest_priority = False, apic_id_to_redirect = ucast lapic_id, redir_trigger_mode = 0,
          redir_polarity = 0, redir_mask = False, redir_vector = interrupt_vector (the_pit s)\<rparr> 0 s)"

definition initialize_PIT_timer :: "u64 \<Rightarrow> u8 \<Rightarrow> kstate \<Rightarrow> (u64 \<times> kstate) kres" where
  "initialize_PIT_timer target_frequency_hz vec s =
     (let s1 = on_pit (\<lambda>p. p\<lparr>channel_0_initialized := False, channel_2_initialized := False, interrupt_vector := vec,
                 interrupt_receiver_apic_id := 0, tick_counter := 0, hardware_lock := False\<rparr>) s
      in kbind (install_interrupt_handler (ucast vec) pit_handler s1) (\<lambda>s2.
         kbind (set_interrupt_handler_extra_data (ucast vec) ExtraPIT s2) (\<lambda>s3.
         kbind (get_counter_value_from_frequency target_frequency_hz) (\<lambda>counter_value.
         kbind (get_frequency_hz_from_counter_value counter_value) (\<lambda>freq.
         kbind (set_mode2_on_channel0 counter_value (on_pit (interrupt_frequency_update (\<lambda>_. freq)) s3)) (\<lambda>s4.
         kbind (get_logical_core_lapic_id s4) (\<lambda>lapic_id.
         kbind (enable_PIT_irq (on_pit (interrupt_receiver_apic_id_update (\<lambda>_. lapic_id)) s4)) (\<lambda>s5.
           Inr (interrupt_frequency (the_pit s5), s5)))))))))"

section \<open>Time\<close>

definition get_PIT_real_frequency :: "kstate \<Rightarrow> u64" where
  "get_PIT_real_frequency s = interrupt_frequency (the_pit s)"

definition get_PIT_tick_count :: "kstate \<Rightarrow> u64" where
  "get_PIT_tick_count s = tick_counter (the_pit s)"

definition get_ms_from_tick_count :: "u64 \<Rightarrow> kstate \<Rightarrow> u64 kres" where
  "get_ms_from_tick_count tick s =
     (if interrupt_frequency (the_pit s) = 0 then Inl Undefined else Inr ((tick * 1000) div interrupt_frequency (the_pit s)))"

definition get_us_from_tick_count :: "u64 \<Rightarrow> kstate \<Rightarrow> u64 kres" where
  "get_us_from_tick_count tick s =
     (if interrupt_frequency (the_pit s) = 0 then Inl Undefined else Inr ((tick * 1000000) div interrupt_frequency (the_pit s)))"

text \<open>
  The loop that sleeps until enough time has passed. The counter has \<open>2^64\<close> values: a wait of as many
  interrupts without enough time passing does not end.
\<close>

fun wait_loop :: "nat \<Rightarrow> (kstate \<Rightarrow> kstate kres) \<Rightarrow> (u64 \<Rightarrow> kstate \<Rightarrow> u64 kres) \<Rightarrow> u64 \<Rightarrow> u64 \<Rightarrow> kstate \<Rightarrow> kstate kres" where
  "wait_loop n wake elapsed starting_ticks t s =
     kbind (elapsed (get_PIT_tick_count s - starting_ticks) s) (\<lambda>e.
       if e < t then (case n of 0 \<Rightarrow> Inl Hang | Suc m \<Rightarrow> kbind (wake s) (wait_loop m wake elapsed starting_ticks t))
       else Inr s)"

declare wait_loop.simps [simp del]

definition PIT_wait_ms :: "(kstate \<Rightarrow> kstate kres) \<Rightarrow> u64 \<Rightarrow> kstate \<Rightarrow> kstate kres" where
  "PIT_wait_ms wake ms s =
     kassert (interrupts_enabled (vmem s)) (wait_loop (2 ^ 64) wake get_ms_from_tick_count (get_PIT_tick_count s) ms s)"

definition PIT_wait_us :: "(kstate \<Rightarrow> kstate kres) \<Rightarrow> u64 \<Rightarrow> kstate \<Rightarrow> kstate kres" where
  "PIT_wait_us wake us s =
     kassert (interrupts_enabled (vmem s)) (wait_loop (2 ^ 64) wake get_us_from_tick_count (get_PIT_tick_count s) us s)"

definition PIT_interrupt_handler :: "extra_data \<Rightarrow> kstate \<Rightarrow> kstate kres" where
  "PIT_interrupt_handler extra s =
     (case extra of NoExtraData \<Rightarrow> Inl Undefined
      | ExtraPIT \<Rightarrow>
          kbind (get_logical_core_lapic_id s) (\<lambda>lapic_id.
            if lapic_id \<noteq> interrupt_receiver_apic_id (the_pit s) then Inr s
            else send_IPI_by_destination_shorthand APIC_DESTSH_ALL_EXCLUDING_SELF (interrupt_vector (the_pit s))
                   (on_pit (\<lambda>p. p\<lparr>tick_counter := tick_counter p + 1\<rparr>) s)))"

end
