(* ===== verification/Interrupts.thy ===== *)
theory Interrupts
  imports Pit Vmm_Free
begin

text \<open>
  The dispatch of interrupts and the initialisation of the interrupt controllers
  (kernel/interrupt/interrupts.c), the handlers of kernel/kmain.c, and the parts of kernel/kernel_data.c that
  use them. The handler table itself is in \<open>Cpu_Data\<close>. The register \<open>cr2\<close> at the time of the interrupt is
  a parameter.
\<close>

section \<open>Handlers\<close>

record InterruptInfo =
  int_error :: u64
  interrupt_number :: u64
  extra_data :: extra_data

definition general_protection_fault :: "InterruptInfo \<Rightarrow> kstate \<Rightarrow> kstate kres" where
  "general_protection_fault info s =
     kbind (on_kio (printf (''[GENERAL PROTECTION FAULT] error: %h64'' @ [CHR 0x0A]) [ArgU64 (int_error info)]) s)
       (\<lambda>_. kpanic UNRECOVERABLE_GPF)"

definition interrupt_print :: "InterruptInfo \<Rightarrow> kstate \<Rightarrow> kstate kres" where
  "interrupt_print info s =
     kassert (interrupt_number info > 32)
       (on_kio (printf (''[INT %u64] error: %h64'' @ [CHR 0x0A]) [ArgU64 (interrupt_number info), ArgU64 (int_error info)]) s)"

text \<open>The call through a function pointer.\<close>

fun call_handler :: "InterruptHandler \<Rightarrow> addr \<Rightarrow> InterruptInfo \<Rightarrow> kstate \<Rightarrow> kstate kres" where
  "call_handler page_fault_handler cr2 info s = page_fault cr2 (int_error info) s"
| "call_handler cache_shootdown_handler cr2 info s = cache_shootdown_interrupt_handler s"
| "call_handler apic_error_handler cr2 info s = apic_error_interrupt_handler s"
| "call_handler pit_handler cr2 info s = PIT_interrupt_handler (extra_data info) s"
| "call_handler interrupt_print_handler cr2 info s = interrupt_print info s"
| "call_handler general_protection_fault_handler cr2 info s = general_protection_fault info s"

section \<open>Dispatch\<close>

definition lapic_eoi :: "u64 \<Rightarrow> kstate \<Rightarrow> kstate kres" where
  "lapic_eoi n s =
     kbind (is_local_apic_initialized s) (\<lambda>initialized.
       if initialized
       then kbind (is_interrupt_lapic_generated (ucast n) s) (\<lambda>generated. if generated then send_lapic_EOI s else Inr s)
       else Inr s)"

definition interrupt_routine :: "u64 \<Rightarrow> u64 \<Rightarrow> addr \<Rightarrow> kstate \<Rightarrow> kstate kres" where
  "interrupt_routine n error cr2 s =
     kassert (n < 256)
       (if pic_present (vmem s) \<and> n - PIC_IDT_START < 16 then
          kbind (is_pic_interrupt_spurious (ucast n) s) (\<lambda>(is_spurious, s1). pic_ack_interrupt n is_spurious s1)
        else if n = 0xff then Inr s
        else if handlers_lock (vmem s) then Inl Hang
        else
          let info = \<lparr>int_error = error, interrupt_number = n, extra_data = extra_data_array (vmem s) ! unat n\<rparr>;
              vec_handler = handlers (vmem s) ! unat n;
              default_handler_copy = (if vec_handler = None then default_handler (vmem s) else None)
          in kbind (case vec_handler of None \<Rightarrow> Inr s | Some h \<Rightarrow> call_handler h cr2 info s) (\<lambda>s1.
             kbind (case default_handler_copy of None \<Rightarrow> Inr s1 | Some h \<Rightarrow> call_handler h cr2 info s1) (lapic_eoi n)))"

section \<open>Initialisation\<close>

definition init_interrupt_controller_subsystems :: "kmalloc_op \<Rightarrow> u32 \<Rightarrow> (u32 \<Rightarrow> u64) \<Rightarrow> kstate \<Rightarrow> kstate kres" where
  "init_interrupt_controller_subsystems km edx msr s = kbind (init_apic_subsystem km edx msr s) (\<lambda>(_, s1). Inr s1)"

definition init_local_interrupt_controllers :: "kstate \<Rightarrow> kstate kres" where
  "init_local_interrupt_controllers s = kbind (init_local_apic s) (\<lambda>(ok, s1). kassert ok (Inr s1))"

definition init_global_interrupt_controllers :: "kmalloc_op \<Rightarrow> kstate \<Rightarrow> kstate kres" where
  "init_global_interrupt_controllers km s =
     kbind (get_MADT s) (\<lambda>(madt, s1).
       if madt = NULL then kpanic GENERIC_ERROR
       else kbind (madt_has_pic (acpi_mem (vmem s1)) madt) (\<lambda>pic.
            kbind (if pic then disable_pic (init_pic (on_kernel (pic_present_update (\<lambda>_. True)) s1)) else Inr s1) (\<lambda>s2.
            kbind (init_ioapics km s2) (\<lambda>(ok, s3). kassert ok (Inr s3)))))"

text \<open>From kernel/kernel_data.c.\<close>

definition init_kernel_data_PIT :: "u64 \<Rightarrow> kstate \<Rightarrow> kstate kres" where
  "init_kernel_data_PIT target_frequency_hz s =
     (if pit_initialized (kernel_data (vmem s)) \<noteq> 0 then kpanic GENERIC_ERROR
      else kbind (initialize_PIT_timer target_frequency_hz 0x41 (on_kdata (pit_initialized_update (\<lambda>n. n + 1)) s)) (\<lambda>(_, s1). Inr s1))"

definition initialize_kernel_data_kernel_VMM :: "kmalloc_op \<Rightarrow> addr \<Rightarrow> kstate \<Rightarrow> kstate kres" where
  "initialize_kernel_data_kernel_VMM km ps s = initialize_kernel_VMM km KernelVMM ps s"

definition get_kernel_VMM_from_kernel_data :: vmm_ref where
  "get_kernel_VMM_from_kernel_data = KernelVMM"

section \<open>The timer interrupt\<close>

text \<open>
  The timer is set up: its handler is installed with the timer as extra data, the local APIC of the
  executing CPU receives it, and no other interrupt command is pending.
\<close>

definition lapic_ready :: "kstate \<Rightarrow> bool" where
  "lapic_ready s \<longleftrightarrow> lapic_mapped s \<and> (\<exists>d. vm_desc (register_space_mapping (lapic_gdata (vmem s))) = Some d) \<and>
     is_local_apic_initialized s = Inr True \<and> lapic_regs (vmem s) 0x300 AND push_bit 12 1 = 0"

definition pit_ready :: "kstate \<Rightarrow> bool" where
  "pit_ready s \<longleftrightarrow> lapic_ready s \<and> \<not> handlers_lock (vmem s) \<and> length (handlers (vmem s)) = 256 \<and>
     handlers (vmem s) ! 0x41 = Some pit_handler \<and> extra_data_array (vmem s) ! 0x41 = ExtraPIT \<and>
     interrupt_vector (the_pit s) = 0x41 \<and> drop_bit 24 (lapic_regs (vmem s) 0x20) AND 0xff = interrupt_receiver_apic_id (the_pit s)"

text \<open>What the timer interrupt keeps: everything but the registers of the local APIC and the tick counter.\<close>

definition pit_core :: "kernel \<Rightarrow> kernel" where
  "pit_core k = k\<lparr>lapic_regs := (\<lambda>_. 0), ipi_log := [],
     kernel_data := (kernel_data k)\<lparr>pit := (pit (kernel_data k))\<lparr>tick_counter := 0\<rparr>\<rparr>\<rparr>"

lemma lapic_reads:
  assumes "lapic_ready s"
  shows "read_32_lapic_register r s = Inr (lapic_regs (vmem s) r)"
    and "write_32_lapic_register r v s = Inr (on_kernel (lapic_store r v) s)"
    and "read_64_lapic_register r s = Inr (ucast (lapic_regs (vmem s) r) OR push_bit 32 (ucast (lapic_regs (vmem s) (r + 0x10))))"
    and "write_64_lapic_register r w s =
      Inr (on_kernel (lapic_store (r + 0x10) (ucast (drop_bit 32 w))) (on_kernel (lapic_store r (ucast w)) s))"
proof -
  have "\<exists>a. get_register_space_start_addr s = Inr a"
    using assms by (auto simp: lapic_ready_def get_register_space_start_addr_def get_vmem_addr_def the_ref_def)
  then show "read_32_lapic_register r s = Inr (lapic_regs (vmem s) r)"
    and "write_32_lapic_register r v s = Inr (on_kernel (lapic_store r v) s)"
    and "read_64_lapic_register r s = Inr (ucast (lapic_regs (vmem s) r) OR push_bit 32 (ucast (lapic_regs (vmem s) (r + 0x10))))"
    and "write_64_lapic_register r w s =
      Inr (on_kernel (lapic_store (r + 0x10) (ucast (drop_bit 32 w))) (on_kernel (lapic_store r (ucast w)) s))"
    by (auto simp only: read_32_lapic_register_def write_32_lapic_register_def read_64_lapic_register_def
        write_64_lapic_register_def kbind_simps Let_def)
qed

lemma icr_idle:
  assumes "(v :: u32) AND push_bit 12 1 = 0"
  shows "(ucast v OR push_bit 32 (ucast (w :: u32)) :: u64) AND push_bit 12 1 = 0"
proof -
  have "\<not> bit v 12" using assms by (simp only: bit_iff_and_push_bit_not_eq_0 not_not)
  then have "\<not> bit (ucast v OR push_bit 32 (ucast w) :: u64) 12" by (simp add: bit_or_iff bit_push_bit_iff bit_ucast_iff)
  then show ?thesis by (simp only: bit_iff_and_push_bit_not_eq_0 not_not)
qed

lemma lapic_store_fields [simp]:
  "lapic_gdata (lapic_store off v k) = lapic_gdata k" "descs (lapic_store off v k) = descs k"
  "lapic_regs (lapic_store off v k) r = (if r = off then v else lapic_regs k r)"
  "handlers (lapic_store off v k) = handlers k" "extra_data_array (lapic_store off v k) = extra_data_array k"
  "handlers_lock (lapic_store off v k) = handlers_lock k" "kernel_data (lapic_store off v k) = kernel_data k"
  "interrupts_enabled (lapic_store off v k) = interrupts_enabled k" "pit_core (lapic_store off v k) = pit_core k"
  by (simp_all add: lapic_store_def Let_def pit_core_def)

lemma lapic_initialized_cong:
  assumes "lapic_gdata (vmem s') = lapic_gdata (vmem s)" and "descs (vmem s') = descs (vmem s)"
    and "lapic_regs (vmem s') 0x20 = lapic_regs (vmem s) 0x20"
  shows "is_local_apic_initialized s' = is_local_apic_initialized s"
  using assms by (simp add: is_local_apic_initialized_def lapic_mapped_def get_logical_core_lapic_id_def read_32_lapic_register_def
      get_register_space_start_addr_def get_vmem_addr_def)

lemma lapic_ready_cong:
  assumes r: "lapic_ready s" and "lapic_gdata (vmem s') = lapic_gdata (vmem s)" and "descs (vmem s') = descs (vmem s)"
    and "lapic_regs (vmem s') 0x20 = lapic_regs (vmem s) 0x20" and "lapic_regs (vmem s') 0x300 AND push_bit 12 1 = 0"
  shows "lapic_ready s'"
  using r lapic_initialized_cong [OF assms(2-4)] assms(2,5) unfolding lapic_ready_def lapic_mapped_def by simp

lemma timer_ipi:
  assumes r: "lapic_ready s"
  shows "send_IPI_by_destination_shorthand APIC_DESTSH_ALL_EXCLUDING_SELF 0x41 s =
    Inr (on_kernel (lapic_store 0x310 0xff000000) (on_kernel (lapic_store 0x300 0xC4041) s))"
proof -
  have m: "lapic_mapped s" and idle: "lapic_regs (vmem s) 0x300 AND push_bit 12 1 = 0" using r by (simp_all add: lapic_ready_def)
  have c: "is_IPI_sending_complete s = Inr True"
    using m icr_idle [OF idle] by (simp add: is_IPI_sending_complete_def lapic_reads(3) [OF r] del: push_bit_of_1)
  have "make_interrupt_command 0xff APIC_DESTSH_ALL_EXCLUDING_SELF 0 1 0 APIC_DEL_MODE_FIXED 0x41 = 0xff000000000C4041"
    by (simp add: make_interrupt_command_def)
  moreover have low: "(18374686479672426561 :: u32) = 0xC4041" by simp
  ultimately show ?thesis using m c
    by (simp add: low send_IPI_by_destination_shorthand_def wait_and_write_interrupt_command_register_def lapic_reads(4) [OF r])
qed

lemma timer_tick:
  assumes p: "pit_ready s"
  shows "\<exists>s'. interrupt_routine 0x41 error cr2 s = Inr s' \<and> pit_ready s' \<and> pit_core (vmem s') = pit_core (vmem s) \<and>
    tick_counter (the_pit s') = tick_counter (the_pit s) + 1"
proof -
  have r: "lapic_ready s" using p by (simp add: pit_ready_def)
  define s0 where "s0 = on_pit (\<lambda>p. p\<lparr>tick_counter := tick_counter p + 1\<rparr>) s"
  have f0: "lapic_gdata (vmem s0) = lapic_gdata (vmem s)" "descs (vmem s0) = descs (vmem s)" "lapic_regs (vmem s0) = lapic_regs (vmem s)"
    "pit_core (vmem s0) = pit_core (vmem s)" "the_pit s0 = (the_pit s)\<lparr>tick_counter := tick_counter (the_pit s) + 1\<rparr>"
    "handlers (vmem s0) = handlers (vmem s)" "extra_data_array (vmem s0) = extra_data_array (vmem s)" "handlers_lock (vmem s0) = handlers_lock (vmem s)"
    by (simp_all add: s0_def on_pit_def on_kdata_def pit_core_def)
  have idle: "lapic_regs (vmem s) 0x300 AND push_bit 12 1 = 0" using r by (simp add: lapic_ready_def)
  have r0: "lapic_ready s0" using f0 idle by (intro lapic_ready_cong [OF r]) simp_all
  define s1 where "s1 = on_kernel (lapic_store 0x310 0xff000000) (on_kernel (lapic_store 0x300 0xC4041) s0)"
  have r1: "lapic_ready s1" by (rule lapic_ready_cong [OF r0]) (simp_all add: s1_def)
  have ini: "is_local_apic_initialized s1 = Inr True" "lapic_mapped s1" using r1 by (simp_all add: lapic_ready_def)
  define s2 where "s2 = on_kernel (lapic_store 0xB0 0) s1"
  have r2: "lapic_ready s2" using r1 by (intro lapic_ready_cong [OF r1]) (simp_all add: s2_def lapic_ready_def)
  have "get_logical_core_lapic_id s = Inr (interrupt_receiver_apic_id (the_pit s))"
    using p by (simp add: get_logical_core_lapic_id_def lapic_reads(1) [OF r] pit_ready_def)
  then have h: "call_handler pit_handler cr2 \<lparr>int_error = error, interrupt_number = 0x41, extra_data = ExtraPIT\<rparr> s = Inr s1"
    using timer_ipi [OF r0] p by (simp add: PIT_interrupt_handler_def s0_def [symmetric] s1_def pit_ready_def)
  have e: "lapic_eoi 0x41 s1 = Inr s1 \<or> lapic_eoi 0x41 s1 = Inr s2"
    using ini by (simp add: lapic_eoi_def is_interrupt_lapic_generated_def lapic_reads [OF r1] send_lapic_EOI_def s2_def)
  have "interrupt_routine 0x41 error cr2 s = lapic_eoi 0x41 s1"
    using p h by (simp add: interrupt_routine_def pit_ready_def)
  moreover have "pit_ready s1" "pit_ready s2"
    using p r1 r2 f0 by (simp_all add: pit_ready_def s1_def s2_def)
  moreover have "pit_core (vmem s1) = pit_core (vmem s)" "pit_core (vmem s2) = pit_core (vmem s)"
    "tick_counter (the_pit s1) = tick_counter (the_pit s) + 1" "tick_counter (the_pit s2) = tick_counter (the_pit s) + 1"
    using f0 by (simp_all add: s1_def s2_def)
  ultimately show ?thesis using e by auto
qed

section \<open>Waiting\<close>

definition ticks_for_ms :: "nat \<Rightarrow> nat \<Rightarrow> nat" where
  "ticks_for_ms ms freq = (ms * freq + 999) div 1000"

lemma ticks_for_ms_iff: "0 < freq \<Longrightarrow> (j * 1000) div freq < ms \<longleftrightarrow> j < ticks_for_ms ms freq"
  unfolding ticks_for_ms_def by (simp add: div_less_iff_less_mult) linarith

text \<open>The test of the loop after \<open>j\<close> ticks.\<close>

lemma elapsed_ms:
  fixes f ms :: u64
  assumes freq: "interrupt_frequency (the_pit s) = f" and f: "0 < f" and b: "unat ms * unat f + 1000 < 18446744073709551616"
    and j: "j \<le> ticks_for_ms (unat ms) (unat f)"
  shows "\<exists>e. get_ms_from_tick_count (of_nat j) s = Inr e \<and> (e < ms \<longleftrightarrow> j < ticks_for_ms (unat ms) (unat f))"
proof -
  have "ticks_for_ms (unat ms) (unat f) * 1000 < 18446744073709551616" using b by (simp add: ticks_for_ms_def)
  then have "unat (of_nat j * 1000 :: u64) = j * 1000" using j by (simp add: unat_word_ariths unat_of_nat take_bit_nat_eq_self)
  then have "unat ((of_nat j * 1000) div f) = (j * 1000) div unat f" by (simp add: unat_div)
  then show ?thesis using freq f ticks_for_ms_iff [of "unat f" j "unat ms"] by (auto simp: get_ms_from_tick_count_def word_less_nat_alt)
qed

lemma wait_returns:
  fixes f ms :: u64
  assumes f: "0 < f" and b: "unat ms * unat f + 1000 < 18446744073709551616"
  shows "pit_ready s \<Longrightarrow> interrupt_frequency (the_pit s) = f \<Longrightarrow> get_PIT_tick_count s - start = of_nat j \<Longrightarrow>
    j \<le> ticks_for_ms (unat ms) (unat f) \<Longrightarrow> ticks_for_ms (unat ms) (unat f) - j \<le> n \<Longrightarrow>
    \<exists>s'. wait_loop n (interrupt_routine 0x41 error cr2) get_ms_from_tick_count start ms s = Inr s' \<and> pit_ready s' \<and>
      pit_core (vmem s') = pit_core (vmem s) \<and> get_PIT_tick_count s' - start = of_nat (ticks_for_ms (unat ms) (unat f))"
proof (induction n arbitrary: j s)
  case 0
  then show ?case using elapsed_ms [OF 0(2) f b 0(4)] by (auto simp: wait_loop.simps)
next
  case (Suc n)
  obtain e where e: "get_ms_from_tick_count (of_nat j) s = Inr e" "e < ms \<longleftrightarrow> j < ticks_for_ms (unat ms) (unat f)"
    using elapsed_ms [OF Suc.prems(2) f b Suc.prems(4)] by blast
  show ?case
  proof (cases "j < ticks_for_ms (unat ms) (unat f)")
    case True
    obtain s1 where s1: "interrupt_routine 0x41 error cr2 s = Inr s1" "pit_ready s1" "pit_core (vmem s1) = pit_core (vmem s)"
      "tick_counter (the_pit s1) = tick_counter (the_pit s) + 1" using timer_tick [OF Suc.prems(1)] by blast
    have "interrupt_frequency (the_pit s1) = f" using arg_cong [OF s1(3), of "\<lambda>k. interrupt_frequency (pit (kernel_data k))"] Suc.prems(2)
      by (simp add: pit_core_def)
    moreover have "get_PIT_tick_count s1 - start = of_nat (Suc j)"
      using s1(4) Suc.prems(3) by (simp add: get_PIT_tick_count_def algebra_simps)
    ultimately show ?thesis using Suc.IH [OF s1(2), of "Suc j"] True Suc.prems(3,5) s1(1,3) e
      by (simp add: wait_loop.simps [of "Suc n"])
  next
    case False
    then show ?thesis using Suc.prems e by (simp add: wait_loop.simps)
  qed
qed

section \<open>Properties\<close>

text \<open>The kernel of the example with a timer of 1000 Hz and an enabled local APIC.\<close>

definition ex_timer :: kstate where
  "ex_timer = on_kernel (\<lambda>k. k\<lparr>
     lapic_gdata := \<lparr>lapic_array = 0x5000, lapic_array_size = 1, lapics = [zero_lapic\<lparr>lapic_enabled := True\<rparr>], lapic_base_address = 0xFEE00000,
       register_space_mapping = \<lparr>vm_desc = Some (Bump 1), handle_vmm = Some KernelVMM\<rparr>\<rparr>,
     handlers := (handlers k)[0x41 := Some pit_handler], extra_data_array := (extra_data_array k)[0x41 := ExtraPIT],
     kernel_data := (kernel_data k)\<lparr>pit := (pit (kernel_data k))\<lparr>interrupt_frequency := 1000, interrupt_vector := 0x41\<rparr>\<rparr>,
     interrupts_enabled := True\<rparr>) (ex_vmm 0x1000 pc_booted)"

lemma ex_timer_ready: "pit_ready ex_timer" "interrupts_enabled (vmem ex_timer)" "interrupt_frequency (the_pit ex_timer) = 1000"
  by (simp_all add: pit_ready_def lapic_ready_def ex_timer_def ex_vmm_def start_state_def start_kernel_def lapic_mapped_def
      is_vmemhandle_invalid_def is_local_apic_initialized_def get_logical_core_lapic_id_def read_32_lapic_register_def
      get_register_space_start_addr_def get_vmem_addr_def the_ref_def get_lapic_from_id_def find_lapic_def zero_lapic_def)

lemma PIT_wait_ms_ready:
  assumes "pit_ready s" and "interrupts_enabled (vmem s)" and "0 < interrupt_frequency (the_pit s)"
    and "unat ms * unat (interrupt_frequency (the_pit s)) + 1000 < 2 ^ 64"
  shows "\<exists>s'. PIT_wait_ms (interrupt_routine 0x41 error cr2) ms s = Inr s' \<and> pit_ready s' \<and>
    pit_core (vmem s') = pit_core (vmem s) \<and>
    get_PIT_tick_count s' = get_PIT_tick_count s + of_nat (ticks_for_ms (unat ms) (unat (interrupt_frequency (the_pit s))))"
proof -
  let ?f = "interrupt_frequency (the_pit s)"
  have "ticks_for_ms (unat ms) (unat ?f) \<le> 2 ^ 64" using assms(4) by (simp add: ticks_for_ms_def)
  then obtain s' where s': "wait_loop (2 ^ 64) (interrupt_routine 0x41 error cr2) get_ms_from_tick_count (get_PIT_tick_count s) ms s = Inr s'"
      "pit_ready s'" "pit_core (vmem s') = pit_core (vmem s)"
      "get_PIT_tick_count s' - get_PIT_tick_count s = of_nat (ticks_for_ms (unat ms) (unat ?f))"
    using wait_returns [OF assms(3) _ assms(1) refl, of ms "get_PIT_tick_count s" 0 "2 ^ 64" error cr2] assms(4) by auto
  then show ?thesis using assms(2) by (auto simp: PIT_wait_ms_def algebra_simps)
qed

text \<open>
  C19. A wait ends: when the interrupts of the timer reach \<open>interrupt_routine\<close>, \<open>PIT_wait_ms\<close> returns after
  exactly the ticks that the time takes at the frequency of the timer, rounded up, and changes nothing but
  the registers of the local APIC and the tick counter. (The product of time and frequency is below
  \<open>2^64\<close>; the code multiplies ticks by 1000 without a test.)
\<close>

theorem PIT_wait_ms_returns:
  assumes "pit_ready s" and "interrupts_enabled (vmem s)" and "0 < interrupt_frequency (the_pit s)"
    and "unat ms * unat (interrupt_frequency (the_pit s)) + 1000 < 2 ^ 64"
  shows "\<exists>s'. PIT_wait_ms (interrupt_routine 0x41 error cr2) ms s = Inr s' \<and> pit_ready s' \<and>
    pit_core (vmem s') = pit_core (vmem s) \<and>
    get_PIT_tick_count s' = get_PIT_tick_count s + of_nat (ticks_for_ms (unat ms) (unat (interrupt_frequency (the_pit s))))"
  by (rule PIT_wait_ms_ready [OF assms])

theorem PIT_wait_ms_returns_witness:
  "\<exists>s'. PIT_wait_ms (interrupt_routine 0x41 0 0) 2000 ex_timer = Inr s' \<and> get_PIT_tick_count s' = 2000"
  using PIT_wait_ms_returns [of ex_timer 2000 0 0] ex_timer_ready
  by (auto simp: ticks_for_ms_def get_PIT_tick_count_def ex_timer_def ex_vmm_def start_state_def start_kernel_def)

end
