(* ===== verification/Cpu_State.thy ===== *)
theory Cpu_State
  imports Vmm_Spec
begin

text \<open>
  The tables of the CPUs (kernel/HAL/x86-64/gdt.c, idt.c, tss.c, cpu.c, init.c): segment descriptors, interrupt
  gates, task state segments with their stacks, and the registers that point to them. The tables are lists
  with the addresses that the code computes for them; the addresses of the interrupt stubs, which are
  assembly code, are the parameter \<open>isr_stub_table\<close>. The number of logical cores is kept in the state of the
  kernel. The reserved words of the tables are left out, and a fresh table holds arbitrary entries until the
  code writes them; the stack pointers and the I/O map of a task state segment that stay zero are left out as
  well. \<open>lgdt\<close>, \<open>lidt\<close> and \<open>ltr\<close> load the registers; the busy mark that \<open>ltr\<close> leaves in a
  descriptor is not modelled.
\<close>

section \<open>Segment descriptors\<close>

record GDT =
  gdt_limit :: u16
  gdt_base1 :: u16
  gdt_base2 :: u8
  gdt_access :: u8
  gdt_limit_flags :: u8
  gdt_base3 :: u8
  gdt_base4 :: u32

record GDTR =
  gdtr_size :: u16
  gdtr_gdt :: u64

definition make_gdt :: "u64 \<Rightarrow> u32 \<Rightarrow> u8 \<Rightarrow> u8 \<Rightarrow> GDT" where
  "make_gdt base0 limit flags access =
     \<lparr>gdt_limit = ucast (limit AND 0xffff), gdt_base1 = ucast (base0 AND 0xffff),
      gdt_base2 = ucast (drop_bit 16 base0 AND 0xff), gdt_access = access,
      gdt_limit_flags = ucast (drop_bit 16 limit AND 0xf) OR (push_bit 4 flags AND 0xf0),
      gdt_base3 = ucast (drop_bit 24 base0 AND 0xff), gdt_base4 = ucast (drop_bit 32 base0 AND 0xffffffff)\<rparr>"

definition load_gdt :: "addr \<Rightarrow> u16 \<Rightarrow> GDTR" where
  "load_gdt gdt n = \<lparr>gdtr_size = n * 16 - 1, gdtr_gdt = gdt\<rparr>"

section \<open>Interrupt gates\<close>

record IDTEntry =
  idt_offset1 :: u16
  idt_segment_selector :: u16
  idt_ist :: u8
  idt_attributes_type :: u8
  idt_offset2 :: u16
  idt_offset3 :: u32

record IDTR =
  idtr_size :: u16
  idtr_idt :: u64

definition make_idt_entry :: "addr \<Rightarrow> u16 \<Rightarrow> u8 \<Rightarrow> u8 \<Rightarrow> IDTEntry kres" where
  "make_idt_entry offset segment_selector ist attributes_type =
     kassert (ist \<le> 7)
      (kassert (attributes_type AND push_bit 4 1 = 0)
        (Inr \<lparr>idt_offset1 = ucast offset, idt_segment_selector = segment_selector, idt_ist = ist,
          idt_attributes_type = attributes_type, idt_offset2 = ucast (drop_bit 16 offset), idt_offset3 = ucast (drop_bit 32 offset)\<rparr>))"

section \<open>The state of the CPUs\<close>

record TSS =
  rsp0 :: addr
  rsp1 :: addr
  rsp2 :: addr
  ist1 :: addr
  ist2 :: addr

definition init_tss :: TSS where
  "init_tss = \<lparr>rsp0 = 0, rsp1 = 0, rsp2 = 0, ist1 = 0, ist2 = 0\<rparr>"

record LocalCPUState =
  tss :: TSS
  exception_stack :: VMemHandle
  page_fault_stack :: VMemHandle

record GlobalCPUState =
  gdt_addr :: addr
  gdt :: "GDT list"
  gdtr :: GDTR
  idt_addr :: addr
  idt :: "IDTEntry list"
  idtr :: IDTR
  local_cpu_states_addr :: addr
  local_cpu_states :: "LocalCPUState list"
  gdt_entry_count :: u32
  cpu_structures_vmem :: VMemHandle

text \<open>The registers of the executing CPU that the code loads.\<close>

record cpu_regs =
  reg_gdtr :: GDTR
  reg_idtr :: IDTR
  reg_tr :: u16
  reg_cr0 :: u64
  reg_pat :: u64

abbreviation (input) KERNEL_CODE_SELECTOR :: u16 where "KERNEL_CODE_SELECTOR \<equiv> 0x10"
abbreviation (input) TSS_SELECTORS :: u16 where "TSS_SELECTORS \<equiv> 0x50"
abbreviation (input) INTERRUPT_NUMBER :: nat where "INTERRUPT_NUMBER \<equiv> 256"

text \<open>The sizes of a segment descriptor, of a gate and of a local state are 16, 16 and 136 bytes.\<close>

definition allocate_global_cpu_state_memory :: "kmalloc_op \<Rightarrow> u64 \<Rightarrow> GlobalCPUState \<Rightarrow> kstate \<Rightarrow> (GlobalCPUState \<times> kstate) kres" where
  "allocate_global_cpu_state_memory km cores g s =
     (let entry_count = 5 + cores;
          gdt_size = 16 * entry_count;
          idt_size = 16 * 256;
          local_cpu_states_size = 136 * cores;
          real_size = gdt_size + idt_size + local_cpu_states_size;
          vmm_size = real_size + PAGE_SIZE - real_size mod PAGE_SIZE
      in kbind (allocate_kernel_virtual_memory km KernelVMM vmm_size VM_TYPE_GENERAL_USE PAGE_SIZE PAGE_SIZE s) (\<lambda>(h, s1).
         kbind (get_vmem_addr h s1) (\<lambda>a.
           Inr (g\<lparr>cpu_structures_vmem := h, gdt_addr := a, gdt_entry_count := ucast entry_count,
             gdt := replicate (unat entry_count) (make_gdt 0 0 0 0), idt_addr := a + gdt_size,
             local_cpu_states_addr := a + gdt_size + idt_size,
             local_cpu_states := replicate (unat cores) \<lparr>tss = init_tss, exception_stack = invalid_handle, page_fault_stack = invalid_handle\<rparr>\<rparr>, s1))))"

text \<open>The access bytes: present, the privilege level, not a system segment, and the kind of segment.\<close>

definition setup_gdt :: "GlobalCPUState \<Rightarrow> GlobalCPUState" where
  "setup_gdt g = g\<lparr>gdt := (gdt g)[0 := make_gdt 0 0 0 0, 1 := make_gdt 0 0xffffff 0xA 0x9E, 2 := make_gdt 0 0xffffff 0xA 0x92,
     3 := make_gdt 0 0xffffff 0xA 0xFA, 4 := make_gdt 0 0xffffff 0xA 0xF2]\<rparr>"

definition gate_ist :: "nat \<Rightarrow> u8" where
  "gate_ist i = (if i = 8 \<or> i = 2 then 1 else if i = 0xe then 2 else 0)"

definition gate_attributes :: "nat \<Rightarrow> u8" where
  "gate_attributes i = 0x80 OR (if i < 32 then 0xF else 0xE)"

fun setup_gates :: "(nat \<Rightarrow> addr) \<Rightarrow> nat list \<Rightarrow> IDTEntry list kres" where
  "setup_gates isr_stub_table [] = Inr []"
| "setup_gates isr_stub_table (i # is) =
     kbind (make_idt_entry (isr_stub_table i) KERNEL_CODE_SELECTOR (gate_ist i) (gate_attributes i)) (\<lambda>e.
     kbind (setup_gates isr_stub_table is) (\<lambda>es. Inr (e # es)))"

definition setup_idt :: "(nat \<Rightarrow> addr) \<Rightarrow> GlobalCPUState \<Rightarrow> GlobalCPUState kres" where
  "setup_idt isr_stub_table g =
     kbind (setup_gates isr_stub_table [0..<INTERRUPT_NUMBER]) (\<lambda>es.
       Inr (g\<lparr>idt := es, idtr := \<lparr>idtr_size = 16 * 256 - 1, idtr_idt = idt_addr g\<rparr>\<rparr>))"

definition upd_local :: "nat \<Rightarrow> (LocalCPUState \<Rightarrow> LocalCPUState) \<Rightarrow> GlobalCPUState \<Rightarrow> GlobalCPUState" where
  "upd_local i f g = g\<lparr>local_cpu_states := (local_cpu_states g)[i := f (local_cpu_states g ! i)]\<rparr>"

text \<open>The body of the loop of \<open>make_CPU_states\<close>.\<close>

definition make_local_state :: "kmalloc_op \<Rightarrow> nat \<Rightarrow> GlobalCPUState \<times> kstate \<Rightarrow> (GlobalCPUState \<times> kstate) kres" where
  "make_local_state km i = (\<lambda>(g, s).
     kbind (allocate_kernel_virtual_memory km KernelVMM 0x4000 VM_TYPE_STACK PAGE_SIZE PAGE_SIZE s) (\<lambda>(e, s1).
     kbind (allocate_kernel_virtual_memory km KernelVMM 0x20000 VM_TYPE_STACK PAGE_SIZE PAGE_SIZE s1) (\<lambda>(p, s2).
     kbind (get_vmem_addr e s2) (\<lambda>ea. kbind (get_vmem_size e s2) (\<lambda>es.
     kbind (get_vmem_addr p s2) (\<lambda>pa. kbind (get_vmem_size p s2) (\<lambda>ps.
       let local_tss = init_tss\<lparr>ist1 := ea + es, ist2 := pa + ps, rsp0 := NULL, rsp1 := NULL, rsp2 := NULL\<rparr>;
           g1 = upd_local i (\<lambda>_. \<lparr>tss = local_tss, exception_stack = e, page_fault_stack = p\<rparr>) g;
           gdt_size = ucast (gdt_entry_count g1) * 16 :: u64
       in kassert ((5 + of_nat i) * 16 \<le> gdt_size)
            (Inr (g1\<lparr>gdt := (gdt g1)[5 + i := make_gdt (local_cpu_states_addr g1 + 136 * of_nat i) 103 2 0x89]\<rparr>, s2)))))))))"

definition make_CPU_states :: "kmalloc_op \<Rightarrow> (nat \<Rightarrow> addr) \<Rightarrow> u64 \<Rightarrow> GlobalCPUState \<Rightarrow> kstate \<Rightarrow> (GlobalCPUState \<times> kstate) kres" where
  "make_CPU_states km isr_stub_table cores g s =
     kbind (allocate_global_cpu_state_memory km cores g (on_kernel (number_of_logical_cores_update (\<lambda>_. ucast cores)) s)) (\<lambda>(g1, s1).
     kbind (setup_idt isr_stub_table (setup_gdt g1)) (\<lambda>g2.
       kfold (make_local_state km) [0..<unat cores] (g2, s1)))"

definition delete_local_state :: "kmalloc_op \<Rightarrow> GlobalCPUState \<Rightarrow> nat \<Rightarrow> kstate \<Rightarrow> kstate kres" where
  "delete_local_state km g i s =
     kbind (deallocate_kernel_virtual_memory km (exception_stack (local_cpu_states g ! i)) s) (\<lambda>(_, s1).
     kbind (deallocate_kernel_virtual_memory km (page_fault_stack (local_cpu_states g ! i)) s1) (\<lambda>(_, s2). Inr s2))"

definition delete_CPU_states :: "kmalloc_op \<Rightarrow> GlobalCPUState \<Rightarrow> kstate \<Rightarrow> kstate kres" where
  "delete_CPU_states km g s =
     kbind (kfold (delete_local_state km g) [0..<unat (number_of_logical_cores (vmem s))] s) (\<lambda>s1.
     kbind (deallocate_kernel_virtual_memory km (cpu_structures_vmem g) s1) (\<lambda>(_, s2). Inr s2))"

definition get_tss_selector :: "u64 \<Rightarrow> u16" where
  "get_tss_selector cpu_id = TSS_SELECTORS + ucast (cpu_id * 0x10)"

definition load_CPU_state :: "u32 \<Rightarrow> GlobalCPUState \<Rightarrow> kstate \<Rightarrow> cpu_regs \<Rightarrow> (GlobalCPUState \<times> cpu_regs) kres" where
  "load_CPU_state cpuid g s r =
     kassert (cpuid < number_of_logical_cores (vmem s))
       (let tss_selector = get_tss_selector (ucast cpuid)
        in kassert (ucast tss_selector < gdt_entry_count g * 0x10)
             (let gr = load_gdt (gdt_addr g) (ucast (gdt_entry_count g))
              in Inr (g\<lparr>gdtr := gr\<rparr>, r\<lparr>reg_gdtr := gr, reg_idtr := idtr g, reg_tr := tss_selector\<rparr>)))"

section \<open>Initialisation\<close>

definition set_up_caching :: "cpu_regs \<Rightarrow> cpu_regs" where
  "set_up_caching r = r\<lparr>reg_cr0 := reg_cr0 r AND NOT (push_bit 29 1) AND NOT (push_bit 30 1)\<rparr>"

definition early_init_cpu ::
  "kmalloc_op \<Rightarrow> (nat \<Rightarrow> addr) \<Rightarrow> GlobalCPUState \<times> cpu_regs \<times> kstate \<Rightarrow> (GlobalCPUState \<times> cpu_regs \<times> kstate) kres" where
  "early_init_cpu km isr_stub_table = (\<lambda>(g, r, s).
     kbind (make_CPU_states km isr_stub_table 1 g s) (\<lambda>(g1, s1).
     kbind (load_CPU_state 0 g1 s1 (set_up_caching r)) (\<lambda>(g2, r1). Inr (g2, r1, s1))))"

definition set_up_arch_layer ::
  "kmalloc_op \<Rightarrow> (nat \<Rightarrow> addr) \<Rightarrow> GlobalCPUState \<times> cpu_regs \<times> kstate \<Rightarrow> (GlobalCPUState \<times> cpu_regs \<times> kstate) kres" where
  "set_up_arch_layer km isr_stub_table st =
     kbind (early_init_cpu km isr_stub_table st) (\<lambda>(g, r, s).
       Inr (g, r, on_kernel (mach_update (hal_arch_initialized_update (\<lambda>_. True))) s))"

definition init_cpu_data :: "kmalloc_op \<Rightarrow> (nat \<Rightarrow> addr) \<Rightarrow> u64 \<Rightarrow> GlobalCPUState \<Rightarrow> kstate \<Rightarrow> (GlobalCPUState \<times> kstate) kres" where
  "init_cpu_data km isr_stub_table cores g s =
     kassert (hal_arch_initialized (mach (vmem s)))
       (kbind (delete_CPU_states km g s) (make_CPU_states km isr_stub_table cores g))"

definition init_cpu :: "u32 \<Rightarrow> GlobalCPUState \<Rightarrow> kstate \<Rightarrow> cpu_regs \<Rightarrow> (GlobalCPUState \<times> cpu_regs) kres" where
  "init_cpu cpuid g s r = load_CPU_state cpuid g s (set_up_caching r)"

section \<open>What the processor reads\<close>

definition gdt_base_of :: "GDT \<Rightarrow> u64" where
  "gdt_base_of e = ucast (gdt_base1 e) OR push_bit 16 (ucast (gdt_base2 e)) OR push_bit 24 (ucast (gdt_base3 e)) OR
     push_bit 32 (ucast (gdt_base4 e))"

definition gdt_limit_of :: "GDT \<Rightarrow> u32" where
  "gdt_limit_of e = ucast (gdt_limit e) OR push_bit 16 (ucast (gdt_limit_flags e AND 0xf))"

definition gdt_flags_of :: "GDT \<Rightarrow> u8" where
  "gdt_flags_of e = drop_bit 4 (gdt_limit_flags e)"

definition idt_offset_of :: "IDTEntry \<Rightarrow> addr" where
  "idt_offset_of e = ucast (idt_offset1 e) OR push_bit 16 (ucast (idt_offset2 e)) OR push_bit 32 (ucast (idt_offset3 e))"

lemma low_masks: "(0xffff :: 'a::len word) = mask 16" "(0xff :: 'a::len word) = mask 8" "(0xf :: 'a::len word) = mask 4"
  "(0xf0 :: 'a::len word) = push_bit 4 (mask 4)" "(0xffffffff :: 'a::len word) = mask 32"
  by (simp_all add: mask_eq_exp_minus_1 push_bit_eq_mult)

lemmas word_fields = low_masks bit_or_iff bit_and_iff bit_mask_iff bit_push_bit_iff bit_drop_bit_eq bit_ucast_iff bit_take_bit_iff

lemma gdt_base_of_make_gdt: "gdt_base_of (make_gdt b l f a) = b"
proof (rule bit_word_eqI)
  fix n assume "n < LENGTH(64)"
  then show "bit (gdt_base_of (make_gdt b l f a)) n = bit b n"
    unfolding gdt_base_of_def make_gdt_def GDT.simps word_fields
    by (cases "n < 16"; cases "n < 24"; cases "n < 32") (auto simp: less_diff_conv2)
qed

lemma gdt_limit_of_make_gdt: "gdt_limit_of (make_gdt b l f a) = take_bit 20 l"
proof (rule bit_word_eqI)
  fix n assume "n < LENGTH(32)"
  then show "bit (gdt_limit_of (make_gdt b l f a)) n = bit (take_bit 20 l) n"
    unfolding gdt_limit_of_def make_gdt_def GDT.simps word_fields
    by (cases "n < 16"; cases "n < 20") (auto simp: less_diff_conv2)
qed

lemma gdt_flags_of_make_gdt: "gdt_flags_of (make_gdt b l f a) = take_bit 4 f"
proof (rule bit_word_eqI)
  fix n assume "n < LENGTH(8)"
  then show "bit (gdt_flags_of (make_gdt b l f a)) n = bit (take_bit 4 f) n"
    unfolding gdt_flags_of_def make_gdt_def GDT.simps word_fields
    by (cases "n < 4") (auto simp: less_diff_conv2)
qed

lemma idt_offset_of_make:
  assumes "make_idt_entry x sel i a = Inr e"
  shows "idt_offset_of e = x" and "idt_segment_selector e = sel" and "idt_ist e = i" and "idt_attributes_type e = a"
proof -
  show "idt_offset_of e = x"
  proof (rule bit_word_eqI)
    fix n assume "n < LENGTH(64)"
    moreover from assms have "idt_offset1 e = ucast x" "idt_offset2 e = ucast (drop_bit 16 x)" "idt_offset3 e = ucast (drop_bit 32 x)"
      by (auto simp: make_idt_entry_def kres_simps)
    ultimately show "bit (idt_offset_of e) n = bit x n"
      unfolding idt_offset_of_def word_fields
      by (cases "n < 16"; cases "n < 32") (auto simp: word_fields less_diff_conv2)
  qed
qed (use assms in \<open>auto simp: make_idt_entry_def kres_simps\<close>)

text \<open>A segment descriptor decodes to what it was made from: the whole base, the low 20 bits of the limit, the low
  4 bits of the flags and the access byte.\<close>

theorem make_gdt_roundtrip:
  "gdt_base_of (make_gdt b l f a) = b \<and> gdt_limit_of (make_gdt b l f a) = take_bit 20 l \<and>
   gdt_flags_of (make_gdt b l f a) = take_bit 4 f \<and> gdt_access (make_gdt b l f a) = a"
  by (simp add: gdt_base_of_make_gdt gdt_limit_of_make_gdt gdt_flags_of_make_gdt, simp add: make_gdt_def)

section \<open>The interrupt table\<close>

text \<open>
  A gate the processor accepts for vector \<open>i\<close>: it leads to the stub of the vector in the kernel code segment, is present,
  reachable from ring 0 only, of trap type for an exception and of interrupt type otherwise, and switches to
  the stack of the vector.
\<close>

definition gate_ok :: "(nat \<Rightarrow> addr) \<Rightarrow> nat \<Rightarrow> IDTEntry \<Rightarrow> bool" where
  "gate_ok isr_stub_table i e \<longleftrightarrow> idt_offset_of e = isr_stub_table i \<and> idt_segment_selector e = 0x10 \<and>
     idt_ist e = (if i \<in> {2, 8} then 1 else if i = 14 then 2 else 0) \<and>
     bit (idt_attributes_type e) 7 \<and> idt_attributes_type e AND 0x60 = 0 \<and>
     idt_attributes_type e AND 0xF = (if i < 32 then 0xF else 0xE)"

lemma make_gate:
  "\<exists>e. make_idt_entry (isr i) KERNEL_CODE_SELECTOR (gate_ist i) (gate_attributes i) = Inr e \<and> gate_ok isr i e"
proof -
  have a: "gate_ist i \<le> 7" "gate_attributes i AND push_bit 4 1 = 0" by (simp_all add: gate_ist_def gate_attributes_def)
  then obtain e where e: "make_idt_entry (isr i) KERNEL_CODE_SELECTOR (gate_ist i) (gate_attributes i) = Inr e"
    by (simp add: make_idt_entry_def)
  have "bit (gate_attributes i) 7" "gate_attributes i AND 0x60 = 0" "gate_attributes i AND 0xF = (if i < 32 then 0xF else 0xE)"
    by (simp_all add: gate_attributes_def)
  with idt_offset_of_make [OF e] have "gate_ok isr i e" by (simp add: gate_ok_def gate_ist_def)
  with e show ?thesis by blast
qed

lemma setup_gates_ok: "\<exists>es. setup_gates isr is = Inr es \<and> list_all2 (gate_ok isr) is es"
proof (induction "is")
  case (Cons i "is")
  then obtain es where es: "setup_gates isr is = Inr es" "list_all2 (gate_ok isr) is es" by blast
  obtain e where "make_idt_entry (isr i) KERNEL_CODE_SELECTOR (gate_ist i) (gate_attributes i) = Inr e" "gate_ok isr i e"
    using make_gate by blast
  with es show ?case by simp
qed simp

text \<open>C24. Setting up the interrupt table never fails and gives 256 gates, each well-formed for its vector, with the
  table register describing all of them.\<close>

theorem setup_idt_well_formed:
  "\<exists>g'. setup_idt isr_stub_table g = Inr g' \<and> length (idt g') = 256 \<and>
     list_all2 (gate_ok isr_stub_table) [0..<256] (idt g') \<and>
     idtr_idt (idtr g') = idt_addr g' \<and> unat (idtr_size (idtr g')) + 1 = 16 * length (idt g')"
proof -
  obtain es where es: "setup_gates isr_stub_table [0..<256] = Inr es" "list_all2 (gate_ok isr_stub_table) [0..<256] es"
    using setup_gates_ok by blast
  then have "length es = 256" by (auto dest: list_all2_lengthD)
  with es show ?thesis by (simp add: setup_idt_def)
qed

section \<open>Loading the state of a CPU\<close>

lemma unat_get_tss_selector:
  assumes "unat cpuid < 4091"
  shows "unat (get_tss_selector cpuid) = 16 * (5 + unat cpuid)"
proof -
  have "unat (ucast (cpuid * 0x10) :: u16) = unat cpuid * 16"
    using assms by (simp add: unsigned_ucast_eq unat_word_ariths take_bit_eq_mod)
  with assms show ?thesis by (simp add: get_tss_selector_def unat_word_ariths)
qed

lemma uint_table_size: "uint (w * 16 - 1 :: u16) = (16 * uint w - 1) mod 65536"
proof -
  have "uint (16 :: u16) = 16" "uint (1 :: u16) = 1" by simp_all
  then show ?thesis unfolding uint_word_ariths by (simp add: mod_diff_left_eq mult.commute)
qed

lemma load_CPU_state_selector:
  assumes n: "unat (gdt_entry_count g) = 5 + n" "n \<le> 4091" "unat (number_of_logical_cores (vmem s)) = n"
    and c: "unat cpuid < n"
  shows "\<exists>g' r'. load_CPU_state cpuid g s r = Inr (g', r') \<and> g' = g\<lparr>gdtr := reg_gdtr r'\<rparr> \<and>
     gdtr_gdt (reg_gdtr r') = gdt_addr g \<and> unat (gdtr_size (reg_gdtr r')) + 1 = 16 * (5 + n) \<and>
     reg_idtr r' = idtr g \<and> unat (reg_tr r') = 16 * (5 + unat cpuid)"
proof -
  have sel: "unat (get_tss_selector (ucast cpuid)) = 16 * (5 + unat cpuid)"
    using unat_get_tss_selector [of "ucast cpuid"] n c by simp
  have lt: "cpuid < number_of_logical_cores (vmem s)" using c n by (simp add: word_less_nat_alt)
  have "unat (gdt_entry_count g * 0x10) = 16 * (5 + n)" using n by (simp add: unat_word_ariths)
  moreover have "unat (ucast (get_tss_selector (ucast cpuid)) :: u32) = unat (get_tss_selector (ucast cpuid))"
    using unsigned_less [of "get_tss_selector (ucast cpuid)", where 'a = nat]
    by (simp add: unsigned_ucast_eq take_bit_nat_eq_self)
  ultimately have guard: "ucast (get_tss_selector (ucast cpuid)) < gdt_entry_count g * 0x10"
    using sel c by (simp add: word_less_nat_alt)
  have "unat (ucast (gdt_entry_count g) * 16 - 1 :: u16) + 1 = 16 * (5 + n)"
  proof -
    have "unat (ucast (gdt_entry_count g) :: u16) = 5 + n"
      using n by (simp add: unsigned_ucast_eq take_bit_nat_eq_self)
    moreover have "uint (ucast (gdt_entry_count g) :: u16) = int (unat (ucast (gdt_entry_count g) :: u16))" by simp
    ultimately have "uint (ucast (gdt_entry_count g) :: u16) = 5 + int n" by linarith
    then have "uint (ucast (gdt_entry_count g) * 16 - 1 :: u16) = (16 * (5 + int n) - 1) mod 65536"
      by (simp only: uint_table_size)
    also have "\<dots> = 16 * (5 + int n) - 1" using n(2) by simp
    finally have "int (unat (ucast (gdt_entry_count g) * 16 - 1 :: u16)) = 16 * (5 + int n) - 1" by (simp only: of_nat_unat)
    moreover have "k + 1 = 16 * (5 + n)" if "int k = 16 * (5 + int n) - 1" for k using that by presburger
    ultimately show ?thesis by blast
  qed
  with lt guard sel show ?thesis by (simp add: load_CPU_state_def Let_def load_gdt_def)
qed

text \<open>
  The selectors are 16-bit words without a bound on the number of CPUs: from the 4092nd CPU on, the selector
  wraps around into the descriptors of the segments and the guards of the code still hold.
\<close>

lemma load_CPU_state_wraps:
  assumes "gdt_entry_count g = 4097" "number_of_logical_cores (vmem s) = 4092"
  shows "\<exists>g' r'. load_CPU_state 4091 g s r = Inr (g', r') \<and> reg_tr r' = 0 \<and> gdtr_size (reg_gdtr r') = 15"
  using assms by (simp add: load_CPU_state_def Let_def get_tss_selector_def load_gdt_def)

section \<open>The states of all CPUs\<close>

definition tss_descriptor :: "GlobalCPUState \<Rightarrow> nat \<Rightarrow> GDT" where
  "tss_descriptor g i = make_gdt (local_cpu_states_addr g + 136 * of_nat i) 103 2 0x89"

lemma make_local_state_tables:
  assumes "make_local_state km i (g, s) = Inr (g', s')"
  shows "gdt g' = (gdt g)[5 + i := tss_descriptor g i]" and "gdt_entry_count g' = gdt_entry_count g"
    and "local_cpu_states_addr g' = local_cpu_states_addr g" and "idt g' = idt g" and "idtr g' = idtr g"
  using assms by (auto simp: make_local_state_def kres_simps Let_def upd_local_def tss_descriptor_def split: prod.splits)

lemma make_local_states_tables:
  assumes "kfold (make_local_state km) [0..<n] (g, s) = Inr (g', s')" and "length (gdt g) = 5 + m" and "n \<le> m"
  shows "gdt_entry_count g' = gdt_entry_count g \<and> local_cpu_states_addr g' = local_cpu_states_addr g \<and> idt g' = idt g \<and>
    idtr g' = idtr g \<and> length (gdt g') = 5 + m \<and> take 5 (gdt g') = take 5 (gdt g) \<and>
    (\<forall>i<n. gdt g' ! (5 + i) = tss_descriptor g i)"
  using assms
proof (induction n arbitrary: g' s')
  case (Suc n)
  then obtain g1 s1 where 1: "kfold (make_local_state km) [0..<n] (g, s) = Inr (g1, s1)" "make_local_state km n (g1, s1) = Inr (g', s')"
    by (auto simp: kfold_append kres_simps)
  with Suc have ih: "gdt_entry_count g1 = gdt_entry_count g \<and> local_cpu_states_addr g1 = local_cpu_states_addr g \<and> idt g1 = idt g \<and>
    idtr g1 = idtr g \<and> length (gdt g1) = 5 + m \<and> take 5 (gdt g1) = take 5 (gdt g) \<and> (\<forall>i<n. gdt g1 ! (5 + i) = tss_descriptor g i)"
    by simp
  with make_local_state_tables [OF 1(2)] Suc.prems(3) show ?case
    by (auto simp: nth_list_update less_Suc_eq tss_descriptor_def)
qed simp

text \<open>
  After \<open>make_CPU_states\<close> every CPU finds in the table the descriptor of its own task state segment.
\<close>

lemma make_CPU_states_tables:
  assumes m: "make_CPU_states km isr_stub_table cores g s = Inr (g', s')" and c: "unat cores \<le> 4091"
  shows "unat (gdt_entry_count g') = 5 + unat cores" and "length (gdt g') = 5 + unat cores"
    and "\<And>i. i < unat cores \<Longrightarrow> gdt g' ! (5 + i) = tss_descriptor g' i"
    and "list_all2 (gate_ok isr_stub_table) [0..<256] (idt g')"
    and "gdt g' ! 1 = make_gdt 0 0xffffff 0xA 0x9E"
proof -
  obtain g1 s1 g2 where 1: "allocate_global_cpu_state_memory km cores g (on_kernel (number_of_logical_cores_update (\<lambda>_. ucast cores)) s) = Inr (g1, s1)"
    and 2: "setup_idt isr_stub_table (setup_gdt g1) = Inr g2"
    and 3: "kfold (make_local_state km) [0..<unat cores] (g2, s1) = Inr (g', s')"
    using m by (auto simp: make_CPU_states_def kres_simps)
  have n: "unat (5 + cores) = 5 + unat cores" using c by (simp add: unat_word_ariths)
  have g1: "gdt_entry_count g1 = ucast (5 + cores)" "length (gdt g1) = 5 + unat cores"
    using 1 n by (auto simp: allocate_global_cpu_state_memory_def kres_simps Let_def)
  obtain es where es: "setup_gates isr_stub_table [0..<256] = Inr es" "list_all2 (gate_ok isr_stub_table) [0..<256] es"
    using setup_gates_ok by blast
  have g2: "gdt_entry_count g2 = gdt_entry_count g1" "length (gdt g2) = 5 + unat cores" "idt g2 = es"
    "take 5 (gdt g2) ! 1 = make_gdt 0 0xffffff 0xA 0x9E"
    using 2 es g1 by (auto simp: setup_idt_def setup_gdt_def nth_list_update)
  note t = make_local_states_tables [OF 3 g2(2)]
  show "unat (gdt_entry_count g') = 5 + unat cores"
    using t g1(1) g2(1) n c by (simp add: unsigned_ucast_eq take_bit_nat_eq_self)
  show "length (gdt g') = 5 + unat cores" "list_all2 (gate_ok isr_stub_table) [0..<256] (idt g')" using t g2 es by simp_all
  show "gdt g' ! (5 + i) = tss_descriptor g' i" if "i < unat cores" for i
    using t that by (simp add: tss_descriptor_def)
  have "take 5 (gdt g') ! 1 = make_gdt 0 0xffffff 0xA 0x9E" using t g2(4) by simp
  then show "gdt g' ! 1 = make_gdt 0 0xffffff 0xA 0x9E" by simp
qed

text \<open>C25. In tables for at most 4091 CPUs, as \<open>make_CPU_states\<close> leaves them, a CPU that loads its state has a task register inside the
  table that the table register describes, and the descriptor it selects is an available task state segment
  at the address of the CPU's own local state.\<close>

theorem load_CPU_state_own_tss:
  assumes "gdt g ! (5 + unat cpuid) = tss_descriptor g (unat cpuid)" and "unat (gdt_entry_count g) = 5 + n" and "n \<le> 4091"
    and "unat (number_of_logical_cores (vmem s)) = n" and "unat cpuid < n"
  shows "\<exists>g' r'. load_CPU_state cpuid g s r = Inr (g', r') \<and>
     unat (reg_tr r') + 15 \<le> unat (gdtr_size (reg_gdtr r')) \<and> unat (reg_tr r') mod 16 = 0 \<and>
     gdt_base_of (gdt g' ! (unat (reg_tr r') div 16)) = local_cpu_states_addr g' + 136 * of_nat (unat cpuid) \<and>
     gdt_limit_of (gdt g' ! (unat (reg_tr r') div 16)) = 103 \<and> gdt_access (gdt g' ! (unat (reg_tr r') div 16)) = 0x89"
proof -
  obtain g' r' where 1: "load_CPU_state cpuid g s r = Inr (g', r')" "g' = g\<lparr>gdtr := reg_gdtr r'\<rparr>"
    "unat (gdtr_size (reg_gdtr r')) + 1 = 16 * (5 + n)" "unat (reg_tr r') = 16 * (5 + unat cpuid)"
    using load_CPU_state_selector [OF assms(2-5)] by blast
  have "unat (reg_tr r') + 15 \<le> unat (gdtr_size (reg_gdtr r'))" using 1(3,4) assms(5) by presburger
  moreover have "gdt g' ! (unat (reg_tr r') div 16) = make_gdt (local_cpu_states_addr g + 136 * of_nat (unat cpuid)) 103 2 0x89"
    using 1 assms(1) by (simp add: tss_descriptor_def)
  ultimately show ?thesis
    using 1 by (simp add: gdt_base_of_make_gdt gdt_limit_of_make_gdt, simp add: make_gdt_def)
qed

definition ex_cpu_state :: GlobalCPUState where
  "ex_cpu_state = (let h = invalid_handle in
     \<lparr>gdt_addr = 0x1000, gdt = replicate 5 (make_gdt 0 0 0 0) @ [make_gdt 0x2060 103 2 0x89],
      gdtr = \<lparr>gdtr_size = 0, gdtr_gdt = 0\<rparr>, idt_addr = 0x1060, idt = [], idtr = \<lparr>idtr_size = 4095, idtr_idt = 0x1060\<rparr>,
      local_cpu_states_addr = 0x2060, local_cpu_states = [\<lparr>tss = init_tss, exception_stack = h, page_fault_stack = h\<rparr>],
      gdt_entry_count = 6, cpu_structures_vmem = h\<rparr>)"

definition ex_cpu_regs :: cpu_regs where
  "ex_cpu_regs = \<lparr>reg_gdtr = \<lparr>gdtr_size = 0, gdtr_gdt = 0\<rparr>, reg_idtr = \<lparr>idtr_size = 0, idtr_idt = 0\<rparr>, reg_tr = 0, reg_cr0 = 0, reg_pat = 0\<rparr>"

lemma ex_cpu_state_facts:
  "gdt ex_cpu_state ! 5 = tss_descriptor ex_cpu_state 0" "unat (gdt_entry_count ex_cpu_state) = 5 + 1"
  "unat (number_of_logical_cores (vmem (start_state pc_machine))) = 1"
  by (simp_all add: ex_cpu_state_def tss_descriptor_def nth_append start_state_def start_kernel_def)

theorem load_CPU_state_own_tss_witness:
  "\<exists>g' r'. load_CPU_state 0 ex_cpu_state (start_state pc_machine) ex_cpu_regs = Inr (g', r') \<and>
     gdt_base_of (gdt g' ! (unat (reg_tr r') div 16)) = local_cpu_states_addr g'"
  using load_CPU_state_own_tss [of ex_cpu_state 0 1 "start_state pc_machine" ex_cpu_regs] ex_cpu_state_facts
  by auto

end
