(* ===== verification/Mp.thy ===== *)
theory Mp
  imports Interrupts Cpu_State
begin

text \<open>
  The start of the other processors (kernel/mp/mp_initialization.c, kernel/HAL/bios/mp_init_bin.c). The boot processor
  prepares stacks and the start-up page, sends INIT and start-up commands and polls a counter that the started
  processors increase; the values it reads are the parameter \<open>reads\<close>. The assembled start-up routine, a
  product of the build, is the parameter \<open>bin\<close> with its size, read as 8-byte words.
\<close>

section \<open>Data\<close>

datatype MPInitError = ERROR_MP_OK | ERROR_MP_PARTIAL_STARTUP | ERROR_MP_STARTUP_FAILED

record MPGlobalData =
  initialized_APs :: u32
  APs_count :: u64
  stacks_top_ptr :: addr
  stacks_top :: "addr list"
  APs_kernel_data_ptr :: addr
  APs_stacks :: "VMemHandle list"
  mp_lock :: bool

section \<open>The start-up page\<close>

definition enable_PAT :: "cpu_regs \<Rightarrow> machine \<Rightarrow> cpu_regs \<times> machine" where
  "enable_PAT r m = (r\<lparr>reg_pat := 0x0007040100070406\<rparr>, m\<lparr>tlb := (\<lambda>_. None)\<rparr>)"

definition get_real_mode_startup_frame :: addr where
  "get_real_mode_startup_frame = 0x2000"

definition get_real_mode_secondary_startup_frame :: addr where
  "get_real_mode_secondary_startup_frame = 0x3000"

definition copy_page :: "addr \<Rightarrow> (u64 \<Rightarrow> u64) \<Rightarrow> memory \<Rightarrow> memory" where
  "copy_page dst words mem = (\<lambda>a. if a - dst < PAGE_SIZE then words (a - dst) else mem a)"

definition create_mp_init_routine_in_RAM ::
  "(u64 \<Rightarrow> u64) \<Rightarrow> u64 \<Rightarrow> addr \<Rightarrow> addr \<Rightarrow> machine \<Rightarrow> (addr \<times> machine) kres" where
  "create_mp_init_routine_in_RAM bin bin_size ps init_data m =
     (let startup_frame = get_real_mode_startup_frame;
          cr3_copy = get_real_mode_secondary_startup_frame;
          raw = get_raw_paging_structure ps m;
          mem1 = copy_page cr3_copy (\<lambda>i. pmem m (raw + i)) (pmem m)
      in kassert (bin_size = PAGE_SIZE)
           (Inr (startup_frame, m\<lparr>pmem := (copy_page startup_frame bin mem1)
              (startup_frame + PAGE_SIZE - 16 := cr3_copy, startup_frame + PAGE_SIZE - 8 := init_data)\<rparr>)))"

section \<open>The boot processor\<close>

definition AP_stack :: "kmalloc_op \<Rightarrow> nat \<Rightarrow> MPGlobalData \<times> kstate \<Rightarrow> (MPGlobalData \<times> kstate) kres" where
  "AP_stack km i = (\<lambda>(mp, s).
     kbind (allocate_kernel_virtual_memory km KernelVMM 0x100000 VM_TYPE_STACK 0x4000 0x4000000 s) (\<lambda>(kstack, s1).
     kbind (get_vmem_addr kstack s1) (\<lambda>a. kbind (get_vmem_size kstack s1) (\<lambda>n.
       Inr (mp\<lparr>APs_stacks := APs_stacks mp @ [kstack], stacks_top := stacks_top mp @ [a + n]\<rparr>, s1)))))"

definition unsync_set_up_mp_global_data :: "kmalloc_op \<Rightarrow> MPGlobalData \<Rightarrow> kstate \<Rightarrow> (MPInitError \<times> MPGlobalData \<times> kstate) kres" where
  "unsync_set_up_mp_global_data km mp s =
     (let n = get_number_of_usable_logical_cores s - 1;
          mp1 = mp\<lparr>initialized_APs := 0, APs_count := n\<rparr>
      in if n = 0 then Inr (ERROR_MP_OK, mp1, s)
         else kbind (km (8 * n) s) (\<lambda>(p, s1).
              kbind (km (24 * n) s1) (\<lambda>(q, s2).
              kbind (kfold (AP_stack km) [0..<unat n]
                  (mp1\<lparr>stacks_top_ptr := p, stacks_top := [], APs_kernel_data_ptr := q, APs_stacks := []\<rparr>, s2)) (\<lambda>(mp2, s3).
                Inr (ERROR_MP_OK, mp2, s3)))))"

definition start_AP :: "(kstate \<Rightarrow> kstate kres) \<Rightarrow> u8 \<Rightarrow> u32 \<Rightarrow> u32 \<Rightarrow> kstate \<Rightarrow> kstate kres" where
  "start_AP wake vector_addr BSP_lapic_id lapic_id s =
     (if lapic_id = BSP_lapic_id then Inr s
      else kbind (on_kio kio_flush s) (\<lambda>s1.
           kbind (send_startup_IPI lapic_id vector_addr s1) (\<lambda>s2.
           kbind (PIT_wait_us wake 200 s2) (\<lambda>s3.
           kbind (send_startup_IPI lapic_id vector_addr s3) (\<lambda>s4. PIT_wait_us wake 200 s4)))))"

text \<open>The result after the loop of the wait.\<close>

definition startup_result :: "u64 \<Rightarrow> u64 \<Rightarrow> MPInitError kres" where
  "startup_result initialized_APs_copy number_of_APs =
     (if initialized_APs_copy = number_of_APs then Inr ERROR_MP_OK
      else if initialized_APs_copy > number_of_APs then kpanic GENERIC_ERROR
      else if initialized_APs_copy > 0 then Inr ERROR_MP_PARTIAL_STARTUP
      else Inr ERROR_MP_STARTUP_FAILED)"

text \<open>The loop, with a bound \<open>n\<close> on its iterations; \<open>reads k\<close> is the counter at the \<open>k\<close>-th poll.\<close>

fun wait_for_APs :: "nat \<Rightarrow> (nat \<Rightarrow> u32) \<Rightarrow> (kstate \<Rightarrow> kstate kres) \<Rightarrow> nat \<Rightarrow> u64 \<Rightarrow> u64 \<Rightarrow> kstate \<Rightarrow> (MPInitError \<times> kstate) kres" where
  "wait_for_APs n reads wake k attempts_count number_of_APs s =
     (if attempts_count < 30 then
        let initialized_APs_copy = ucast (reads k)
        in if initialized_APs_copy < number_of_APs
           then (case n of 0 \<Rightarrow> Inl Hang
                 | Suc m \<Rightarrow> kbind (PIT_wait_ms wake 1 s) (wait_for_APs m reads wake (Suc k) attempts_count number_of_APs))
           else if initialized_APs_copy > number_of_APs then kpanic GENERIC_ERROR
           else Inr (ERROR_MP_OK, s)
      else kbind (startup_result (ucast (reads k)) number_of_APs) (\<lambda>e. Inr (e, s)))"

declare wait_for_APs.simps [simp del]

definition init_APs ::
  "nat \<Rightarrow> kmalloc_op \<Rightarrow> (kstate \<Rightarrow> kstate kres) \<Rightarrow> (u64 \<Rightarrow> u64) \<Rightarrow> u64 \<Rightarrow> addr \<Rightarrow> (nat \<Rightarrow> u32) \<Rightarrow>
   MPGlobalData \<Rightarrow> kstate \<Rightarrow> (MPInitError \<times> MPGlobalData \<times> kstate) kres" where
  "init_APs n km wake bin bin_size init_data reads mp s =
     (if get_number_of_usable_logical_cores s = 1 then Inr (ERROR_MP_OK, mp, s)
      else kbind (unsync_set_up_mp_global_data km (mp\<lparr>mp_lock := False\<rparr>) s) (\<lambda>(err, mp1, s1).
        if err \<noteq> ERROR_MP_OK then Inr (err, mp1, s1)
        else kbind (create_mp_init_routine_in_RAM bin bin_size (get_VMM_paging_structure KernelVMM s1) init_data (mach (vmem s1))) (\<lambda>(startup_frame, m).
          let s2 = on_kernel (mach_update (\<lambda>_. m)) s1;
              vector_addr = ucast (drop_bit 12 startup_frame) :: u8;
              cores = get_number_of_usable_logical_cores s2
          in kbind (km (cores * 4) s2) (\<lambda>(_, s3).
             let (array_result, lapic_ids) = get_lapic_id_array cores (vmem s3)
             in if array_result < 0 \<or> array_result \<noteq> uint cores then kpanic GENERIC_ERROR
                else kbind (send_IPI_INIT_to_all_excluding_self s3) (\<lambda>s4.
                     kbind (PIT_wait_ms wake 10 s4) (\<lambda>s5.
                     kbind (get_logical_core_lapic_id s5) (\<lambda>BSP_lapic_id.
                     kbind (kfold (start_AP wake vector_addr BSP_lapic_id) lapic_ids s5) (\<lambda>s6.
                     kbind (wait_for_APs n reads wake 0 0 (cores - 1) s6) (\<lambda>(e, s7). Inr (e, mp1, s7))))))))))"

section \<open>The other processors\<close>

fun find_AP_stack :: "addr \<Rightarrow> VMemHandle list \<Rightarrow> kstate \<Rightarrow> VMemHandle kres" where
  "find_AP_stack loaded_stack [] s = Inr invalid_handle"
| "find_AP_stack loaded_stack (h # hs) s =
     kbind (get_vmem_addr h s) (\<lambda>a. kbind (get_vmem_size h s) (\<lambda>n.
       if a + n = loaded_stack then Inr h else find_AP_stack loaded_stack hs s))"

text \<open>
  \<open>AP_entry_point\<close> up to its endless halt: the value is the state in which the processor halts.
\<close>

definition AP_entry_point ::
  "kmalloc_op \<Rightarrow> (kstate \<Rightarrow> kstate kres) \<Rightarrow> addr \<Rightarrow> MPGlobalData \<times> GlobalCPUState \<times> cpu_regs \<times> kstate \<Rightarrow>
   (MPGlobalData \<times> GlobalCPUState \<times> cpu_regs \<times> kstate) kres" where
  "AP_entry_point km wake loaded_stack = (\<lambda>(mp, g, r, s).
     if mp_lock mp then Inl Hang
     else kbind (find_AP_stack loaded_stack (take (unat (APs_count mp)) (APs_stacks mp)) s) (\<lambda>stack_vmem.
       let m1 = set_active_paging_structure (get_VMM_paging_structure KernelVMM s) (mach (vmem s));
           (r1, m2) = enable_PAT r m1
       in kbind (register_local_kernel_data_cpu km (on_kernel (mach_update (\<lambda>_. m2)) s)) (\<lambda>(cpuid, s2).
          kbind (init_cpu cpuid g s2 r1) (\<lambda>(g1, r2).
          kassert (\<not> is_vmemhandle_invalid stack_vmem)
           (kbind (init_local_interrupt_controllers s2) (\<lambda>s3.
            kbind (get_logical_core_lapic_id s3) (\<lambda>lapic_id.
            kbind (set_local_kernel_data cpuid \<lparr>kernel_stack = stack_vmem, apic_id = lapic_id\<rparr> s3) (\<lambda>s4.
            kbind (activate_this_cpu_vmmcache_shootdown s4) (\<lambda>s5.
            kbind (on_kio kio_flush s5) (\<lambda>s6.
            let mp1 = mp\<lparr>initialized_APs := initialized_APs mp + 1\<rparr> in
            kbind (PIT_wait_ms wake 3000 (on_kernel (interrupts_enabled_update (\<lambda>_. True)) s6)) (\<lambda>s7.
            kbind (on_kio (printf (''3 seconds have passed for cpu %u32'' @ [CHR 0x0A]) [ArgU32 cpuid]) s7) (\<lambda>s8.
            kbind (on_kio kio_flush s8) (\<lambda>s9.
              Inr (mp1, g1, r2, s9))))))))))))))"

section \<open>The wait of the boot processor\<close>

text \<open>The timer works: the waits of the loop return.\<close>

definition timer_works :: "kstate \<Rightarrow> bool" where
  "timer_works s \<longleftrightarrow> pit_ready s \<and> interrupts_enabled (vmem s) \<and> 0 < interrupt_frequency (the_pit s) \<and>
     unat (interrupt_frequency (the_pit s)) < 2 ^ 63"

abbreviation (input) timer_wake :: "kstate \<Rightarrow> kstate kres" where
  "timer_wake \<equiv> interrupt_routine 0x41 0 0"

lemma timer_works_wait:
  assumes "timer_works s"
  shows "\<exists>s'. PIT_wait_ms timer_wake 1 s = Inr s' \<and> timer_works s'"
proof -
  obtain s' where s': "PIT_wait_ms timer_wake 1 s = Inr s'" "pit_ready s'" "pit_core (vmem s') = pit_core (vmem s)"
    using PIT_wait_ms_ready [of s 1 0 0] assms by (auto simp: timer_works_def)
  have "interrupts_enabled (vmem s') = interrupts_enabled (vmem s)"
    using arg_cong [OF s'(3), of interrupts_enabled] by (simp add: pit_core_def)
  moreover have "interrupt_frequency (the_pit s') = interrupt_frequency (the_pit s)"
    using arg_cong [OF s'(3), of "\<lambda>k. interrupt_frequency (pit (kernel_data k))"] by (simp add: pit_core_def)
  ultimately show ?thesis using s' assms by (auto simp: timer_works_def)
qed

lemma wait_for_APs_polls:
  assumes "timer_works s" and "\<And>j. j < i \<Longrightarrow> ucast (reads (k + j)) < number_of_APs"
  shows "\<exists>s'. timer_works s' \<and>
    wait_for_APs (i + n) reads timer_wake k 0 number_of_APs s = wait_for_APs n reads timer_wake (k + i) 0 number_of_APs s'"
  using assms
proof (induction i arbitrary: k s)
  case (Suc i)
  obtain s1 where s1: "PIT_wait_ms timer_wake 1 s = Inr s1" "timer_works s1" using timer_works_wait [OF Suc.prems(1)] by blast
  have "ucast (reads (Suc k + j)) < number_of_APs" if "j < i" for j using Suc.prems(2) [of "Suc j"] that by simp
  from Suc.IH [OF s1(2) this] obtain s' where "timer_works s'"
    "wait_for_APs (i + n) reads timer_wake (Suc k) 0 number_of_APs s1 = wait_for_APs n reads timer_wake (Suc k + i) 0 number_of_APs s'"
    by blast
  with s1(1) Suc.prems(2) [of 0] show ?case by (auto simp: wait_for_APs.simps [of "Suc (i + n)"])
qed auto

text \<open>C20. The wait for the other processors: when the counter first reaches the number of processors at poll
  \<open>i\<close>, the loop returns success after \<open>i\<close> waits; while the counter stays below, the loop is still running after
  any number of iterations, so neither error of \<open>MPInitError\<close> is ever returned.\<close>

theorem wait_for_APs_outcomes:
  assumes "timer_works s"
  shows "((\<forall>j<i. ucast (reads j) < number_of_APs) \<and> ucast (reads i) = number_of_APs \<longrightarrow>
      (\<exists>s'. wait_for_APs (i + n) reads timer_wake 0 0 number_of_APs s = Inr (ERROR_MP_OK, s'))) \<and>
    ((\<forall>j. ucast (reads j) < number_of_APs) \<longrightarrow> wait_for_APs n reads timer_wake 0 0 number_of_APs s = Inl Hang)"
proof (intro conjI impI)
  show "\<exists>s'. wait_for_APs (i + n) reads timer_wake 0 0 number_of_APs s = Inr (ERROR_MP_OK, s')"
    if "(\<forall>j<i. ucast (reads j) < number_of_APs) \<and> ucast (reads i) = number_of_APs"
    using wait_for_APs_polls [OF assms, of i reads 0 number_of_APs n] that by (auto simp: wait_for_APs.simps)
  show "wait_for_APs n reads timer_wake 0 0 number_of_APs s = Inl Hang" if "\<forall>j. ucast (reads j) < number_of_APs"
    using wait_for_APs_polls [OF assms, of n reads 0 number_of_APs 0] that by (auto simp: wait_for_APs.simps)
qed

theorem wait_for_APs_outcomes_witness:
  "(\<exists>s'. wait_for_APs 2 (\<lambda>k. if k < 2 then 1 else 3) timer_wake 0 0 3 ex_timer = Inr (ERROR_MP_OK, s')) \<and>
   wait_for_APs 1000 (\<lambda>k. 2) timer_wake 0 0 3 ex_timer = Inl Hang"
proof -
  have t: "timer_works ex_timer" using ex_timer_ready by (simp add: timer_works_def)
  show ?thesis
    using wait_for_APs_outcomes [OF t, of 2 "\<lambda>k. if k < 2 then 1 else 3" 3 0] wait_for_APs_outcomes [OF t, of 0 "\<lambda>k. 2" 3 1000]
    by auto
qed

end
