(* ===== verification/Elf.thy ===== *)
theory Elf
  imports Acpi
begin

text \<open>
  The ELF image of the kernel (kernel/elf.c): the check of the header and the list of the loaded segments.
  The image is bytes of memory; the field of a packed structure is read at its offset.
\<close>

record ElfHeader =
  ei_magic :: "u8 list"
  ei_class :: u8
  ei_data :: u8
  ei_version :: u8
  e_version :: u32
  e_phoff :: u64
  e_phentsize :: u16
  e_phnum :: u16

definition read_ElfHeader :: "bytes \<Rightarrow> addr \<Rightarrow> ElfHeader" where
  "read_ElfHeader mem p =
     \<lparr>ei_magic = [mem p, mem (p + 1), mem (p + 2), mem (p + 3)], ei_class = mem (p + 4), ei_data = mem (p + 5),
      ei_version = mem (p + 6), e_version = read_u32 mem (p + 20), e_phoff = read_u64 mem (p + 32),
      e_phentsize = read_u16 mem (p + 54), e_phnum = read_u16 mem (p + 56)\<rparr>"

record ElfProgramHeader =
  p_type :: u32
  p_flags :: u32
  p_vaddr :: u64
  p_memsz :: u64

definition read_ElfProgramHeader :: "bytes \<Rightarrow> addr \<Rightarrow> ElfProgramHeader" where
  "read_ElfProgramHeader mem p =
     \<lparr>p_type = read_u32 mem p, p_flags = read_u32 mem (p + 4), p_vaddr = read_u64 mem (p + 16), p_memsz = read_u64 mem (p + 40)\<rparr>"

record ElfLoadedSegment =
  seg_executable :: bool
  seg_writeable :: bool
  seg_readable :: bool
  seg_vaddr :: addr
  seg_size :: u64

abbreviation (input) PT_LOAD :: u32 where "PT_LOAD \<equiv> 1"

text \<open>The kernel is little endian.\<close>

definition elf_validate_header :: "bytes \<Rightarrow> addr \<Rightarrow> bool" where
  "elf_validate_header mem header =
     (let h = read_ElfHeader mem header
      in ei_magic h = [0x7f, 0x45, 0x4C, 0x46] \<and> ei_class h = 2 \<and> ei_data h = 1 \<and> ei_version h = 1 \<and> e_version h = 1)"

text \<open>The loop over the program headers, \<open>n\<close> of them from \<open>pheader\<close> on.\<close>

fun count_loaded :: "bytes \<Rightarrow> u16 \<Rightarrow> addr \<Rightarrow> nat \<Rightarrow> u16 \<Rightarrow> u16" where
  "count_loaded mem entsize pheader 0 counter = counter"
| "count_loaded mem entsize pheader (Suc n) counter =
     count_loaded mem entsize (pheader + ucast entsize) n
       (if p_type (read_ElfProgramHeader mem pheader) = PT_LOAD then counter + 1 else counter)"

definition elf_get_number_of_loaded_entries :: "bytes \<Rightarrow> addr \<Rightarrow> u16" where
  "elf_get_number_of_loaded_entries mem header =
     (let h = read_ElfHeader mem header
      in count_loaded mem (e_phentsize h) (header + e_phoff h) (unat (e_phnum h)) 0)"

definition loaded_segment :: "ElfProgramHeader \<Rightarrow> ElfLoadedSegment" where
  "loaded_segment ph =
     \<lparr>seg_executable = p_flags ph AND 1 \<noteq> 0, seg_writeable = p_flags ph AND 2 \<noteq> 0, seg_readable = p_flags ph AND 4 \<noteq> 0,
      seg_vaddr = p_vaddr ph, seg_size = p_memsz ph\<rparr>"

text \<open>The segments that are written to the buffer, in order; \<open>room\<close> elements are left in it.\<close>

fun loaded_entries :: "bytes \<Rightarrow> u16 \<Rightarrow> addr \<Rightarrow> nat \<Rightarrow> nat \<Rightarrow> ElfLoadedSegment list" where
  "loaded_entries mem entsize pheader 0 room = []"
| "loaded_entries mem entsize pheader (Suc n) room =
     (if room = 0 then []
      else if p_type (read_ElfProgramHeader mem pheader) = PT_LOAD
      then loaded_segment (read_ElfProgramHeader mem pheader) # loaded_entries mem entsize (pheader + ucast entsize) n (room - 1)
      else loaded_entries mem entsize (pheader + ucast entsize) n room)"

definition elf_get_loaded_entries :: "bytes \<Rightarrow> addr \<Rightarrow> u64 \<Rightarrow> ElfLoadedSegment list" where
  "elf_get_loaded_entries mem header n =
     (let h = read_ElfHeader mem header
      in loaded_entries mem (e_phentsize h) (header + e_phoff h) (unat (e_phnum h)) (unat n))"

section \<open>The segments of an image\<close>

definition program_headers :: "bytes \<Rightarrow> addr \<Rightarrow> ElfProgramHeader list" where
  "program_headers mem header =
     (let h = read_ElfHeader mem header
      in map (\<lambda>i. read_ElfProgramHeader mem (header + e_phoff h + of_nat i * ucast (e_phentsize h))) [0..<unat (e_phnum h)])"

definition loadable :: "ElfProgramHeader list \<Rightarrow> ElfProgramHeader list" where
  "loadable phs = filter (\<lambda>ph. p_type ph = PT_LOAD) phs"

lemma header_walk:
  "map (\<lambda>i. f (p + of_nat i * e)) [0..<Suc n] = f p # map (\<lambda>i. f (p + e + of_nat i * e)) [0..<n]" for p e :: u64
  by (simp add: upt_conv_Cons map_Suc_upt [symmetric] comp_def algebra_simps del: upt_Suc)

lemma count_loaded_length:
  "count_loaded mem entsize p n c =
     c + of_nat (length (loadable (map (\<lambda>i. read_ElfProgramHeader mem (p + of_nat i * ucast entsize)) [0..<n])))"
  by (induction n arbitrary: p c) (simp_all add: header_walk loadable_def del: upt_Suc)

lemma loaded_entries_take:
  "loaded_entries mem entsize p n room =
     take room (map loaded_segment (loadable (map (\<lambda>i. read_ElfProgramHeader mem (p + of_nat i * ucast entsize)) [0..<n])))"
  by (induction n arbitrary: p room) (simp_all add: header_walk loadable_def take_Cons' del: upt_Suc)

lemma loadable_length: "length (loadable (program_headers mem header)) < 65536"
proof -
  have "length (loadable (program_headers mem header)) \<le> unat (e_phnum (read_ElfHeader mem header))"
    using length_filter_le [of _ "program_headers mem header"] by (simp add: loadable_def program_headers_def Let_def)
  also have "\<dots> < 65536" using unsigned_less [of "e_phnum (read_ElfHeader mem header)", where 'a = nat] by simp
  finally show ?thesis .
qed

text \<open>
  C26. The loader's view of the image: \<open>elf_get_number_of_loaded_entries\<close> is the number of loadable program
  headers, without overflow, and \<open>elf_get_loaded_entries\<close> writes the segments of the first of them, in
  order, as many as the buffer has room for and never more.
\<close>

theorem elf_loaded_entries_correct:
  "unat (elf_get_number_of_loaded_entries mem header) = length (loadable (program_headers mem header)) \<and>
   elf_get_loaded_entries mem header n = take (unat n) (map loaded_segment (loadable (program_headers mem header)))"
  using loadable_length [of mem header] unfolding elf_get_number_of_loaded_entries_def elf_get_loaded_entries_def program_headers_def Let_def
  by (simp add: count_loaded_length loaded_entries_take unat_of_nat take_bit_nat_eq_self)

end
