(* ===== verification/Kinit.thy ===== *)
theory Kinit
  imports Mp Elf
begin

text \<open>
  The display of the firmware (kernel/HAL/bios/vbe.c), the initialisation of the kernel (kernel/kinit.c) and its
  main function (kernel/kmain.c), which compose the other components. What the boot loader, the linker and the
  processor provide is the record \<open>boot_env\<close>: the mode of the display, the memory of the loaded image and of
  the font, the results of \<open>cpuid\<close> and \<open>rdmsr\<close>, the interrupt stubs and the assembled start-up routine.
\<close>

record boot_env =
  be_mode :: VbeModeInfo
  be_image :: bytes
  be_font :: bytes
  be_font_start :: addr
  be_font_end :: addr
  be_garbage :: u64
  be_queue_garbage :: VMMCacheShootdownQueue
  be_cpuid_edx :: u32
  be_msr :: "u32 \<Rightarrow> u64"
  be_stubs :: "nat \<Rightarrow> addr"
  be_mp_bin :: "u64 \<Rightarrow> u64"
  be_mp_bin_size :: u64
  be_mp_data :: addr

section \<open>The display\<close>

text \<open>The size of the frame buffer is a product of type \<open>int\<close>.\<close>

definition init_frame_buffer :: "kmalloc_op \<Rightarrow> VbeModeInfo \<Rightarrow> kstate \<Rightarrow> (VbeFrameBuffer \<times> VMemHandle \<times> kstate) kres" where
  "init_frame_buffer km mode s =
     (let paddr = ucast (vbe_framebuffer mode);
          bytes0 = scast (ucast (vbe_bpp mode div 8) * ucast (vbe_height mode) * ucast (vbe_width mode) :: u32) :: u64;
          bytes_count = (if bytes0 mod PAGE_SIZE \<noteq> 0 then bytes0 + (PAGE_SIZE - bytes0 mod PAGE_SIZE) else bytes0)
      in kbind (memory_map km KernelVMM paddr bytes_count (2 OR 1 OR push_bit 7 1) s) (\<lambda>(h, s1).
         kbind (get_vmem_addr h s1) (\<lambda>vaddr.
           if vaddr = NULL then Inr (\<lparr>fb_vaddr = NULL, fb_paddr = NULL, fb_mode = None\<rparr>, invalid_handle, s1)
           else Inr (\<lparr>fb_vaddr = vaddr, fb_paddr = paddr, fb_mode = Some mode\<rparr>, h, s1))))"

definition init_vbe_display :: "kmalloc_op \<Rightarrow> VbeModeInfo \<Rightarrow> kstate \<Rightarrow> (VMemHandle \<times> kstate) kres" where
  "init_vbe_display km mode s =
     kbind (init_frame_buffer km mode s) (\<lambda>(fb, h, s1).
       Inr (h, on_kernel (kio_update (global_frame_buffer_update (\<lambda>_. fb))) s1))"

definition finalize_vbe_display :: "kmalloc_op \<Rightarrow> VMemHandle \<Rightarrow> kstate \<Rightarrow> kstate kres" where
  "finalize_vbe_display km framebuffer_mapping s =
     kbind (deallocate_kernel_virtual_memory km framebuffer_mapping s) (\<lambda>(_, s1). Inr s1)"

definition get_firmware_display :: "VbeModeInfo \<Rightarrow> u32 \<times> u32 \<times> u32" where
  "get_firmware_display mode = (ucast (vbe_width mode), ucast (vbe_height mode), ucast (vbe_bpp mode))"

section \<open>Virtual memory\<close>

definition load_ram_range :: "kmalloc_op \<Rightarrow> VMemHandle \<Rightarrow> PhysicalMemoryRange \<Rightarrow> kstate \<Rightarrow> kstate kres" where
  "load_ram_range km identity_map_handle r s =
     (if range_size r = 0 then Inr s
      else if start_address r = 0
      then load_identity_map_pages km KernelVMM PAGE_SIZE (range_size r - PAGE_SIZE) identity_map_handle s
      else load_identity_map_pages km KernelVMM (start_address r) (range_size r) identity_map_handle s)"

definition map_segment :: "kmalloc_op \<Rightarrow> addr \<Rightarrow> ElfLoadedSegment \<Rightarrow> kstate \<Rightarrow> kstate kres" where
  "map_segment km old_ps seg s =
     (let ssize = (if seg_size seg mod PAGE_SIZE \<noteq> 0 then seg_size seg + (PAGE_SIZE - seg_size seg mod PAGE_SIZE) else seg_size seg);
          segments_flags = (if seg_writeable seg then 3 else 1)
      in kbind (copy_memory_mapping_from_paging_structure km KernelVMM old_ps (seg_vaddr seg) ssize segments_flags s) (\<lambda>(h, s1).
           kassert (\<not> is_vmemhandle_invalid h) (Inr s1)))"

definition setup_virtual_memory :: "boot_env \<Rightarrow> kmalloc_op \<Rightarrow> cpu_regs \<Rightarrow> kstate \<Rightarrow> (cpu_regs \<times> kstate) kres" where
  "setup_virtual_memory env km r s =
     kbind (get_bootloader_paging_structure (mach (vmem s))) (\<lambda>(old_ps, m1).
     kbind (create_empty_kernel_paging_structure m1) (\<lambda>(new_ps, m2).
     kbind (initialize_kernel_data_kernel_VMM km new_ps (on_kernel (mach_update (\<lambda>_. m2)) s)) (\<lambda>s1.
     kbind (identity_map km KernelVMM PAGE_SIZE (IDENTITY_MAP_VMEM_END - PAGE_SIZE) s1) (\<lambda>(h, s2).
     kassert (\<not> is_vmemhandle_invalid h)
      (kbind (get_ram_space (boot_data (mach (vmem s2))) (boot_cache (mach (vmem s2)))) (\<lambda>(ranges, c).
       kbind (kfold (load_ram_range km h) ranges (on_kernel (mach_update (boot_cache_update (\<lambda>_. c))) s2)) (\<lambda>s3.
       let header = get_kernel_image (boot_data (mach (vmem s3)));
           number_of_segments = elf_get_number_of_loaded_entries (be_image env) header
       in kassert (elf_validate_header (be_image env) header)
           (kassert (unat number_of_segments \<le> 32)
            (kbind (kfold (map_segment km old_ps) (take (unat number_of_segments) (elf_get_loaded_entries (be_image env) header 32)) s3) (\<lambda>s4.
             let m3 = delete_paging_structure old_ps (set_active_paging_structure new_ps (mach (vmem s4)));
                 (r1, m4) = enable_PAT r m3
             in Inr (r1, on_kernel (mach_update (\<lambda>_. m4)) s4)))))))))))"

section \<open>Initialisation\<close>

text \<open>The console: the display, the default font and the buffers.\<close>

definition init_console :: "boot_env \<Rightarrow> kstate \<Rightarrow> (VMemHandle \<times> kstate) kres" where
  "init_console env s =
     (let (width, height, _) = get_firmware_display (be_mode env)
      in kbind (init_vbe_display kernel_kmalloc (be_mode env) s) (\<lambda>(h, s1).
         kbind (get_default_PSF_font kernel_kmalloc (be_font env) (be_font_start env) (be_font_end env) s1) (\<lambda>(font, s2).
         kbind (init_kio kernel_kmalloc (be_garbage env) width height font \<lparr>col_r = 0, col_g = 0, col_b = 0, col_a = 255\<rparr>
                  \<lparr>col_r = 0, col_g = 255, col_b = 0, col_a = 255\<rparr> (kio (vmem s2)) s2) (\<lambda>(st, s3).
           Inr (h, on_kernel (kio_update (\<lambda>_. st)) s3)))))"

text \<open>The processor, the ACPI tables and the interrupt controllers, up to \<open>enable_interrupts\<close>.\<close>

definition init_cpus :: "boot_env \<Rightarrow> GlobalCPUState \<times> cpu_regs \<times> kstate \<Rightarrow> (u32 \<times> GlobalCPUState \<times> cpu_regs \<times> kstate) kres" where
  "init_cpus env st =
     kbind (set_up_arch_layer kernel_kmalloc (be_stubs env) st) (\<lambda>(g, r, s).
     kbind (acpi_init kernel_kmalloc s) (\<lambda>(_, s1).
     kbind (get_MADT (init_kernel_data s1)) (\<lambda>(madt, s2).
     kbind (count_number_of_local_apic (acpi_mem (vmem s2)) madt) (\<lambda>cores.
     kbind (register_local_kernel_data_cpu kernel_kmalloc s2) (\<lambda>(bsp_cpuid, s3).
     kbind (init_cpu_data kernel_kmalloc (be_stubs env) cores g s3) (\<lambda>(g1, s4).
     kbind (init_cpu bsp_cpuid g1 s4 r) (\<lambda>(g2, r1).
     kbind (init_interrupt_controller_subsystems kernel_kmalloc (be_cpuid_edx env) (be_msr env) s4) (\<lambda>s5.
     kbind (init_local_interrupt_controllers s5) (\<lambda>s6.
     kbind (init_global_interrupt_controllers kernel_kmalloc s6) (\<lambda>s7.
       Inr (bsp_cpuid, g2, r1, on_kernel (interrupts_enabled_update (\<lambda>_. True)) s7)))))))))))"

definition kinit :: "boot_env \<Rightarrow> GlobalCPUState \<times> cpu_regs \<times> kstate \<Rightarrow> (addr \<times> VMemHandle \<times> GlobalCPUState \<times> cpu_regs \<times> kstate) kres" where
  "kinit env = (\<lambda>(g, r, s).
     kbind (on_machine init_frame_allocator s) (\<lambda>s1.
     kbind (setup_virtual_memory env kernel_kmalloc r (init_interrupts s1)) (\<lambda>(r1, s2).
     kbind (kernel_heap_init s2) (\<lambda>s3.
     kbind (enable_kheap_growth s3) (\<lambda>s4.
     kbind (init_console env s4) (\<lambda>(display, s5).
     kbind (init_cpus env (g, r1, s5)) (\<lambda>(bsp_cpuid, g1, r2, s6).
     kbind (allocate_kernel_virtual_memory kernel_kmalloc KernelVMM 0x100000 VM_TYPE_STACK 0x4000 0x4000000 s6) (\<lambda>(stack_mem, s7).
     kbind (get_logical_core_lapic_id s7) (\<lambda>lapic_id.
     kbind (set_local_kernel_data bsp_cpuid \<lparr>kernel_stack = stack_mem, apic_id = lapic_id\<rparr> s7) (\<lambda>s8.
     kbind (initialize_vmmcache_shootdown_subsystem kernel_kmalloc (be_queue_garbage env) s8) (\<lambda>s9.
     kbind (activate_this_cpu_vmmcache_shootdown s9) (\<lambda>s10.
     kbind (init_kernel_data_PIT 1000 s10) (\<lambda>s11.
     kbind (get_vmem_addr stack_mem s11) (\<lambda>a. kbind (get_vmem_size stack_mem s11) (\<lambda>n.
       Inr (a + n, display, g1, r2, s11))))))))))))))))"

section \<open>The main function\<close>

definition print_elf_info :: "boot_env \<Rightarrow> kstate \<Rightarrow> kstate kres" where
  "print_elf_info env s =
     (let img = get_kernel_image (boot_data (mach (vmem s)));
          nl = newline_str;
          loaded_segments = elf_get_number_of_loaded_entries (be_image env) img;
          segments = take (unat loaded_segments) (elf_get_loaded_entries (be_image env) img 32)
      in kbind (emit [Str (''KERNEL IMAGE INFO'' @ nl), Str ''kernel image addr: '', Hex img, Str nl] s) (\<lambda>s1.
         if \<not> elf_validate_header (be_image env) img then emit [Str (''elf image is not valid'' @ nl)] s1
         else emit ([Str (''elf image is valid'' @ nl), Str ''number of loaded segments: '', Dec (ucast loaded_segments), Str nl] @
           (if loaded_segments > 32 then [Str (''displaying only the first 32 segments:'' @ nl)] else []) @
           concat (map (\<lambda>seg. [Str ''Start: '', Hex (seg_vaddr seg), Str '' / Size: '', Hex (seg_size seg), Str nl]) segments)) s1))"

fun memory_type_name :: "MemoryMapType \<Rightarrow> string" where
  "memory_type_name MEMORYMAP_BAD = ''[     BAD    ]''"
| "memory_type_name MEMORYMAP_USABLE = ''[     RAM    ]''"
| "memory_type_name MEMORYMAP_ACPI_NVS = ''[  ACPI NVS  ]''"
| "memory_type_name MEMORYMAP_RESERVED = ''[  RESERVED  ]''"
| "memory_type_name MEMORYMAP_ACPI_TABLE = ''[ ACPI TABLE ]''"
| "memory_type_name MEMORY_MAP_NON_VOLATILE = ''[NON VOLATILE]''"

definition print_memory_map :: "kstate \<Rightarrow> kstate kres" where
  "print_memory_map s =
     kbind (emit [Str (newline_str @ ''MEMORY MAP:'' @ newline_str)] s) (\<lambda>s1.
     kbind (get_memory_map (boot_data (mach (vmem s1))) (boot_cache (mach (vmem s1)))) (\<lambda>(ranges, c).
       emit (concat (map (\<lambda>r. [Str (memory_type_name (map_type r)), Str '' '', Hex (map_start r), Str '' / '',
               Hex (map_start r + map_size r), Str newline_str]) ranges) @ [Str newline_str])
            (on_kernel (mach_update (boot_cache_update (\<lambda>_. c))) s1)))"

definition sleep_2s :: "(kstate \<Rightarrow> kstate kres) \<Rightarrow> kstate \<Rightarrow> kstate kres" where
  "sleep_2s wake s =
     kbind (emit [Str (newline_str @ ''Sleeping 2s'' @ newline_str)] s) (\<lambda>s1.
     kbind (on_kio kio_flush s1) (PIT_wait_ms wake 2000))"

definition print_memory_usage :: "kstate \<Rightarrow> kstate kres" where
  "print_memory_usage s =
     (let mib = Str ('' MiB'' @ newline_str);
          ram = get_total_usable_RAM_size (boot_data (mach (vmem s)))
      in kbind (emit [Str (newline_str @ ''-------------------PRINTING MEMORY USAGE-------------------'' @ newline_str)] s) (\<lambda>s1.
         kbind (get_number_of_free_frames (mach (vmem s1))) (\<lambda>(frames, _).
         kbind (emit [Str ''kernel + bootloader memory overhead: '', Dec ((ram - frames * PAGE_SIZE) div MB), mib,
             Str ''kernel paging memory overhead: '',
             Dec (get_paging_mem_overhead (get_VMM_paging_structure KernelVMM s1) (mach (vmem s1)) div MB), mib] s1) (\<lambda>s2.
         kbind (get_frame_allocator_mem_overhead (mach (vmem s2))) (\<lambda>(fa, _).
         kbind (get_kheap_total_size s2) (\<lambda>(heap, s3).
           emit [Str ''kernel frame allocator overhead: '', Dec (fa div MB), mib, Str ''kernel heap start size: '', Dec 4, mib,
             Str ''kernel heap actual size: '', Dec (heap div MB), mib, Str ''kernel stack size: '', Dec 1, mib,
             Str ''System Total RAM: '', Dec (ram div MB), mib] s3))))))"

abbreviation (input) say :: "string \<Rightarrow> printf_arg list \<Rightarrow> kstate \<Rightarrow> kstate kres" where
  "say t args \<equiv> on_kio (printf (t @ newline_str) args)"

text \<open>The start of the other processors and what is printed about it.\<close>

definition kmain_start_APs ::
  "nat \<Rightarrow> (kstate \<Rightarrow> kstate kres) \<Rightarrow> boot_env \<Rightarrow> (nat \<Rightarrow> u32) \<Rightarrow> MPGlobalData \<Rightarrow> kstate \<Rightarrow> (MPGlobalData \<times> kstate) kres" where
  "kmain_start_APs n wake env reads mp s =
     kbind (say ''starting other CPUs'' [] s) (\<lambda>s1.
     kbind (PIT_wait_ms wake 2000 s1) (\<lambda>s2.
     kbind (init_APs n kernel_kmalloc wake (be_mp_bin env) (be_mp_bin_size env) (be_mp_data env) reads mp s2) (\<lambda>(mp_err, mp1, s3).
       if mp_err = ERROR_MP_OK
       then kbind (say ''APs init OK(number of total CPUs: %u64)'' [ArgU64 (get_number_of_usable_logical_cores s3)] s3) (\<lambda>s4. Inr (mp1, s4))
       else kbind (say ''APs initialization failed'' [] s3) (\<lambda>_. kpanic GENERIC_ERROR))))"

text \<open>
  The interrupt to all processors and the test of the virtual memory. The number of the interrupt is printed
  with a 64-bit format and passed as an \<open>int\<close>; \<open>arg\<close> is what the format reads. After the command is written
  the code polls until it is sent.
\<close>

definition kmain_tests :: "printf_arg \<Rightarrow> kstate \<Rightarrow> kstate kres" where
  "kmain_tests arg s =
     kbind (say ''sending interrupt %u64 to all cpus '' [arg] s) (\<lambda>s1.
     kbind (send_IPI_by_destination_shorthand APIC_DESTSH_ALL_INCLUDING_SELF 0x51 s1) (\<lambda>s2.
     kbind (is_IPI_sending_complete s2) (\<lambda>sent.
       if \<not> sent then Inl Hang
       else kbind (on_kio kio_flush s2) (\<lambda>s3.
         kbind (say ''allocating kernel vmem'' [] s3) (\<lambda>s4.
         kbind (allocate_kernel_virtual_memory kernel_kmalloc KernelVMM (PAGE_SIZE * 64) VM_TYPE_GENERAL_USE (4 * PAGE_SIZE) (4 * PAGE_SIZE) s4) (\<lambda>(thandle, s5).
         kbind (say ''deallocating kernel vmem'' [] s5) (\<lambda>s6.
         kbind (deallocate_kernel_virtual_memory kernel_kmalloc thandle s6) (\<lambda>(_, s7).
         kbind (say ''kernel vmem test done'' [] s7) (on_kio kio_flush)))))))))"

text \<open>\<open>kmain\<close> up to its endless halt, without the tests that the build leaves out.\<close>

definition kmain ::
  "nat \<Rightarrow> (kstate \<Rightarrow> kstate kres) \<Rightarrow> boot_env \<Rightarrow> (nat \<Rightarrow> u32) \<Rightarrow> MPGlobalData \<Rightarrow> kstate \<Rightarrow> (MPGlobalData \<times> kstate) kres" where
  "kmain n wake env reads mp s =
     kbind (install_default_interrupt_handler interrupt_print_handler s) (\<lambda>s1.
     kbind (install_interrupt_handler 0xd general_protection_fault_handler s1) (\<lambda>s2.
     kbind (emit [Str ''PIT frequency: '', Dec (get_PIT_real_frequency s2), Str newline_str] s2) (\<lambda>s3.
     kbind (print_elf_info env s3) (\<lambda>s4.
     kbind (print_memory_map s4) (\<lambda>s5.
     kbind (sleep_2s wake s5) (\<lambda>s6.
     kbind (debug_print_vmm KernelVMM s6) (\<lambda>s7.
     kbind (sleep_2s wake s7) (\<lambda>s8.
     kbind (print_memory_usage s8) (\<lambda>s9.
     kbind (print_acpi_rsdt s9) (\<lambda>(_, s10).
     kbind (say ''number of logical cores: %u64'' [ArgU64 (get_number_of_usable_logical_cores s10)] s10) (\<lambda>s11.
     kbind (get_MADT s11) (\<lambda>(madt, s12).
     kbind (madt_has_pic (acpi_mem (vmem s12)) madt) (\<lambda>pic.
     kbind (say (if pic then ''the PC has PIC'' else ''the PC doesnt have PIC'') [] s12) (\<lambda>s13.
     kbind (is_kheap_corrupted s13) (\<lambda>(corrupted, s14).
     kbind (say (if corrupted then ''KERNEL HEAP CORRUPTED'' else ''KERNEL HEAP OK'') [] s14) (\<lambda>s15.
     kbind (kmain_start_APs n wake env reads mp s15) (\<lambda>(mp1, s16).
     kbind (kmain_tests (ArgU32 0x51) s16) (\<lambda>s17.
     kbind (get_ms_from_tick_count (get_PIT_tick_count s17) s17) (\<lambda>ms.
     kbind (on_kio (printf (''seconds passed from pit init: %u64.%u64'' @ newline_str @ newline_str @ newline_str)
              [ArgU64 (ms div 1000), ArgU64 (ms mod 1000)]) s17) (\<lambda>s18.
       Inr (mp1, s18)))))))))))))))))))))"

section \<open>The argument of the wrong size\<close>

lemma printf_loop_text_Inr:
  "list_all (\<lambda>c. c \<noteq> CHR ''%'') t \<Longrightarrow> printf_loop False (t @ rest) args st = Inr st' \<Longrightarrow>
   \<exists>st1. printf_loop False rest args st1 = Inr st'"
  by (induction t arbitrary: st) (auto simp: kres_simps)

lemma printf_u64_needs_u64:
  assumes "list_all (\<lambda>c. c \<noteq> CHR ''%'') t"
  shows "printf (t @ ''%u64'' @ rest) (ArgU32 v # args) st \<noteq> Inr st'"
proof
  assume "printf (t @ ''%u64'' @ rest) (ArgU32 v # args) st = Inr st'"
  then obtain st0 st1 where "printf_loop False (t @ ''%u64'' @ rest) (ArgU32 v # args) st0 = Inr st1"
    by (auto simp: printf_def with_kio_lock_def kres_simps split: if_splits)
  from printf_loop_text_Inr [OF assms this] show False
    by (auto simp: printf_token_def printf_token64_def next_u64_def kres_simps)
qed

text \<open>
  \<open>kmain\<close> reads a 64-bit argument where it passed an \<open>int\<close>: the behaviour of the program is undefined from
  there on, so the model of \<open>kmain\<close> never reaches its endless halt.
\<close>

lemma kmain_argument_size: "kmain n wake env reads mp s \<noteq> Inr r"
proof -
  have "kmain_tests (ArgU32 0x51) s' \<noteq> Inr s1" for s' s1
    using printf_u64_needs_u64 [where t = "''sending interrupt ''" and rest = "'' to all cpus '' @ newline_str" and v = "0x51" and args = "[]"]
    by (auto simp: kmain_tests_def on_kio_def kres_simps)
  then show ?thesis by (auto simp: kmain_def kres_simps)
qed

end
