(* ===== verification/Saved_Context.thy ===== *)
theory Saved_Context
  imports Kinit
begin

text \<open>
  The registers that an interrupt stub has pushed (kernel/HAL/x86-64/interrupt_savedcontext.c, .h): the arguments of the
  interrupted function and their printing. The stack is byte memory.
\<close>

record x64SavedContext =
  ctx_es :: u16
  ctx_ds :: u16
  ctx_fs :: u16
  ctx_gs :: u16
  ctx_rcx :: u64
  ctx_rdx :: u64
  ctx_rsi :: u64
  ctx_rdi :: u64
  ctx_rbp :: u64
  ctx_rip :: u64
  ctx_cs :: u64
  ctx_rflags :: u64
  ctx_rsp :: u64
  ctx_ss :: u64

text \<open>The registers after the frame pointer take 80 bytes below the address that the stub passes.\<close>

definition getx64SavedContext :: "bytes \<Rightarrow> addr \<Rightarrow> x64SavedContext" where
  "getx64SavedContext mem interrupt_frame =
     (let p = interrupt_frame - 80
      in \<lparr>ctx_es = read_u16 mem p, ctx_ds = read_u16 mem (p + 2), ctx_fs = read_u16 mem (p + 4), ctx_gs = read_u16 mem (p + 6),
          ctx_rcx = read_u64 mem (p + 40), ctx_rdx = read_u64 mem (p + 48), ctx_rsi = read_u64 mem (p + 56), ctx_rdi = read_u64 mem (p + 64),
          ctx_rbp = read_u64 mem (p + 80), ctx_rip = read_u64 mem (p + 96), ctx_cs = read_u64 mem (p + 104),
          ctx_rflags = read_u64 mem (p + 112), ctx_rsp = read_u64 mem (p + 120), ctx_ss = read_u64 mem (p + 128)\<rparr>)"

definition get_interrupt_args_from_saved_context :: "bytes \<Rightarrow> addr \<Rightarrow> u64 \<times> u64 \<times> u64 \<times> u64" where
  "get_interrupt_args_from_saved_context mem frame =
     (let regs = getx64SavedContext mem frame in (ctx_rdi regs, ctx_rsi regs, ctx_rdx regs, ctx_rcx regs))"

definition print_interrupt_savedcontext :: "bytes \<Rightarrow> addr \<Rightarrow> KioState \<Rightarrow> KioState kres" where
  "print_interrupt_savedcontext mem frame =
     (let ctx = getx64SavedContext mem frame
      in printf (''[SAVED INTERRUPT CONTEXT]'' @ newline_str @ ''cs:rip='' @ ''%x32'' @ '':'' @ ''%h64'' @ '', ss:rsp='' @ ''%x32'' @ '':'' @ ''%h64'' @
             '', ds='' @ ''%x32'' @ '', es='' @ ''%x32'' @ '', fs='' @ ''%x32'' @ '', gs='' @ ''%x64'' @ newline_str @
             ''rflags='' @ ''%h64'' @ '', rbp='' @ ''%h64'' @ newline_str)
           [ArgU32 (ucast (ctx_cs ctx)), ArgU64 (ctx_rip ctx), ArgU32 (ucast (ctx_ss ctx)), ArgU64 (ctx_rsp ctx), ArgU32 (ucast (ctx_ds ctx)),
            ArgU32 (ucast (ctx_es ctx)), ArgU32 (ucast (ctx_fs ctx)), ArgU32 (ucast (ctx_gs ctx)), ArgU64 (ctx_rflags ctx), ArgU64 (ctx_rbp ctx)])"

section \<open>The argument of the wrong size\<close>

text \<open>The steps of \<open>printf\<close> over a format that is a sequence of texts and tokens.\<close>

lemma printf_x32_Inr:
  "printf_loop False (''%x32'' @ rest) (ArgU32 v # args) st = Inr st' \<Longrightarrow> \<exists>st1. printf_loop False rest args st1 = Inr st'"
  by (auto simp: printf_token_def printf_token64_def printf_token32_def next_u32_def kres_simps)

lemma printf_h64_Inr:
  "printf_loop False (''%h64'' @ rest) (ArgU64 v # args) st = Inr st' \<Longrightarrow>
   \<exists>st1. printf_loop False rest args st1 = Inr st'"
  by (auto simp: printf_token_def printf_token64_def printf_token32_def next_u64_def kres_simps)

lemma printf_x64_U32: "printf_loop False (''%x64'' @ rest) (ArgU32 v # args) st \<noteq> Inr st'"
  by (auto simp: printf_token_def printf_token64_def next_u64_def kres_simps)

text \<open>
  The register \<open>gs\<close> is passed as a 32-bit argument and printed with a 64-bit token: the model never returns.
\<close>

lemma print_interrupt_savedcontext_gs: "print_interrupt_savedcontext mem frame st \<noteq> Inr st'"
proof
  assume "print_interrupt_savedcontext mem frame st = Inr st'"
  then obtain st0 st1 where p: "printf_loop False (''[SAVED INTERRUPT CONTEXT]'' @ newline_str @ ''cs:rip='' @ ''%x32'' @ '':'' @ ''%h64'' @
        '', ss:rsp='' @ ''%x32'' @ '':'' @ ''%h64'' @ '', ds='' @ ''%x32'' @ '', es='' @ ''%x32'' @ '', fs='' @ ''%x32'' @ '', gs='' @ ''%x64'' @
        newline_str @ ''rflags='' @ ''%h64'' @ '', rbp='' @ ''%h64'' @ newline_str)
      [ArgU32 (ucast (ctx_cs (getx64SavedContext mem frame))), ArgU64 (ctx_rip (getx64SavedContext mem frame)),
       ArgU32 (ucast (ctx_ss (getx64SavedContext mem frame))), ArgU64 (ctx_rsp (getx64SavedContext mem frame)),
       ArgU32 (ucast (ctx_ds (getx64SavedContext mem frame))), ArgU32 (ucast (ctx_es (getx64SavedContext mem frame))),
       ArgU32 (ucast (ctx_fs (getx64SavedContext mem frame))), ArgU32 (ucast (ctx_gs (getx64SavedContext mem frame))),
       ArgU64 (ctx_rflags (getx64SavedContext mem frame)), ArgU64 (ctx_rbp (getx64SavedContext mem frame))] st0 = Inr st1"
    by (auto simp only: print_interrupt_savedcontext_def Let_def printf_def with_kio_lock_def kres_simps split: if_splits)
  have t: "list_all (\<lambda>c. c \<noteq> CHR ''%'') x"
    if "x \<in> {''[SAVED INTERRUPT CONTEXT]'', newline_str, ''cs:rip='', '':'', '', ss:rsp='', '', ds='', '', es='', '', fs='', '', gs=''}" for x
    using that by (auto simp: newline_str_def)
  note words = printf_loop_text_Inr [OF t, rotated]
  from p show False
    by - (((drule words, simp, elim exE) | (drule printf_x32_Inr, elim exE) | (drule printf_h64_Inr, elim exE))+,
      erule notE [OF printf_x64_U32])
qed

end
