(* ===== verification/Panic.thy ===== *)
theory Panic
  imports Kinit
begin

text \<open>
  What a panic does before the processor halts (kernel/HAL/x86-64/kpanic.c): the error code and the message are
  printed and the console is flushed. In the other theories a panic is the outcome \<open>Panic\<close>; this theory shows when the
  code gets as far as its endless halt with the error code in the registers, and when it does not.
\<close>

definition error_code :: "ErrorCodes \<Rightarrow> u64" where
  "error_code e =
     (case e of FRAME_ALLOCATOR_ERROR \<Rightarrow> 1 | VBE_ERROR \<Rightarrow> 2 | FREE_MEM_BOOTLOADER_ERROR \<Rightarrow> 3 | KIO_ERROR \<Rightarrow> 4
      | FAILED_ASSERT \<Rightarrow> 5 | STACK_SMASHING \<Rightarrow> 6 | UNRECOVERABLE_GPF \<Rightarrow> 7 | UNRECOVERABLE_PAGE_FAULT \<Rightarrow> 8
      | HEAP_OUT_OF_MEM \<Rightarrow> 9 | HEAP_CORRUPTED \<Rightarrow> 10 | NOT_IMPLEMENTED_ERROR \<Rightarrow> 11 | VMM_ERROR \<Rightarrow> 12
      | APIC_ERROR \<Rightarrow> 13 | GENERIC_ERROR \<Rightarrow> 14)"

text \<open>The console when the processor halts.\<close>

definition kpanic_report :: "u64 \<Rightarrow> KioState \<Rightarrow> KioState kres" where
  "kpanic_report code st =
     (if is_kio_initialized st
      then kbind (printf (''[KERNEL PANIC] '' @ ''%u64'' @ newline_str) [ArgU64 code] st) kio_flush
      else Inr st)"

definition kpanic_with_msg_report :: "u64 \<Rightarrow> string \<Rightarrow> KioState \<Rightarrow> KioState kres" where
  "kpanic_with_msg_report code msg st =
     (if is_kio_initialized st
      then kbind (printf (''[KERNEL PANIC] error code = '' @ ''%u64'' @ '', msg = '' @ ''%s'' @ newline_str) [ArgU64 code, ArgStr msg] st) kio_flush
      else Inr st)"

section \<open>Printing on a usable console\<close>

definition console_ok :: "KioState \<Rightarrow> bool" where
  "console_ok st \<longleftrightarrow> screen_ok st \<and> ring_ok (char_buffer st) \<and> display_ok st"

text \<open>Room for \<open>n\<close> more characters in the ring.\<close>

definition room :: "nat \<Rightarrow> KioState \<Rightarrow> bool" where
  "room n st \<longleftrightarrow> console_ok st \<and> kio_lock st \<and> ring_length (char_buffer st) + n < unat (buffer_size (char_buffer st))"

lemma put_text_room:
  assumes "room (length cs + n) st"
  shows "\<exists>st'. put_text cs st = Inr st' \<and> room n st'"
proof -
  from assms obtain buff mem where w: "put_text cs st = Inr (st\<lparr>char_buffer := buff, ring_mem := mem\<rparr>)" "ring_ok buff"
    "buffer_size buff = buffer_size (char_buffer st)" "ring_contents buff mem = ring_contents (char_buffer st) (ring_mem st) @ cs"
    using put_text_contents [of st cs] by (auto simp: room_def console_ok_def)
  then have "length (ring_contents buff mem) = ring_length (char_buffer st) + length cs" by simp
  then have "ring_length buff = ring_length (char_buffer st) + length cs" by simp
  then show ?thesis using assms w
    by (simp add: room_def console_ok_def screen_ok_def display_ok_def font_width_def font_height_def)
qed

lemma print_dec_room:
  assumes "room (129 + n) st"
  shows "\<exists>st'. unsync_print_uintmax_dec v st = Inr st' \<and> room n st'"
proof -
  have "unat v < 2 ^ 64" using unsigned_less [of v, where 'a = nat] by simp
  also have "(2 :: nat) ^ 64 < 10 ^ 128" by simp
  finally have v: "unat v < unat (10 :: u64) ^ 128" by simp
  have "1 < unat (10 :: u64)" "unat (10 :: u64) \<le> 256" by simp_all
  from fill_digit_buffer_correct [OF this v] obtain buf k
    where b: "fill_digit_buffer v 10 128 = Inr (buf, k)" "k \<le> 128" "length buf = 128" by blast
  let ?t = "(if v = 0 then ascii ''0'' else []) @ map dec_digit (rev (take k buf))"
  have len: "length ?t \<le> 129" using b by simp
  then have "room (length ?t + n) st" using assms unfolding room_def by linarith
  from put_text_room [OF this] show ?thesis by (simp only: unsync_print_uintmax_dec_def b kbind_simps prod.case)
qed

lemma printf_loop_text:
  "list_all (\<lambda>c. c \<noteq> CHR ''%'') t \<Longrightarrow>
   printf_loop False (t @ rest) args st = kbind (put_text (ascii t) st) (printf_loop False rest args)"
proof (induction t arbitrary: st)
  case (Cons c t)
  then have "printf_loop False (t @ rest) args = (\<lambda>a. kbind (put_text (ascii t) a) (printf_loop False rest args))" by (simp add: fun_eq_iff)
  with Cons.prems show ?case by (simp add: put_text_def kbind_assoc)
qed (simp add: put_text_def)

lemma printf_loop_u64:
  "printf_loop False (''%u64'' @ rest) (ArgU64 v # args) st = kbind (unsync_print_uintmax_dec v st) (printf_loop False rest args)"
  by (simp add: printf_token_def printf_token64_def printf_token32_def next_u64_def kbind_assoc)

lemma printf_loop_s:
  "printf_loop False (''%s'' @ rest) (ArgStr v # args) st = kbind (put_text (ascii v) st) (printf_loop False rest args)"
  by (simp add: printf_token_def printf_token64_def printf_token32_def next_str_def unsync_print_def kbind_assoc)

text \<open>The end of \<open>printf\<close> and the flush of the panic, on a console that is held by \<open>printf\<close>.\<close>

lemma report_end:
  assumes "\<not> kio_lock st" and "printf_loop False format args (st\<lparr>kio_lock := True\<rparr>) = Inr st1" and "room 0 st1"
  shows "\<exists>st'. kbind (printf format args st) kio_flush = Inr st' \<and> is_circular_buffer_empty (char_buffer st') \<and> \<not> kio_lock st'"
proof -
  have ok: "screen_ok st1" "ring_ok (char_buffer st1)" "display_ok st1" using assms(3) by (simp_all add: room_def console_ok_def)
  obtain st2 where st2: "unsync_opt_flush st1 = Inr st2" "screen_ok st2" "ring_ok (char_buffer st2)" "display_ok st2"
    using ok unsync_flush_ok [OF ok] unfolding unsync_opt_flush_def
    by (cases "32 \<le> circular_buffer_written_bytes (char_buffer st1)") (simp_all, blast)
  let ?st3 = "release_kio_lock st2"
  have p: "printf format args st = Inr ?st3"
    using assms(1,2) st2(1) by (simp add: printf_def with_kio_lock_def acquire_kio_lock_def)
  let ?st4 = "?st3\<lparr>kio_lock := True\<rparr>"
  have "screen_ok ?st4" "ring_ok (char_buffer ?st4)" "display_ok ?st4"
    using st2 by (simp_all add: release_kio_lock_def screen_ok_def display_ok_def font_width_def font_height_def)
  then obtain st5 where "unsync_flush ?st4 = Inr st5" "is_circular_buffer_empty (char_buffer st5)" using unsync_flush_ok by blast
  then show ?thesis
    by (simp add: p kio_flush_def with_kio_lock_def acquire_kio_lock_def release_kio_lock_def)
qed

lemma room_start:
  "console_ok st \<Longrightarrow> ring_length (char_buffer st) + n < unat (buffer_size (char_buffer st)) \<Longrightarrow> room n (st\<lparr>kio_lock := True\<rparr>)"
  by (simp add: room_def console_ok_def screen_ok_def display_ok_def font_width_def font_height_def)

lemma room_le: "room n st \<Longrightarrow> m \<le> n \<Longrightarrow> room m st"
  by (auto simp: room_def)

text \<open>
  A panic on a usable console with a free lock and room in the ring reaches the halt, with its message drawn.
\<close>

lemma kpanic_report_shown:
  assumes "console_ok st" and "\<not> kio_lock st" and "is_kio_initialized st"
    and "ring_length (char_buffer st) + 200 < unat (buffer_size (char_buffer st))"
  shows "\<exists>st'. kpanic_report code st = Inr st' \<and> is_circular_buffer_empty (char_buffer st') \<and> \<not> kio_lock st'"
proof -
  have "room (length (ascii ''[KERNEL PANIC] '') + (129 + (length (ascii newline_str) + 0))) (st\<lparr>kio_lock := True\<rparr>)"
    by (rule room_le [OF room_start [OF assms(1,4)]]) (simp add: newline_str_def)
  from put_text_room [OF this] obtain st1 where
    1: "put_text (ascii ''[KERNEL PANIC] '') (st\<lparr>kio_lock := True\<rparr>) = Inr st1" "room (129 + (length (ascii newline_str) + 0)) st1" by blast
  from print_dec_room [OF 1(2)] obtain st2 where
    2: "unsync_print_uintmax_dec code st1 = Inr st2" "room (length (ascii newline_str) + 0) st2" by blast
  from put_text_room [OF 2(2)] obtain st3 where 3: "put_text (ascii newline_str) st2 = Inr st3" "room 0 st3" by blast
  have nl: "printf_loop False newline_str [] st2 = Inr st3"
    using printf_loop_text [of newline_str "[]" "[]" st2] 3(1) by (simp add: newline_str_def)
  have "printf_loop False (''[KERNEL PANIC] '' @ ''%u64'' @ newline_str) [ArgU64 code] (st\<lparr>kio_lock := True\<rparr>) = Inr st3"
    by (subst printf_loop_text, simp) (simp only: 1(1) 2(1) nl printf_loop_u64 kbind_simps)
  from report_end [OF assms(2) this 3(2)] show ?thesis by (simp only: kpanic_report_def assms(3) if_True)
qed

lemma kpanic_with_msg_report_shown:
  assumes "console_ok st" and "\<not> kio_lock st" and "is_kio_initialized st"
    and "ring_length (char_buffer st) + 200 + length msg < unat (buffer_size (char_buffer st))"
  shows "\<exists>st'. kpanic_with_msg_report code msg st = Inr st' \<and> is_circular_buffer_empty (char_buffer st') \<and> \<not> kio_lock st'"
proof -
  let ?a = "''[KERNEL PANIC] error code = ''" and ?b = "'', msg = ''"
  let ?rest = "length (ascii ?b) + (length (ascii msg) + (length (ascii newline_str) + 0))"
  have "room (length (ascii ?a) + (129 + ?rest)) (st\<lparr>kio_lock := True\<rparr>)"
    by (rule room_le [OF room_start [OF assms(1)], where n = "200 + length msg"]) (use assms(4) in \<open>simp_all add: newline_str_def\<close>)
  from put_text_room [OF this] obtain st1 where
    1: "put_text (ascii ?a) (st\<lparr>kio_lock := True\<rparr>) = Inr st1" "room (129 + ?rest) st1" by blast
  from print_dec_room [OF 1(2)] obtain st2 where 2: "unsync_print_uintmax_dec code st1 = Inr st2" "room ?rest st2" by blast
  from put_text_room [OF 2(2)] obtain st3 where
    3: "put_text (ascii ?b) st2 = Inr st3" "room (length (ascii msg) + (length (ascii newline_str) + 0)) st3" by blast
  from put_text_room [OF 3(2)] obtain st4 where 4: "put_text (ascii msg) st3 = Inr st4" "room (length (ascii newline_str) + 0) st4" by blast
  from put_text_room [OF 4(2)] obtain st5 where 5: "put_text (ascii newline_str) st4 = Inr st5" "room 0 st5" by blast
  have nl: "printf_loop False newline_str [] st4 = Inr st5"
    using printf_loop_text [of newline_str "[]" "[]" st4] 5(1) by (simp add: newline_str_def)
  have b: "printf_loop False (?b @ ''%s'' @ newline_str) [ArgStr msg] st2 = Inr st5"
    by (subst printf_loop_text, simp) (simp only: 3(1) 4(1) nl printf_loop_s kbind_simps)
  have "printf_loop False (?a @ ''%u64'' @ ?b @ ''%s'' @ newline_str) [ArgU64 code, ArgStr msg] (st\<lparr>kio_lock := True\<rparr>) = Inr st5"
    by (subst printf_loop_text, simp) (simp only: 1(1) 2(1) b printf_loop_u64 kbind_simps)
  from report_end [OF assms(2) this 5(2)] show ?thesis by (simp only: kpanic_with_msg_report_def assms(3) if_True)
qed

text \<open>
  A panic while the lock of the console is held, as by a failed assertion of the console itself, waits for the lock
  for ever: the message is not shown and the halt with the error code is not reached.
\<close>

lemma kpanic_report_console_held:
  "is_kio_initialized st \<Longrightarrow> kio_lock st \<Longrightarrow> kpanic_report code st = Inl Hang \<and> kpanic_with_msg_report code msg st = Inl Hang"
  by (simp add: kpanic_report_def kpanic_with_msg_report_def printf_def with_kio_lock_def acquire_kio_lock_def)

end
