(* ===== verification/Fat32_Maker.thy ===== *)
theory Fat32_Maker
  imports Kernel_Prelude "HOL-Library.Monad_Syntax"
begin

text \<open>
  The tool that formats the partition of the disk image (tools/fat32_maker.cpp). A sector buffer is a list of bytes and so
  is the image file. \<open>None\<close> stands for a run that does not make the volume: the tool exits with an error, an
  assertion fails, it divides by zero, it accesses memory outside of a buffer, a position in the file does not fit
  into an \<open>int\<close>, or a read reaches the end of the file, after which the stream refuses every later access. The
  sector size is below \<open>2^16\<close> and a multiple of 4; the record of the volume rejects less than 512 bytes. The messages of
  the tool are left out; the time of day and the contents of the boot code file are parameters.
\<close>

section \<open>Fields of a buffer\<close>

text \<open>\<open>write_at\<close> and \<open>read_at\<close> for a number of \<open>k\<close> bytes, little-endian.\<close>

fun write_at :: "u8 list \<Rightarrow> nat \<Rightarrow> nat \<Rightarrow> nat \<Rightarrow> u8 list" where
  "write_at buf off 0 v = buf"
| "write_at buf off (Suc k) v = write_at (buf[off := of_nat v]) (Suc off) k (v div 256)"

fun read_at :: "u8 list \<Rightarrow> nat \<Rightarrow> nat \<Rightarrow> nat" where
  "read_at buf off 0 = 0"
| "read_at buf off (Suc k) = unat (buf ! off) + 256 * read_at buf (Suc off) k"

lemma length_write_at [simp]: "length (write_at buf off k v) = length buf"
  by (induction k arbitrary: buf off v) simp_all

lemma nth_write_at_other: "i < off \<or> off + k \<le> i \<Longrightarrow> write_at buf off k v ! i = buf ! i"
  by (induction k arbitrary: buf off v) auto

lemma read_at_cong: "(\<And>i. off \<le> i \<Longrightarrow> i < off + k \<Longrightarrow> a ! i = b ! i) \<Longrightarrow> read_at a off k = read_at b off k"
  by (induction k arbitrary: off) auto

lemma read_write_at_other [simp]: "off' + k' \<le> off \<or> off + k \<le> off' \<Longrightarrow> read_at (write_at buf off k v) off' k' = read_at buf off' k'"
  by (rule read_at_cong) (auto intro: nth_write_at_other)

lemma read_write_at [simp]: "off + k \<le> length buf \<Longrightarrow> read_at (write_at buf off k v) off k = v mod 256 ^ k"
proof (induction k arbitrary: buf off v)
  case (Suc k)
  have "write_at (buf[off := of_nat v]) (Suc off) k (v div 256) ! off = of_nat v"
    using Suc.prems by (simp add: nth_write_at_other)
  moreover have "unat (of_nat v :: u8) = v mod 256" by (simp add: unat_of_nat)
  ultimately show ?case using Suc by (simp add: mod_mult2_eq)
qed simp

lemma read_at_less: "read_at buf off k < 256 ^ k"
proof (induction k arbitrary: off)
  case (Suc k)
  have "unat (buf ! off) < 256" using unsigned_less [of "buf ! off", where 'a = nat] by simp
  moreover have "read_at buf (Suc off) k + 1 \<le> 256 ^ k" using Suc [of "Suc off"] by simp
  then have "256 * (read_at buf (Suc off) k + 1) \<le> 256 * 256 ^ k" by (rule mult_le_mono2)
  ultimately show ?case by simp
qed simp

text \<open>Copying bytes into a buffer.\<close>

definition write_bytes :: "u8 list \<Rightarrow> nat \<Rightarrow> u8 list \<Rightarrow> u8 list" where
  "write_bytes buf off bs = take off buf @ bs @ drop (off + length bs) buf"

section \<open>The volume boot record\<close>

definition getFatAreaStart :: "u8 list \<Rightarrow> u32" where
  "getFatAreaStart vbr = of_nat (read_at vbr 14 2)"

definition getFatAreaSize :: "u8 list \<Rightarrow> u32" where
  "getFatAreaSize vbr = of_nat (read_at vbr 16 1) * of_nat (read_at vbr 36 4)"

definition getDataAreaFirstSector :: "u8 list \<Rightarrow> u32" where
  "getDataAreaFirstSector vbr = of_nat (read_at vbr 14 2) + of_nat (read_at vbr 16 1) * of_nat (read_at vbr 36 4)"

definition getDataAreaSize :: "u8 list \<Rightarrow> u32" where
  "getDataAreaSize vbr = of_nat (read_at vbr 32 4) - getDataAreaFirstSector vbr"

definition getClusterCount :: "u8 list \<Rightarrow> u32 option" where
  "getClusterCount vbr =
     (if read_at vbr 13 1 = 0 then None else Some (getDataAreaSize vbr div of_nat (read_at vbr 13 1)))"

definition getFirstSectorOfCluster :: "u8 list \<Rightarrow> u32 \<Rightarrow> u32" where
  "getFirstSectorOfCluster vbr cluster = getDataAreaFirstSector vbr + (cluster - 2) * of_nat (read_at vbr 11 2)"

text \<open>The fields of the record, in the order in which the code writes them.\<close>

definition vbr_fields :: "u8 list \<Rightarrow> u32 \<Rightarrow> u32 \<Rightarrow> u8 \<Rightarrow> u16 \<Rightarrow> u32 \<Rightarrow> u8 list" where
  "vbr_fields vbr fat_size volume_size cluster_size sector_size now =
     fold (\<lambda>(off, k, v) buf. write_at buf off k v)
      [(0, 1, 0xEB), (1, 1, 88), (2, 1, 0x90), (11, 2, unat sector_size), (13, 1, unat cluster_size), (14, 2, 32), (16, 1, 2),
       (17, 2, 0), (19, 2, 0), (21, 1, 0xF0), (22, 2, 0), (28, 4, 0), (32, 4, unat volume_size), (36, 4, unat fat_size),
       (40, 2, 1), (42, 2, 0), (44, 4, 2), (48, 2, 1), (50, 2, 6), (64, 1, 0x80), (65, 1, 0), (66, 1, 0x29), (67, 4, unat now)] vbr"

definition makeFat32VBR :: "u8 list \<Rightarrow> u32 \<Rightarrow> u32 \<Rightarrow> u8 \<Rightarrow> u16 \<Rightarrow> u32 \<Rightarrow> u8 list option" where
  "makeFat32VBR volume_name fat_size volume_size cluster_size sector_size now =
     (if length volume_name > 11 \<or> sector_size < 512 then None
      else
        let vbr0 = write_bytes (replicate (unat sector_size) 0) 3 (map of_nat [77, 83, 87, 73, 78, 52, 46, 49]);
            vbr1 = vbr_fields vbr0 fat_size volume_size cluster_size sector_size now;
            vbr2 = write_bytes (write_bytes vbr1 71 (replicate 11 32)) 71 volume_name;
            vbr3 = write_bytes vbr2 82 (map of_nat [70, 65, 84, 51, 50, 32, 32, 32]);
            vbr = write_at vbr3 510 2 0x55AA;
            occupied = of_nat (read_at vbr 14 2) + 2 * fat_size - 1
        in if getDataAreaSize vbr + getFatAreaSize vbr + of_nat (read_at vbr 14 2) \<noteq> volume_size then None
           else if occupied > volume_size then None
           else case getClusterCount vbr of None \<Rightarrow> None
                | Some n \<Rightarrow> if n < 65526 then None else Some vbr)"

definition makeFSInfoSector :: "u8 list \<Rightarrow> u8 list option" where
  "makeFSInfoSector vbr =
     (case getClusterCount vbr of None \<Rightarrow> None
      | Some n \<Rightarrow> Some (fold (\<lambda>(off, v) buf. write_at buf off 4 v)
          [(0, 0x41615252), (484, 0x61417272), (488, unat n), (492, unat (of_nat (read_at vbr 44 4) + 1 :: u32)), (508, 0xAA550000)]
          (replicate (read_at vbr 11 2) 0)))"

section \<open>The image\<close>

record FileImage =
  img_sector_size :: nat
  img_offset :: nat
  img_file :: "u8 list"

text \<open>The position of a sector, computed in \<open>int\<close>.\<close>

definition sector_pos :: "FileImage \<Rightarrow> nat \<Rightarrow> nat" where
  "sector_pos img n = (n + img_offset img) * img_sector_size img"

definition seek :: "nat \<Rightarrow> FileImage \<Rightarrow> nat option" where
  "seek n img = (if sector_pos img n < 2 ^ 31 then Some (sector_pos img n) else None)"

text \<open>A write after the end of the file leaves a gap of zeroes.\<close>

definition writeSector :: "nat \<Rightarrow> u8 list \<Rightarrow> FileImage \<Rightarrow> FileImage option" where
  "writeSector n data img =
     do {
       p \<leftarrow> seek n img;
       if length data < img_sector_size img then None
       else Some (img\<lparr>img_file := write_bytes (img_file img @ replicate (p - length (img_file img)) 0) p
                       (take (img_sector_size img) data)\<rparr>)
     }"

definition readSector :: "nat \<Rightarrow> FileImage \<Rightarrow> u8 list option" where
  "readSector n img =
     do {
       p \<leftarrow> seek n img;
       if p + img_sector_size img \<le> length (img_file img)
       then Some (take (img_sector_size img) (drop p (img_file img))) else None
     }"

definition fat_sector :: "u8 list \<Rightarrow> FileImage \<Rightarrow> u32 \<Rightarrow> nat" where
  "fat_sector vbr img entry = unat (getFatAreaStart vbr + entry * 4 div of_nat (img_sector_size img))"

definition fat_offset :: "FileImage \<Rightarrow> u32 \<Rightarrow> nat" where
  "fat_offset img entry = unat (entry * 4 mod of_nat (img_sector_size img))"

definition readFatEntry :: "u32 \<Rightarrow> FileImage \<Rightarrow> u32 option" where
  "readFatEntry entry img =
     do {
       vbr \<leftarrow> readSector 0 img;
       sector \<leftarrow> readSector (fat_sector vbr img entry) img;
       Some (of_nat (read_at sector (fat_offset img entry) 4))
     }"

definition writeFatEntry :: "u32 \<Rightarrow> u32 \<Rightarrow> FileImage \<Rightarrow> FileImage option" where
  "writeFatEntry entry v img =
     do {
       vbr \<leftarrow> readSector 0 img;
       sector \<leftarrow> readSector (fat_sector vbr img entry) img;
       writeSector (fat_sector vbr img entry) (write_at sector (fat_offset img entry) 4 (unat v)) img
     }"

text \<open>A loop over the numbers of a range.\<close>

primrec for_each :: "(nat \<Rightarrow> FileImage \<Rightarrow> FileImage option) \<Rightarrow> nat list \<Rightarrow> FileImage \<Rightarrow> FileImage option" where
  "for_each f [] img = Some img"
| "for_each f (i # is) img = Option.bind (f i img) (for_each f is)"

text \<open>The size of the tables is kept in an \<open>int\<close>.\<close>

definition initializeFileAllocationTable :: "FileImage \<Rightarrow> FileImage option" where
  "initializeFileAllocationTable img =
     do {
       vbr \<leftarrow> readSector 0 img;
       img1 \<leftarrow> for_each (\<lambda>i. writeSector (unat (getFatAreaStart vbr) + i) (replicate (img_sector_size img) 0))
                 [0..<nat (sint (getFatAreaSize vbr))] img;
       vbr1 \<leftarrow> readSector 0 img1;
       img2 \<leftarrow> writeFatEntry 0 (0xFFFFFF00 OR of_nat (read_at vbr1 21 1)) img1;
       writeFatEntry 1 0xFFFFFFFF img2
     }"

definition updateFat32Backup :: "FileImage \<Rightarrow> FileImage option" where
  "updateFat32Backup img =
     do {
       vbr \<leftarrow> readSector 0 img;
       for_each (\<lambda>i im. do { sector \<leftarrow> readSector i im; writeSector (i + read_at vbr 50 2) sector im }) [0..<3] img
     }"

definition makeRootDirectory :: "FileImage \<Rightarrow> FileImage option" where
  "makeRootDirectory img =
     do {
       vbr \<leftarrow> readSector 0 img;
       let first_sector = getFirstSectorOfCluster vbr 2;
       img1 \<leftarrow> for_each (\<lambda>s_off im. do {
                   sector \<leftarrow> readSector (unat (first_sector + of_nat s_off)) im;
                   writeSector (unat (first_sector + of_nat s_off))
                     (fold (\<lambda>j buf. write_at buf (32 * j) 1 0) [0..<(img_sector_size img + 31) div 32] sector) im })
                 [0..<read_at vbr 13 1] img;
       writeFatEntry (of_nat (read_at vbr 44 4)) 0x0FFFFFFF img1
     }"

text \<open>
  The loop over the rest of the boot code. The number of bytes left is kept in an \<open>int\<close>, which the code asserts to be
  positive. With sectors of no bytes the loop would run into its first assertion.
\<close>

function boot_code_loop :: "u8 list \<Rightarrow> nat \<Rightarrow> nat \<Rightarrow> u32 \<Rightarrow> FileImage \<Rightarrow> FileImage option" where
  "boot_code_loop code code_offset sector fat_start img =
     (if code_offset < length code then
        if \<not> sector < unat fat_start \<or> \<not> length code - code_offset < 2 ^ 31 \<or> img_sector_size img = 0 then None
        else
          let n = min (length code - code_offset) (img_sector_size img)
          in do {
               buf \<leftarrow> readSector sector img;
               img1 \<leftarrow> writeSector sector (write_bytes buf 0 (take n (drop code_offset code))) img;
               boot_code_loop code (code_offset + n) (Suc sector) fat_start img1
             }
      else Some img)"
  by pat_completeness auto
termination
  by (relation "measure (\<lambda>(code, off, _, _, _). length code - off)") auto

declare boot_code_loop.simps [simp del]

text \<open>The size of the boot code file is kept in 32 bits; an empty file, as for a missing path, ends the tool.\<close>

definition writeBootCode :: "u8 list \<Rightarrow> FileImage \<Rightarrow> FileImage option" where
  "writeBootCode boot_code_file img =
     (let code = take (length boot_code_file mod 2 ^ 32) boot_code_file
      in if length code < 420 then None
         else do {
           vbr0 \<leftarrow> readSector 0 img;
           let vbr = write_bytes vbr0 90 (take 420 code);
           img1 \<leftarrow> writeSector 0 vbr img;
           boot_code_loop code 420 (read_at vbr 50 2 + 3) (getFatAreaStart vbr) img1
         })"

text \<open>
  The tool after its arguments are read; \<open>file\<close> holds the bytes of the opened file. The volume is named \<open>test\<close>.
\<close>

definition fat32_main :: "u32 \<Rightarrow> u32 \<Rightarrow> u8 \<Rightarrow> u16 \<Rightarrow> nat \<Rightarrow> u32 \<Rightarrow> u8 list \<Rightarrow> u8 list \<Rightarrow> FileImage option" where
  "fat32_main fat_size volume_size cluster_size sector_size file_offset now boot_code file =
     (let img = \<lparr>img_sector_size = unat sector_size, img_offset = file_offset, img_file = file\<rparr>
      in do {
           vbr \<leftarrow> makeFat32VBR (map of_nat [116, 101, 115, 116]) fat_size volume_size cluster_size sector_size now;
           img1 \<leftarrow> writeSector 0 vbr img;
           fs_info \<leftarrow> makeFSInfoSector vbr;
           img2 \<leftarrow> writeSector (read_at vbr 48 2) fs_info img1;
           img3 \<leftarrow> updateFat32Backup img2;
           img4 \<leftarrow> initializeFileAllocationTable img3;
           img5 \<leftarrow> makeRootDirectory img4;
           writeBootCode boot_code img5
         })"

section \<open>Copies into a buffer\<close>

lemma length_write_bytes [simp]: "off + length bs \<le> length buf \<Longrightarrow> length (write_bytes buf off bs) = length buf"
  by (simp add: write_bytes_def)

lemma nth_write_bytes: "off \<le> length buf \<Longrightarrow> i < length bs \<Longrightarrow> write_bytes buf off bs ! (off + i) = bs ! i"
  by (simp add: write_bytes_def nth_append)

lemma read_at_write_bytes: "off' + k \<le> off \<Longrightarrow> off \<le> length buf \<Longrightarrow> read_at (write_bytes buf off bs) off' k = read_at buf off' k"
  by (rule read_at_cong) (simp add: write_bytes_def nth_append)

lemma write_bytes_append:
  "off + length a + length b \<le> length buf \<Longrightarrow> write_bytes (write_bytes buf off a) (off + length a) b = write_bytes buf off (a @ b)"
  by (simp add: write_bytes_def ac_simps)

text \<open>Changing a part of a piece and writing the piece back changes the part in place.\<close>

lemma write_bytes_part:
  assumes "p + s \<le> length buf" and "off + length bs \<le> s"
  shows "write_bytes buf p (write_bytes (take s (drop p buf)) off bs) = write_bytes buf (p + off) bs"
proof -
  have "take (p + off) buf = take p buf @ take off (drop p buf)" by (simp add: take_add)
  moreover have "take off (take s (drop p buf)) = take off (drop p buf)" using assms(2) by (simp add: min_absorb1)
  moreover have "take (s - (off + length bs)) (drop (p + (off + length bs)) buf) @ drop (p + s) buf = drop (p + (off + length bs)) buf"
    using append_take_drop_id [of "s - (off + length bs)" "drop (p + (off + length bs)) buf"] assms(2) by (simp add: ac_simps)
  ultimately show ?thesis using assms by (simp add: write_bytes_def drop_take ac_simps)
qed

section \<open>Sectors\<close>

text \<open>A sector that is in the file, at a position below 2 GiB.\<close>

definition in_file :: "FileImage \<Rightarrow> nat \<Rightarrow> bool" where
  "in_file img n \<longleftrightarrow> sector_pos img n < 2 ^ 31 \<and> sector_pos img n + img_sector_size img \<le> length (img_file img)"

lemma readSector_iff:
  "readSector n img = Some buf \<longleftrightarrow> in_file img n \<and> buf = take (img_sector_size img) (drop (sector_pos img n) (img_file img))"
  by (auto simp: readSector_def seek_def in_file_def Option.bind_eq_Some_conv split: if_splits)

lemma readSector_eq:
  "readSector n img = (if in_file img n then Some (take (img_sector_size img) (drop (sector_pos img n) (img_file img))) else None)"
  by (auto simp: readSector_def seek_def in_file_def)

lemma length_readSector: "readSector n img = Some buf \<Longrightarrow> length buf = img_sector_size img"
  by (auto simp: readSector_iff in_file_def)

lemma writeSector_in_file:
  "in_file img n \<Longrightarrow> length data = img_sector_size img \<Longrightarrow>
   writeSector n data img = Some (img\<lparr>img_file := write_bytes (img_file img) (sector_pos img n) data\<rparr>)"
  by (simp add: writeSector_def seek_def in_file_def)

lemma sector_pos_file [simp]: "sector_pos (img\<lparr>img_file := f\<rparr>) n = sector_pos img n"
  by (simp add: sector_pos_def)

lemma in_file_file: "length f = length (img_file img) \<Longrightarrow> in_file (img\<lparr>img_file := f\<rparr>) n = in_file img n"
  by (simp add: in_file_def)

lemma in_file_le: "in_file img n \<Longrightarrow> m \<le> n \<Longrightarrow> in_file img m"
proof -
  assume n: "in_file img n" and "m \<le> n"
  then have "sector_pos img m \<le> sector_pos img n" by (simp add: sector_pos_def mult_le_mono1)
  with n show "in_file img m" by (simp add: in_file_def)
qed

text \<open>Sectors do not overlap: a written sector is read back and every other one keeps its bytes.\<close>

lemma read_written:
  assumes n: "in_file img n" "length data = img_sector_size img"
  shows "readSector m (img\<lparr>img_file := write_bytes (img_file img) (sector_pos img n) data\<rparr>) =
    (if m = n then Some data else readSector m img)"
proof -
  let ?s = "img_sector_size img" and ?f = "img_file img" and ?p = "sector_pos img"
  have len: "length (write_bytes ?f (?p n) data) = length ?f" using n by (simp add: in_file_def)
  have apart: "?p m + ?s \<le> ?p n \<or> ?p n + ?s \<le> ?p m" if "m \<noteq> n"
  proof (cases "m < n")
    case True
    then have "(Suc m + img_offset img) * ?s \<le> (n + img_offset img) * ?s" by (intro mult_le_mono1) simp
    then show ?thesis by (simp add: sector_pos_def algebra_simps)
  next
    case False
    with that have "(Suc n + img_offset img) * ?s \<le> (m + img_offset img) * ?s" by (intro mult_le_mono1) simp
    then show ?thesis by (simp add: sector_pos_def algebra_simps)
  qed
  have "take ?s (drop (?p m) (write_bytes ?f (?p n) data)) = (if m = n then data else take ?s (drop (?p m) ?f))" if "in_file img m"
  proof -
    have b: "?p m + ?s \<le> length ?f" "?p n + ?s \<le> length ?f" using that n(1) by (simp_all add: in_file_def)
    consider "m = n" | "m \<noteq> n" "?p m + ?s \<le> ?p n" | "m \<noteq> n" "?p n + ?s \<le> ?p m" using apart by blast
    then show ?thesis
    proof cases
      case 1
      then show ?thesis using b n(2) by (simp add: write_bytes_def)
    next
      case 2
      then show ?thesis using b n(2) by (simp add: write_bytes_def drop_take)
    next
      case 3
      then show ?thesis using b n(2) by (simp add: write_bytes_def)
    qed
  qed
  then show ?thesis using len n(1) in_file_file [OF len]
    by (cases "in_file img m") (auto simp: readSector_eq)
qed

text \<open>Changing a part of a sector and writing the sector back changes the part in the file.\<close>

lemma rewrite_sector:
  assumes "readSector n img = Some buf" and "off + length bs \<le> img_sector_size img"
  shows "writeSector n (write_bytes buf off bs) img = Some (img\<lparr>img_file := write_bytes (img_file img) (sector_pos img n + off) bs\<rparr>)"
    and "length (write_bytes (img_file img) (sector_pos img n + off) bs) = length (img_file img)"
proof -
  have i: "in_file img n" and b: "buf = take (img_sector_size img) (drop (sector_pos img n) (img_file img))"
    using assms(1) by (simp_all add: readSector_iff)
  have p: "sector_pos img n + img_sector_size img \<le> length (img_file img)" using i by (simp add: in_file_def)
  have "length (write_bytes buf off bs) = img_sector_size img" using length_readSector [OF assms(1)] assms(2) by simp
  from writeSector_in_file [OF i this]
  show "writeSector n (write_bytes buf off bs) img = Some (img\<lparr>img_file := write_bytes (img_file img) (sector_pos img n + off) bs\<rparr>)"
    using write_bytes_part [OF p assms(2)] by (simp add: b)
  show "length (write_bytes (img_file img) (sector_pos img n + off) bs) = length (img_file img)"
    using p assms(2) by (intro length_write_bytes) simp
qed

lemma sectors_in_file:
  assumes "\<forall>t < k. in_file img t" and "0 < k"
  shows "sector_pos img k \<le> length (img_file img)"
proof -
  obtain j where j: "k = Suc j" using assms(2) by (cases k) simp_all
  then have "in_file img j" using assms(1) by simp
  then show ?thesis by (simp add: j in_file_def sector_pos_def algebra_simps)
qed

section \<open>The boot code\<close>

lemma write_bytes_Nil [simp]: "write_bytes buf off [] = buf"
  by (simp add: write_bytes_def)

text \<open>
  The loop writes the rest of the code as one contiguous piece, when the sectors before the tables are in the file and
  have room for it.
\<close>

lemma boot_code_loop_writes:
  assumes "0 < img_sector_size img" and "length code - off < 2 ^ 31" and "\<forall>t < unat fat_start. in_file img t"
    and "sec * img_sector_size img + (length code - off) \<le> unat fat_start * img_sector_size img"
  shows "boot_code_loop code off sec fat_start img =
    Some (img\<lparr>img_file := write_bytes (img_file img) (sector_pos img sec) (drop off code)\<rparr>)"
  using assms
proof (induction code off sec fat_start img rule: boot_code_loop.induct)
  case (1 code off sec fat_start img)
  let ?s = "img_sector_size img" and ?f = "img_file img" and ?p = "sector_pos img sec"
  let ?n = "min (length code - off) ?s"
  let ?chunk = "take ?n (drop off code)"
  show ?case
  proof (cases "off < length code")
    case True
    then have "sec * ?s < unat fat_start * ?s" using 1(5) by linarith
    then have sec: "sec < unat fat_start" by simp
    then have i: "in_file img sec" using 1(4) by simp
    obtain buf where r: "readSector sec img = Some buf" using i by (simp add: readSector_eq)
    define img1 where "img1 = img\<lparr>img_file := write_bytes ?f ?p ?chunk\<rparr>"
    have w: "writeSector sec (write_bytes buf 0 ?chunk) img = Some img1" and len1: "length (img_file img1) = length ?f"
      using rewrite_sector [OF r, of 0 ?chunk] by (simp_all add: img1_def)
    have step: "boot_code_loop code off sec fat_start img = boot_code_loop code (off + ?n) (Suc sec) fat_start img1"
      using True sec 1(2,3) r w by (simp add: boot_code_loop.simps [of code off] Let_def)
    show ?thesis
    proof (cases "off + ?n < length code")
      case more: True
      then have n: "?n = ?s" by linarith
      have ih: "boot_code_loop code (off + ?n) (Suc sec) fat_start img1 =
          Some (img1\<lparr>img_file := write_bytes (img_file img1) (sector_pos img1 (Suc sec)) (drop (off + ?n) code)\<rparr>)"
      proof (rule 1(1) [OF True _ refl r w])
        show "\<not> (\<not> sec < unat fat_start \<or> \<not> length code - off < 2 ^ 31 \<or> ?s = 0)" using sec 1(2,3) by simp
        show "\<forall>t<unat fat_start. in_file img1 t" using 1(4) len1 by (simp add: img1_def in_file_file)
        show "Suc sec * img_sector_size img1 + (length code - (off + ?n)) \<le> unat fat_start * img_sector_size img1"
          using 1(5) more n by (simp add: img1_def)
      qed (use 1(2,3) in \<open>simp_all add: img1_def\<close>)
      have p1: "sector_pos img1 (Suc sec) = ?p + length ?chunk" using n by (simp add: img1_def sector_pos_def algebra_simps)
      have "sector_pos img (unat fat_start) \<le> length ?f" using sec by (intro sectors_in_file [OF 1(4)]) simp
      moreover have "?p + (length code - off) \<le> sector_pos img (unat fat_start)"
        using 1(5) by (simp add: sector_pos_def algebra_simps)
      moreover have "length ?chunk + length (drop (off + ?n) code) = length code - off" using more by simp
      ultimately have "?p + length ?chunk + length (drop (off + ?n) code) \<le> length ?f" by linarith
      then have "write_bytes (img_file img1) (?p + length ?chunk) (drop (off + ?n) code) = write_bytes ?f ?p (?chunk @ drop (off + ?n) code)"
        unfolding img1_def by (simp add: write_bytes_append del: length_take)
      moreover have "?chunk @ drop (off + ?n) code = drop off code"
        using append_take_drop_id [of ?n "drop off code"] by (simp add: add.commute)
      ultimately show ?thesis unfolding step ih p1 by (simp add: img1_def)
    next
      case False
      then have "?chunk = drop off code" by simp
      moreover have "boot_code_loop code (off + ?n) (Suc sec) fat_start img1 = Some img1"
        by (subst boot_code_loop.simps) (simp only: False if_False)
      ultimately show ?thesis unfolding step by (simp only: img1_def)
    qed
  next
    case False
    then show ?thesis by (simp add: boot_code_loop.simps [of code off])
  qed
qed

text \<open>C27. For boot code of 420 bytes up to 2 GiB, sectors of at least 512 bytes, and reserved sectors that are in the file
  below the position 2 GiB and have room for the code, \<open>writeBootCode\<close> returns, and the file is the one before with
  two changes: the first 420 bytes of the code are in the boot record at offset 90, and the rest is contiguous from
  the third sector after the backup of the boot record on. No other byte changes, so the tables are untouched.\<close>

theorem writeBootCode_correct:
  assumes "512 \<le> img_sector_size img" and "readSector 0 img = Some vbr" and "420 \<le> length code" and "length code < 2 ^ 31"
    and "\<forall>t < unat (getFatAreaStart vbr). in_file img t"
    and "(read_at vbr 50 2 + 3) * img_sector_size img + (length code - 420) \<le> unat (getFatAreaStart vbr) * img_sector_size img"
  shows "writeBootCode code img = Some (img\<lparr>img_file :=
    write_bytes (write_bytes (img_file img) (sector_pos img 0 + 90) (take 420 code))
      (sector_pos img (read_at vbr 50 2 + 3)) (drop 420 code)\<rparr>)"
proof -
  let ?s = "img_sector_size img"
  define vbr1 where "vbr1 = write_bytes vbr 90 (take 420 code)"
  define img1 where "img1 = img\<lparr>img_file := write_bytes (img_file img) (sector_pos img 0 + 90) (take 420 code)\<rparr>"
  have lv: "length vbr = ?s" using length_readSector [OF assms(2)] .
  have fields: "read_at vbr1 50 2 = read_at vbr 50 2" "getFatAreaStart vbr1 = getFatAreaStart vbr"
    using assms(1) lv by (simp_all add: vbr1_def getFatAreaStart_def read_at_write_bytes)
  note w = rewrite_sector [OF assms(2), of 90 "take 420 code", folded vbr1_def img1_def]
  from in_file_file [OF w(2)] have "\<forall>t < unat (getFatAreaStart vbr). in_file img1 t" using assms(1,3,5) by (simp add: img1_def)
  then have "boot_code_loop code 420 (read_at vbr 50 2 + 3) (getFatAreaStart vbr) img1 =
      Some (img1\<lparr>img_file := write_bytes (img_file img1) (sector_pos img1 (read_at vbr 50 2 + 3)) (drop 420 code)\<rparr>)"
    using assms by (intro boot_code_loop_writes) (simp_all add: img1_def)
  then show ?thesis using assms(1-4) w(1)
    by (simp add: writeBootCode_def Let_def fields vbr1_def [symmetric]) (simp add: img1_def)
qed

text \<open>A volume with a boot record, 40 sectors in its file and 1000 bytes of boot code.\<close>

definition ex_vbr :: "u8 list" where
  "ex_vbr = write_at (write_at (replicate 512 0) 50 2 6) 14 2 32"

definition ex_image :: FileImage where
  "ex_image = \<lparr>img_sector_size = 512, img_offset = 0, img_file = ex_vbr @ replicate (39 * 512) 0\<rparr>"

lemma ex_vbr_fields: "read_at ex_vbr 50 2 = 6" "read_at ex_vbr 14 2 = 32" "getFatAreaStart ex_vbr = 32" "length ex_vbr = 512"
  by (simp_all add: ex_vbr_def getFatAreaStart_def del: write_at.simps read_at.simps)

lemma ex_image_sectors: "t < 40 \<Longrightarrow> in_file ex_image t" "readSector 0 ex_image = Some ex_vbr" "img_sector_size ex_image = 512"
  by (simp_all add: ex_image_def in_file_def sector_pos_def readSector_iff ex_vbr_fields)

theorem writeBootCode_correct_witness:
  "\<exists>img'. writeBootCode (replicate 1000 0x90) ex_image = Some img' \<and> img_file img' ! 100 = 0x90 \<and> img_file img' ! 5187 = 0x90 \<and>
     img_file img' ! 5188 = 0"
proof -
  let ?f = "write_bytes (img_file ex_image) 90 (replicate 420 0x90)"
  have p: "sector_pos ex_image 0 = 0" "sector_pos ex_image 9 = 4608" by (simp_all add: sector_pos_def ex_image_def)
  have len: "length ?f = 40 * 512" by (simp add: ex_image_def ex_vbr_fields)
  have "writeBootCode (replicate 1000 0x90) ex_image = Some (ex_image\<lparr>img_file := write_bytes ?f 4608 (replicate 580 0x90)\<rparr>)"
    using writeBootCode_correct [of ex_image ex_vbr "replicate 1000 0x90"]
    by (simp add: ex_image_sectors ex_vbr_fields p del: read_at.simps)
  moreover have "write_bytes ?f 4608 (replicate 580 0x90) ! 100 = 0x90"
    by (simp add: write_bytes_def nth_append ex_image_def ex_vbr_fields)
  moreover have "write_bytes ?f 4608 (replicate 580 0x90) ! 5187 = 0x90" "write_bytes ?f 4608 (replicate 580 0x90) ! 5188 = 0"
    using len by (simp_all add: write_bytes_def nth_append ex_image_def ex_vbr_fields)
  ultimately show ?thesis by simp
qed

section \<open>The file allocation table\<close>

text \<open>A volume with the boot record \<open>vbr\<close> whose table starts after the record, in sectors of whole entries.\<close>

definition fat_volume :: "u8 list \<Rightarrow> FileImage \<Rightarrow> bool" where
  "fat_volume vbr img \<longleftrightarrow> readSector 0 img = Some vbr \<and> 4 dvd img_sector_size img \<and> 512 \<le> img_sector_size img \<and>
     img_sector_size img < 2 ^ 16 \<and> 0 < read_at vbr 14 2"

lemma fat_position:
  assumes "fat_volume vbr img" and e: "unat (e :: u32) < 2 ^ 30"
  shows "fat_sector vbr img e = read_at vbr 14 2 + 4 * unat e div img_sector_size img"
    and "fat_offset img e = 4 * unat e mod img_sector_size img"
    and "4 * unat e mod img_sector_size img + 4 \<le> img_sector_size img"
proof -
  let ?s = "img_sector_size img" and ?r = "read_at vbr 14 2"
  have s: "4 dvd ?s" "4 \<le> ?s" "?s < 65536" using assms(1) by (simp_all add: fat_volume_def)
  have us: "unat (of_nat ?s :: u32) = ?s" using s by (simp add: unat_of_nat take_bit_nat_eq_self)
  have ue: "unat (e * 4) = 4 * unat e" using e by (simp add: unat_word_ariths)
  show "fat_offset img e = 4 * unat e mod ?s" by (simp only: fat_offset_def unat_mod us ue)
  have d: "unat (e * 4 div of_nat ?s) = 4 * unat e div ?s" by (simp only: unat_div us ue)
  have "4 * unat e div ?s \<le> 4 * unat e div 4" using s by (intro div_le_mono2) simp_all
  then have "4 * unat e div ?s < 1073741824" using e by simp
  moreover have r: "?r < 65536" using read_at_less [of vbr 14 2] by simp
  moreover have ur: "unat (of_nat ?r :: u32) = ?r" using r by (simp add: unat_of_nat take_bit_nat_eq_self)
  ultimately show "fat_sector vbr img e = ?r + 4 * unat e div ?s"
    unfolding fat_sector_def getFatAreaStart_def unat_word_ariths(1) d ur by simp
  have "4 dvd 4 * unat e mod ?s" using s by (simp add: dvd_mod)
  moreover have "4 * unat e mod ?s < ?s" using s by (intro mod_less_divisor) simp
  ultimately show "4 * unat e mod ?s + 4 \<le> ?s" using s(1) by (auto elim!: dvdE)
qed

text \<open>Entries in one sector do not overlap.\<close>

lemma fat_offsets_apart:
  assumes "fat_volume vbr img" and "unat e < 2 ^ 30" and "unat f < 2 ^ 30" and "f \<noteq> e"
    and same: "fat_sector vbr img f = fat_sector vbr img e"
  shows "fat_offset img f + 4 \<le> fat_offset img e \<or> fat_offset img e + 4 \<le> fat_offset img f"
proof -
  let ?s = "img_sector_size img"
  note e = fat_position [OF assms(1,2)] and f = fat_position [OF assms(1,3)]
  have "4 * unat f div ?s = 4 * unat e div ?s" using same e(1) f(1) by simp
  moreover have "4 * unat f \<noteq> 4 * unat e" using assms(4) by (simp add: word_unat_eq_iff)
  ultimately have "4 * unat f mod ?s \<noteq> 4 * unat e mod ?s" by (metis div_mult_mod_eq)
  moreover have "4 dvd 4 * unat f mod ?s" "4 dvd 4 * unat e mod ?s" using assms(1) by (simp_all add: fat_volume_def dvd_mod)
  ultimately show ?thesis unfolding e(2) f(2) by (auto elim!: dvdE)
qed

text \<open>C28. In a volume with sectors of at least 512 bytes, for an entry below \<open>2^30\<close> whose sector is in the file below the
  position 2 GiB, \<open>writeFatEntry\<close> returns; the entry is read back, and reading any other entry below \<open>2^30\<close> gives what
  it gave before.\<close>

theorem writeFatEntry_readFatEntry:
  assumes "fat_volume vbr img" and "unat e < 2 ^ 30" and "unat f < 2 ^ 30" and "in_file img (fat_sector vbr img e)"
  shows "\<exists>img'. writeFatEntry e v img = Some img' \<and> readFatEntry f img' = (if f = e then Some v else readFatEntry f img)"
proof -
  let ?s = "img_sector_size img" and ?n = "fat_sector vbr img e"
  note e = fat_position [OF assms(1,2)] and f = fat_position [OF assms(1,3)]
  have vbr: "readSector 0 img = Some vbr" and n0: "?n \<noteq> 0" using assms(1) e(1) by (simp_all add: fat_volume_def)
  obtain sector where sector: "readSector ?n img = Some sector" using assms(4) by (simp add: readSector_eq)
  have ls: "length sector = ?s" using length_readSector [OF sector] .
  let ?d = "write_at sector (fat_offset img e) 4 (unat v)"
  define img' where "img' = img\<lparr>img_file := write_bytes (img_file img) (sector_pos img ?n) ?d\<rparr>"
  have w: "writeFatEntry e v img = Some img'"
    using writeSector_in_file [OF assms(4), of ?d] vbr sector ls by (simp add: writeFatEntry_def img'_def)
  have rd: "readSector m img' = (if m = ?n then Some ?d else readSector m img)" for m
    unfolding img'_def using read_written [OF assms(4), of ?d] ls by simp
  have pos: "fat_sector vbr img' f = fat_sector vbr img f" "fat_offset img' f = fat_offset img f"
    by (simp_all add: fat_sector_def fat_offset_def img'_def)
  have rf: "readFatEntry f img' = Option.bind (readSector (fat_sector vbr img f) img') (\<lambda>b. Some (of_nat (read_at b (fat_offset img f) 4)))"
    using rd [of 0] n0 vbr by (simp add: readFatEntry_def pos)
  have rf0: "readFatEntry f img = Option.bind (readSector (fat_sector vbr img f) img) (\<lambda>b. Some (of_nat (read_at b (fat_offset img f) 4)))"
    using vbr by (simp add: readFatEntry_def)
  have "readFatEntry f img' = (if f = e then Some v else readFatEntry f img)"
  proof (cases "f = e")
    case True
    have "unat v < 256 ^ 4" using unsigned_less [of v, where 'a = nat] by simp
    moreover have "fat_offset img e + 4 \<le> length sector" using e(2,3) ls by simp
    ultimately show ?thesis using True rf rd by (simp del: read_at.simps write_at.simps)
  next
    case False
    then show ?thesis using rf rf0 rd [of "fat_sector vbr img f"] sector fat_offsets_apart [OF assms(1-3) False]
      by (cases "fat_sector vbr img f = ?n") (simp_all del: read_at.simps write_at.simps)
  qed
  with w show ?thesis by blast
qed

theorem writeFatEntry_readFatEntry_witness:
  "\<exists>img'. writeFatEntry 2 0x0FFFFFFF ex_image = Some img' \<and> readFatEntry 2 img' = Some 0x0FFFFFFF"
proof -
  have v: "fat_volume ex_vbr ex_image" by (simp add: fat_volume_def ex_image_sectors ex_vbr_fields del: read_at.simps)
  have "fat_sector ex_vbr ex_image 2 = 32" using fat_position(1) [OF v, of 2] by (simp add: ex_vbr_fields ex_image_sectors del: read_at.simps)
  then show ?thesis using writeFatEntry_readFatEntry [OF v, of 2 2 "0x0FFFFFFF"] ex_image_sectors(1) [of 32] by simp
qed

section \<open>A volume without data\<close>

text \<open>
  The test for a volume that is too small subtracts one sector, so a volume one sector smaller than its
  reserved area and its two tables passes, and its data area has \<open>2^32 - 1\<close> sectors.
\<close>

lemma makeFat32VBR_too_small:
  "\<exists>vbr. makeFat32VBR [] 128 287 1 512 0 = Some vbr \<and> getDataAreaFirstSector vbr = 288 \<and> getDataAreaSize vbr = 0xFFFFFFFF"
proof -
  define vbr0 where "vbr0 = write_bytes (replicate 512 0) 3 ([77, 83, 87, 73, 78, 52, 46, 49] :: u8 list)"
  have "length vbr0 = 512" by (simp add: vbr0_def)
  define vbr1 where "vbr1 = vbr_fields vbr0 128 287 1 512 0"
  have f: "read_at vbr1 13 1 = 1" "read_at vbr1 14 2 = 32" "read_at vbr1 16 1 = 2" "read_at vbr1 32 4 = 287" "read_at vbr1 36 4 = 128"
    "length vbr1 = 512"
    using \<open>length vbr0 = 512\<close> by (simp_all add: vbr1_def vbr_fields_def del: write_at.simps read_at.simps)
  then show ?thesis
    by (simp del: write_at.simps read_at.simps add: makeFat32VBR_def Let_def vbr0_def [symmetric] vbr1_def [symmetric] read_at_write_bytes getDataAreaSize_def
        getDataAreaFirstSector_def getFatAreaSize_def getClusterCount_def)
qed

end
