(* ===== verification/Mbr_Maker.thy ===== *)
theory Mbr_Maker
  imports Fat32_Maker
begin

text \<open>
  The tool that makes the disk image with the master boot record (tools/mbr_maker.cpp): the record with the first
  part of the boot loader, the rest of the boot loader in the following sectors, and the space of the partition. The sizes
  are 32-bit words, as in the code. \<open>None\<close> stands for a run that does not make the image: a boot loader that is
  shorter than its part in the record, which the tool reads past its end, a buffer that is too small for the record, a
  failed assertion, or an \<open>int\<close> counter that overflows. The contents of the allocated buffer and the random signature
  are parameters; the allocation succeeds.
\<close>

record CHS =
  chs_C :: u8
  chs_H :: u8
  chs_S :: u8

record PartitionTableEntry =
  drive_attributes :: u8
  chs_start :: CHS
  partition_type :: u8
  chs_last :: CHS
  lba_start :: u32
  number_of_sectors :: u32

definition lbaToChs :: "u32 \<Rightarrow> CHS" where
  "lbaToChs lba =
     (let t = lba mod (16 * 63)
      in \<lparr>chs_C = ucast (lba div (16 * 63)), chs_H = ucast (t div 63), chs_S = ucast (t mod 63 + 1)\<rparr>)"

definition createPartitionTableEntry :: "bool \<Rightarrow> u32 \<Rightarrow> u32 \<Rightarrow> u8 \<Rightarrow> PartitionTableEntry" where
  "createPartitionTableEntry bootable first_lba_sector size_in_sectors type =
     \<lparr>drive_attributes = (if bootable then 0x80 else 0), chs_start = lbaToChs first_lba_sector, partition_type = type,
      chs_last = lbaToChs (first_lba_sector + size_in_sectors), lba_start = first_lba_sector, number_of_sectors = size_in_sectors\<rparr>"

definition createDummyPartitionTableEntry :: PartitionTableEntry where
  "createDummyPartitionTableEntry =
     (let c = \<lparr>chs_C = 0, chs_H = 0, chs_S = 0\<rparr>
      in \<lparr>drive_attributes = 0x7F, chs_start = c, partition_type = 0, chs_last = c, lba_start = 0, number_of_sectors = 0\<rparr>)"

text \<open>The bytes of an entry in the record.\<close>

definition entry_bytes :: "PartitionTableEntry \<Rightarrow> u8 list" where
  "entry_bytes e =
     (write_at (write_at (replicate 16 0) 8 4 (unat (lba_start e))) 12 4 (unat (number_of_sectors e)))
       [0 := drive_attributes e, 1 := chs_C (chs_start e), 2 := chs_H (chs_start e), 3 := chs_S (chs_start e),
        4 := partition_type e, 5 := chs_C (chs_last e), 6 := chs_H (chs_last e), 7 := chs_S (chs_last e)]"

text \<open>The sectors of the boot loader, with the record; the subtraction wraps around for less than 440 bytes.\<close>

definition image_sectors :: "u32 \<Rightarrow> u32" where
  "image_sectors code_size = (code_size - 440) div 512 + (if (code_size - 440) mod 512 \<noteq> 0 then 1 else 0) + 1"

text \<open>The loop that copies the rest of the code, with its assertions. The counter is an \<open>int\<close>.\<close>

function copy_rest :: "u8 list \<Rightarrow> nat \<Rightarrow> u8 list \<Rightarrow> u8 list option" where
  "copy_rest code i buf =
     (if i < length code - 440 then
        if \<not> 512 + i < length buf \<or> \<not> 440 + i < length code \<or> \<not> Suc i < 2 ^ 31 then None
        else copy_rest code (Suc i) (buf[512 + i := code ! (440 + i)])
      else Some buf)"
  by pat_completeness auto
termination
  by (relation "measure (\<lambda>(code, i, _). length code - 440 - i)") auto

declare copy_rest.simps [simp del]

text \<open>
  The tool: the file it writes, for a partition of \<open>fat32_size\<close> sectors. The size of the boot loader file is kept in 32
  bits, the size of the buffer is a 32-bit product, and the counter of the sectors of the partition is an \<open>int\<close>.
\<close>

definition mbr_main :: "u8 list \<Rightarrow> u16 \<Rightarrow> (nat \<Rightarrow> u8) \<Rightarrow> u32 \<Rightarrow> u8 list option" where
  "mbr_main bin_image signature garbage fat32_size =
     (let code = take (length bin_image mod 2 ^ 32) bin_image;
          n = image_sectors (of_nat (length code));
          size0 = unat (n * 512)
      in if length code < 440 \<or> size0 < 512 then None
         else
           let buf0 = map garbage [0..<size0];
               buf1 = write_at (write_at (write_at buf0 510 2 0xAA55) 442 4 0) 440 2 (unat signature);
               buf2 = write_bytes buf1 0 (take 440 code);
               buf3 = write_bytes buf2 446 (entry_bytes (createPartitionTableEntry True n fat32_size 0x0C) @
                        concat (replicate 3 (entry_bytes createDummyPartitionTableEntry)))
           in do {
                buf \<leftarrow> copy_rest code 0 buf3;
                if unat fat32_size < 2 ^ 31 then Some (buf @ replicate (unat fat32_size * 512) 0xCC) else None
              })"

text \<open>
  The address of a sector can be computed from its cylinder, head and sector as long as the cylinder fits
  its byte.
\<close>

lemma lbaToChs_decode:
  assumes "unat lba < 256 * 1008"
  shows "(unat (chs_C (lbaToChs lba)) * 16 + unat (chs_H (lbaToChs lba))) * 63 + unat (chs_S (lbaToChs lba)) - 1 = unat lba"
    and "unat (chs_S (lbaToChs lba)) \<in> {1..63}" and "unat (chs_H (lbaToChs lba)) < 16"
proof -
  let ?c = "unat lba div 1008" and ?t = "unat lba mod 1008"
  have decode: "(c * 16 + d) * 63 + (e + 1) - 1 = l" if "d * 63 + e = t" "c * 1008 + t = l" for c d e t l :: nat
    using that by (simp add: algebra_simps)
  have t: "?t < 1008" "?t div 63 < 16" "?t mod 63 < 63" by (simp_all add: div_less_iff_less_mult)
  have "?c < 256" using assms by (simp add: div_less_iff_less_mult)
  then have c: "unat (chs_C (lbaToChs lba)) = ?c" by (simp add: lbaToChs_def Let_def unsigned_ucast_eq unat_div take_bit_nat_eq_self)
  have h: "unat (chs_H (lbaToChs lba)) = ?t div 63"
    using t by (simp add: lbaToChs_def Let_def unsigned_ucast_eq unat_div unat_mod take_bit_nat_eq_self)
  have s: "unat (chs_S (lbaToChs lba)) = ?t mod 63 + 1"
    using t by (simp add: lbaToChs_def Let_def unsigned_ucast_eq unat_word_ariths unat_mod take_bit_nat_eq_self)
  show "unat (chs_S (lbaToChs lba)) \<in> {1..63}" "unat (chs_H (lbaToChs lba)) < 16" using s h t by simp_all
  show "(unat (chs_C (lbaToChs lba)) * 16 + unat (chs_H (lbaToChs lba))) * 63 + unat (chs_S (lbaToChs lba)) - 1 = unat lba"
    unfolding c h s by (rule decode [OF div_mult_mod_eq div_mult_mod_eq])
qed

section \<open>The image\<close>

lemma read_at_append: "off + k \<le> length a \<Longrightarrow> read_at (a @ b) off k = read_at a off k"
  by (rule read_at_cong) (simp add: nth_append)

lemma length_entry_bytes [simp]: "length (entry_bytes e) = 16"
  by (simp add: entry_bytes_def)

lemma length_entries: "length (entry_bytes e @ concat (replicate 3 (entry_bytes d))) = 64"
  by (simp add: eval_nat_numeral)

lemma entry_bytes_fields: "read_at (entry_bytes e) 8 4 = unat (lba_start e)" "read_at (entry_bytes e) 12 4 = unat (number_of_sectors e)"
proof -
  let ?b = "write_at (write_at (replicate 16 0) 8 4 (unat (lba_start e))) 12 4 (unat (number_of_sectors e))"
  have "unat (lba_start e) < 256 ^ 4" "unat (number_of_sectors e) < 256 ^ 4"
    using unsigned_less [of "lba_start e", where 'a = nat] unsigned_less [of "number_of_sectors e", where 'a = nat] by simp_all
  moreover have "read_at (entry_bytes e) off k = read_at ?b off k" if "8 \<le> off" for off k
    using that by (intro read_at_cong) (simp add: entry_bytes_def del: write_at.simps)
  ultimately show "read_at (entry_bytes e) 8 4 = unat (lba_start e)" "read_at (entry_bytes e) 12 4 = unat (number_of_sectors e)"
    by (simp_all del: write_at.simps read_at.simps)
qed

lemma image_sectors_bounds:
  assumes "440 \<le> k" and "k < 2 ^ 31"
  shows "unat (image_sectors (of_nat k) * 512) = unat (image_sectors (of_nat k)) * 512"
    and "512 + (k - 440) \<le> unat (image_sectors (of_nat k)) * 512"
proof -
  define q r where "q = (k - 440) div 512" and "r = (k - 440) mod 512"
  have qr: "k - 440 = q * 512 + r" "r < 512" by (simp_all add: q_def r_def)
  moreover have "k < 2147483648" using assms(2) by simp
  ultimately have q: "q < 4194304" by linarith
  have "unat (of_nat k :: u32) = k" using assms(2) by (simp add: unat_of_nat take_bit_nat_eq_self)
  moreover from this have "unat (of_nat k - 440 :: u32) = k - 440" using assms(1) by (simp add: unat_sub word_le_nat_alt)
  ultimately have "unat ((of_nat k - 440 :: u32) div 512) = q" "((of_nat k - 440 :: u32) mod 512 \<noteq> 0) = (r \<noteq> 0)"
    by (simp_all add: unat_div unat_mod q_def r_def word_unat_eq_iff)
  then have n: "unat (image_sectors (of_nat k)) = q + (if r \<noteq> 0 then 1 else 0) + 1"
    using q by (simp add: image_sectors_def unat_word_ariths)
  then show "unat (image_sectors (of_nat k) * 512) = unat (image_sectors (of_nat k)) * 512"
    using q by (simp add: unat_word_ariths)
  show "512 + (k - 440) \<le> unat (image_sectors (of_nat k)) * 512" unfolding n using qr by auto
qed

text \<open>The copy loop, which asserts every access, is one copy.\<close>

lemma copy_rest_copies:
  assumes "i + 440 \<le> length code" and "length code < 2 ^ 31" and "512 + (length code - 440) \<le> length buf"
  shows "copy_rest code i buf = Some (write_bytes buf (512 + i) (drop (440 + i) code))"
  using assms
proof (induction code i buf rule: copy_rest.induct)
  case (1 code i buf)
  show ?case
  proof (cases "i < length code - 440")
    case True
    have ih: "copy_rest code (Suc i) (buf[512 + i := code ! (440 + i)]) =
        Some (write_bytes (buf[512 + i := code ! (440 + i)]) (512 + Suc i) (drop (440 + Suc i) code))"
      using 1 True by simp
    have "drop (440 + i) code = [code ! (440 + i)] @ drop (440 + Suc i) code" using True Cons_nth_drop_Suc [of "440 + i" code] by simp
    moreover have "buf[512 + i := code ! (440 + i)] = write_bytes buf (512 + i) [code ! (440 + i)]"
      using True 1(4) by (simp add: write_bytes_def upd_conv_take_nth_drop)
    moreover have "write_bytes (write_bytes buf (512 + i) [code ! (440 + i)]) (512 + Suc i) (drop (440 + Suc i) code) =
        write_bytes buf (512 + i) ([code ! (440 + i)] @ drop (440 + Suc i) code)"
      using write_bytes_append [of "512 + i" "[code ! (440 + i)]" "drop (440 + Suc i) code" buf] True 1(4) by simp
    moreover have "512 + i < length buf" "440 + i < length code" using True 1(4) by simp_all
    ultimately show ?thesis using ih True 1(3) by (simp add: copy_rest.simps [of code i])
  next
    case False
    then show ?thesis using 1(2) by (simp add: copy_rest.simps [of code i])
  qed
qed

lemma read_at_write_bytes_in: "off \<le> length buf \<Longrightarrow> j + k \<le> length bs \<Longrightarrow> read_at (write_bytes buf off bs) (off + j) k = read_at bs j k"
proof (induction k arbitrary: j)
  case (Suc k)
  then show ?case using Suc.IH [of "Suc j"] by (simp add: nth_write_bytes)
qed simp

lemma read_at_write_bytes_after:
  "off + length bs \<le> off' \<Longrightarrow> off + length bs \<le> length buf \<Longrightarrow> read_at (write_bytes buf off bs) off' k = read_at buf off' k"
  by (rule read_at_cong) (auto simp: write_bytes_def nth_append)

lemma take_write_bytes: "n \<le> off \<Longrightarrow> off \<le> length buf \<Longrightarrow> take n (write_bytes buf off bs) = take n buf"
  by (simp add: write_bytes_def)

lemma drop_write_bytes: "off \<le> length buf \<Longrightarrow> take (length bs) (drop off (write_bytes buf off bs)) = bs"
  by (simp add: write_bytes_def)

text \<open>C29. For a boot loader of at least 440 bytes and less than 2 GiB, and a partition of less than \<open>2^31\<close> sectors, the tool makes
  the disk image: the first 440 bytes of the boot loader are in the master boot record, the rest follows in the
  next sectors, the record is signed, and its first partition starts at the first sector after the boot loader and
  covers the rest of the file.\<close>

theorem mbr_main_correct:
  assumes c: "440 \<le> length code" and len: "length code < 2 ^ 31" and fat: "unat fat32_size < 2 ^ 31"
  shows "\<exists>img. mbr_main code signature garbage fat32_size = Some img \<and>
    take 440 img = take 440 code \<and> take (length code - 440) (drop 512 img) = drop 440 code \<and>
    read_at img 510 2 = 0xAA55 \<and> img ! 446 = 0x80 \<and> read_at img 458 4 = unat fat32_size \<and>
    512 + (length code - 440) \<le> read_at img 454 4 * 512 \<and> length img = (read_at img 454 4 + read_at img 458 4) * 512"
proof -
  define n where "n = image_sectors (of_nat (length code))"
  define e where "e = createPartitionTableEntry True n fat32_size 0x0C"
  define es where "es = entry_bytes e @ concat (replicate 3 (entry_bytes createDummyPartitionTableEntry))"
  define buf1 where "buf1 = write_at (write_at (write_at (map garbage [0..<unat n * 512]) 510 2 0xAA55) 442 4 0) 440 2 (unat signature)"
  define buf3 where "buf3 = write_bytes (write_bytes buf1 0 (take 440 code)) 446 es"
  define img where "img = write_bytes buf3 512 (drop 440 code) @ replicate (unat fat32_size * 512) 0xCC"
  note b = image_sectors_bounds [OF c len, folded n_def]
  have n: "1 \<le> unat n" using b by auto
  have les: "length es = 64" unfolding es_def by (rule length_entries)
  have l1: "length buf1 = unat n * 512" by (simp add: buf1_def del: write_at.simps)
  have l3: "length buf3 = unat n * 512" using n c l1 les by (simp add: buf3_def)
  have l: "length (write_bytes buf3 512 (drop 440 code)) = unat n * 512" using b c l3 by simp
  have m: "mbr_main code signature garbage fat32_size = Some img"
    using copy_rest_copies [of 0 code buf3] c len fat b n l3
    by (simp add: mbr_main_def Let_def img_def n_def [symmetric] e_def [symmetric] es_def [symmetric] buf1_def [symmetric] buf3_def [symmetric])
  have rd: "read_at img off k = read_at buf3 off k" if "off + k \<le> 512" for off k
    unfolding img_def using that n l l3 by (subst read_at_append) (simp_all add: read_at_write_bytes)
  have e8: "read_at buf3 (446 + j) k = read_at (entry_bytes e) j k" if "j + k \<le> 16" for j k
    unfolding buf3_def using that n l1 les c by (subst read_at_write_bytes_in) (simp_all add: es_def read_at_append)
  have start: "read_at img 454 4 = unat n" "read_at img 458 4 = unat fat32_size"
    using rd [of 454 4] e8 [of 8 4] rd [of 458 4] e8 [of 12 4]
    by (simp_all add: entry_bytes_fields e_def createPartitionTableEntry_def del: read_at.simps)
  have "read_at img 446 1 = read_at (entry_bytes e) 0 1" using rd [of 446 1] e8 [of 0 1] by (simp del: read_at.simps)
  then have attr: "img ! 446 = 0x80" by (simp add: entry_bytes_def e_def createPartitionTableEntry_def word_unat_eq_iff)
  have sign: "read_at img 510 2 = 0xAA55"
    using rd [of 510 2] n c l1 les
    by (simp add: buf3_def read_at_write_bytes_after del: read_at.simps) (simp add: buf1_def del: read_at.simps write_at.simps)
  have "take 440 img = take 440 buf3" unfolding img_def using n l l3 by (simp add: take_write_bytes)
  also have "\<dots> = take 440 (write_bytes buf1 0 (take 440 code))" unfolding buf3_def using n c l1 by (intro take_write_bytes) simp_all
  also have "\<dots> = take 440 code" using c by (simp add: write_bytes_def)
  finally have "take 440 img = take 440 code" .
  moreover have "take (length code - 440) (drop 512 img) = drop 440 code"
    unfolding img_def using drop_write_bytes [of 512 buf3 "drop 440 code"] n l l3 b c by simp
  moreover have "length img = (unat n + unat fat32_size) * 512" using l by (simp add: img_def algebra_simps)
  ultimately show ?thesis using m start attr sign b(2) by simp
qed

theorem mbr_main_correct_witness:
  "\<exists>img. mbr_main (replicate 1000 0x90) 7 (\<lambda>_. 0) 70000 = Some img \<and> take 440 img = replicate 440 0x90 \<and>
     length img = (read_at img 454 4 + 70000) * 512"
  using mbr_main_correct [of "replicate 1000 0x90" 70000 7 "\<lambda>_. 0"] by auto

text \<open>
  A boot loader of \<open>2^32 - 1\<close> bytes makes no image: the size of the buffer wraps around to one sector and the assertion
  of the copy loop fails.
\<close>

lemma mbr_main_too_big: "length code = 2 ^ 32 - 1 \<Longrightarrow> mbr_main code signature garbage fat32_size = None"
proof -
  assume len: "length code = 2 ^ 32 - 1"
  have "image_sectors (of_nat (length code)) * 512 = 512"
    unfolding len by (simp add: image_sectors_def)
  moreover have "copy_rest code 0 (write_bytes (write_bytes buf 0 (take 440 code)) 446 es) = None"
    if "length buf = 512" "length es = 64" for buf es
  proof -
    have "length (write_bytes (write_bytes buf 0 (take 440 code)) 446 es) = 512" using that len by simp
    then show ?thesis using len by (simp add: copy_rest.simps [of code 0])
  qed
  ultimately show ?thesis using len by (simp add: mbr_main_def Let_def length_entries del: length_append write_at.simps)
qed

end
