(* ===== verification/Spec2Isabelle.thy ===== *)
theory Spec2Isabelle
  imports Vmm_Search Spinlock Memory_Ops Linked_List Saved_Context Panic Mbr_Maker
begin

text \<open>
  GarbageOS: a 64-bit kernel for x86 machines with a BIOS (src/kernel) and the two tools that make its disk image
  (src/tools). This library models the C and C++ sources as functions of HOL and proves what the components
  promise to each other.

  \<^bold>\<open>The program.\<close> The boot loader leaves a memory map and the loaded image of the kernel. \<open>kinit\<close>
  (kinit.c) builds the frame allocator from the map, then the page tables, the virtual memory manager, the heap, the
  console, the CPU tables and the interrupt controllers; \<open>kmain\<close> (kmain.c) starts the timer and the other processors
  and halts. The heap grows by asking the virtual memory manager, which takes frames from the frame allocator, maps
  them with the page tables, and takes its own descriptors from the heap.

  \<^bold>\<open>Conventions.\<close> Machine integers are words of their width and pointers are 64-bit words. A function that can
  fail returns \<open>'a kres\<close>: a value (\<open>Inr\<close>), or \<open>Inl\<close> of \<open>Panic code\<close> (\<open>kpanic\<close>, \<open>KASSERT\<close>), \<open>Hang\<close> (a lock that is
  held, a loop that does not end) or \<open>Undefined\<close> (behaviour that C does not define, such as a null pointer). Global
  variables are fields of records that are passed through: \<open>machine\<close> (physical memory, frame allocator, translation
  cache), the heap state, \<open>KioState\<close> (console) and \<open>kstate\<close>, which holds all of them. One CPU runs; a spinlock is a
  boolean there, and the theory \<open>Spinlock\<close> shows what the lock gives to several CPUs. The tools return \<open>option\<close>.

  \<^bold>\<open>Theories and code.\<close>
  \<^item> \<open>Kernel_Prelude\<close>: words, outcomes, loops over pages, the collection \<open>kres_simps\<close>; error codes of kdefs.h.
  \<^item> \<open>Bootloader_Data\<close> (HAL/bios/bootloader_data.c): the ranges of free memory, the memory map and the totals. The
    free ranges are exactly the usable pages above 1 MB that the boot loader has not taken, aligned and disjoint.
  \<^item> \<open>Frame_Allocator\<close> (mem/frame_allocator.c): allocation and release refine a set of free frames; the
    initialisation establishes the invariant; an allocation succeeds as long as a frame is free. Its contract is
    the locale \<open>frame_source\<close>.
  \<^item> \<open>Paging\<close>, \<open>Paging_Structures\<close>, \<open>Paging_Frames\<close> (HAL/x86-64/x64-memory.c): the four-level tables in physical
    memory refine a map from pages to frames; updates keep the translation cache coherent; creation and copy of
    structures.
  \<^item> \<open>Heap\<close> (mem/heap.c) with \<open>Heap_Lists\<close>, \<open>Heap_Layout\<close>, \<open>Heap_Ops\<close>, \<open>Heap_Growth\<close>, \<open>Heap_Alloc\<close>, \<open>Heap_Free\<close>
    and \<open>Heap_Spec\<close>: boundary tags and bucket lists are cells of memory; \<open>kmalloc\<close> and \<open>kfree\<close> refine a set of
    disjoint blocks (locale \<open>block_allocator\<close>). The search by size accepts chunks that are too small for a request, so
    the refinement of \<open>kmalloc\<close> states the condition under which the chunk that is found is large enough.
  \<^item> \<open>Circular_Buffer\<close> (util/circular_buffer.c, locale \<open>byte_queue\<close>), \<open>Psf\<close> (psf.c, display_interface.c), \<open>Kio\<close> and
    \<open>Kio_Proofs\<close> (kio.c, HAL/bios/vbe.c): the ring is a queue, drawing stays in the pixel buffer, a flush returns,
    scrolling moves the pixels up, printed numbers can be read back. \<open>Panic\<close> (HAL/x86-64/kpanic.c): a panic shows its message, unless the console
    is held.
  \<^item> \<open>Kernel_State\<close>, \<open>Cpu_Data\<close>: the state of the running kernel; handles, the handler table, per-CPU data, commands of
    the local APIC. \<open>Shootdown\<close> (mem/vaddr_cache_shootdown.c).
  \<^item> \<open>Vmm\<close> (mem/vmm.c) with \<open>Vmm_List\<close>, \<open>Vmm_Cut\<close>, \<open>Vmm_Mapping\<close>, \<open>Vmm_Spec\<close>, \<open>Vmm_Free\<close>, \<open>Vmm_Search\<close>: the
    descriptor list refines a list of regions; allocation, deallocation, the search by address and the growth of a
    region, with their error paths. The locales \<open>descriptor_source\<close> and \<open>descriptor_sink\<close> are what the manager needs of
    the heap.
  \<^item> \<open>Acpi\<close> (acpi/acpi.c, acpi/madt.c, HAL/bios/acpi.c), \<open>Apic\<close>, \<open>Ioapic\<close>, \<open>Pic\<close>, \<open>Pit\<close>, \<open>Interrupts\<close> (interrupt/*.c,
    timer/pit.c, kernel_data.c): walks over the tables end exactly when no structure has length zero; the array of
    local APICs with the structure and the NMI structure of each; a wait returns after the timer interrupts it needs.
  \<^item> \<open>Cpu_State\<close> (HAL/x86-64/gdt.c, idt.c, tss.c, cpu.c): gates and descriptors are well-formed and every CPU loads its
    own task state segment. \<open>Saved_Context\<close> (interrupt_savedcontext.c).
  \<^item> \<open>Mp\<close> (mp/mp_initialization.c), \<open>Elf\<close> (elf.c), \<open>Kinit\<close> (kinit.c, kmain.c): the composition of the components.
  \<^item> \<open>Spinlock\<close> (util/sync_types.c): mutual exclusion under every interleaving of any number of CPUs. \<open>Memory_Ops\<close>
    (HAL/x86-64/cpu_instructions.c): \<open>memcpy\<close> is a copy byte by byte. \<open>Linked_List\<close> (util/linked_list.c): nodes on
    the heap refine a list, over the locale \<open>node_allocator\<close>.
  \<^item> \<open>Fat32_Maker\<close>, \<open>Mbr_Maker\<close> (tools): what is written to the image can be read back. The image file is a list of bytes;
    positions and sizes have the widths of the code, and the theorems carry the 2 GiB bound that its \<open>int\<close> gives.

  Small accessors of the model (record updates, taking and releasing a lock, reading the next argument of \<open>printf\<close>) stand
  for parts of the statements of the functions that use them.

  \<^bold>\<open>Bounds.\<close> Loops that may not end have a bound, and \<open>Hang\<close> when it is reached. The bound is the number of
  different values that the loop can meet: \<open>2^61\<close> aligned addresses for bucket lists, queues and lists, \<open>2^64\<close> for
  descriptors and timer ticks, \<open>2^32\<close> bytes for a firmware table, the pages of the range plus two for the copy of
  mappings, the size of the ring plus one for a flush. The poll for the other processors takes its bound as an argument;
  the theorem about it holds for every bound.

  \<^bold>\<open>Parameters.\<close> The results of \<open>cpuid\<close> and of the model specific registers, the bytes of the firmware tables, of the
  font and of the loaded image, the values of ports and of polled counters, the addresses of the interrupt stubs, the
  contents of freshly allocated memory, the time of day and the random signature of the tools.

  \<^bold>\<open>Not modelled.\<close> The boot loader (src/boot) and the assembly of the kernel (early_kmain.s, interrupt_stubs.s,
  load_idt.s, reload_gdt.s, mp_init.bin_asm): assembly on firmware services; what it hands over is an input of the
  model. The stress test of the heap and the code under the compilation options that kdefs.h leaves disabled. The stack
  protector hook, which only panics; \<open>set_up_firmware_layer\<close> and hpet.c, which are empty; \<open>inw\<close>, \<open>inl\<close>, \<open>outl\<close> and
  \<open>freeze_interrupt\<close>, which nothing calls. The command lines and the messages of the tools. Memory ordering and
  the timing of devices: interrupts to other CPUs are handled at once.
\<close>

end
